(* ===== verification/Prelude.thy ===== *)
theory Prelude
  imports Main "HOL-Library.AList" "HOL-Library.Sublist"
begin

text \<open>
  Shared vocabulary of the development: JavaScript maps (insertion-ordered association
  lists), the string functions of the standard library that the sources call, and the
  generic lemmas the component theories use.

  A JavaScript string is a \<^typ>\<open>string\<close> holding its UTF-8 bytes. A JavaScript
  \<^verbatim>\<open>Map\<close> is an association list with distinct keys: \<open>AList.update\<close> overwrites an
  existing entry in place and appends a new one at the end, which is the iteration order
  of \<^verbatim>\<open>Map.prototype.set\<close>; \<open>AList.delete\<close> is \<^verbatim>\<open>Map.prototype.delete\<close> and
  \<open>map_of\<close> is \<^verbatim>\<open>Map.prototype.get\<close>. Time stamps are integers (milliseconds).
\<close>

named_theorems js_simps "rewriting rules for the JavaScript library functions"

type_synonym ('k, 'v) jsmap = "('k \<times> 'v) list"
type_synonym ms = int

section \<open>Maps\<close>

abbreviation jkeys :: "('k, 'v) jsmap \<Rightarrow> 'k list" where
  "jkeys m \<equiv> map fst m"

abbreviation jhas :: "('k, 'v) jsmap \<Rightarrow> 'k \<Rightarrow> bool" where
  "jhas m k \<equiv> map_of m k \<noteq> None"

text \<open>\<^verbatim>\<open>map.get(k) ?? d\<close>\<close>

definition jget_or :: "'v \<Rightarrow> ('k, 'v) jsmap \<Rightarrow> 'k \<Rightarrow> 'v" where
  "jget_or d m k = (case map_of m k of None \<Rightarrow> d | Some v \<Rightarrow> v)"

lemma map_of_update [simp]:
  "map_of (AList.update k v m) k' = (if k' = k then Some v else map_of m k')"
  by (simp add: update_conv')

lemma map_of_delete [simp]:
  "map_of (AList.delete k m) k' = (if k' = k then None else map_of m k')"
  by (simp add: delete_conv')

lemma jget_or_update [simp]:
  "jget_or d (AList.update k v m) k' = (if k' = k then v else jget_or d m k')"
  by (simp add: jget_or_def)

lemma jget_or_delete [simp]:
  "jget_or d (AList.delete k m) k' = (if k' = k then d else jget_or d m k')"
  by (simp add: jget_or_def)

lemma jget_or_Nil [simp]: "jget_or d [] k = d"
  by (simp add: jget_or_def)

lemma jget_or_None: "map_of m k = None \<Longrightarrow> jget_or d m k = d"
  by (simp add: jget_or_def)

lemma jget_or_Some: "map_of m k = Some v \<Longrightarrow> jget_or d m k = v"
  by (simp add: jget_or_def)

lemma map_of_filter_key:
  "map_of (filter (\<lambda>(k, v). P k) m) k = (if P k then map_of m k else None)"
  by (induction m) auto

lemma map_of_filter_distinct:
  "distinct (jkeys m) \<Longrightarrow>
   map_of (filter P m) k = (case map_of m k of None \<Rightarrow> None
     | Some v \<Rightarrow> if P (k, v) then Some v else None)"
  by (induction m) (auto split: option.splits simp: image_iff dest: map_of_SomeD)

lemma distinct_keys_filter: "distinct (jkeys m) \<Longrightarrow> distinct (jkeys (filter P m))"
  by (induction m) auto

lemma distinct_keys_update: "distinct (jkeys m) \<Longrightarrow> distinct (jkeys (AList.update k v m))"
  by (rule distinct_update)

lemma distinct_keys_delete: "distinct (jkeys m) \<Longrightarrow> distinct (jkeys (AList.delete k m))"
  by (rule distinct_delete)

lemma update_twice_same:
  "AList.update k v (AList.update k w m) = AList.update k v m"
  by (induction m) auto

section \<open>Strings\<close>

text \<open>\<^verbatim>\<open>s.startsWith(p)\<close> is \<open>prefix p s\<close>; \<^verbatim>\<open>s.includes(t)\<close>:\<close>

fun str_includes :: "string \<Rightarrow> string \<Rightarrow> bool" where
  "str_includes t [] \<longleftrightarrow> t = []"
| "str_includes t (c # cs) \<longleftrightarrow> prefix t (c # cs) \<or> str_includes t cs"

lemma str_includes_sublist: "str_includes t s \<longleftrightarrow> sublist t s"
  by (induction s) (auto simp: sublist_Cons_right)

text \<open>\<^verbatim>\<open>s.split(sep)\<close> for a one-character separator, and \<^verbatim>\<open>parts.join(sep)\<close>.\<close>

fun split_on :: "char \<Rightarrow> string \<Rightarrow> string list" where
  "split_on c [] = [[]]"
| "split_on c (x # xs) =
     (if x = c then [] # split_on c xs
      else (case split_on c xs of [] \<Rightarrow> [[x]] | p # ps \<Rightarrow> (x # p) # ps))"

fun join_with :: "char \<Rightarrow> string list \<Rightarrow> string" where
  "join_with c [] = []"
| "join_with c [p] = p"
| "join_with c (p # q # ps) = p @ c # join_with c (q # ps)"

lemma split_on_nonempty [simp]: "split_on c s \<noteq> []"
  by (induction s) (auto split: list.splits)

lemma split_on_no_sep: "c \<notin> set s \<Longrightarrow> split_on c s = [s]"
  by (induction s) auto

lemma split_on_append:
  "c \<notin> set p \<Longrightarrow> split_on c (p @ c # s) = p # split_on c s"
  by (induction p) auto

lemma split_on_join:
  "ps \<noteq> [] \<Longrightarrow> (\<And>p. p \<in> set ps \<Longrightarrow> c \<notin> set p) \<Longrightarrow> split_on c (join_with c ps) = ps"
  by (induction c ps rule: join_with.induct) (auto simp: split_on_no_sep split_on_append)

lemma join_split_on: "join_with c (split_on c s) = s"
proof (induction s)
  case (Cons x xs)
  obtain p ps where "split_on c xs = p # ps"
    by (cases "split_on c xs") auto
  with Cons show ?case
    by (cases ps) auto
qed simp

lemma split_on_sep_free: "p \<in> set (split_on c s) \<Longrightarrow> c \<notin> set p"
  by (induction s arbitrary: p) (auto split: if_splits list.splits)

lemma split_on_length_pos [simp]: "0 < length (split_on c s)"
  by simp

text \<open>
  A key built as \<open>a @ c # b\<close> determines its two parts when the first part does not
  contain the separator: the fact behind every injectivity property of composed keys.
\<close>

lemma sep_append_eq:
  "c \<notin> set a \<Longrightarrow> c \<notin> set a' \<Longrightarrow> a @ c # b = a' @ c # b' \<longleftrightarrow> a = a' \<and> b = b'"
proof (induction a arbitrary: a')
  case Nil
  then show ?case by (cases a') auto
next
  case (Cons x xs)
  then show ?case by (cases a') auto
qed

lemma sep_append_eq_last:
  "c \<notin> set b \<Longrightarrow> c \<notin> set b' \<Longrightarrow> a @ c # b = a' @ c # b' \<longleftrightarrow> a = a' \<and> b = b'"
  using sep_append_eq [of c "rev b" "rev b'" "rev a" "rev a'"]
  by (metis append.assoc append_Cons append_Nil rev.simps(2) rev_append rev_rev_ident set_rev)

lemma prefix_sep_iff:
  "c \<notin> set a \<Longrightarrow> c \<notin> set b \<Longrightarrow> prefix (a @ [c]) (b @ c # s) \<longleftrightarrow> a = b"
  by (auto simp: prefix_def sep_append_eq)

text \<open>\<^verbatim>\<open>s.lastIndexOf(c)\<close> for one character, as an option (None for -1).\<close>

fun last_index_of :: "char \<Rightarrow> string \<Rightarrow> nat option" where
  "last_index_of c [] = None"
| "last_index_of c (x # xs) =
     (case last_index_of c xs of
        Some i \<Rightarrow> Some (Suc i)
      | None \<Rightarrow> if x = c then Some 0 else None)"

fun index_of :: "char \<Rightarrow> string \<Rightarrow> nat option" where
  "index_of c [] = None"
| "index_of c (x # xs) = (if x = c then Some 0 else map_option Suc (index_of c xs))"

lemma last_index_of_None_iff: "last_index_of c s = None \<longleftrightarrow> c \<notin> set s"
  by (induction s) (auto split: option.splits)

lemma last_index_of_append_sep:
  "c \<notin> set t \<Longrightarrow> last_index_of c (s @ c # t) = Some (length s)"
  by (induction s) (auto simp: last_index_of_None_iff split: option.splits)

lemma index_of_append_sep: "c \<notin> set s \<Longrightarrow> index_of c (s @ c # t) = Some (length s)"
  by (induction s) auto

section \<open>Lists\<close>

text \<open>\<^verbatim>\<open>xs.findIndex(p)\<close>: the first index satisfying the predicate.\<close>

fun find_index :: "('a \<Rightarrow> bool) \<Rightarrow> 'a list \<Rightarrow> nat option" where
  "find_index p [] = None"
| "find_index p (x # xs) = (if p x then Some 0 else map_option Suc (find_index p xs))"

lemma find_index_None: "find_index p xs = None \<longleftrightarrow> (\<forall>x \<in> set xs. \<not> p x)"
  by (induction xs) auto

lemma find_index_Some:
  "find_index p xs = Some i \<Longrightarrow>
     i < length xs \<and> p (xs ! i) \<and> (\<forall>x \<in> set (take i xs). \<not> p x)"
proof (induction xs arbitrary: i)
  case (Cons x xs)
  show ?case
  proof (cases "p x")
    case True
    with Cons.prems show ?thesis by auto
  next
    case False
    with Cons.prems obtain j where "find_index p xs = Some j" "i = Suc j"
      by auto
    with Cons.IH [of j] False show ?thesis by auto
  qed
qed simp

lemma find_index_Some_split:
  assumes "find_index p xs = Some i"
  shows "\<exists>ys x zs. xs = ys @ x # zs \<and> length ys = i \<and> p x \<and> (\<forall>y \<in> set ys. \<not> p y)"
proof -
  from find_index_Some [OF assms] have i: "i < length xs" "p (xs ! i)"
    "\<forall>x \<in> set (take i xs). \<not> p x" by auto
  have "xs = take i xs @ xs ! i # drop (Suc i) xs"
    using i(1) by (simp add: id_take_nth_drop)
  with i show ?thesis by (intro exI [of _ "take i xs"] exI) auto
qed

text \<open>The last element and the rest: \<^verbatim>\<open>list.pop()\<close>.\<close>

lemma butlast_snoc_last: "xs \<noteq> [] \<Longrightarrow> butlast xs @ [last xs] = xs"
  by simp

lemma set_last_butlast: "xs \<noteq> [] \<Longrightarrow> insert (last xs) (set (butlast xs)) = set xs"
  by (metis append_butlast_last_id list.simps(15) set_append append_Nil2 Un_insert_right
      empty_set)

end
