(* ===== verification/Serial_Queue.thy ===== *)
theory Serial_Queue
  imports Prelude
begin

text \<open>
  \<^verbatim>\<open>MemoryCore/src/utils/serial-queue.ts\<close>: the concurrency-1 task queue that carries the L1,
  L2 and L3 work of the pipeline. A task is represented by its entry; starting a task is
  the synchronous call \<^verbatim>\<open>entry.task()\<close> in \<^verbatim>\<open>drain\<close>, and its settlement is the
  \<^verbatim>\<open>finally\<close> callback, modelled by \<open>sq_complete\<close>. The field \<open>sq_running\<close> holds the entry
  being executed (the code's boolean \<^verbatim>\<open>running\<close> is \<open>sq_running q \<noteq> None\<close>).
\<close>

section \<open>State and operations\<close>

record 'a serial_queue =
  sq_queue :: "'a list"
  sq_running :: "'a option"
  sq_paused :: bool
  sq_idle_resolvers :: "nat list"

definition sq_empty :: "'a serial_queue" where
  "sq_empty = \<lparr>sq_queue = [], sq_running = None, sq_paused = False, sq_idle_resolvers = []\<rparr>"

definition sq_size :: "'a serial_queue \<Rightarrow> nat" where
  "sq_size q = length (sq_queue q)"

definition sq_pending :: "'a serial_queue \<Rightarrow> bool" where
  "sq_pending q \<longleftrightarrow> sq_running q \<noteq> None"

definition sq_idle :: "'a serial_queue \<Rightarrow> bool" where
  "sq_idle q \<longleftrightarrow> length (sq_queue q) = 0 \<and> \<not> sq_pending q"

text \<open>\<^verbatim>\<open>drain\<close> returns the entry it has started, if any.\<close>

definition sq_drain :: "'a serial_queue \<Rightarrow> 'a option \<times> 'a serial_queue" where
  "sq_drain q =
     (if sq_running q \<noteq> None \<or> sq_paused q then (None, q)
      else (case sq_queue q of
              [] \<Rightarrow> (None, q)
            | e # es \<Rightarrow> (Some e, q\<lparr>sq_queue := es, sq_running := Some e\<rparr>)))"

definition sq_add :: "'a \<Rightarrow> 'a serial_queue \<Rightarrow> 'a option \<times> 'a serial_queue" where
  "sq_add e q = sq_drain (q\<lparr>sq_queue := sq_queue q @ [e]\<rparr>)"

definition sq_pause :: "'a serial_queue \<Rightarrow> 'a serial_queue" where
  "sq_pause q = q\<lparr>sq_paused := True\<rparr>"

definition sq_start :: "'a serial_queue \<Rightarrow> 'a option \<times> 'a serial_queue" where
  "sq_start q = sq_drain (q\<lparr>sq_paused := False\<rparr>)"

text \<open>\<^verbatim>\<open>onIdle\<close>: True when the returned promise is already resolved; otherwise the
  waiter's id is registered.\<close>

definition sq_on_idle :: "nat \<Rightarrow> 'a serial_queue \<Rightarrow> bool \<times> 'a serial_queue" where
  "sq_on_idle w q =
     (if length (sq_queue q) = 0 \<and> sq_running q = None then (True, q)
      else (False, q\<lparr>sq_idle_resolvers := sq_idle_resolvers q @ [w]\<rparr>))"

text \<open>\<^verbatim>\<open>clear\<close> returns the entries whose promises it rejects.\<close>

definition sq_clear :: "'a serial_queue \<Rightarrow> 'a list \<times> 'a serial_queue" where
  "sq_clear q = (sq_queue q, q\<lparr>sq_queue := []\<rparr>)"

text \<open>The \<^verbatim>\<open>finally\<close> callback of the running task: the idle waiters it resolves, the entry
  it starts next, and the new state.\<close>

definition sq_complete :: "'a serial_queue \<Rightarrow> nat list \<times> 'a option \<times> 'a serial_queue" where
  "sq_complete q =
     (let q1 = q\<lparr>sq_running := None\<rparr> in
      if length (sq_queue q1) = 0
      then (sq_idle_resolvers q1, None, q1\<lparr>sq_idle_resolvers := []\<rparr>)
      else (let (s, q2) = sq_drain q1 in ([], s, q2)))"

section \<open>Histories\<close>

text \<open>The events of a queue's life. A completion can only happen while a task runs.\<close>

datatype 'a sq_event = SqAdd 'a | SqComplete | SqPause | SqStart | SqOnIdle nat | SqClear

record 'a sq_history =
  sqh_queue :: "'a serial_queue"
  sqh_started :: "'a list"
  sqh_rejected :: "'a list"
  sqh_resolved :: "nat list"

definition sqh_init :: "'a sq_history" where
  "sqh_init = \<lparr>sqh_queue = sq_empty, sqh_started = [], sqh_rejected = [], sqh_resolved = []\<rparr>"

definition opt_list :: "'a option \<Rightarrow> 'a list" where
  "opt_list x = (case x of None \<Rightarrow> [] | Some a \<Rightarrow> [a])"

lemma opt_list_simps [simp]: "opt_list None = []" "opt_list (Some a) = [a]"
  by (simp_all add: opt_list_def)

fun sqh_step :: "'a sq_event \<Rightarrow> 'a sq_history \<Rightarrow> 'a sq_history" where
  "sqh_step (SqAdd e) h = (let (s, q) = sq_add e (sqh_queue h)
     in h\<lparr>sqh_queue := q, sqh_started := sqh_started h @ opt_list s\<rparr>)"
| "sqh_step SqComplete h =
     (if sq_running (sqh_queue h) = None then h
      else (let (ws, s, q) = sq_complete (sqh_queue h)
            in h\<lparr>sqh_queue := q, sqh_started := sqh_started h @ opt_list s,
                 sqh_resolved := sqh_resolved h @ ws\<rparr>))"
| "sqh_step SqPause h = h\<lparr>sqh_queue := sq_pause (sqh_queue h)\<rparr>"
| "sqh_step SqStart h = (let (s, q) = sq_start (sqh_queue h)
     in h\<lparr>sqh_queue := q, sqh_started := sqh_started h @ opt_list s\<rparr>)"
| "sqh_step (SqOnIdle w) h = (let (now, q) = sq_on_idle w (sqh_queue h)
     in h\<lparr>sqh_queue := q, sqh_resolved := sqh_resolved h @ (if now then [w] else [])\<rparr>)"
| "sqh_step SqClear h = (let (rej, q) = sq_clear (sqh_queue h)
     in h\<lparr>sqh_queue := q, sqh_rejected := sqh_rejected h @ rej\<rparr>)"

definition sqh_run :: "'a sq_event list \<Rightarrow> 'a sq_history" where
  "sqh_run es = fold sqh_step es sqh_init"

fun sq_added :: "'a sq_event list \<Rightarrow> 'a list" where
  "sq_added [] = []"
| "sq_added (SqAdd e # es) = e # sq_added es"
| "sq_added (_ # es) = sq_added es"

definition clear_free :: "'a sq_event list \<Rightarrow> bool" where
  "clear_free es \<longleftrightarrow> SqClear \<notin> set es"

section \<open>Invariants\<close>

text \<open>The queue never idles with work: an entry waits only behind a running task or a pause.\<close>

definition sq_inv :: "'a serial_queue \<Rightarrow> bool" where
  "sq_inv q \<longleftrightarrow> sq_running q \<noteq> None \<or> sq_paused q \<or> sq_queue q = []"

lemmas sq_defs = sq_drain_def sq_add_def sq_pause_def sq_start_def sq_on_idle_def
  sq_clear_def sq_complete_def

lemma sq_inv_empty [simp]: "sq_inv sq_empty"
  by (simp add: sq_inv_def sq_empty_def)

lemma sq_inv_step: "sq_inv (sqh_queue h) \<Longrightarrow> sq_inv (sqh_queue (sqh_step e h))"
  by (cases e) (auto simp: sq_inv_def sq_defs Let_def split: list.splits)

lemma sq_added_append: "sq_added (es @ fs) = sq_added es @ sq_added fs"
  by (induction es rule: sq_added.induct) auto

lemma sqh_run_snoc: "sqh_run (es @ [e]) = sqh_step e (sqh_run es)"
  by (simp add: sqh_run_def)

lemma sqh_run_inv: "sq_inv (sqh_queue (sqh_run es))"
proof (induction es rule: rev_induct)
  case Nil
  show ?case by (simp add: sqh_run_def sqh_init_def)
next
  case (snoc e es)
  then show ?case by (simp add: sqh_run_snoc sq_inv_step)
qed

lemma sqh_step_conserve:
  "e \<noteq> SqClear \<Longrightarrow>
   sqh_started (sqh_step e h) @ sq_queue (sqh_queue (sqh_step e h)) =
   sqh_started h @ sq_queue (sqh_queue h) @ sq_added [e]"
  by (cases e) (auto simp: sq_defs Let_def split: list.splits)

text \<open>Work already added is started in the order it was added, and nothing is lost.\<close>

lemma sqh_run_fifo:
  "clear_free es \<Longrightarrow>
   sqh_started (sqh_run es) @ sq_queue (sqh_queue (sqh_run es)) = sq_added es"
proof (induction es rule: rev_induct)
  case Nil
  show ?case by (simp add: sqh_run_def sqh_init_def sq_empty_def)
next
  case (snoc e es)
  have e: "e \<noteq> SqClear" and "clear_free es"
    using snoc.prems by (auto simp: clear_free_def)
  with snoc.IH have IH: "sqh_started (sqh_run es) @ sq_queue (sqh_queue (sqh_run es)) = sq_added es"
    by simp
  show ?case
    using sqh_step_conserve [OF e, of "sqh_run es"] IH
    by (simp add: sqh_run_snoc sq_added_append)
qed

text \<open>Waiters wait only while the queue is busy, as long as it is never cleared.\<close>

definition waiters_inv :: "'a serial_queue \<Rightarrow> bool" where
  "waiters_inv q \<longleftrightarrow> sq_idle_resolvers q = [] \<or> \<not> sq_idle q"

lemma waiters_inv_step:
  "e \<noteq> SqClear \<Longrightarrow> waiters_inv (sqh_queue h) \<Longrightarrow> waiters_inv (sqh_queue (sqh_step e h))"
  by (cases e) (auto simp: waiters_inv_def sq_idle_def sq_pending_def sq_defs Let_def
      split: list.splits if_splits)

lemma sqh_run_waiters: "clear_free es \<Longrightarrow> waiters_inv (sqh_queue (sqh_run es))"
proof (induction es rule: rev_induct)
  case Nil
  show ?case by (simp add: sqh_run_def sqh_init_def sq_empty_def waiters_inv_def)
next
  case (snoc e es)
  then show ?case
    by (auto simp: clear_free_def sqh_run_snoc intro: waiters_inv_step)
qed

section \<open>Single flight per key\<close>

text \<open>
  The pipeline keeps one flag per session that says whether the session has an entry in the
  queue, and enqueues only when the flag is clear. \<open>single_flight\<close> is the contract of that
  discipline: the flag is set exactly for the keys queued or running, without duplicates,
  and the queue is never paused.
\<close>

definition sq_entries :: "'a serial_queue \<Rightarrow> 'a list" where
  "sq_entries q = opt_list (sq_running q) @ sq_queue q"

definition single_flight :: "('a \<Rightarrow> bool) \<Rightarrow> 'a serial_queue \<Rightarrow> bool" where
  "single_flight f q \<longleftrightarrow> f = (\<lambda>k. k \<in> set (sq_entries q)) \<and> distinct (sq_entries q)
     \<and> \<not> sq_paused q \<and> sq_inv q"

lemma single_flight_empty: "single_flight (\<lambda>k. False) sq_empty"
  by (simp add: single_flight_def sq_entries_def sq_empty_def sq_inv_def)

lemma single_flight_idle:
  assumes "single_flight f q" "sq_running q = None"
  shows "sq_queue q = []" "f = (\<lambda>k. False)"
  using assms by (auto simp: single_flight_def sq_inv_def sq_entries_def)

lemma sq_add_started:
  assumes "single_flight f q"
  shows "fst (sq_add k q) = (if sq_running q = None then Some k else None)"
    and "sq_running (snd (sq_add k q)) = Some (case sq_running q of None \<Rightarrow> k | Some r \<Rightarrow> r)"
    and "sq_entries (snd (sq_add k q)) = sq_entries q @ [k]"
    and "\<not> sq_paused (snd (sq_add k q))"
  using assms single_flight_idle(1) [OF assms]
  by (auto simp: sq_add_def sq_drain_def single_flight_def sq_entries_def split: option.splits list.splits)

lemma single_flight_add:
  assumes "single_flight f q" "\<not> f k"
  shows "single_flight (f(k := True)) (snd (sq_add k q))"
proof -
  note a = sq_add_started [OF assms(1), of k]
  have "sq_inv (snd (sq_add k q))" using a(2) by (simp add: sq_inv_def)
  then show ?thesis
    using assms a(3,4) by (auto simp: single_flight_def fun_eq_iff)
qed

lemma sq_complete_started:
  assumes "single_flight f q"
  shows "fst (snd (sq_complete q)) = sq_running (snd (snd (sq_complete q)))"
    and "sq_entries (snd (snd (sq_complete q))) = sq_queue q"
    and "\<not> sq_paused (snd (snd (sq_complete q)))"
    and "sq_inv (snd (snd (sq_complete q)))"
  using assms
  by (auto simp: sq_complete_def sq_drain_def single_flight_def sq_entries_def sq_inv_def Let_def
      split: list.splits)

lemma single_flight_complete:
  assumes "single_flight f q" "sq_running q = Some k"
  shows "single_flight (f(k := False)) (snd (snd (sq_complete q)))"
  using assms sq_complete_started [OF assms(1)]
  by (auto simp: single_flight_def fun_eq_iff sq_entries_def [of q])

section \<open>Properties\<close>

text \<open>
  the queue is first in first out and work conserving. In every history without
  \<^verbatim>\<open>clear\<close>, the tasks started so far followed by those still queued are exactly the tasks
  added, in order; tasks wait only behind a running task or a pause; and callers of
  \<^verbatim>\<open>onIdle\<close> wait only while the queue is busy.
\<close>

theorem serial_queue_fifo:
  assumes "clear_free es"
  shows "sqh_started (sqh_run es) @ sq_queue (sqh_queue (sqh_run es)) = sq_added es
    \<and> (if sq_running (sqh_queue (sqh_run es)) = None \<and> \<not> sq_paused (sqh_queue (sqh_run es))
       then sq_queue (sqh_queue (sqh_run es)) = [] \<and> sq_idle_resolvers (sqh_queue (sqh_run es)) = []
       else True)"
  using sqh_run_fifo [OF assms] sqh_run_inv [of es] sqh_run_waiters [OF assms]
  by (auto simp: sq_inv_def waiters_inv_def sq_idle_def sq_pending_def)

theorem serial_queue_fifo_witness:
  "sqh_started (sqh_run [SqAdd ''a'', SqAdd ''b'', SqPause, SqComplete, SqAdd ''c'', SqStart])
     = [''a'', ''b'']
   \<and> sq_queue (sqh_queue (sqh_run [SqAdd ''a'', SqAdd ''b'', SqPause, SqComplete, SqAdd ''c'', SqStart]))
     = [''c'']"
proof -
  let ?es = "[SqAdd ''a'', SqAdd ''b'', SqPause, SqComplete, SqAdd ''c'', SqStart]"
  have 1: "clear_free ?es" by (simp add: clear_free_def)
  have 2: "sqh_started (sqh_run ?es) = [''a'', ''b'']" by code_simp
  have "sq_added ?es = [''a'', ''b'', ''c'']" by simp
  with serial_queue_fifo [OF 1] 2 show ?thesis by simp
qed

text \<open>
  \<^verbatim>\<open>clear\<close> on a paused queue strands the callers of \<^verbatim>\<open>onIdle\<close>: the queue is empty and
  nothing runs, but their promise is not resolved, and no later completion will do it unless
  new work is added.
\<close>

theorem clear_strands_idle_waiters:
  "let q = sqh_queue (sqh_run [SqPause, SqAdd ''a'', SqOnIdle 7, SqClear, SqStart])
   in sq_idle q \<and> \<not> sq_paused q \<and> sq_idle_resolvers q = [7]"
  by code_simp

end
