(* ===== verification/Managed_Timer.thy ===== *)
theory Managed_Timer
  imports Prelude
begin

text \<open>
  \<^verbatim>\<open>MemoryCore/src/utils/managed-timer.ts\<close>: a named one-shot timer over \<^verbatim>\<open>setTimeout\<close>.
  \<open>mt_handle\<close> is the pending \<^verbatim>\<open>setTimeout\<close> registration, represented by the time at which it
  is due; \<open>mt_scheduled_at\<close> is the field \<^verbatim>\<open>scheduledAt\<close>. The callback is a value of
  type \<^typ>\<open>'cb\<close>; firing or flushing returns the callback to run.
\<close>

record 'cb managed_timer =
  mt_handle :: "ms option"
  mt_callback :: "'cb option"
  mt_scheduled_at :: ms

definition mt_new :: "'cb managed_timer" where
  "mt_new = \<lparr>mt_handle = None, mt_callback = None, mt_scheduled_at = 0\<rparr>"

definition mt_cancel_internal :: "'cb managed_timer \<Rightarrow> 'cb managed_timer" where
  "mt_cancel_internal t = t\<lparr>mt_handle := None, mt_callback := None, mt_scheduled_at := 0\<rparr>"

definition mt_schedule :: "ms \<Rightarrow> ms \<Rightarrow> 'cb \<Rightarrow> 'cb managed_timer \<Rightarrow> 'cb managed_timer" where
  "mt_schedule now delay cb t =
     (mt_cancel_internal t)\<lparr>mt_callback := Some cb, mt_scheduled_at := now + delay,
        mt_handle := Some (now + delay)\<rparr>"

definition mt_schedule_at :: "ms \<Rightarrow> ms \<Rightarrow> 'cb \<Rightarrow> 'cb managed_timer \<Rightarrow> 'cb managed_timer" where
  "mt_schedule_at now epoch cb t =
     (mt_cancel_internal t)\<lparr>mt_callback := Some cb, mt_scheduled_at := epoch,
        mt_handle := Some (now + max 0 (epoch - now))\<rparr>"

definition mt_try_advance_to ::
  "ms \<Rightarrow> ms \<Rightarrow> 'cb \<Rightarrow> 'cb managed_timer \<Rightarrow> bool \<times> 'cb managed_timer" where
  "mt_try_advance_to now epoch cb t =
     (if mt_handle t = None then (True, mt_schedule_at now epoch cb t)
      else if epoch < mt_scheduled_at t then (True, mt_schedule_at now epoch cb t)
      else (False, t))"

definition mt_cancel :: "'cb managed_timer \<Rightarrow> 'cb managed_timer" where
  "mt_cancel t = mt_cancel_internal t"

definition mt_flush :: "'cb managed_timer \<Rightarrow> 'cb option \<times> 'cb managed_timer" where
  "mt_flush t =
     (if mt_handle t = None then (None, t)
      else (mt_callback t, mt_cancel_internal t))"

definition mt_pending :: "'cb managed_timer \<Rightarrow> bool" where
  "mt_pending t \<longleftrightarrow> mt_handle t \<noteq> None"

definition mt_scheduled_time :: "'cb managed_timer \<Rightarrow> ms" where
  "mt_scheduled_time t = (if mt_handle t \<noteq> None then mt_scheduled_at t else 0)"

text \<open>Natural expiration: the callback is dropped when the owner is destroyed.\<close>

definition mt_fire :: "bool \<Rightarrow> 'cb managed_timer \<Rightarrow> 'cb option \<times> 'cb managed_timer" where
  "mt_fire destroyed t =
     (let cb = mt_callback t;
          t1 = t\<lparr>mt_handle := None, mt_callback := None, mt_scheduled_at := 0\<rparr>
      in if destroyed then (None, t1) else (cb, t1))"

lemmas mt_defs = mt_new_def mt_cancel_internal_def mt_schedule_def mt_schedule_at_def
  mt_try_advance_to_def mt_cancel_def mt_flush_def mt_pending_def mt_scheduled_time_def
  mt_fire_def

text \<open>A timer is armed exactly when it holds a callback, and it is never due before the
  time it is scheduled for.\<close>

definition mt_inv :: "'cb managed_timer \<Rightarrow> bool" where
  "mt_inv t \<longleftrightarrow> (case mt_handle t of
       None \<Rightarrow> mt_callback t = None \<and> mt_scheduled_at t = 0
     | Some due \<Rightarrow> mt_callback t \<noteq> None \<and> mt_scheduled_at t \<le> due)"

lemma mt_inv_new [simp]: "mt_inv mt_new"
  by (simp add: mt_inv_def mt_new_def)

lemma mt_inv_ops [simp]:
  "mt_inv (mt_cancel t)" "mt_inv (mt_schedule now delay cb t)" "mt_inv (mt_schedule_at now epoch cb t)"
  "mt_inv (snd (mt_fire d t))"
  by (auto simp: mt_inv_def mt_defs Let_def)

lemma mt_inv_flush: "mt_inv t \<Longrightarrow> mt_inv (snd (mt_flush t))"
  by (auto simp: mt_inv_def mt_defs)

lemma mt_inv_advance: "mt_inv t \<Longrightarrow> mt_inv (snd (mt_try_advance_to now epoch cb t))"
  by (auto simp: mt_inv_def mt_defs)

lemma mt_handle_simps [simp]:
  "mt_handle mt_new = None" "mt_handle (mt_cancel t) = None"
  "mt_handle (mt_schedule now delay cb t) = Some (now + delay)"
  by (simp_all add: mt_defs)

text \<open>
  the downward-only rule of \<^verbatim>\<open>tryAdvanceTo\<close>. Afterwards the timer is armed, it is
  scheduled at the earlier of the requested time and the time it was armed for before,
  and it was moved exactly when the request was earlier (or nothing was pending).
\<close>

theorem advance_downward_only:
  assumes "mt_try_advance_to now epoch cb t = (moved, t')"
  shows "mt_pending t'
       \<and> mt_scheduled_time t' = (if mt_pending t then min epoch (mt_scheduled_time t) else epoch)
       \<and> (moved \<longleftrightarrow> \<not> mt_pending t \<or> epoch < mt_scheduled_time t)
       \<and> (\<not> moved \<longrightarrow> t' = t)"
  using assms by (auto simp: mt_defs split: if_splits)

theorem advance_downward_only_witness:
  "mt_scheduled_time (snd (mt_try_advance_to 0 900 ''b'' (mt_schedule_at 0 1000 ''a'' mt_new))) = 900
   \<and> mt_scheduled_time (snd (mt_try_advance_to 0 1100 ''b'' (mt_schedule_at 0 1000 ''a'' mt_new))) = 1000"
proof -
  have 1: "mt_try_advance_to 0 900 ''b'' (mt_schedule_at 0 1000 ''a'' mt_new)
      = (True, mt_schedule_at 0 900 ''b'' (mt_schedule_at 0 1000 ''a'' mt_new))"
    and 2: "mt_try_advance_to 0 1100 ''b'' (mt_schedule_at 0 1000 ''a'' mt_new)
      = (False, mt_schedule_at 0 1000 ''a'' mt_new)"
    by (simp_all add: mt_defs)
  show ?thesis
    using advance_downward_only [OF 1] advance_downward_only [OF 2]
    by (simp add: 1 2 mt_defs)
qed

end
