(* ===== verification/Session_Filter.thy ===== *)
theory Session_Filter
  imports Prelude
begin

text \<open>
  \<^verbatim>\<open>MemoryCore/src/utils/session-filter.ts\<close>: which sessions the memory pipeline ignores.
  A user pattern is compiled to a regular expression in which \<^verbatim>\<open>*\<close> becomes \<^verbatim>\<open>.*\<close> and every
  special character except \<^verbatim>\<open>?\<close> is escaped; the expression is not anchored. The model
  compiles a pattern to a list of atoms with the meaning that expression has, for ASCII
  keys and patterns: a \<^verbatim>\<open>?\<close> makes the preceding literal optional, a second one (or one after
  \<^verbatim>\<open>*\<close>) only makes the match lazy, and a further one, or a leading one, is a syntax error
  of the \<^verbatim>\<open>RegExp\<close> constructor.
\<close>

section \<open>Built-in rules and non-interactive triggers\<close>

definition to_lower_char :: "char \<Rightarrow> char" where
  "to_lower_char c =
     (let n = of_char c :: nat in if 65 \<le> n \<and> n \<le> 90 then char_of (n + 32) else c)"

definition to_lower :: "string \<Rightarrow> string" where
  "to_lower s = map to_lower_char s"

definition skip_triggers :: "string list" where
  "skip_triggers = [''cron'', ''heartbeat'', ''automation'', ''schedule'']"

definition is_non_interactive_trigger :: "string option \<Rightarrow> string option \<Rightarrow> bool" where
  "is_non_interactive_trigger trigger key \<longleftrightarrow>
     (case trigger of None \<Rightarrow> False | Some t \<Rightarrow> t \<noteq> [] \<and> to_lower t \<in> set skip_triggers) \<or>
     (case key of None \<Rightarrow> False
      | Some k \<Rightarrow> k \<noteq> [] \<and> (str_includes '':cron:'' (to_lower k) \<or> str_includes '':heartbeat:'' (to_lower k)))"

definition builtin_match :: "string \<Rightarrow> bool" where
  "builtin_match key \<longleftrightarrow> str_includes '':memory-scene-extract-'' key \<or>
     str_includes '':subagent:'' key \<or> prefix ''temp:'' key"

section \<open>Glob patterns\<close>

datatype glob_atom = GLit char | GOpt char | GAny

fun question_marks :: "string \<Rightarrow> nat" where
  "question_marks (c # cs) = (if c = CHR ''?'' then Suc (question_marks cs) else 0)"
| "question_marks [] = 0"

fun compile_glob :: "string \<Rightarrow> glob_atom list option" where
  "compile_glob [] = Some []"
| "compile_glob (c # cs) =
     (if c = CHR ''?'' then None
      else (let q = question_marks cs; rest = drop q cs in
        if c = CHR ''*'' then (if 2 \<le> q then None else map_option ((#) GAny) (compile_glob rest))
        else if 3 \<le> q then None
        else map_option ((#) (if q = 0 then GLit c else GOpt c)) (compile_glob rest)))"

definition line_terminator :: "char \<Rightarrow> bool" where
  "line_terminator c \<longleftrightarrow> c = CHR 0x0A \<or> c = CHR 0x0D"

fun glob_here :: "glob_atom list \<Rightarrow> string \<Rightarrow> bool" where
  "glob_here [] s = True"
| "glob_here (GLit c # r) [] = False"
| "glob_here (GLit c # r) (x # xs) = (x = c \<and> glob_here r xs)"
| "glob_here (GOpt c # r) [] = glob_here r []"
| "glob_here (GOpt c # r) (x # xs) = (glob_here r (x # xs) \<or> (x = c \<and> glob_here r xs))"
| "glob_here (GAny # r) [] = glob_here r []"
| "glob_here (GAny # r) (x # xs) =
     (glob_here r (x # xs) \<or> (\<not> line_terminator x \<and> glob_here (GAny # r) xs))"

fun glob_test :: "glob_atom list \<Rightarrow> string \<Rightarrow> bool" where
  "glob_test g [] = glob_here g []"
| "glob_test g (x # xs) = (glob_here g (x # xs) \<or> glob_test g xs)"

definition ascii_space :: "char \<Rightarrow> bool" where
  "ascii_space c \<longleftrightarrow> c = CHR '' '' \<or> (9 \<le> (of_char c :: nat) \<and> (of_char c :: nat) \<le> 13)"

definition trim :: "string \<Rightarrow> string" where
  "trim s = rev (dropWhile ascii_space (rev (dropWhile ascii_space s)))"

section \<open>The filter\<close>

type_synonym session_filter = "glob_atom list list"

text \<open>The constructor; None is the \<^verbatim>\<open>SyntaxError\<close> of a malformed pattern.\<close>

definition new_session_filter :: "string list \<Rightarrow> session_filter option" where
  "new_session_filter exclude =
     those (map compile_glob (filter (\<lambda>p. 0 < length p) (map trim exclude)))"

definition should_skip :: "session_filter \<Rightarrow> string \<Rightarrow> bool" where
  "should_skip f key \<longleftrightarrow> builtin_match key \<or> list_ex (\<lambda>g. glob_test g key) f"

definition should_skip_ctx ::
  "session_filter \<Rightarrow> string option \<Rightarrow> string option \<Rightarrow> string option \<Rightarrow> bool" where
  "should_skip_ctx f key session_id trigger \<longleftrightarrow>
     (case key of
        None \<Rightarrow> True
      | Some k \<Rightarrow>
          if k = [] then True
          else if (case session_id of None \<Rightarrow> False | Some s \<Rightarrow> prefix ''memory-'' s) then True
          else if is_non_interactive_trigger trigger key then True
          else should_skip f k)"

section \<open>Literal patterns\<close>

definition plain_pattern :: "string \<Rightarrow> bool" where
  "plain_pattern p \<longleftrightarrow> CHR ''*'' \<notin> set p \<and> CHR ''?'' \<notin> set p"

lemma question_marks_plain: "CHR ''?'' \<notin> set cs \<Longrightarrow> question_marks cs = 0"
  by (cases cs) auto

lemma compile_plain: "plain_pattern p \<Longrightarrow> compile_glob p = Some (map GLit p)"
proof (induction p)
  case (Cons c cs)
  then have "question_marks cs = 0" "compile_glob cs = Some (map GLit cs)"
    by (auto simp: plain_pattern_def question_marks_plain)
  with Cons.prems show ?case by (auto simp: plain_pattern_def)
qed simp

lemma glob_here_lits: "glob_here (map GLit p) s \<longleftrightarrow> prefix p s"
  by (induction p arbitrary: s) (auto simp: prefix_def neq_Nil_conv, (case_tac s; auto)+)

lemma glob_test_lits: "glob_test (map GLit p) s \<longleftrightarrow> sublist p s"
  by (induction s) (auto simp: glob_here_lits sublist_Cons_right)

text \<open>
  a session is skipped under a user pattern without wildcards exactly when the pattern
  occurs somewhere in its key, or a built-in rule applies.
\<close>

theorem plain_pattern_skips_substring:
  assumes "plain_pattern p" "trim p = p" "p \<noteq> []"
  shows "\<exists>f. new_session_filter [p] = Some f \<and>
    (\<forall>key. should_skip f key \<longleftrightarrow> builtin_match key \<or> sublist p key)"
  using assms by (simp add: new_session_filter_def compile_plain should_skip_def glob_test_lits)

theorem plain_pattern_skips_substring_witness:
  "\<exists>f. new_session_filter [''bench''] = Some f \<and> should_skip f ''agent:bench-1:x'' \<and>
     \<not> should_skip f ''agent:main:x''"
proof -
  obtain f where f: "new_session_filter [''bench''] = Some f"
    "\<And>key. should_skip f key \<longleftrightarrow> builtin_match key \<or> sublist ''bench'' key"
    using plain_pattern_skips_substring [of "''bench''"]
    by (auto simp: plain_pattern_def trim_def ascii_space_def)
  have "str_includes ''bench'' ''agent:bench-1:x''" "\<not> str_includes ''bench'' ''agent:main:x''"
    "\<not> builtin_match ''agent:main:x''"
    by code_simp+
  with f show ?thesis by (auto simp: str_includes_sublist)
qed

end
