(* ===== verification/Lock_Service.thy ===== *)
theory Lock_Service
  imports Prelude
begin

text \<open>
  The contract of an expiring lock: \<^verbatim>\<open>acquire(key, owner, ttl)\<close> succeeds only when no
  unexpired holder exists, \<^verbatim>\<open>renew\<close> and \<^verbatim>\<open>release\<close> act only for the recorded owner.
  It is the lock part of \<^verbatim>\<open>IStateBackend\<close> (\<^verbatim>\<open>MemoryCore/src/core/state/types.ts\<close>) and the
  extract-lock part of \<^verbatim>\<open>ISkillAgentTaskQueue\<close>
  (\<^verbatim>\<open>conversation-add/agent-task-queue.ts\<close>). The providers interpret the locale; the
  exclusion argument is made once, here.
\<close>

datatype ('k, 'o) lock_event =
    LAcquire 'k 'o ms ms   \<comment> \<open>key, owner, now, ttl\<close>
  | LRenew 'k 'o ms ms
  | LRelease 'k 'o ms

fun le_time :: "('k, 'o) lock_event \<Rightarrow> ms" where
  "le_time (LAcquire k ow now ttl) = now"
| "le_time (LRenew k ow now ttl) = now"
| "le_time (LRelease k ow now) = now"

fun lock_step ::
  "('k \<Rightarrow> 'o \<Rightarrow> ms \<Rightarrow> ms \<Rightarrow> 's \<Rightarrow> bool \<times> 's) \<Rightarrow> ('k \<Rightarrow> 'o \<Rightarrow> ms \<Rightarrow> ms \<Rightarrow> 's \<Rightarrow> bool \<times> 's) \<Rightarrow>
   ('k \<Rightarrow> 'o \<Rightarrow> 's \<Rightarrow> 's) \<Rightarrow> ('k, 'o) lock_event \<Rightarrow> 's \<Rightarrow> bool \<times> 's" where
  "lock_step acq ren rel (LAcquire k ow now ttl) s = acq k ow now ttl s"
| "lock_step acq ren rel (LRenew k ow now ttl) s = ren k ow now ttl s"
| "lock_step acq ren rel (LRelease k ow now) s = (True, rel k ow s)"

text \<open>The results of a sequence of operations, and the final state.\<close>

fun lock_run ::
  "('k \<Rightarrow> 'o \<Rightarrow> ms \<Rightarrow> ms \<Rightarrow> 's \<Rightarrow> bool \<times> 's) \<Rightarrow> ('k \<Rightarrow> 'o \<Rightarrow> ms \<Rightarrow> ms \<Rightarrow> 's \<Rightarrow> bool \<times> 's) \<Rightarrow>
   ('k \<Rightarrow> 'o \<Rightarrow> 's \<Rightarrow> 's) \<Rightarrow> ('k, 'o) lock_event list \<Rightarrow> 's \<Rightarrow> bool list \<times> 's" where
  "lock_run acq ren rel [] s = ([], s)"
| "lock_run acq ren rel (e # es) s =
     (let (b, s1) = lock_step acq ren rel e s;
          (bs, s2) = lock_run acq ren rel es s1
      in (b # bs, s2))"

text \<open>The other parties' view of a lock held by \<open>ow\<close> on \<open>k\<close> until \<open>e\<close>: every event happens
  before the expiry, the owner does not release, and it only renews to a later expiry.\<close>

fun undisturbed :: "'k \<Rightarrow> 'o \<Rightarrow> ms \<Rightarrow> ('k, 'o) lock_event \<Rightarrow> bool" where
  "undisturbed k ow e (LAcquire k' o' now ttl) \<longleftrightarrow> now < e"
| "undisturbed k ow e (LRenew k' o' now ttl) \<longleftrightarrow> now < e \<and> (k' = k \<and> o' = ow \<longrightarrow> e \<le> now + ttl)"
| "undisturbed k ow e (LRelease k' o' now) \<longleftrightarrow> now < e \<and> \<not> (k' = k \<and> o' = ow)"

locale lock_service =
  fixes acquire :: "'k \<Rightarrow> 'o \<Rightarrow> ms \<Rightarrow> ms \<Rightarrow> 's \<Rightarrow> bool \<times> 's"
    and renew :: "'k \<Rightarrow> 'o \<Rightarrow> ms \<Rightarrow> ms \<Rightarrow> 's \<Rightarrow> bool \<times> 's"
    and release :: "'k \<Rightarrow> 'o \<Rightarrow> 's \<Rightarrow> 's"
    and holder :: "'s \<Rightarrow> 'k \<Rightarrow> ('o \<times> ms) option"
    and invar :: "'s \<Rightarrow> bool"
  assumes invar_acquire: "invar s \<Longrightarrow> invar (snd (acquire k ow now ttl s))"
    and invar_renew: "invar s \<Longrightarrow> invar (snd (renew k ow now ttl s))"
    and invar_release: "invar s \<Longrightarrow> invar (release k ow s)"
    and acquire_held:
      "invar s \<Longrightarrow> holder s k = Some (ow, e) \<Longrightarrow> now < e \<Longrightarrow> \<not> fst (acquire k o' now ttl s)"
    and acquire_keeps:
      "invar s \<Longrightarrow> holder s k = Some (ow, e) \<Longrightarrow> now < e \<Longrightarrow>
       holder (snd (acquire k' o' now ttl s)) k = Some (ow, e)"
    and acquire_free:
      "invar s \<Longrightarrow> (\<And>ow e. holder s k = Some (ow, e) \<Longrightarrow> e \<le> now) \<Longrightarrow>
       fst (acquire k o' now ttl s) \<and> holder (snd (acquire k o' now ttl s)) k = Some (o', now + ttl)"
    and renew_owner:
      "invar s \<Longrightarrow> fst (renew k ow now ttl s) \<longleftrightarrow> (\<exists>e. holder s k = Some (ow, e))"
    and renew_sets:
      "invar s \<Longrightarrow> holder s k = Some (ow, e) \<Longrightarrow>
       holder (snd (renew k ow now ttl s)) k = Some (ow, now + ttl)"
    and renew_keeps:
      "invar s \<Longrightarrow> k' \<noteq> k \<or> (\<forall>e. holder s k' \<noteq> Some (o', e)) \<Longrightarrow>
       holder (snd (renew k' o' now ttl s)) k = holder s k"
    and release_owner:
      "invar s \<Longrightarrow> holder s k = Some (ow, e) \<Longrightarrow> holder (release k ow s) k = None"
    and release_keeps:
      "invar s \<Longrightarrow> k' \<noteq> k \<or> (\<forall>e. holder s k' \<noteq> Some (o', e)) \<Longrightarrow>
       holder (release k' o' s) k = holder s k"
begin

lemma step_invar: "invar s \<Longrightarrow> invar (snd (lock_step acquire renew release ev s))"
  by (cases ev) (auto intro: invar_acquire invar_renew invar_release)

lemma step_keeps:
  assumes "invar s" "holder s k = Some (ow, e)" "undisturbed k ow e ev"
    and "\<And>now ttl. ev \<noteq> LRenew k ow now ttl"
  shows "holder (snd (lock_step acquire renew release ev s)) k = Some (ow, e)"
proof (cases ev)
  case (LAcquire k' o' now ttl)
  with assms show ?thesis by (auto intro: acquire_keeps)
next
  case (LRenew k' o' now ttl)
  then have "k' \<noteq> k \<or> o' \<noteq> ow" using assms(4) by auto
  then have "k' \<noteq> k \<or> (\<forall>e. holder s k' \<noteq> Some (o', e))" using assms(2) by auto
  from renew_keeps [OF assms(1) this] LRenew assms(2) show ?thesis by simp
next
  case (LRelease k' o' now)
  then have "k' \<noteq> k \<or> (\<forall>e. holder s k' \<noteq> Some (o', e))" using assms(2,3) by auto
  from release_keeps [OF assms(1) this] LRelease assms(2) show ?thesis by simp
qed

text \<open>Nobody else obtains the lock, and the owner keeps it, until it expires.\<close>

lemma held_until_expiry:
  assumes "invar s" "holder s k = Some (ow, e)"
    and "\<And>ev. ev \<in> set es \<Longrightarrow> undisturbed k ow e ev"
    and "\<And>ev now ttl. ev \<in> set es \<Longrightarrow> ev \<noteq> LRenew k ow now ttl"
  shows "holder (snd (lock_run acquire renew release es s)) k = Some (ow, e) \<and>
         (\<forall>i < length es. \<forall>o' now ttl. es ! i = LAcquire k o' now ttl \<longrightarrow>
            \<not> fst (lock_run acquire renew release es s) ! i)"
  using assms
proof (induction es arbitrary: s)
  case Nil
  then show ?case by simp
next
  case (Cons ev es)
  obtain b s1 where r: "lock_step acquire renew release ev s = (b, s1)" by fastforce
  obtain bs s2 where r2: "lock_run acquire renew release es s1 = (bs, s2)" by fastforce
  have u: "undisturbed k ow e ev" using Cons.prems(3) by simp
  have i1: "invar s1" using step_invar [OF Cons.prems(1), of ev] r by simp
  have h1: "holder s1 k = Some (ow, e)"
    using step_keeps [OF Cons.prems(1,2) u] Cons.prems(4) r by simp
  have IH: "holder s2 k = Some (ow, e) \<and>
      (\<forall>i < length es. \<forall>o' now ttl. es ! i = LAcquire k o' now ttl \<longrightarrow> \<not> bs ! i)"
    using Cons.IH [OF i1 h1] Cons.prems(3,4) r2 by auto
  have b: "\<not> b" if "ev = LAcquire k o' now ttl" for o' now ttl
    using acquire_held [OF Cons.prems(1,2), of now o' ttl] u r that by auto
  have "\<not> (b # bs) ! i" if "i < length (ev # es)" "(ev # es) ! i = LAcquire k o' now ttl"
    for i o' now ttl
    using that IH b by (cases i) auto
  with IH r r2 show ?case by simp
qed

lemma release_frees:
  assumes "invar s" "holder s k = Some (ow, e)"
  shows "fst (acquire k o' now ttl (release k ow s))"
  using acquire_free [OF invar_release [OF assms(1), of k ow], of k now o' ttl]
    release_owner [OF assms] by simp

end

text \<open>
  The two in-process providers keep a \<^verbatim>\<open>Map<key, {owner, expireAt}>\<close>; their operations are
  instances of the following three, which live here so that each provider only has to be
  shown equal to them.
\<close>

type_synonym ('k, 'o) lock_table = "('k, 'o \<times> ms) jsmap"

definition lt_clean :: "ms \<Rightarrow> ('k, 'o) lock_table \<Rightarrow> ('k, 'o) lock_table" where
  "lt_clean now m = filter (\<lambda>(k, ow, e). \<not> e \<le> now) m"

lemma lt_clean_get:
  "distinct (jkeys m) \<Longrightarrow> map_of (lt_clean now m) k =
     (case map_of m k of None \<Rightarrow> None | Some (ow, e) \<Rightarrow> if e \<le> now then None else Some (ow, e))"
  unfolding lt_clean_def by (subst map_of_filter_distinct) (auto split: option.splits)

lemma distinct_lt_clean: "distinct (jkeys m) \<Longrightarrow> distinct (jkeys (lt_clean now m))"
  unfolding lt_clean_def by (rule distinct_keys_filter)

end
