(* ===== verification/State_Backend.thy ===== *)
theory State_Backend
  imports Lock_Service "HOL-Library.Multiset"
begin

text \<open>
  \<^verbatim>\<open>MemoryCore/src/core/state/types.ts\<close> and \<^verbatim>\<open>local-backend.ts\<close>: the in-process pipeline
  state backend. One field of \<open>local_backend\<close> per private field of \<^verbatim>\<open>LocalStateBackend\<close>,
  one definition per method. \<^verbatim>\<open>Date.now()\<close> is the argument \<open>now\<close>. A pending
  \<^verbatim>\<open>setTimeout\<close> is represented by its due time and the \<^verbatim>\<open>TimerEntry\<close> its closure delivers;
  a blocked consumer by a number (and the due time of its own timeout).
\<close>

section \<open>Data (types.ts)\<close>

record session_state =
  conversation_count :: int
  last_extraction_time :: string
  last_extraction_updated_time :: string
  last_active_time :: ms
  l2_pending_l1_count :: int
  warmup_threshold :: int
  l2_last_extraction_time :: string

definition default_pipeline_state :: session_state where
  "default_pipeline_state = \<lparr>conversation_count = 0, last_extraction_time = [],
     last_extraction_updated_time = [], last_active_time = 0, l2_pending_l1_count = 0,
     warmup_threshold = 0, l2_last_extraction_time = []\<rparr>"

record timer_entry =
  te_instance :: "string option"
  te_member :: string
  te_fire_at :: ms

datatype task_type = T_L1 | T_L2 | T_L3 | T_flush | T_offload_l1 | T_offload_l15 | T_offload_l2

text \<open>The keys of \<^verbatim>\<open>TaskPayload.data\<close> that the pipeline reads.\<close>

record task_data =
  dt_instance :: "string option"
  dt_team :: "string option"
  dt_agent :: "string option"
  dt_triggered_by :: "string option"
  dt_timer_member :: "string option"
  dt_mmd_file :: "string option"
  dt_retry_count :: "nat option"
  dt_lock_retry_count :: "nat option"

record task_payload =
  tp_id :: string
  tp_type :: task_type
  tp_instance :: string
  tp_session :: string
  tp_team :: "string option"
  tp_agent :: "string option"
  tp_priority :: int
  tp_data :: "task_data option"
  tp_created_at :: ms

text \<open>\<^verbatim>\<open>Partial<PipelineSessionState>\<close>: the fields a patch sets.\<close>

record session_patch =
  pa_conversation_count :: "int option"
  pa_last_extraction_time :: "string option"
  pa_last_extraction_updated_time :: "string option"
  pa_last_active_time :: "ms option"
  pa_l2_pending_l1_count :: "int option"
  pa_warmup_threshold :: "int option"
  pa_l2_last_extraction_time :: "string option"

definition patch_or :: "'a option \<Rightarrow> 'a \<Rightarrow> 'a" where
  "patch_or p d = (case p of None \<Rightarrow> d | Some v \<Rightarrow> v)"

definition apply_patch :: "session_patch \<Rightarrow> session_state \<Rightarrow> session_state" where
  "apply_patch p s = \<lparr>
     conversation_count = patch_or (pa_conversation_count p) (conversation_count s),
     last_extraction_time = patch_or (pa_last_extraction_time p) (last_extraction_time s),
     last_extraction_updated_time =
       patch_or (pa_last_extraction_updated_time p) (last_extraction_updated_time s),
     last_active_time = patch_or (pa_last_active_time p) (last_active_time s),
     l2_pending_l1_count = patch_or (pa_l2_pending_l1_count p) (l2_pending_l1_count s),
     warmup_threshold = patch_or (pa_warmup_threshold p) (warmup_threshold s),
     l2_last_extraction_time = patch_or (pa_l2_last_extraction_time p) (l2_last_extraction_time s)\<rparr>"

section \<open>State (local-backend.ts)\<close>

record internal_timer =
  it_member :: string
  it_fire_at :: ms
  it_handle :: "(ms \<times> timer_entry) option"

record local_backend =
  lb_sessions :: "(string, session_state) jsmap"
  lb_buffers :: "(string, string list) jsmap"
  lb_timers :: "(string, internal_timer) jsmap"
  lb_queue :: "task_payload list"
  lb_locks :: "(string, string) lock_table"
  lb_waiters :: "(nat \<times> ms) list"
  lb_has_callback :: bool
  lb_destroyed :: bool

definition new_backend :: "bool \<Rightarrow> local_backend" where
  "new_backend cb = \<lparr>lb_sessions = [], lb_buffers = [], lb_timers = [], lb_queue = [],
     lb_locks = [], lb_waiters = [], lb_has_callback = cb, lb_destroyed = False\<rparr>"

text \<open>\<^verbatim>\<open>x || "_"\<close> on an optional string.\<close>

definition or_underscore :: "string option \<Rightarrow> string" where
  "or_underscore x = (case x of None \<Rightarrow> ''_'' | Some s \<Rightarrow> if s = [] then ''_'' else s)"

definition session_key :: "string \<Rightarrow> string \<Rightarrow> string option \<Rightarrow> string option \<Rightarrow> string" where
  "session_key inst sess team agent =
     inst @ '':'' @ or_underscore team @ '':'' @ or_underscore agent @ '':'' @ sess"

definition timer_key :: "string \<Rightarrow> string \<Rightarrow> string" where
  "timer_key inst member = inst @ '':'' @ member"

section \<open>Buffer\<close>

definition lb_append_buffer :: "string \<Rightarrow> string \<Rightarrow> local_backend \<Rightarrow> local_backend" where
  "lb_append_buffer key message b =
     b\<lparr>lb_buffers := AList.update key (jget_or [] (lb_buffers b) key @ [message]) (lb_buffers b)\<rparr>"

definition lb_drain_buffer :: "string \<Rightarrow> local_backend \<Rightarrow> string list \<times> local_backend" where
  "lb_drain_buffer key b =
     (case map_of (lb_buffers b) key of
        None \<Rightarrow> ([], b)
      | Some buf \<Rightarrow> if buf = [] then ([], b)
          else (buf, b\<lparr>lb_buffers := AList.delete key (lb_buffers b)\<rparr>))"

definition lb_buffer_length :: "string \<Rightarrow> local_backend \<Rightarrow> nat" where
  "lb_buffer_length key b = length (jget_or [] (lb_buffers b) key)"

section \<open>Session state\<close>

definition lb_get_session :: "string \<Rightarrow> local_backend \<Rightarrow> session_state option" where
  "lb_get_session key b = map_of (lb_sessions b) key"

definition lb_update_session ::
  "ms \<Rightarrow> string \<Rightarrow> session_patch \<Rightarrow> local_backend \<Rightarrow> local_backend" where
  "lb_update_session now key p b =
     (let current = jget_or (default_pipeline_state\<lparr>last_active_time := now\<rparr>) (lb_sessions b) key
      in b\<lparr>lb_sessions := AList.update key (apply_patch p current) (lb_sessions b)\<rparr>)"

definition lb_delete_session :: "string \<Rightarrow> local_backend \<Rightarrow> local_backend" where
  "lb_delete_session key b =
     b\<lparr>lb_sessions := AList.delete key (lb_sessions b),
       lb_buffers := AList.delete key (lb_buffers b)\<rparr>"

definition lb_list_active_sessions :: "string \<Rightarrow> local_backend \<Rightarrow> string list" where
  "lb_list_active_sessions inst b =
     concat (map (\<lambda>key.
       if prefix (inst @ '':'') key then
         (let parts = split_on (CHR '':'') key
          in if 4 \<le> length parts then [join_with (CHR '':'') (drop 3 parts)] else [])
       else []) (jkeys (lb_sessions b)))"

section \<open>Timers\<close>

definition lb_set_timer :: "ms \<Rightarrow> string \<Rightarrow> string \<Rightarrow> ms \<Rightarrow> local_backend \<Rightarrow> local_backend" where
  "lb_set_timer now inst member fire_at b =
     (let delay = max 0 (fire_at - now);
          handle = (if lb_has_callback b
                    then Some (now + delay, \<lparr>te_instance = Some inst, te_member = member, te_fire_at = fire_at\<rparr>)
                    else None)
      in b\<lparr>lb_timers := AList.update (timer_key inst member)
             \<lparr>it_member = member, it_fire_at = fire_at, it_handle = handle\<rparr> (lb_timers b)\<rparr>)"

definition lb_set_timer_if_earlier ::
  "ms \<Rightarrow> string \<Rightarrow> string \<Rightarrow> ms \<Rightarrow> local_backend \<Rightarrow> bool \<times> local_backend" where
  "lb_set_timer_if_earlier now inst member fire_at b =
     (case map_of (lb_timers b) (timer_key inst member) of
        Some existing \<Rightarrow>
          if it_fire_at existing \<le> fire_at then (False, b)
          else (True, lb_set_timer now inst member fire_at b)
      | None \<Rightarrow> (True, lb_set_timer now inst member fire_at b))"

definition lb_remove_timer :: "string \<Rightarrow> string \<Rightarrow> local_backend \<Rightarrow> local_backend" where
  "lb_remove_timer inst member b =
     b\<lparr>lb_timers := AList.delete (timer_key inst member) (lb_timers b)\<rparr>"

text \<open>The \<^verbatim>\<open>setTimeout\<close> callback of an armed timer: the entry is deleted, then delivered.\<close>

definition lb_timer_expires :: "string \<Rightarrow> local_backend \<Rightarrow> timer_entry option \<times> local_backend" where
  "lb_timer_expires key b =
     (case map_of (lb_timers b) key of
        None \<Rightarrow> (None, b)
      | Some t \<Rightarrow> (case it_handle t of
            None \<Rightarrow> (None, b)
          | Some (due, entry) \<Rightarrow> (Some entry, b\<lparr>lb_timers := AList.delete key (lb_timers b)\<rparr>)))"

definition lb_get_expired_timers ::
  "string \<Rightarrow> ms \<Rightarrow> local_backend \<Rightarrow> timer_entry list \<times> local_backend" where
  "lb_get_expired_timers inst now b =
     (let expired = concat (map (\<lambda>(key, t).
            if prefix (inst @ '':'') key \<and> it_fire_at t \<le> now
            then [\<lparr>te_instance = Some inst, te_member = it_member t, te_fire_at = it_fire_at t\<rparr>]
            else []) (lb_timers b))
      in (expired, b\<lparr>lb_timers := fold (\<lambda>e m. AList.delete (timer_key inst (te_member e)) m)
                                    expired (lb_timers b)\<rparr>))"

section \<open>Task queue\<close>

text \<open>\<open>queued_behind t x\<close>: the test of \<^verbatim>\<open>findIndex\<close>, \<open>x\<close> goes after the new task \<open>t\<close>.\<close>

definition queued_behind :: "task_payload \<Rightarrow> task_payload \<Rightarrow> bool" where
  "queued_behind t x \<longleftrightarrow> tp_priority t < tp_priority x \<or>
     tp_priority x = tp_priority t \<and> tp_created_at t < tp_created_at x"

definition insert_task :: "task_payload \<Rightarrow> task_payload list \<Rightarrow> task_payload list" where
  "insert_task t q =
     (case find_index (queued_behind t) q of
        None \<Rightarrow> q @ [t]
      | Some i \<Rightarrow> take i q @ t # drop i q)"

text \<open>\<^verbatim>\<open>enqueueTask\<close>: the waiter that is woken, with the task it receives.\<close>

definition lb_enqueue_task ::
  "task_payload \<Rightarrow> local_backend \<Rightarrow> (nat \<times> task_payload option) option \<times> local_backend" where
  "lb_enqueue_task t b =
     (let q = insert_task t (lb_queue b)
      in case lb_waiters b of
           [] \<Rightarrow> (None, b\<lparr>lb_queue := q\<rparr>)
         | (w, due) # ws \<Rightarrow>
             (case q of
                [] \<Rightarrow> (Some (w, None), b\<lparr>lb_queue := q, lb_waiters := ws\<rparr>)
              | x # q' \<Rightarrow> (Some (w, Some x), b\<lparr>lb_queue := q', lb_waiters := ws\<rparr>)))"

text \<open>\<^verbatim>\<open>consumeTask\<close>: a task, nothing, or a registered waiter \<open>w\<close>.\<close>

datatype consume_result = Consumed task_payload | NoTask | Blocked

definition lb_consume_task ::
  "ms \<Rightarrow> nat \<Rightarrow> ms option \<Rightarrow> local_backend \<Rightarrow> consume_result \<times> local_backend" where
  "lb_consume_task now w block_ms b =
     (case lb_queue b of
        x # q \<Rightarrow> (Consumed x, b\<lparr>lb_queue := q\<rparr>)
      | [] \<Rightarrow>
          (case block_ms of
             None \<Rightarrow> (NoTask, b)
           | Some d \<Rightarrow> if d \<le> 0 then (NoTask, b)
               else (Blocked, b\<lparr>lb_waiters := lb_waiters b @ [(w, now + d)]\<rparr>)))"

text \<open>The timeout of a blocked consumer.\<close>

definition lb_waiter_timeout :: "nat \<Rightarrow> local_backend \<Rightarrow> local_backend" where
  "lb_waiter_timeout w b =
     (case find_index (\<lambda>(v, d). v = w) (lb_waiters b) of
        None \<Rightarrow> b
      | Some i \<Rightarrow> b\<lparr>lb_waiters := take i (lb_waiters b) @ drop (Suc i) (lb_waiters b)\<rparr>)"

definition lb_ack_task :: "string \<Rightarrow> local_backend \<Rightarrow> local_backend" where
  "lb_ack_task tid b = b"

definition lb_queue_depth :: "local_backend \<Rightarrow> nat \<times> nat" where
  "lb_queue_depth b =
     fold (\<lambda>t (high, low). if tp_priority t = 0 then (high + 1, low) else (high, low + 1))
       (lb_queue b) (0, 0)"

definition lb_list_queued_tasks :: "local_backend \<Rightarrow> task_payload list" where
  "lb_list_queued_tasks b = lb_queue b"

section \<open>Locks\<close>

definition lb_acquire_lock ::
  "string \<Rightarrow> string \<Rightarrow> ms \<Rightarrow> ms \<Rightarrow> local_backend \<Rightarrow> bool \<times> local_backend" where
  "lb_acquire_lock key owner now ttl b =
     (let locks = lt_clean now (lb_locks b)
      in case map_of locks key of
           Some (ow, e) \<Rightarrow>
             if now < e then (False, b\<lparr>lb_locks := locks\<rparr>)
             else (True, b\<lparr>lb_locks := AList.update key (owner, now + ttl) locks\<rparr>)
         | None \<Rightarrow> (True, b\<lparr>lb_locks := AList.update key (owner, now + ttl) locks\<rparr>))"

definition lb_renew_lock ::
  "string \<Rightarrow> string \<Rightarrow> ms \<Rightarrow> ms \<Rightarrow> local_backend \<Rightarrow> bool \<times> local_backend" where
  "lb_renew_lock key owner now ttl b =
     (case map_of (lb_locks b) key of
        None \<Rightarrow> (False, b)
      | Some (ow, e) \<Rightarrow> if ow \<noteq> owner then (False, b)
          else (True, b\<lparr>lb_locks := AList.update key (ow, now + ttl) (lb_locks b)\<rparr>))"

definition lb_release_lock :: "string \<Rightarrow> string \<Rightarrow> local_backend \<Rightarrow> local_backend" where
  "lb_release_lock key owner b =
     (case map_of (lb_locks b) key of
        None \<Rightarrow> b
      | Some (ow, e) \<Rightarrow> if ow = owner then b\<lparr>lb_locks := AList.delete key (lb_locks b)\<rparr> else b)"

section \<open>Atomic capture\<close>

record capture_params =
  cp_instance :: string
  cp_session :: string
  cp_team :: "string option"
  cp_agent :: "string option"
  cp_message :: "string option"
  cp_threshold :: int
  cp_fire_at :: ms
  cp_timer_member :: string
  cp_task :: task_payload
  cp_now :: ms
  cp_rounds :: int

definition cp_key :: "capture_params \<Rightarrow> string" where
  "cp_key c = session_key (cp_instance c) (cp_session c) (cp_team c) (cp_agent c)"

text \<open>
  \<^verbatim>\<open>captureAtomic\<close> has an \<^verbatim>\<open>await\<close> after each call of another method, where other callers
  may run. \<open>capture_message\<close> runs up to the first one, \<open>capture_count\<close> from there to the
  \<^verbatim>\<open>await\<close> on \<^verbatim>\<open>enqueueTask\<close> (or on \<^verbatim>\<open>setTimer\<close>), \<open>capture_reset\<close> is the part after
  \<^verbatim>\<open>enqueueTask\<close>. \<open>capture_atomic\<close> is the uninterrupted call.
\<close>

definition capture_message :: "capture_params \<Rightarrow> local_backend \<Rightarrow> local_backend" where
  "capture_message c b =
     (case cp_message c of
        None \<Rightarrow> b
      | Some m \<Rightarrow> if m = [] then b else lb_append_buffer (cp_key c) m b)"

definition capture_count :: "ms \<Rightarrow> capture_params \<Rightarrow> local_backend \<Rightarrow> bool \<times> local_backend" where
  "capture_count now c b =
     (let state = jget_or (default_pipeline_state\<lparr>last_active_time := cp_now c\<rparr>)
                    (lb_sessions b) (cp_key c);
          state = state\<lparr>conversation_count := conversation_count state + cp_rounds c,
                        last_active_time := cp_now c\<rparr>;
          b = b\<lparr>lb_sessions := AList.update (cp_key c) state (lb_sessions b)\<rparr>
      in if cp_threshold c \<le> conversation_count state
         then (True, snd (lb_enqueue_task (cp_task c) b))
         else (False, lb_set_timer now (cp_instance c) (cp_timer_member c) (cp_fire_at c) b))"

definition capture_reset :: "capture_params \<Rightarrow> local_backend \<Rightarrow> local_backend" where
  "capture_reset c b =
     (case map_of (lb_sessions b) (cp_key c) of
        None \<Rightarrow> lb_remove_timer (cp_instance c) (cp_timer_member c) b
      | Some state \<Rightarrow>
          lb_remove_timer (cp_instance c) (cp_timer_member c)
            (b\<lparr>lb_sessions := AList.update (cp_key c) (state\<lparr>conversation_count := 0\<rparr>) (lb_sessions b)\<rparr>))"

definition capture_atomic ::
  "ms \<Rightarrow> capture_params \<Rightarrow> local_backend \<Rightarrow> (bool \<times> int) \<times> local_backend" where
  "capture_atomic now c b =
     (case capture_count now c (capture_message c b) of
        (True, b') \<Rightarrow> ((True, 0), capture_reset c b')
      | (False, b') \<Rightarrow>
          ((False, conversation_count (jget_or default_pipeline_state (lb_sessions b') (cp_key c))), b'))"

section \<open>Lifecycle\<close>

definition lb_purge_instance :: "string \<Rightarrow> local_backend \<Rightarrow> (nat \<times> nat \<times> nat) \<times> local_backend" where
  "lb_purge_instance inst b =
     (let hit = (\<lambda>key. prefix (inst @ '':'') key)
      in ((length (filter hit (jkeys (lb_sessions b))),
           length (filter hit (jkeys (lb_timers b))),
           length (filter hit (jkeys (lb_buffers b)))),
          b\<lparr>lb_sessions := filter (\<lambda>(k, v). \<not> hit k) (lb_sessions b),
            lb_buffers := filter (\<lambda>(k, v). \<not> hit k) (lb_buffers b),
            lb_timers := filter (\<lambda>(k, v). \<not> hit k) (lb_timers b),
            lb_queue := filter (\<lambda>t. tp_instance t \<noteq> inst) (lb_queue b)\<rparr>))"

text \<open>\<^verbatim>\<open>destroy()\<close>: the waiters it wakes with \<^verbatim>\<open>null\<close>.\<close>

definition lb_destroy :: "local_backend \<Rightarrow> nat list \<times> local_backend" where
  "lb_destroy b =
     (map fst (lb_waiters b),
      b\<lparr>lb_destroyed := True, lb_timers := [], lb_waiters := [], lb_sessions := [],
        lb_buffers := [], lb_queue := [], lb_locks := []\<rparr>)"

definition lb_snapshot :: "local_backend \<Rightarrow> nat \<times> nat \<times> nat \<times> nat \<times> nat" where
  "lb_snapshot b = (length (lb_sessions b), length (lb_buffers b), length (lb_timers b),
     length (lb_queue b), length (lb_locks b))"

section \<open>The locks implement the lock contract\<close>

definition lb_holder :: "local_backend \<Rightarrow> string \<Rightarrow> (string \<times> ms) option" where
  "lb_holder b k = map_of (lb_locks b) k"

definition lb_locks_ok :: "local_backend \<Rightarrow> bool" where
  "lb_locks_ok b \<longleftrightarrow> distinct (jkeys (lb_locks b))"

lemmas lb_lock_defs = lb_acquire_lock_def lb_renew_lock_def lb_release_lock_def
  lb_holder_def lb_locks_ok_def Let_def

interpretation lb_locks: lock_service lb_acquire_lock lb_renew_lock lb_release_lock
  lb_holder lb_locks_ok
proof (unfold_locales, goal_cases)
  case (6 s k now o' ttl)
  then show ?case
    by (fastforce simp: lb_lock_defs lt_clean_get simp del: map_of_eq_Some_iff Some_eq_map_of_iff
        split: option.splits)
qed (auto simp: lb_lock_defs lt_clean_get distinct_lt_clean distinct_update distinct_delete
    simp del: map_of_eq_Some_iff Some_eq_map_of_iff split: option.splits if_splits)

section \<open>The task queue is a stable priority queue\<close>

definition task_le :: "task_payload \<Rightarrow> task_payload \<Rightarrow> bool" where
  "task_le x y \<longleftrightarrow> tp_priority x < tp_priority y \<or>
     tp_priority x = tp_priority y \<and> tp_created_at x \<le> tp_created_at y"

abbreviation queue_sorted :: "task_payload list \<Rightarrow> bool" where
  "queue_sorted q \<equiv> sorted_wrt task_le q"

lemma queued_behind_iff: "queued_behind t x \<longleftrightarrow> \<not> task_le x t"
  by (auto simp: queued_behind_def task_le_def)

lemma task_le_trans: "task_le x y \<Longrightarrow> task_le y z \<Longrightarrow> task_le x z"
  by (auto simp: task_le_def)

lemma task_le_total: "task_le x y \<or> task_le y x"
  by (auto simp: task_le_def)

lemma task_le_notD: "\<not> task_le x y \<Longrightarrow> task_le y x"
  by (auto simp: task_le_def)

lemma insert_task_Nil [simp]: "insert_task t [] = [t]"
  by (simp add: insert_task_def)

lemma insert_task_Cons [simp]:
  "insert_task t (x # q) = (if task_le x t then x # insert_task t q else t # x # q)"
  by (auto simp: insert_task_def queued_behind_iff split: option.splits)

lemma mset_insert_task [simp]: "mset (insert_task t q) = add_mset t (mset q)"
  by (induction q) auto

lemma set_insert_task [simp]: "set (insert_task t q) = insert t (set q)"
  by (induction q) auto

lemma insert_task_nonempty [simp]: "insert_task t q \<noteq> []"
  by (cases q) auto

lemma sorted_insert_task: "queue_sorted q \<Longrightarrow> queue_sorted (insert_task t q)"
  by (induction q) (auto intro: task_le_trans task_le_notD)

lemma insert_task_split:
  "insert_task t q = takeWhile (\<lambda>x. task_le x t) q @ t # dropWhile (\<lambda>x. task_le x t) q"
  by (induction q) auto

text \<open>Well-formedness: the queue is sorted, a consumer only waits while the queue is empty,
  and the keys of every map are distinct.\<close>

definition backend_inv :: "local_backend \<Rightarrow> bool" where
  "backend_inv b \<longleftrightarrow> queue_sorted (lb_queue b) \<and> (lb_waiters b = [] \<or> lb_queue b = []) \<and>
     distinct (jkeys (lb_sessions b)) \<and> distinct (jkeys (lb_buffers b)) \<and>
     distinct (jkeys (lb_timers b)) \<and> lb_locks_ok b"

datatype backend_op =
    OpAppend string string | OpDrain string | OpUpdate ms string session_patch | OpDelete string
  | OpSetTimer ms string string ms | OpSetEarlier ms string string ms | OpRemoveTimer string string
  | OpTimerExpires string | OpGetExpired string ms
  | OpEnqueue task_payload | OpConsume ms nat "ms option" | OpWaiterTimeout nat
  | OpAcquire string string ms ms | OpRenew string string ms ms | OpRelease string string
  | OpCapture ms capture_params | OpPurge string | OpDestroy

fun backend_step :: "backend_op \<Rightarrow> local_backend \<Rightarrow> local_backend" where
  "backend_step (OpAppend k m) b = lb_append_buffer k m b"
| "backend_step (OpDrain k) b = snd (lb_drain_buffer k b)"
| "backend_step (OpUpdate now k p) b = lb_update_session now k p b"
| "backend_step (OpDelete k) b = lb_delete_session k b"
| "backend_step (OpSetTimer now i m f) b = lb_set_timer now i m f b"
| "backend_step (OpSetEarlier now i m f) b = snd (lb_set_timer_if_earlier now i m f b)"
| "backend_step (OpRemoveTimer i m) b = lb_remove_timer i m b"
| "backend_step (OpTimerExpires k) b = snd (lb_timer_expires k b)"
| "backend_step (OpGetExpired i now) b = snd (lb_get_expired_timers i now b)"
| "backend_step (OpEnqueue t) b = snd (lb_enqueue_task t b)"
| "backend_step (OpConsume now w d) b = snd (lb_consume_task now w d b)"
| "backend_step (OpWaiterTimeout w) b = lb_waiter_timeout w b"
| "backend_step (OpAcquire k ow now ttl) b = snd (lb_acquire_lock k ow now ttl b)"
| "backend_step (OpRenew k ow now ttl) b = snd (lb_renew_lock k ow now ttl b)"
| "backend_step (OpRelease k ow) b = lb_release_lock k ow b"
| "backend_step (OpCapture now c) b = snd (capture_atomic now c b)"
| "backend_step (OpPurge i) b = snd (lb_purge_instance i b)"
| "backend_step OpDestroy b = snd (lb_destroy b)"

lemma distinct_keys_fold_delete:
  "distinct (jkeys m) \<Longrightarrow> distinct (jkeys (fold (\<lambda>e m. AList.delete (f e) m) es m))"
  by (induction es arbitrary: m) (auto simp: distinct_keys_delete)

lemma map_of_fold_delete:
  "map_of (fold (\<lambda>e m. AList.delete (f e) m) es m) k = (if k \<in> f ` set es then None else map_of m k)"
  by (induction es arbitrary: m) auto

named_theorems backend_keeps "operations keep the backend's well-formedness"

lemma inv_append [backend_keeps]: "backend_inv b \<Longrightarrow> backend_inv (lb_append_buffer k m b)"
  by (simp add: backend_inv_def lb_append_buffer_def lb_locks_ok_def distinct_update)

lemma inv_drain [backend_keeps]: "backend_inv b \<Longrightarrow> backend_inv (snd (lb_drain_buffer k b))"
  by (auto simp: backend_inv_def lb_drain_buffer_def lb_locks_ok_def distinct_delete split: option.splits)

lemma inv_update [backend_keeps]: "backend_inv b \<Longrightarrow> backend_inv (lb_update_session now k p b)"
  by (simp add: backend_inv_def lb_update_session_def lb_locks_ok_def distinct_update Let_def)

lemma inv_delete [backend_keeps]: "backend_inv b \<Longrightarrow> backend_inv (lb_delete_session k b)"
  by (simp add: backend_inv_def lb_delete_session_def lb_locks_ok_def distinct_delete)

lemma inv_set_timer [backend_keeps]: "backend_inv b \<Longrightarrow> backend_inv (lb_set_timer now i m f b)"
  by (simp add: backend_inv_def lb_set_timer_def lb_locks_ok_def distinct_update Let_def)

lemma inv_set_earlier [backend_keeps]:
  "backend_inv b \<Longrightarrow> backend_inv (snd (lb_set_timer_if_earlier now i m f b))"
  by (auto simp: lb_set_timer_if_earlier_def inv_set_timer split: option.splits)

lemma inv_remove_timer [backend_keeps]: "backend_inv b \<Longrightarrow> backend_inv (lb_remove_timer i m b)"
  by (simp add: backend_inv_def lb_remove_timer_def lb_locks_ok_def distinct_delete)

lemma inv_expires [backend_keeps]: "backend_inv b \<Longrightarrow> backend_inv (snd (lb_timer_expires k b))"
  by (auto simp: backend_inv_def lb_timer_expires_def lb_locks_ok_def distinct_delete split: option.splits)

lemma inv_get_expired [backend_keeps]:
  "backend_inv b \<Longrightarrow> backend_inv (snd (lb_get_expired_timers i now b))"
  by (simp add: backend_inv_def lb_get_expired_timers_def lb_locks_ok_def distinct_keys_fold_delete Let_def)

lemma inv_enqueue [backend_keeps]: "backend_inv b \<Longrightarrow> backend_inv (snd (lb_enqueue_task t b))"
  using sorted_insert_task [of "lb_queue b" t]
  by (auto simp: backend_inv_def lb_enqueue_task_def lb_locks_ok_def Let_def split: list.splits)

lemma inv_consume [backend_keeps]: "backend_inv b \<Longrightarrow> backend_inv (snd (lb_consume_task now w d b))"
  by (auto simp: backend_inv_def lb_consume_task_def lb_locks_ok_def split: list.splits option.splits)

lemma inv_timeout [backend_keeps]: "backend_inv b \<Longrightarrow> backend_inv (lb_waiter_timeout w b)"
  by (auto simp: backend_inv_def lb_waiter_timeout_def lb_locks_ok_def split: option.splits)

lemma inv_locks [backend_keeps]:
  "backend_inv b \<Longrightarrow> backend_inv (snd (lb_acquire_lock k ow now ttl b))"
  "backend_inv b \<Longrightarrow> backend_inv (snd (lb_renew_lock k ow now ttl b))"
  "backend_inv b \<Longrightarrow> backend_inv (lb_release_lock k ow b)"
  by (auto simp: backend_inv_def lb_lock_defs distinct_lt_clean distinct_update distinct_delete
      split: option.splits)

lemma inv_capture_count [backend_keeps]: "backend_inv b \<Longrightarrow> backend_inv (snd (capture_count now c b))"
proof -
  assume b: "backend_inv b"
  then have "backend_inv (b\<lparr>lb_sessions := AList.update k s (lb_sessions b)\<rparr>)" for k s
    by (simp add: backend_inv_def lb_locks_ok_def distinct_update)
  then show ?thesis
    by (simp add: capture_count_def Let_def inv_enqueue inv_set_timer)
qed

lemma inv_capture_reset [backend_keeps]: "backend_inv b \<Longrightarrow> backend_inv (capture_reset c b)"
proof -
  assume b: "backend_inv b"
  then have "backend_inv (b\<lparr>lb_sessions := AList.update k s (lb_sessions b)\<rparr>)" for k s
    by (simp add: backend_inv_def lb_locks_ok_def distinct_update)
  with b show ?thesis
    by (auto simp: capture_reset_def inv_remove_timer split: option.splits)
qed

lemma inv_capture [backend_keeps]: "backend_inv b \<Longrightarrow> backend_inv (snd (capture_atomic now c b))"
proof -
  assume b: "backend_inv b"
  have "backend_inv (capture_message c b)"
    using b by (auto simp: capture_message_def inv_append split: option.splits)
  from inv_capture_count [OF this, of now c] show ?thesis
    by (auto simp: capture_atomic_def inv_capture_reset split: prod.splits bool.splits)
qed

lemma inv_purge [backend_keeps]: "backend_inv b \<Longrightarrow> backend_inv (snd (lb_purge_instance i b))"
  by (auto simp: backend_inv_def lb_purge_instance_def lb_locks_ok_def Let_def
      intro: distinct_keys_filter sorted_wrt_filter)

lemma inv_destroy [backend_keeps]: "backend_inv b \<Longrightarrow> backend_inv (snd (lb_destroy b))"
  by (simp add: backend_inv_def lb_destroy_def lb_locks_ok_def)

lemma backend_step_inv: "backend_inv b \<Longrightarrow> backend_inv (backend_step op b)"
  by (cases op) (simp_all add: backend_keeps)

lemma backend_run_inv: "backend_inv b \<Longrightarrow> backend_inv (fold backend_step ops b)"
  by (induction ops arbitrary: b) (auto intro: backend_step_inv)

lemma new_backend_inv: "backend_inv (new_backend cb)"
  by (simp add: backend_inv_def new_backend_def lb_locks_ok_def)

section \<open>Properties\<close>

text \<open>
  C33: whatever sequence of operations a backend goes through, its task queue stays sorted by
  priority and creation time, no consumer is left waiting while a task is queued, and every
  map holds at most one entry per key.
\<close>

theorem backend_well_formed: "backend_inv (fold backend_step ops (new_backend cb))"
  by (rule backend_run_inv [OF new_backend_inv])

text \<open>
  a queued task goes behind every task of smaller or equal rank and in front of the rest,
  so tasks of equal rank leave in the order they came; when a consumer is waiting it receives
  exactly the new task and the queue stays empty.
\<close>

theorem enqueue_task_correct:
  assumes "backend_inv b"
  shows "lb_enqueue_task t b =
    (case lb_waiters b of
       [] \<Rightarrow> (None, b\<lparr>lb_queue := takeWhile (\<lambda>x. task_le x t) (lb_queue b) @ t #
                                 dropWhile (\<lambda>x. task_le x t) (lb_queue b)\<rparr>)
     | (w, due) # ws \<Rightarrow> (Some (w, Some t), b\<lparr>lb_waiters := ws\<rparr>))"
  using assms
  by (auto simp: lb_enqueue_task_def backend_inv_def insert_task_split Let_def split: list.splits)

definition demo_task :: "int \<Rightarrow> ms \<Rightarrow> task_payload" where
  "demo_task p t = \<lparr>tp_id = ''t'', tp_type = T_L1, tp_instance = ''i'', tp_session = ''s'',
     tp_team = None, tp_agent = None, tp_priority = p, tp_data = None, tp_created_at = t\<rparr>"

theorem enqueue_task_correct_witness:
  "lb_queue (snd (lb_enqueue_task (demo_task 1 5)
     ((new_backend False)\<lparr>lb_queue := [demo_task 0 9, demo_task 1 5, demo_task 2 1]\<rparr>))) =
   [demo_task 0 9, demo_task 1 5, demo_task 1 5, demo_task 2 1]"
proof -
  have "backend_inv ((new_backend False)\<lparr>lb_queue := [demo_task 0 9, demo_task 1 5, demo_task 2 1]\<rparr>)"
    by (simp add: backend_inv_def new_backend_def lb_locks_ok_def task_le_def demo_task_def)
  from enqueue_task_correct [OF this, of "demo_task 1 5"] show ?thesis
    by (simp add: new_backend_def task_le_def demo_task_def)
qed

text \<open>
  lock exclusion. Once an acquisition succeeds, no acquisition of the same key succeeds
  before the expiry, whatever the other parties do in between, unless the owner releases or
  renews it; and the holder recorded at the end is still the owner.
\<close>

theorem backend_lock_exclusive:
  assumes "lb_locks_ok b" "lb_acquire_lock k ow now ttl b = (True, b')"
    and "\<And>ow' e'. lb_holder b k = Some (ow', e') \<Longrightarrow> e' \<le> now"
    and "\<And>ev. ev \<in> set es \<Longrightarrow> undisturbed k ow (now + ttl) ev"
    and "\<And>ev t l. ev \<in> set es \<Longrightarrow> ev \<noteq> LRenew k ow t l"
    and "lock_run lb_acquire_lock lb_renew_lock lb_release_lock es b' = (results, b'')"
  shows "lb_holder b'' k = Some (ow, now + ttl) \<and>
    (\<forall>i < length es. \<forall>o' t l. es ! i = LAcquire k o' t l \<longrightarrow> \<not> results ! i)"
proof -
  have "lb_holder b' k = Some (ow, now + ttl)"
    using lb_locks.acquire_free [OF assms(1), of k now ow ttl] assms(2,3) by auto
  moreover have "lb_locks_ok b'"
    using lb_locks.invar_acquire [OF assms(1), of k ow now ttl] assms(2) by simp
  ultimately show ?thesis
    using lb_locks.held_until_expiry [of b' k ow "now + ttl" es] assms(4,5,6) by auto
qed

definition lock_demo :: "(string, string) lock_event list" where
  "lock_demo = [LAcquire ''L3'' ''w2'' 5 100, LRelease ''L3'' ''w2'' 6, LAcquire ''L3'' ''w3'' 99 100]"

theorem backend_lock_exclusive_witness:
  "\<exists>b' b'' rs. lb_acquire_lock ''L3'' ''w1'' 0 100 (new_backend False) = (True, b') \<and>
     lock_run lb_acquire_lock lb_renew_lock lb_release_lock lock_demo b' = (rs, b'') \<and>
     lb_holder b'' ''L3'' = Some (''w1'', 100) \<and> \<not> rs ! 0 \<and> \<not> rs ! 2"
proof -
  obtain b' where b': "lb_acquire_lock ''L3'' ''w1'' 0 100 (new_backend False) = (True, b')"
    by (simp add: lb_acquire_lock_def new_backend_def lt_clean_def)
  obtain rs b'' where r: "lock_run lb_acquire_lock lb_renew_lock lb_release_lock lock_demo b' = (rs, b'')"
    by fastforce
  have ok: "lb_locks_ok (new_backend False)" by (simp add: lb_locks_ok_def new_backend_def)
  have "lb_holder b'' ''L3'' = Some (''w1'', 0 + 100) \<and>
    (\<forall>i < length lock_demo. \<forall>o' t l. lock_demo ! i = LAcquire ''L3'' o' t l \<longrightarrow> \<not> rs ! i)"
    by (rule backend_lock_exclusive [OF ok b' _ _ _ r])
      (auto simp: lock_demo_def lb_holder_def new_backend_def)
  moreover have "lock_demo ! 0 = LAcquire ''L3'' ''w2'' 5 100" "lock_demo ! 2 = LAcquire ''L3'' ''w3'' 99 100"
    "length lock_demo = 3"
    by (simp_all add: lock_demo_def)
  ultimately have "lb_holder b'' ''L3'' = Some (''w1'', 100) \<and> \<not> rs ! 0 \<and> \<not> rs ! 2"
    by force
  with b' r show ?thesis by blast
qed

text \<open>
  an uninterrupted capture adds its rounds to the session's count; when the sum reaches
  the threshold it queues the task (or hands it to a waiting consumer), resets the count and
  drops the idle timer, and otherwise it leaves the sum and re-arms the idle timer.
\<close>

definition captured_count :: "capture_params \<Rightarrow> local_backend \<Rightarrow> int" where
  "captured_count c b = cp_rounds c +
     (case map_of (lb_sessions b) (cp_key c) of None \<Rightarrow> 0 | Some s \<Rightarrow> conversation_count s)"

lemma lb_sessions_enqueue [simp]: "lb_sessions (snd (lb_enqueue_task t b)) = lb_sessions b"
  by (auto simp: lb_enqueue_task_def Let_def split: list.splits)

lemma lb_sessions_set_timer [simp]: "lb_sessions (lb_set_timer now i m f b) = lb_sessions b"
  by (simp add: lb_set_timer_def Let_def)

lemma lb_sessions_append [simp]: "lb_sessions (lb_append_buffer k m b) = lb_sessions b"
  by (simp add: lb_append_buffer_def)

lemma capture_message_frame [simp]:
  "lb_sessions (capture_message c b) = lb_sessions b"
  "lb_queue (capture_message c b) = lb_queue b"
  "lb_waiters (capture_message c b) = lb_waiters b"
  by (auto simp: capture_message_def lb_append_buffer_def split: option.splits)

theorem capture_atomic_correct:
  assumes "capture_atomic now c b = ((triggered, n), b')"
  shows "(triggered \<longleftrightarrow> cp_threshold c \<le> captured_count c b)
       \<and> n = (if triggered then 0 else captured_count c b)
       \<and> (\<exists>s. map_of (lb_sessions b') (cp_key c) = Some s \<and> conversation_count s = n
              \<and> last_active_time s = cp_now c)
       \<and> map_option it_fire_at (map_of (lb_timers b') (timer_key (cp_instance c) (cp_timer_member c)))
           = (if triggered then None else Some (cp_fire_at c))
       \<and> lb_queue b' = (if triggered \<and> lb_waiters b = [] then insert_task (cp_task c) (lb_queue b)
                        else if triggered then tl (insert_task (cp_task c) (lb_queue b))
                        else lb_queue b)"
proof -
  let ?k = "cp_key c"
  have cc: "conversation_count (jget_or (default_pipeline_state\<lparr>last_active_time := cp_now c\<rparr>)
      (lb_sessions b) ?k) + cp_rounds c = captured_count c b"
    by (auto simp: captured_count_def jget_or_def default_pipeline_state_def split: option.splits)
  show ?thesis
  proof (cases "cp_threshold c \<le> captured_count c b")
    case True
    with cc assms show ?thesis
      by (auto simp: capture_atomic_def capture_count_def capture_reset_def lb_remove_timer_def Let_def
          lb_enqueue_task_def split: list.splits)
  next
    case False
    with cc assms show ?thesis
      by (auto simp: capture_atomic_def capture_count_def lb_set_timer_def Let_def)
  qed
qed

definition capture_demo :: "int \<Rightarrow> capture_params" where
  "capture_demo thr = \<lparr>cp_instance = ''i'', cp_session = ''s'', cp_team = None, cp_agent = None,
     cp_message = None, cp_threshold = thr, cp_fire_at = 60, cp_timer_member = ''s:L1_idle'',
     cp_task = demo_task 0 7, cp_now = 7, cp_rounds = 1\<rparr>"

theorem capture_atomic_correct_witness:
  "fst (capture_atomic 7 (capture_demo 1) (new_backend False)) = (True, 0)
   \<and> fst (capture_atomic 7 (capture_demo 2) (new_backend False)) = (False, 1)"
proof -
  obtain t n b' where 1: "capture_atomic 7 (capture_demo 1) (new_backend False) = ((t, n), b')"
    by (metis surj_pair)
  obtain t2 n2 b2 where 2: "capture_atomic 7 (capture_demo 2) (new_backend False) = ((t2, n2), b2)"
    by (metis surj_pair)
  have c: "captured_count (capture_demo k) (new_backend False) = 1" "cp_threshold (capture_demo k) = k"
    for k by (simp_all add: captured_count_def capture_demo_def new_backend_def)
  note r1 = capture_atomic_correct [OF 1, unfolded c]
    and r2 = capture_atomic_correct [OF 2, unfolded c]
  from r1 [THEN conjunct1] r1 [THEN conjunct2, THEN conjunct1]
    r2 [THEN conjunct1] r2 [THEN conjunct2, THEN conjunct1]
  show ?thesis by (simp add: 1 2)
qed

text \<open>
  two captures of one session that overlap at the \<^verbatim>\<open>await\<close> on \<^verbatim>\<open>enqueueTask\<close> both pass
  the threshold and queue two tasks, although the same two captures run one after the other
  queue one task and leave a count of one: the operation is not atomic.
\<close>

theorem overlapping_captures_trigger_twice:
  "let c = (capture_demo 2); b0 = backend_step (OpCapture 7 c) (new_backend False);
       (t1, b1) = capture_count 7 c b0;
       (t2, b2) = capture_count 7 c b1;
       overlapped = capture_reset c (capture_reset c b2);
       sequential = backend_step (OpCapture 7 c) (backend_step (OpCapture 7 c) b0)
   in t1 \<and> t2 \<and> lb_queue overlapped = [cp_task c, cp_task c]
      \<and> lb_queue sequential = [cp_task c]
      \<and> map_option conversation_count (lb_get_session (cp_key c) sequential) = Some 1"
  by code_simp

text \<open>
  The keys of the timers map are built by \<open>timer_key\<close> from an instance id without a colon.
\<close>

definition timers_keyed :: "local_backend \<Rightarrow> bool" where
  "timers_keyed b \<longleftrightarrow> distinct (jkeys (lb_timers b)) \<and>
     (\<forall>k t. map_of (lb_timers b) k = Some t \<longrightarrow>
        (\<exists>i. CHR '':'' \<notin> set i \<and> k = timer_key i (it_member t)))"

lemma timer_key_prefix:
  "CHR '':'' \<notin> set i \<Longrightarrow> CHR '':'' \<notin> set j \<Longrightarrow> prefix (i @ '':'') (timer_key j m) \<longleftrightarrow> i = j"
  using prefix_sep_iff [of "CHR '':''" i j m] by (simp add: timer_key_def)

lemma timer_key_inject:
  "CHR '':'' \<notin> set i \<Longrightarrow> CHR '':'' \<notin> set j \<Longrightarrow> timer_key i m = timer_key j n \<longleftrightarrow> i = j \<and> m = n"
  by (simp add: timer_key_def sep_append_eq)

lemma timers_keyed_set_timer:
  assumes "timers_keyed b" "CHR '':'' \<notin> set i"
  shows "timers_keyed (lb_set_timer now i m f b)"
proof -
  have "\<exists>j. CHR '':'' \<notin> set j \<and> k = timer_key j (it_member t)"
    if "map_of (lb_timers (lb_set_timer now i m f b)) k = Some t" for k t
  proof (cases "k = timer_key i m")
    case True
    with that have "it_member t = m" by (auto simp: lb_set_timer_def Let_def simp del: map_of_eq_Some_iff)
    with True assms(2) show ?thesis by blast
  next
    case False
    with that have "map_of (lb_timers b) k = Some t" by (simp add: lb_set_timer_def Let_def)
    with assms(1) show ?thesis by (simp add: timers_keyed_def del: map_of_eq_Some_iff)
  qed
  moreover have "distinct (jkeys (lb_timers (lb_set_timer now i m f b)))"
    using assms(1) by (simp add: timers_keyed_def lb_set_timer_def Let_def distinct_update)
  ultimately show ?thesis by (simp add: timers_keyed_def del: map_of_eq_Some_iff)
qed

lemma timers_keyed_new [simp]: "timers_keyed (new_backend cb)"
  by (simp add: timers_keyed_def new_backend_def)

definition timer_due :: "string \<Rightarrow> ms \<Rightarrow> local_backend \<Rightarrow> string \<Rightarrow> internal_timer \<Rightarrow> bool" where
  "timer_due inst now b m t \<longleftrightarrow>
     map_of (lb_timers b) (timer_key inst m) = Some t \<and> it_fire_at t \<le> now"

lemma keyed_member:
  assumes "timers_keyed b" "CHR '':'' \<notin> set inst" "map_of (lb_timers b) (timer_key inst m) = Some t"
  shows "it_member t = m"
proof -
  from assms(1,3) obtain i where i: "CHR '':'' \<notin> set i" "timer_key inst m = timer_key i (it_member t)"
    unfolding timers_keyed_def by (elim conjE allE impE exE) assumption+
  with timer_key_inject [OF assms(2) i(1), of m "it_member t"] show ?thesis by simp
qed

lemma expired_entries:
  assumes "timers_keyed b" "CHR '':'' \<notin> set inst"
  shows "set (fst (lb_get_expired_timers inst now b)) =
    {\<lparr>te_instance = Some inst, te_member = m, te_fire_at = it_fire_at t\<rparr> |m t. timer_due inst now b m t}"
    (is "?L = ?R")
proof -
  have dist: "distinct (jkeys (lb_timers b))" using assms(1) by (simp add: timers_keyed_def)
  have key: "\<exists>i. CHR '':'' \<notin> set i \<and> k = timer_key i (it_member t)"
    if "(k, t) \<in> set (lb_timers b)" for k t
    using assms(1) map_of_is_SomeI [OF dist that] by (simp add: timers_keyed_def del: map_of_eq_Some_iff)
  have "?L = {\<lparr>te_instance = Some inst, te_member = it_member t, te_fire_at = it_fire_at t\<rparr> |k t.
      (k, t) \<in> set (lb_timers b) \<and> prefix (inst @ '':'') k \<and> it_fire_at t \<le> now}"
    by (auto simp: lb_get_expired_timers_def Let_def split: if_splits)
  also have "\<dots> = ?R"
  proof (intro set_eqI iffI)
    fix e assume "e \<in> {\<lparr>te_instance = Some inst, te_member = it_member t, te_fire_at = it_fire_at t\<rparr> |k t.
      (k, t) \<in> set (lb_timers b) \<and> prefix (inst @ '':'') k \<and> it_fire_at t \<le> now}"
    then obtain k t where kt: "e = \<lparr>te_instance = Some inst, te_member = it_member t, te_fire_at = it_fire_at t\<rparr>"
      "(k, t) \<in> set (lb_timers b)" "prefix (inst @ '':'') k" "it_fire_at t \<le> now" by blast
    obtain i where i: "CHR '':'' \<notin> set i" "k = timer_key i (it_member t)"
      using key [OF kt(2)] by blast
    with kt(3) assms(2) have "i = inst" by (simp add: timer_key_prefix)
    with i kt dist have "timer_due inst now b (it_member t) t"
      by (simp add: timer_due_def)
    with kt(1) show "e \<in> ?R" by blast
  next
    fix e assume "e \<in> ?R"
    then obtain m t where mt: "e = \<lparr>te_instance = Some inst, te_member = m, te_fire_at = it_fire_at t\<rparr>"
      "timer_due inst now b m t" by blast
    then have "it_member t = m" using keyed_member [OF assms] by (simp add: timer_due_def)
    moreover have "(timer_key inst m, t) \<in> set (lb_timers b)"
      using mt(2) by (auto simp: timer_due_def dest: map_of_SomeD)
    ultimately show "e \<in> {\<lparr>te_instance = Some inst, te_member = it_member t, te_fire_at = it_fire_at t\<rparr> |k t.
      (k, t) \<in> set (lb_timers b) \<and> prefix (inst @ '':'') k \<and> it_fire_at t \<le> now}"
      using mt timer_key_prefix [OF assms(2,2), of m] by (auto simp: timer_due_def)
  qed
  finally show ?thesis .
qed

lemma expired_removed:
  "map_of (lb_timers (snd (lb_get_expired_timers inst now b))) k =
    (if k \<in> (\<lambda>e. timer_key inst (te_member e)) ` set (fst (lb_get_expired_timers inst now b))
     then None else map_of (lb_timers b) k)"
  by (simp add: lb_get_expired_timers_def Let_def map_of_fold_delete)

text \<open>
  for instance ids without a colon, collecting the expired timers of an instance returns
  exactly its timers that are due and removes exactly those, leaving every other timer of
  every instance as it was.
\<close>

theorem expired_timers_correct:
  assumes "timers_keyed b" "CHR '':'' \<notin> set inst"
    and "lb_get_expired_timers inst now b = (es, b')"
  shows "set es = {\<lparr>te_instance = Some inst, te_member = m, te_fire_at = it_fire_at t\<rparr> |m t.
                     timer_due inst now b m t}
       \<and> (\<forall>j m. CHR '':'' \<notin> set j \<longrightarrow> map_of (lb_timers b') (timer_key j m) =
            (if j = inst \<and> (\<exists>t. timer_due inst now b m t) then None
             else map_of (lb_timers b) (timer_key j m)))"
proof -
  have es: "set es = {\<lparr>te_instance = Some inst, te_member = m, te_fire_at = it_fire_at t\<rparr> |m t.
                     timer_due inst now b m t}"
    using expired_entries [OF assms(1,2), of now] assms(3) by simp
  have "timer_key j m \<in> (\<lambda>e. timer_key inst (te_member e)) ` set es \<longleftrightarrow>
      j = inst \<and> (\<exists>t. timer_due inst now b m t)" if "CHR '':'' \<notin> set j" for j m
  proof
    assume "timer_key j m \<in> (\<lambda>e. timer_key inst (te_member e)) ` set es"
    then show "j = inst \<and> (\<exists>t. timer_due inst now b m t)"
      using timer_key_inject [OF that assms(2)] unfolding es by auto
  next
    assume "j = inst \<and> (\<exists>t. timer_due inst now b m t)"
    then obtain t where t: "j = inst" "timer_due inst now b m t" by blast
    then have "\<lparr>te_instance = Some inst, te_member = m, te_fire_at = it_fire_at t\<rparr> \<in> set es"
      unfolding es by blast
    then show "timer_key j m \<in> (\<lambda>e. timer_key inst (te_member e)) ` set es"
      using t(1) by (force simp: image_iff)
  qed
  then show ?thesis
    using es expired_removed [of inst now b] assms(3) by auto
qed

definition expired_demo :: local_backend where
  "expired_demo = lb_set_timer 0 ''i'' ''late'' 50
     (lb_set_timer 0 ''j'' ''s'' 5 (lb_set_timer 0 ''i'' ''s'' 5 (new_backend False)))"

theorem expired_timers_correct_witness:
  "\<exists>es b'. lb_get_expired_timers ''i'' 10 expired_demo = (es, b') \<and>
     map_of (lb_timers b') (timer_key ''i'' ''s'') = None \<and>
     map_of (lb_timers b') (timer_key ''j'' ''s'') \<noteq> None \<and>
     map_of (lb_timers b') (timer_key ''i'' ''late'') \<noteq> None"
proof -
  obtain es b' where r: "lb_get_expired_timers ''i'' 10 expired_demo = (es, b')" by fastforce
  have "timers_keyed expired_demo"
    unfolding expired_demo_def by (intro timers_keyed_set_timer) simp_all
  from expired_timers_correct [OF this _ r] have
    *: "\<And>j m. CHR '':'' \<notin> set j \<Longrightarrow> map_of (lb_timers b') (timer_key j m) =
         (if j = ''i'' \<and> (\<exists>t. timer_due ''i'' 10 expired_demo m t) then None
          else map_of (lb_timers expired_demo) (timer_key j m))"
    by simp
  show ?thesis
    using r *[of "''i''" "''s''"] *[of "''j''" "''s''"] *[of "''i''" "''late''"]
    by (simp add: timer_due_def expired_demo_def lb_set_timer_def timer_key_def new_backend_def Let_def)
qed

text \<open>
  When instance ids may contain a colon the prefix test confuses them: a timer of
  instance \<^verbatim>\<open>a:b\<close> is reported as an expired timer of instance \<^verbatim>\<open>a\<close>, it stays armed, and
  purging \<^verbatim>\<open>a\<close> deletes the state of \<^verbatim>\<open>a:b\<close>.
\<close>

definition colon_demo :: local_backend where
  "colon_demo = lb_append_buffer (session_key ''a:b'' ''s'' None None) ''m''
     (lb_set_timer 0 ''a:b'' ''s'' 5 (new_backend False))"

theorem colon_instances_confused:
  "lb_get_expired_timers ''a'' 10 colon_demo =
     ([\<lparr>te_instance = Some ''a'', te_member = ''s'', te_fire_at = 5\<rparr>], colon_demo)
   \<and> lb_buffer_length (session_key ''a:b'' ''s'' None None) colon_demo = 1
   \<and> lb_buffer_length (session_key ''a:b'' ''s'' None None) (snd (lb_purge_instance ''a'' colon_demo)) = 0"
  by code_simp

text \<open>
  for instance ids without a colon, purging an instance removes exactly its own session
  states, buffers, timers and queued tasks; every entry of another instance survives.
\<close>

definition of_instance :: "string \<Rightarrow> string \<Rightarrow> bool" where
  "of_instance inst k \<longleftrightarrow> (\<exists>rest. k = inst @ '':'' @ rest)"

lemma prefix_of_instance: "prefix (inst @ '':'') k \<longleftrightarrow> of_instance inst k"
  by (auto simp: of_instance_def prefix_def)

theorem purge_instance_exact:
  assumes "CHR '':'' \<notin> set inst" "CHR '':'' \<notin> set other" "inst \<noteq> other"
    and "lb_purge_instance inst b = (counts, b')"
  shows "map_of (lb_sessions b') (session_key inst s t a) = None
       \<and> map_of (lb_buffers b') (session_key inst s t a) = None
       \<and> map_of (lb_timers b') (timer_key inst m) = None
       \<and> map_of (lb_sessions b') (session_key other s t a) = map_of (lb_sessions b) (session_key other s t a)
       \<and> map_of (lb_buffers b') (session_key other s t a) = map_of (lb_buffers b) (session_key other s t a)
       \<and> map_of (lb_timers b') (timer_key other m) = map_of (lb_timers b) (timer_key other m)
       \<and> lb_queue b' = filter (\<lambda>x. tp_instance x \<noteq> inst) (lb_queue b)"
proof -
  have own: "prefix (inst @ '':'') (session_key inst s t a)" "prefix (inst @ '':'') (timer_key inst m)"
    by (simp_all add: session_key_def timer_key_def)
  have oth: "\<not> prefix (inst @ '':'') (session_key other s t a)"
    using prefix_sep_iff [OF assms(1,2)] assms(3) by (simp add: session_key_def)
  have oth2: "\<not> prefix (inst @ '':'') (timer_key other m)"
    using timer_key_prefix [OF assms(1,2)] assms(3) by simp
  have b': "b' = snd (lb_purge_instance inst b)" using assms(4) by simp
  show ?thesis
    unfolding b' lb_purge_instance_def Let_def using own oth oth2
    by (simp add: map_of_filter_key)
qed

theorem purge_instance_exact_witness:
  "\<exists>n b'. lb_purge_instance ''i'' expired_demo = (n, b') \<and>
     map_of (lb_timers b') (timer_key ''i'' ''s'') = None \<and>
     map_of (lb_timers b') (timer_key ''j'' ''s'') = map_of (lb_timers expired_demo) (timer_key ''j'' ''s'')"
proof -
  obtain n b' where r: "lb_purge_instance ''i'' expired_demo = (n, b')" by fastforce
  have "\<And>m. map_of (lb_timers b') (timer_key ''i'' m) = None \<and>
      map_of (lb_timers b') (timer_key ''j'' m) = map_of (lb_timers expired_demo) (timer_key ''j'' m)"
    using purge_instance_exact [OF _ _ _ r, of "''j''"] by simp
  with r show ?thesis by blast
qed

end
