(* ===== verification/Pipeline_Manager.thy ===== *)
theory Pipeline_Manager
  imports Serial_Queue Managed_Timer Session_Filter State_Backend
begin

text \<open>
  \<^verbatim>\<open>MemoryCore/src/utils/pipeline-manager.ts\<close>: the scheduler that moves captured
  conversations through L1 (batch extraction), L2 (scene extraction) and L3 (persona).

  JavaScript runs one task at a time and yields only at an \<^verbatim>\<open>await\<close>, so every method is cut
  at its \<^verbatim>\<open>await\<close>s and each piece is one definition, atomic in the model. The piece a
  running L1, L2 or L3 task is waiting at is recorded in a phase; a
  \<^verbatim>\<open>notifyConversation\<close> that waits for \<^verbatim>\<open>persistStates\<close> is a pending continuation. Calls of
  the runners and of the persister (supplied from outside) are appended to a log in the
  order they are made; their results arrive as arguments of the piece that follows.
  Logging and metrics are left out. \<^verbatim>\<open>Date.now()\<close> is the argument \<open>now\<close>.

  The \<^verbatim>\<open>finally\<close> callbacks of one queue task (the one attached by the enqueuing method, then
  the one of \<^verbatim>\<open>SerialQueue.drain\<close>) run in adjacent microtasks and are one piece.
\<close>

section \<open>Configuration\<close>

text \<open>\<^verbatim>\<open>PipelineConfig\<close>, times in seconds and hours.\<close>

record pipeline_config =
  every_n_conversations :: int
  enable_warmup :: bool
  l1_idle_timeout_seconds :: int
  l2_delay_after_l1_seconds :: int
  l2_min_interval_seconds :: int
  l2_max_interval_seconds :: int
  l2_session_active_window_hours :: int

record manager_config =
  mc_l1_idle_timeout :: ms
  mc_every_n :: int
  mc_warmup :: bool
  mc_l2_delay :: ms
  mc_l2_min :: ms
  mc_l2_max :: ms
  mc_active_window :: ms
  mc_filter :: session_filter

definition manager_config_of :: "pipeline_config \<Rightarrow> session_filter \<Rightarrow> manager_config" where
  "manager_config_of c f = \<lparr>
     mc_l1_idle_timeout = l1_idle_timeout_seconds c * 1000,
     mc_every_n = every_n_conversations c,
     mc_warmup = enable_warmup c,
     mc_l2_delay = l2_delay_after_l1_seconds c * 1000,
     mc_l2_min = l2_min_interval_seconds c * 1000,
     mc_l2_max = l2_max_interval_seconds c * 1000,
     mc_active_window = l2_session_active_window_hours c * 60 * 60 * 1000,
     mc_filter = f\<rparr>"

definition l1_retry_delay_ms :: ms where "l1_retry_delay_ms = 30000"
definition l1_max_retries :: nat where "l1_max_retries = 5"
definition session_gc_inactive_multiplier :: int where "session_gc_inactive_multiplier = 3"
definition session_gc_every_n_notifications :: nat where "session_gc_every_n_notifications = 50"

section \<open>State\<close>

record captured_message =
  cm_role :: string
  cm_content :: string
  cm_timestamp :: string

datatype l2_source = DelayAfterL1 | MaxInterval

datatype timer_callback = OnL1Idle string | OnL2Fired string l2_source

record session_timers =
  st_l1_idle :: "timer_callback managed_timer"
  st_l2_schedule :: "timer_callback managed_timer"
  st_l1_queued :: bool
  st_l2_queued :: bool
  st_l1_retry_count :: nat

definition new_timers :: session_timers where
  "new_timers = \<lparr>st_l1_idle = mt_new, st_l2_schedule = mt_new, st_l1_queued = False,
     st_l2_queued = False, st_l1_retry_count = 0\<rparr>"

text \<open>\<^verbatim>\<open>L1RunnerResult\<close> and \<^verbatim>\<open>L2RunnerResult\<close>; a runner may also return nothing (None).\<close>

record l1_result =
  l1r_profile_scopes :: "string list option"
  l1r_has_more :: bool
  l1r_has_full_backlog :: bool

record l2_result =
  l2r_latest_cursor :: "string option"
  l2r_skipped :: bool

datatype l1_phase = L1None
  | L1AwaitRunner string "captured_message list"
  | L1AwaitPersist string "string list" "l1_result option"
  | L1AwaitPersistNoRunner string
  | L1Settled string

datatype l2_phase = L2None | L2AwaitRunner string | L2AwaitPersist string bool | L2Settled string

datatype l3_phase = L3None | L3AwaitRunner | L3Settled

datatype destroy_phase = NotDestroyed | FlushingL1 | FlushingL2L3 | Persisted

datatype effect =
    CallL1 string "captured_message list"
  | CallL2 string "string option"
  | CallL3
  | Persist "(string, session_state) jsmap"

record pipeline =
  pl_cfg :: manager_config
  pl_has_l1_runner :: bool
  pl_has_l2_runner :: bool
  pl_has_l3_runner :: bool
  pl_has_persister :: bool
  pl_sessions :: "(string, session_state) jsmap"
  pl_timers :: "(string, session_timers) jsmap"
  pl_buffers :: "(string, captured_message list) jsmap"
  pl_l2_last_run :: "(string, ms) jsmap"
  pl_l1q :: "string serial_queue"
  pl_l2q :: "string serial_queue"
  pl_l3q :: "unit serial_queue"
  pl_l1_phase :: l1_phase
  pl_l2_phase :: l2_phase
  pl_l3_phase :: l3_phase
  pl_l3_pending :: bool
  pl_l3_running :: bool
  pl_notifies :: "(string \<times> int) list"
  pl_notify_counter :: nat
  pl_destroyed :: bool
  pl_destroy_phase :: destroy_phase
  pl_log :: "effect list"

definition new_pipeline :: "manager_config \<Rightarrow> bool \<Rightarrow> bool \<Rightarrow> bool \<Rightarrow> bool \<Rightarrow> pipeline" where
  "new_pipeline cfg r1 r2 r3 pers = \<lparr>pl_cfg = cfg, pl_has_l1_runner = r1, pl_has_l2_runner = r2,
     pl_has_l3_runner = r3, pl_has_persister = pers, pl_sessions = [], pl_timers = [],
     pl_buffers = [], pl_l2_last_run = [], pl_l1q = sq_empty, pl_l2q = sq_empty, pl_l3q = sq_empty,
     pl_l1_phase = L1None, pl_l2_phase = L2None, pl_l3_phase = L3None, pl_l3_pending = False,
     pl_l3_running = False, pl_notifies = [], pl_notify_counter = 0, pl_destroyed = False,
     pl_destroy_phase = NotDestroyed, pl_log = []\<rparr>"

section \<open>State management\<close>

definition initial_session :: "manager_config \<Rightarrow> ms \<Rightarrow> session_state" where
  "initial_session cfg now = \<lparr>conversation_count = 0, last_extraction_time = [],
     last_extraction_updated_time = [], last_active_time = now, l2_pending_l1_count = 0,
     warmup_threshold = (if mc_warmup cfg then 1 else 0), l2_last_extraction_time = []\<rparr>"

text \<open>\<^verbatim>\<open>getOrCreateState\<close> and \<^verbatim>\<open>getOrCreateTimers\<close>, as the effect on the maps; assignments to
  the fields of the returned object are \<open>mod_state\<close> and \<open>mod_timers\<close>.\<close>

definition get_or_create_state :: "ms \<Rightarrow> string \<Rightarrow> pipeline \<Rightarrow> pipeline" where
  "get_or_create_state now k p =
     (case map_of (pl_sessions p) k of
        Some s \<Rightarrow> p
      | None \<Rightarrow> p\<lparr>pl_sessions := AList.update k (initial_session (pl_cfg p) now) (pl_sessions p)\<rparr>)"

definition get_or_create_timers :: "string \<Rightarrow> pipeline \<Rightarrow> pipeline" where
  "get_or_create_timers k p =
     (case map_of (pl_timers p) k of
        Some t \<Rightarrow> p
      | None \<Rightarrow> p\<lparr>pl_timers := AList.update k new_timers (pl_timers p)\<rparr>)"

definition mod_state :: "string \<Rightarrow> (session_state \<Rightarrow> session_state) \<Rightarrow> pipeline \<Rightarrow> pipeline" where
  "mod_state k f p =
     (case map_of (pl_sessions p) k of
        Some s \<Rightarrow> p\<lparr>pl_sessions := AList.update k (f s) (pl_sessions p)\<rparr>
      | None \<Rightarrow> p)"

definition mod_timers :: "string \<Rightarrow> (session_timers \<Rightarrow> session_timers) \<Rightarrow> pipeline \<Rightarrow> pipeline" where
  "mod_timers k f p =
     (case map_of (pl_timers p) k of
        Some t \<Rightarrow> p\<lparr>pl_timers := AList.update k (f t) (pl_timers p)\<rparr>
      | None \<Rightarrow> p)"

abbreviation timers_of :: "pipeline \<Rightarrow> string \<Rightarrow> session_timers" where
  "timers_of p k \<equiv> jget_or new_timers (pl_timers p) k"

abbreviation buffer_of :: "pipeline \<Rightarrow> string \<Rightarrow> captured_message list" where
  "buffer_of p k \<equiv> jget_or [] (pl_buffers p) k"

definition set_buffer :: "string \<Rightarrow> captured_message list \<Rightarrow> pipeline \<Rightarrow> pipeline" where
  "set_buffer k b p = p\<lparr>pl_buffers := AList.update k b (pl_buffers p)\<rparr>"

definition log_effect :: "effect \<Rightarrow> pipeline \<Rightarrow> pipeline" where
  "log_effect e p = p\<lparr>pl_log := pl_log p @ [e]\<rparr>"

text \<open>\<^verbatim>\<open>persistStates\<close>: a snapshot of all states; an error of the persister is swallowed.\<close>

definition persist_states :: "pipeline \<Rightarrow> pipeline" where
  "persist_states p =
     (if \<not> pl_has_persister p then p else log_effect (Persist (pl_sessions p)) p)"

section \<open>Warm-up thresholds\<close>

definition get_effective_threshold :: "manager_config \<Rightarrow> session_state \<Rightarrow> int" where
  "get_effective_threshold cfg s =
     (if \<not> mc_warmup cfg then mc_every_n cfg
      else if warmup_threshold s \<le> 0 then mc_every_n cfg
      else min (warmup_threshold s) (mc_every_n cfg))"

definition advance_warmup_threshold :: "manager_config \<Rightarrow> session_state \<Rightarrow> session_state" where
  "advance_warmup_threshold cfg s =
     (if \<not> mc_warmup cfg then s
      else if warmup_threshold s \<le> 0 then s
      else (let next = warmup_threshold s * 2 in
        if mc_every_n cfg \<le> next then s\<lparr>warmup_threshold := 0\<rparr>
        else s\<lparr>warmup_threshold := next\<rparr>))"

section \<open>L2 timers\<close>

definition advance_l2_timer :: "ms \<Rightarrow> string \<Rightarrow> pipeline \<Rightarrow> pipeline" where
  "advance_l2_timer now k p =
     (if pl_destroyed p then p
      else
        (let p = get_or_create_timers k p;
             last_l2 = jget_or 0 (pl_l2_last_run p) k;
             min_interval_floor = (if 0 < last_l2 then last_l2 + mc_l2_min (pl_cfg p) else 0);
             desired = max (now + mc_l2_delay (pl_cfg p)) min_interval_floor
         in mod_timers k (\<lambda>t. t\<lparr>st_l2_schedule :=
              snd (mt_try_advance_to now desired (OnL2Fired k DelayAfterL1) (st_l2_schedule t))\<rparr>) p))"

definition arm_l2_max_interval :: "ms \<Rightarrow> string \<Rightarrow> pipeline \<Rightarrow> pipeline" where
  "arm_l2_max_interval now k p =
     (if pl_destroyed p then p
      else
        (let p = get_or_create_timers k p
         in mod_timers k (\<lambda>t. t\<lparr>st_l2_schedule :=
              mt_schedule_at now (now + mc_l2_max (pl_cfg p)) (OnL2Fired k MaxInterval) (st_l2_schedule t)\<rparr>) p))"

section \<open>L1\<close>

text \<open>\<^verbatim>\<open>runL1\<close> up to its first \<^verbatim>\<open>await\<close>.\<close>

definition run_l1_begin :: "string \<Rightarrow> pipeline \<Rightarrow> pipeline" where
  "run_l1_begin k p =
     (case map_of (pl_sessions p) k of
        None \<Rightarrow> p\<lparr>pl_l1_phase := L1Settled k\<rparr>
      | Some state \<Rightarrow>
          (let buffer = buffer_of p k;
               p = set_buffer k [] p
           in if \<not> pl_has_l1_runner p
              then (persist_states (mod_state k (\<lambda>s. advance_warmup_threshold (pl_cfg p)
                      (s\<lparr>l2_pending_l1_count := conversation_count s, conversation_count := 0\<rparr>)) p))
                     \<lparr>pl_l1_phase := L1AwaitPersistNoRunner k\<rparr>
              else (log_effect (CallL1 k buffer) p)\<lparr>pl_l1_phase := L1AwaitRunner k buffer\<rparr>))"

definition enqueue_l1 :: "string \<Rightarrow> pipeline \<Rightarrow> pipeline" where
  "enqueue_l1 k p =
     (let p = get_or_create_timers k p
      in if st_l1_queued (timers_of p k) then p
         else
           (let p = mod_timers k (\<lambda>t. t\<lparr>st_l1_idle := mt_cancel (st_l1_idle t), st_l1_queued := True\<rparr>) p;
                (started, q) = sq_add k (pl_l1q p);
                p = p\<lparr>pl_l1q := q\<rparr>
            in case started of None \<Rightarrow> p | Some k' \<Rightarrow> run_l1_begin k' p))"

definition on_l1_idle_timeout :: "string \<Rightarrow> pipeline \<Rightarrow> pipeline" where
  "on_l1_idle_timeout k p = enqueue_l1 k p"

text \<open>The piece after a successful \<^verbatim>\<open>await this.l1Runner(...)\<close>, up to \<^verbatim>\<open>await persistStates()\<close>.\<close>

definition l2_keys_of :: "string \<Rightarrow> l1_result option \<Rightarrow> string list" where
  "l2_keys_of k r =
     (case r of None \<Rightarrow> [k]
      | Some res \<Rightarrow> (case l1r_profile_scopes res of None \<Rightarrow> [k]
          | Some scopes \<Rightarrow> if scopes = [] then [k] else scopes))"

definition l1_runner_ok :: "ms \<Rightarrow> l1_result option \<Rightarrow> pipeline \<Rightarrow> pipeline" where
  "l1_runner_ok now r p =
     (case pl_l1_phase p of
        L1AwaitRunner k buffer \<Rightarrow>
          (let p = mod_timers k (\<lambda>t. t\<lparr>st_l1_retry_count := 0\<rparr>) (get_or_create_timers k p);
               p = mod_state k (\<lambda>s. advance_warmup_threshold (pl_cfg p) (s\<lparr>conversation_count := 0\<rparr>)) p;
               l2_keys = l2_keys_of k r;
               p = fold (\<lambda>l2k p. mod_state l2k (\<lambda>s. s\<lparr>l2_pending_l1_count := 1\<rparr>)
                                  (get_or_create_state now l2k p)) l2_keys p
           in (persist_states p)\<lparr>pl_l1_phase := L1AwaitPersist k l2_keys r\<rparr>)
      | _ \<Rightarrow> p)"

text \<open>The \<^verbatim>\<open>catch\<close> branch: restore the buffer, retry at most \<^verbatim>\<open>L1_MAX_RETRIES\<close> times.\<close>

definition l1_runner_fail :: "ms \<Rightarrow> pipeline \<Rightarrow> pipeline" where
  "l1_runner_fail now p =
     (case pl_l1_phase p of
        L1AwaitRunner k buffer \<Rightarrow>
          (let p = set_buffer k (buffer @ buffer_of p k) p;
               p = mod_timers k (\<lambda>t. t\<lparr>st_l1_retry_count := st_l1_retry_count t + 1\<rparr>)
                     (get_or_create_timers k p);
               p = (if st_l1_retry_count (timers_of p k) \<le> l1_max_retries
                    then mod_timers k (\<lambda>t. t\<lparr>st_l1_idle :=
                           mt_schedule now l1_retry_delay_ms (OnL1Idle k) (st_l1_idle t)\<rparr>) p
                    else p)
           in p\<lparr>pl_l1_phase := L1Settled k\<rparr>)
      | _ \<Rightarrow> p)"

text \<open>The rest of \<^verbatim>\<open>runL1\<close> after \<^verbatim>\<open>await persistStates()\<close>, in its two branches.\<close>

definition drain_backlog :: "ms \<Rightarrow> string \<Rightarrow> l1_result option \<Rightarrow> pipeline \<Rightarrow> pipeline" where
  "drain_backlog now k r p =
     (case r of
        None \<Rightarrow> p
      | Some res \<Rightarrow>
          if l1r_has_full_backlog res then enqueue_l1 k p
          else if l1r_has_more res
          then mod_timers k (\<lambda>t. t\<lparr>st_l1_idle :=
                 mt_schedule now (mc_l1_idle_timeout (pl_cfg p)) (OnL1Idle k) (st_l1_idle t)\<rparr>) p
          else p)"

definition l1_persisted :: "ms \<Rightarrow> pipeline \<Rightarrow> pipeline" where
  "l1_persisted now p =
     (case pl_l1_phase p of
        L1AwaitPersistNoRunner k \<Rightarrow> (advance_l2_timer now k p)\<lparr>pl_l1_phase := L1Settled k\<rparr>
      | L1AwaitPersist k l2_keys r \<Rightarrow>
          (drain_backlog now k r (fold (advance_l2_timer now) l2_keys p))\<lparr>pl_l1_phase := L1Settled k\<rparr>
      | _ \<Rightarrow> p)"

text \<open>Completion of an L1 task: the \<^verbatim>\<open>finally\<close> of \<^verbatim>\<open>enqueueL1\<close> and of the queue.\<close>

definition l1_complete :: "pipeline \<Rightarrow> pipeline" where
  "l1_complete p =
     (case pl_l1_phase p of
        L1Settled k \<Rightarrow>
          (let p = mod_timers k (\<lambda>t. t\<lparr>st_l1_queued := False\<rparr>) p;
               (waiters, started, q) = sq_complete (pl_l1q p);
               p = p\<lparr>pl_l1q := q, pl_l1_phase := L1None\<rparr>
           in case started of None \<Rightarrow> p | Some k' \<Rightarrow> run_l1_begin k' p)
      | _ \<Rightarrow> p)"

section \<open>L2\<close>

definition run_l2_begin :: "string \<Rightarrow> pipeline \<Rightarrow> pipeline" where
  "run_l2_begin k p =
     (case map_of (pl_sessions p) k of
        None \<Rightarrow> p\<lparr>pl_l2_phase := L2Settled k\<rparr>
      | Some state \<Rightarrow>
          if \<not> pl_has_l2_runner p then p\<lparr>pl_l2_phase := L2Settled k\<rparr>
          else (let cursor = (if last_extraction_updated_time state = [] then None
                              else Some (last_extraction_updated_time state))
                in (log_effect (CallL2 k cursor) p)\<lparr>pl_l2_phase := L2AwaitRunner k\<rparr>))"

definition enqueue_l2 :: "string \<Rightarrow> pipeline \<Rightarrow> pipeline" where
  "enqueue_l2 k p =
     (let p = get_or_create_timers k p;
          p = mod_timers k (\<lambda>t. t\<lparr>st_l2_schedule := mt_cancel (st_l2_schedule t)\<rparr>) p
      in if st_l2_queued (timers_of p k) then p
         else
           (let p = mod_timers k (\<lambda>t. t\<lparr>st_l2_queued := True\<rparr>) p;
                (started, q) = sq_add k (pl_l2q p);
                p = p\<lparr>pl_l2q := q\<rparr>
            in case started of None \<Rightarrow> p | Some k' \<Rightarrow> run_l2_begin k' p))"

definition on_l2_timer_fired :: "ms \<Rightarrow> string \<Rightarrow> l2_source \<Rightarrow> pipeline \<Rightarrow> pipeline" where
  "on_l2_timer_fired now k source p =
     (case map_of (pl_sessions p) k of
        None \<Rightarrow> p
      | Some state \<Rightarrow>
          if source = MaxInterval \<and> mc_active_window (pl_cfg p) \<le> now - last_active_time state then p
          else enqueue_l2 k p)"

definition l2_runner_fail :: "ms \<Rightarrow> pipeline \<Rightarrow> pipeline" where
  "l2_runner_fail now p =
     (case pl_l2_phase p of
        L2AwaitRunner k \<Rightarrow> (arm_l2_max_interval now k p)\<lparr>pl_l2_phase := L2Settled k\<rparr>
      | _ \<Rightarrow> p)"

text \<open>\<open>stamp\<close> is \<^verbatim>\<open>new Date().toISOString()\<close>.\<close>

definition l2_runner_ok :: "ms \<Rightarrow> string \<Rightarrow> l2_result option \<Rightarrow> pipeline \<Rightarrow> pipeline" where
  "l2_runner_ok now stamp r p =
     (case pl_l2_phase p of
        L2AwaitRunner k \<Rightarrow>
          (let p = mod_state k (\<lambda>s. s\<lparr>l2_pending_l1_count := 0\<rparr>) p;
               is_first_l2 = (\<not> jhas (pl_l2_last_run p) k);
               was_skipped = (case r of None \<Rightarrow> False | Some res \<Rightarrow> l2r_skipped res)
           in if is_first_l2 \<and> was_skipped
              then (persist_states (arm_l2_max_interval now k p))\<lparr>pl_l2_phase := L2AwaitPersist k True\<rparr>
              else
                (let p = mod_state k (\<lambda>s. s\<lparr>last_extraction_time := stamp, l2_last_extraction_time := stamp\<rparr>) p;
                     p = p\<lparr>pl_l2_last_run := AList.update k now (pl_l2_last_run p)\<rparr>;
                     p = (case r of None \<Rightarrow> p
                          | Some res \<Rightarrow> (case l2r_latest_cursor res of None \<Rightarrow> p
                              | Some c \<Rightarrow> if c = [] then p
                                  else mod_state k (\<lambda>s. s\<lparr>last_extraction_updated_time := c\<rparr>) p))
                 in (persist_states p)\<lparr>pl_l2_phase := L2AwaitPersist k False\<rparr>))
      | _ \<Rightarrow> p)"

section \<open>L3\<close>

definition run_l3_begin :: "pipeline \<Rightarrow> pipeline" where
  "run_l3_begin p =
     (if \<not> pl_has_l3_runner p then p\<lparr>pl_l3_phase := L3Settled\<rparr>
      else (log_effect CallL3 p)\<lparr>pl_l3_phase := L3AwaitRunner\<rparr>)"

definition enqueue_l3 :: "pipeline \<Rightarrow> pipeline" where
  "enqueue_l3 p =
     (let p = p\<lparr>pl_l3_running := True, pl_l3_pending := False\<rparr>;
          (started, q) = sq_add () (pl_l3q p);
          p = p\<lparr>pl_l3q := q\<rparr>
      in case started of None \<Rightarrow> p | Some u \<Rightarrow> run_l3_begin p)"

definition trigger_l3 :: "pipeline \<Rightarrow> pipeline" where
  "trigger_l3 p =
     (if pl_destroyed p then p
      else if pl_l3_running p then p\<lparr>pl_l3_pending := True\<rparr>
      else enqueue_l3 p)"

text \<open>\<^verbatim>\<open>runL3\<close> ends in the same way whether its runner succeeds or throws.\<close>

definition l3_runner_done :: "pipeline \<Rightarrow> pipeline" where
  "l3_runner_done p =
     (case pl_l3_phase p of L3AwaitRunner \<Rightarrow> p\<lparr>pl_l3_phase := L3Settled\<rparr> | _ \<Rightarrow> p)"

definition l3_complete :: "pipeline \<Rightarrow> pipeline" where
  "l3_complete p =
     (case pl_l3_phase p of
        L3Settled \<Rightarrow>
          (let p = p\<lparr>pl_l3_running := False\<rparr>;
               p = (if pl_l3_pending p \<and> \<not> pl_destroyed p then enqueue_l3 p else p);
               (waiters, started, q) = sq_complete (pl_l3q p);
               p = p\<lparr>pl_l3q := q, pl_l3_phase := L3None\<rparr>
           in case started of None \<Rightarrow> p | Some u \<Rightarrow> run_l3_begin p)
      | _ \<Rightarrow> p)"

text \<open>The end of \<^verbatim>\<open>runL2\<close> after \<^verbatim>\<open>await persistStates()\<close>, and the completion of an L2 task.\<close>

definition l2_persisted :: "ms \<Rightarrow> pipeline \<Rightarrow> pipeline" where
  "l2_persisted now p =
     (case pl_l2_phase p of
        L2AwaitPersist k skipped \<Rightarrow>
          (if skipped then p else trigger_l3 (arm_l2_max_interval now k p))\<lparr>pl_l2_phase := L2Settled k\<rparr>
      | _ \<Rightarrow> p)"

definition l2_complete :: "pipeline \<Rightarrow> pipeline" where
  "l2_complete p =
     (case pl_l2_phase p of
        L2Settled k \<Rightarrow>
          (let p = mod_timers k (\<lambda>t. t\<lparr>st_l2_queued := False\<rparr>) p;
               (waiters, started, q) = sq_complete (pl_l2q p);
               p = p\<lparr>pl_l2q := q, pl_l2_phase := L2None\<rparr>
           in case started of None \<Rightarrow> p | Some k' \<Rightarrow> run_l2_begin k' p)
      | _ \<Rightarrow> p)"

section \<open>Garbage collection and recovery\<close>

definition gc_evictable :: "ms \<Rightarrow> pipeline \<Rightarrow> string \<Rightarrow> session_state \<Rightarrow> bool" where
  "gc_evictable now p k state \<longleftrightarrow>
     \<not> (now - last_active_time state < mc_active_window (pl_cfg p) * session_gc_inactive_multiplier)
     \<and> \<not> (st_l1_queued (timers_of p k) \<or> st_l2_queued (timers_of p k))
     \<and> \<not> (0 < length (buffer_of p k))"

definition gc_stale_sessions :: "ms \<Rightarrow> pipeline \<Rightarrow> pipeline" where
  "gc_stale_sessions now p =
     (let evicted = map fst (filter (\<lambda>(k, s). gc_evictable now p k s) (pl_sessions p))
      in fold (\<lambda>k p. p\<lparr>pl_sessions := AList.delete k (pl_sessions p),
                      pl_timers := AList.delete k (pl_timers p),
                      pl_buffers := AList.delete k (pl_buffers p),
                      pl_l2_last_run := AList.delete k (pl_l2_last_run p)\<rparr>) evicted p)"

definition recover_session :: "ms \<Rightarrow> string \<Rightarrow> pipeline \<Rightarrow> pipeline" where
  "recover_session now k p =
     (case map_of (pl_sessions p) k of
        None \<Rightarrow> p
      | Some state \<Rightarrow>
          if conversation_count state = 0 \<and> l2_pending_l1_count state = 0 then p
          else advance_l2_timer now k (mod_state k (\<lambda>s.
                 s\<lparr>l2_pending_l1_count := max (l2_pending_l1_count s) (conversation_count s),
                   conversation_count := 0\<rparr>) p))"

definition recover_pending_sessions :: "ms \<Rightarrow> pipeline \<Rightarrow> pipeline" where
  "recover_pending_sessions now p = fold (recover_session now) (jkeys (pl_sessions p)) p"

text \<open>A restored state carries its warm-up threshold as an option: None where the field is
  missing from a checkpoint written before the warm-up feature.\<close>

definition restore_state :: "session_state \<times> int option \<Rightarrow> session_state" where
  "restore_state sw = (fst sw)\<lparr>warmup_threshold := (case snd sw of None \<Rightarrow> 0 | Some w \<Rightarrow> w)\<rparr>"

definition pl_start ::
  "ms \<Rightarrow> (string, session_state \<times> int option) jsmap option \<Rightarrow> pipeline \<Rightarrow> pipeline" where
  "pl_start now restored p =
     (if pl_destroyed p then p
      else
        (let p = (case restored of None \<Rightarrow> p
                  | Some states \<Rightarrow>
                      fold (\<lambda>(k, sw) p. if should_skip (mc_filter (pl_cfg p)) k then p
                              else p\<lparr>pl_sessions := AList.update k (restore_state sw) (pl_sessions p)\<rparr>)
                        states p)
         in recover_pending_sessions now p))"

section \<open>Notification\<close>

text \<open>\<^verbatim>\<open>notifyConversation\<close> up to \<^verbatim>\<open>await persistStates()\<close>; the continuation keeps the
  effective threshold computed here.\<close>

definition accepts :: "pipeline \<Rightarrow> string \<Rightarrow> bool" where
  "accepts p k \<longleftrightarrow> \<not> pl_destroyed p \<and> \<not> should_skip (mc_filter (pl_cfg p)) k"

definition notify_begin :: "ms \<Rightarrow> string \<Rightarrow> captured_message list \<Rightarrow> pipeline \<Rightarrow> pipeline" where
  "notify_begin now k messages p =
     (if pl_destroyed p then p
      else if should_skip (mc_filter (pl_cfg p)) k then p
      else
        (let p = mod_state k (\<lambda>s. s\<lparr>conversation_count := conversation_count s + 1,
                                    last_active_time := now\<rparr>) (get_or_create_state now k p);
             p = mod_timers k (\<lambda>t. t\<lparr>st_l1_retry_count := 0\<rparr>) (get_or_create_timers k p);
             p = set_buffer k (buffer_of p k @ messages) p;
             threshold = get_effective_threshold (pl_cfg p)
                           (jget_or (initial_session (pl_cfg p) now) (pl_sessions p) k);
             p = persist_states p
         in p\<lparr>pl_notifies := pl_notifies p @ [(k, threshold)]\<rparr>))"

definition notify_rest :: "ms \<Rightarrow> string \<Rightarrow> int \<Rightarrow> pipeline \<Rightarrow> pipeline" where
  "notify_rest now k threshold p =
     (case map_of (pl_sessions p) k of
        None \<Rightarrow> p
      | Some state \<Rightarrow>
          if threshold \<le> conversation_count state then enqueue_l1 k p
          else
            (let p = mod_timers k (\<lambda>t. t\<lparr>st_l1_idle :=
                       mt_schedule now (mc_l1_idle_timeout (pl_cfg p)) (OnL1Idle k) (st_l1_idle t)\<rparr>) p;
                 p = p\<lparr>pl_notify_counter := pl_notify_counter p + 1\<rparr>
             in if session_gc_every_n_notifications \<le> pl_notify_counter p
                then gc_stale_sessions now (p\<lparr>pl_notify_counter := 0\<rparr>)
                else p))"

text \<open>The oldest suspended notification resumes first.\<close>

definition notify_resume :: "ms \<Rightarrow> pipeline \<Rightarrow> pipeline" where
  "notify_resume now p =
     (case pl_notifies p of
        [] \<Rightarrow> p
      | (k, threshold) # rest \<Rightarrow> notify_rest now k threshold (p\<lparr>pl_notifies := rest\<rparr>))"

section \<open>Timers firing\<close>

definition l1_idle_fires :: "ms \<Rightarrow> string \<Rightarrow> pipeline \<Rightarrow> pipeline" where
  "l1_idle_fires now k p =
     (case mt_handle (st_l1_idle (timers_of p k)) of
        None \<Rightarrow> p
      | Some due \<Rightarrow>
          if now < due then p
          else (let (cb, t') = mt_fire (pl_destroyed p) (st_l1_idle (timers_of p k));
                    p = mod_timers k (\<lambda>t. t\<lparr>st_l1_idle := t'\<rparr>) p
                in case cb of Some (OnL1Idle k') \<Rightarrow> on_l1_idle_timeout k' p | _ \<Rightarrow> p))"

definition l2_schedule_fires :: "ms \<Rightarrow> string \<Rightarrow> pipeline \<Rightarrow> pipeline" where
  "l2_schedule_fires now k p =
     (case mt_handle (st_l2_schedule (timers_of p k)) of
        None \<Rightarrow> p
      | Some due \<Rightarrow>
          if now < due then p
          else (let (cb, t') = mt_fire (pl_destroyed p) (st_l2_schedule (timers_of p k));
                    p = mod_timers k (\<lambda>t. t\<lparr>st_l2_schedule := t'\<rparr>) p
                in case cb of Some (OnL2Fired k' src) \<Rightarrow> on_l2_timer_fired now k' src p | _ \<Rightarrow> p))"

section \<open>Flush and shutdown\<close>

text \<open>\<^verbatim>\<open>flushSession\<close> up to its wait for the L1 queue.\<close>

definition flush_session :: "string \<Rightarrow> pipeline \<Rightarrow> pipeline" where
  "flush_session k p =
     (if pl_destroyed p then p
      else if should_skip (mc_filter (pl_cfg p)) k then p
      else
        (let buffer = buffer_of p k;
             p = (if mt_pending (st_l1_idle (timers_of p k))
                  then mod_timers k (\<lambda>t. t\<lparr>st_l1_idle := mt_cancel (st_l1_idle t)\<rparr>) p else p)
         in if 0 < length buffer then enqueue_l1 k p else p))"

text \<open>\<^verbatim>\<open>destroy\<close>: step 1 of \<^verbatim>\<open>_doFlush\<close>, step 3 once the L1 queue is idle, and the final
  \<^verbatim>\<open>persistStates\<close>, which also runs when the flush times out.\<close>

definition flush_l1_session :: "string \<Rightarrow> pipeline \<Rightarrow> pipeline" where
  "flush_l1_session k p =
     (if mt_pending (st_l1_idle (timers_of p k))
      then (let p = mod_timers k (\<lambda>t. t\<lparr>st_l1_idle := mt_cancel (st_l1_idle t)\<rparr>) p
            in if 0 < length (buffer_of p k) then enqueue_l1 k p else p)
      else p)"

definition destroy_begin :: "pipeline \<Rightarrow> pipeline" where
  "destroy_begin p =
     (if pl_destroyed p then p
      else (let p = p\<lparr>pl_destroyed := True\<rparr>
            in (fold flush_l1_session (jkeys (pl_timers p)) p)\<lparr>pl_destroy_phase := FlushingL1\<rparr>))"

definition flush_l2_session :: "ms \<Rightarrow> string \<Rightarrow> pipeline \<Rightarrow> pipeline" where
  "flush_l2_session now k p =
     (if mt_pending (st_l2_schedule (timers_of p k))
      then (let (cb, t') = mt_flush (st_l2_schedule (timers_of p k));
                p = mod_timers k (\<lambda>t. t\<lparr>st_l2_schedule := t'\<rparr>) p
            in case cb of Some (OnL2Fired k' src) \<Rightarrow> on_l2_timer_fired now k' src p | _ \<Rightarrow> p)
      else p)"

definition destroy_flush_l2 :: "ms \<Rightarrow> pipeline \<Rightarrow> pipeline" where
  "destroy_flush_l2 now p =
     (if pl_destroy_phase p = FlushingL1 \<and> sq_idle (pl_l1q p)
      then (fold (flush_l2_session now) (jkeys (pl_timers p)) p)\<lparr>pl_destroy_phase := FlushingL2L3\<rparr>
      else p)"

definition destroy_finish :: "bool \<Rightarrow> pipeline \<Rightarrow> pipeline" where
  "destroy_finish timed_out p =
     (if (timed_out \<and> (pl_destroy_phase p = FlushingL1 \<or> pl_destroy_phase p = FlushingL2L3)) \<or>
         (pl_destroy_phase p = FlushingL2L3 \<and> sq_idle (pl_l2q p) \<and> sq_idle (pl_l3q p))
      then (persist_states p)\<lparr>pl_destroy_phase := Persisted\<rparr>
      else p)"

section \<open>Events\<close>

datatype pl_event =
    EvStart ms "(string, session_state \<times> int option) jsmap option"
  | EvNotify ms string "captured_message list"
  | EvNotifyResume ms
  | EvL1Idle ms string
  | EvL2Schedule ms string
  | EvL1Ok ms "l1_result option"
  | EvL1Fail ms
  | EvL1Persisted ms
  | EvL1Complete
  | EvL2Ok ms string "l2_result option"
  | EvL2Fail ms
  | EvL2Persisted ms
  | EvL2Complete
  | EvL3Done
  | EvL3Complete
  | EvFlushSession string
  | EvDestroy
  | EvDestroyFlushL2 ms
  | EvDestroyFinish bool

fun pl_step :: "pl_event \<Rightarrow> pipeline \<Rightarrow> pipeline" where
  "pl_step (EvStart now r) p = pl_start now r p"
| "pl_step (EvNotify now k ms) p = notify_begin now k ms p"
| "pl_step (EvNotifyResume now) p = notify_resume now p"
| "pl_step (EvL1Idle now k) p = l1_idle_fires now k p"
| "pl_step (EvL2Schedule now k) p = l2_schedule_fires now k p"
| "pl_step (EvL1Ok now r) p = l1_runner_ok now r p"
| "pl_step (EvL1Fail now) p = l1_runner_fail now p"
| "pl_step (EvL1Persisted now) p = l1_persisted now p"
| "pl_step EvL1Complete p = l1_complete p"
| "pl_step (EvL2Ok now stamp r) p = l2_runner_ok now stamp r p"
| "pl_step (EvL2Fail now) p = l2_runner_fail now p"
| "pl_step (EvL2Persisted now) p = l2_persisted now p"
| "pl_step EvL2Complete p = l2_complete p"
| "pl_step EvL3Done p = l3_runner_done p"
| "pl_step EvL3Complete p = l3_complete p"
| "pl_step (EvFlushSession k) p = flush_session k p"
| "pl_step EvDestroy p = destroy_begin p"
| "pl_step (EvDestroyFlushL2 now) p = destroy_flush_l2 now p"
| "pl_step (EvDestroyFinish t) p = destroy_finish t p"

end
