(* ===== verification/Pipeline_L1.thy ===== *)
theory Pipeline_L1
  imports Pipeline_Manager
begin

text \<open>
  The L1 side of \<^verbatim>\<open>MemoryCore/src/utils/pipeline-manager.ts\<close>: at most one L1 task per
  session is queued or running (\<open>l1_inv\<close>), and no captured message is lost, duplicated or
  reordered between \<^verbatim>\<open>notifyConversation\<close> and the L1 runner. The proofs work on a view of
  the pipeline, the four fields that L1 scheduling depends on; the operations that leave
  the view alone are rewritten away by \<open>l1_frame\<close>.
\<close>

section \<open>The L1 view\<close>

abbreviation l1_flag :: "pipeline \<Rightarrow> string \<Rightarrow> bool" where
  "l1_flag p k \<equiv> st_l1_queued (timers_of p k)"

record l1_view =
  v_flag :: "string \<Rightarrow> bool"
  v_queue :: "string serial_queue"
  v_phase :: l1_phase
  v_buffer :: "string \<Rightarrow> captured_message list"
  v_runner :: bool

definition l1_view :: "pipeline \<Rightarrow> l1_view" where
  "l1_view p = \<lparr>v_flag = l1_flag p, v_queue = pl_l1q p, v_phase = pl_l1_phase p,
     v_buffer = buffer_of p, v_runner = pl_has_l1_runner p\<rparr>"

definition l1_key :: "l1_phase \<Rightarrow> string option" where
  "l1_key ph = (case ph of L1None \<Rightarrow> None | L1AwaitRunner k b \<Rightarrow> Some k
     | L1AwaitPersist k ks r \<Rightarrow> Some k | L1AwaitPersistNoRunner k \<Rightarrow> Some k | L1Settled k \<Rightarrow> Some k)"

definition phase_messages :: "l1_phase \<Rightarrow> string \<Rightarrow> captured_message list" where
  "phase_messages ph k = (case ph of L1AwaitRunner k' b \<Rightarrow> if k' = k then b else [] | _ \<Rightarrow> [])"

text \<open>The messages of a session that were captured and not yet delivered: those with the
  running L1 task, then those buffered.\<close>

definition undelivered :: "pipeline \<Rightarrow> string \<Rightarrow> captured_message list" where
  "undelivered p k = phase_messages (pl_l1_phase p) k @ buffer_of p k"

lemma undelivered_view:
  "undelivered p k = phase_messages (v_phase (l1_view p)) k @ v_buffer (l1_view p) k"
  by (simp add: undelivered_def l1_view_def)

section \<open>Frame lemmas\<close>

lemma buffer_of_set_buffer [simp]:
  "buffer_of (set_buffer k b p) x = (if x = k then b else buffer_of p x)"
  by (simp add: set_buffer_def)

lemma timers_of_mod:
  "timers_of (mod_timers k f p) x =
     (if x = k \<and> jhas (pl_timers p) k then f (timers_of p k) else timers_of p x)"
  by (auto simp: mod_timers_def jget_or_def split: option.splits)

lemma timers_of_get_or_create [simp]: "timers_of (get_or_create_timers k p) x = timers_of p x"
  by (auto simp: get_or_create_timers_def jget_or_def split: option.splits)

lemma jhas_get_or_create_timers [simp]: "jhas (pl_timers (get_or_create_timers k p)) k"
  by (auto simp: get_or_create_timers_def split: option.splits)

lemma l1_view_frame [simp]:
  "l1_view (get_or_create_state now k p) = l1_view p"
  "l1_view (get_or_create_timers k p) = l1_view p"
  "l1_view (mod_state k f p) = l1_view p"
  "l1_view (log_effect e p) = l1_view p"
  "l1_view (persist_states p) = l1_view p"
  by (auto simp: l1_view_def get_or_create_state_def get_or_create_timers_def mod_state_def
      log_effect_def persist_states_def jget_or_def fun_eq_iff split: option.splits)

lemma l1_view_mod_timers [simp]:
  "(\<And>t. st_l1_queued (f t) = st_l1_queued t) \<Longrightarrow> l1_view (mod_timers k f p) = l1_view p"
  by (auto simp: l1_view_def mod_timers_def jget_or_def fun_eq_iff split: option.splits)

lemma l1_view_updates [simp]:
  "l1_view (p\<lparr>pl_l2q := q2\<rparr>) = l1_view p" "l1_view (p\<lparr>pl_l3q := q3\<rparr>) = l1_view p"
  "l1_view (p\<lparr>pl_l2_phase := ph2\<rparr>) = l1_view p" "l1_view (p\<lparr>pl_l3_phase := ph3\<rparr>) = l1_view p"
  "l1_view (p\<lparr>pl_l3_running := b\<rparr>) = l1_view p" "l1_view (p\<lparr>pl_l3_pending := b\<rparr>) = l1_view p"
  "l1_view (p\<lparr>pl_sessions := ss\<rparr>) = l1_view p" "l1_view (p\<lparr>pl_l2_last_run := lr\<rparr>) = l1_view p"
  "l1_view (p\<lparr>pl_notifies := ns\<rparr>) = l1_view p" "l1_view (p\<lparr>pl_notify_counter := n\<rparr>) = l1_view p"
  "l1_view (p\<lparr>pl_destroyed := b\<rparr>) = l1_view p" "l1_view (p\<lparr>pl_destroy_phase := dp\<rparr>) = l1_view p"
  "l1_view (p\<lparr>pl_l1_phase := ph\<rparr>) = (l1_view p)\<lparr>v_phase := ph\<rparr>"
  "l1_view (p\<lparr>pl_l1q := q\<rparr>) = (l1_view p)\<lparr>v_queue := q\<rparr>"
  "l1_view (set_buffer k bf p) = (l1_view p)\<lparr>v_buffer := (v_buffer (l1_view p))(k := bf)\<rparr>"
  by (auto simp: l1_view_def set_buffer_def)

lemma l1_view_fold:
  "(\<And>x p. x \<in> set xs \<Longrightarrow> l1_view (f x p) = l1_view p) \<Longrightarrow> l1_view (fold f xs p) = l1_view p"
  by (induction xs arbitrary: p) auto

lemma l1_view_l2 [simp]:
  "l1_view (advance_l2_timer now k p) = l1_view p"
  "l1_view (arm_l2_max_interval now k p) = l1_view p"
  "l1_view (run_l2_begin k p) = l1_view p"
  by (auto simp: advance_l2_timer_def arm_l2_max_interval_def run_l2_begin_def Let_def
      split: option.splits)

lemma l1_view_enqueue_l2 [simp]: "l1_view (enqueue_l2 k p) = l1_view p"
  by (auto simp: enqueue_l2_def Let_def split: option.splits prod.splits)

lemma l1_view_l2_fired [simp]: "l1_view (on_l2_timer_fired now k src p) = l1_view p"
  by (auto simp: on_l2_timer_fired_def split: option.splits)

lemma l1_view_l2_done [simp]:
  "l1_view (l2_runner_fail now p) = l1_view p"
  "l1_view (l2_runner_ok now s r p) = l1_view p"
  by (auto simp: l2_runner_fail_def l2_runner_ok_def Let_def split: l2_phase.splits option.splits)

lemma l1_view_l3 [simp]:
  "l1_view (run_l3_begin p) = l1_view p"
  "l1_view (l3_runner_done p) = l1_view p"
  by (auto simp: run_l3_begin_def l3_runner_done_def split: l3_phase.splits)

lemma l1_view_enqueue_l3 [simp]: "l1_view (enqueue_l3 p) = l1_view p"
  by (auto simp: enqueue_l3_def Let_def split: option.splits prod.splits)

lemma l1_view_l3_rest [simp]:
  "l1_view (trigger_l3 p) = l1_view p"
  "l1_view (l3_complete p) = l1_view p"
  by (auto simp: trigger_l3_def l3_complete_def Let_def split: option.splits prod.splits l3_phase.splits)

lemma l1_view_l2_rest [simp]:
  "l1_view (l2_persisted now p) = l1_view p"
  "l1_view (l2_complete p) = l1_view p"
  by (auto simp: l2_persisted_def l2_complete_def Let_def
      split: option.splits prod.splits l2_phase.splits)

lemma l1_view_recover [simp]: "l1_view (recover_pending_sessions now p) = l1_view p"
  unfolding recover_pending_sessions_def
  by (rule l1_view_fold) (auto simp: recover_session_def split: option.splits)

lemma l1_view_start [simp]: "l1_view (pl_start now r p) = l1_view p"
  by (auto simp: pl_start_def Let_def intro!: l1_view_fold split: option.splits)

lemma l1_view_l2_schedule [simp]: "l1_view (l2_schedule_fires now k p) = l1_view p"
  by (auto simp: l2_schedule_fires_def Let_def split: option.splits prod.splits timer_callback.splits)

lemma l1_view_destroy [simp]:
  "l1_view (destroy_flush_l2 now p) = l1_view p"
  "l1_view (destroy_finish t p) = l1_view p"
  by (auto simp: destroy_flush_l2_def destroy_finish_def flush_l2_session_def Let_def
      intro!: l1_view_fold split: option.splits prod.splits timer_callback.splits)

text \<open>Garbage collection only evicts sessions whose flag is clear and whose buffer is empty,
  so the view does not see it.\<close>

lemma gc_fold_fields:
  fixes p :: pipeline
  defines "ev \<equiv> \<lambda>k p. p\<lparr>pl_sessions := AList.delete k (pl_sessions p),
                      pl_timers := AList.delete k (pl_timers p),
                      pl_buffers := AList.delete k (pl_buffers p),
                      pl_l2_last_run := AList.delete k (pl_l2_last_run p)\<rparr>"
  shows "map_of (pl_timers (fold ev ks p)) x = (if x \<in> set ks then None else map_of (pl_timers p) x)
       \<and> map_of (pl_buffers (fold ev ks p)) x = (if x \<in> set ks then None else map_of (pl_buffers p) x)
       \<and> map_of (pl_sessions (fold ev ks p)) x = (if x \<in> set ks then None else map_of (pl_sessions p) x)
       \<and> map_of (pl_l2_last_run (fold ev ks p)) x =
           (if x \<in> set ks then None else map_of (pl_l2_last_run p) x)
       \<and> pl_l1q (fold ev ks p) = pl_l1q p \<and> pl_l1_phase (fold ev ks p) = pl_l1_phase p
       \<and> pl_l2q (fold ev ks p) = pl_l2q p \<and> pl_l2_phase (fold ev ks p) = pl_l2_phase p
       \<and> pl_has_l1_runner (fold ev ks p) = pl_has_l1_runner p
       \<and> pl_cfg (fold ev ks p) = pl_cfg p \<and> pl_destroyed (fold ev ks p) = pl_destroyed p
       \<and> pl_log (fold ev ks p) = pl_log p"
  unfolding ev_def by (induction ks arbitrary: p) auto

definition gc_evicted :: "ms \<Rightarrow> pipeline \<Rightarrow> string list" where
  "gc_evicted now p = map fst (filter (\<lambda>(k, s). gc_evictable now p k s) (pl_sessions p))"

lemma gc_evicted_idle:
  assumes "k \<in> set (gc_evicted now p)"
  shows "\<not> l1_flag p k" "\<not> st_l2_queued (timers_of p k)" "buffer_of p k = []"
  using assms by (auto simp: gc_evicted_def gc_evictable_def)

lemma gc_stale_eq:
  "gc_stale_sessions now p = fold (\<lambda>k p. p\<lparr>pl_sessions := AList.delete k (pl_sessions p),
                      pl_timers := AList.delete k (pl_timers p),
                      pl_buffers := AList.delete k (pl_buffers p),
                      pl_l2_last_run := AList.delete k (pl_l2_last_run p)\<rparr>) (gc_evicted now p) p"
  by (simp add: gc_stale_sessions_def gc_evicted_def)

lemmas gc_fields = gc_fold_fields [of "gc_evicted now p" p for now p, folded gc_stale_eq]

lemma l1_view_gc [simp]: "l1_view (gc_stale_sessions now p) = l1_view p"
proof -
  have "l1_flag (gc_stale_sessions now p) k = l1_flag p k" for k
    using gc_evicted_idle(1) [of k now p] gc_fields [of now p k]
    by (cases "k \<in> set (gc_evicted now p)") (auto simp: jget_or_def new_timers_def)
  moreover have "buffer_of (gc_stale_sessions now p) k = buffer_of p k" for k
    using gc_evicted_idle(3) [of k now p] gc_fields [of now p k]
    by (cases "k \<in> set (gc_evicted now p)") (auto simp: jget_or_def)
  ultimately show ?thesis
    using gc_fields [of now p "[]"] by (auto simp: l1_view_def fun_eq_iff)
qed

section \<open>Single flight\<close>

text \<open>The flags and the queue satisfy \<open>single_flight\<close>, and the phase is that of the
  running task.\<close>

definition l1_inv :: "pipeline \<Rightarrow> bool" where
  "l1_inv p \<longleftrightarrow> single_flight (v_flag (l1_view p)) (v_queue (l1_view p))
     \<and> l1_key (v_phase (l1_view p)) = sq_running (v_queue (l1_view p))"

lemma l1_inv_cong: "l1_view p' = l1_view p \<Longrightarrow> l1_inv p' = l1_inv p"
  by (simp add: l1_inv_def)

lemma l1_inv_new [simp]: "l1_inv (new_pipeline cfg r1 r2 r3 pers)"
  by (simp add: l1_inv_def l1_view_def new_pipeline_def new_timers_def l1_key_def
      single_flight_empty) (simp add: sq_empty_def)

text \<open>\<^verbatim>\<open>runL1\<close> starts in a state whose queue already records the task as running.\<close>

lemma run_l1_begin_view:
  "v_flag (l1_view (run_l1_begin k p)) = v_flag (l1_view p)"
  "v_queue (l1_view (run_l1_begin k p)) = v_queue (l1_view p)"
  "l1_key (v_phase (l1_view (run_l1_begin k p))) = Some k"
  "v_runner (l1_view (run_l1_begin k p)) = v_runner (l1_view p)"
  by (auto simp: run_l1_begin_def Let_def l1_key_def split: option.splits)

lemma has_l1_runner_set_buffer [simp]: "pl_has_l1_runner (set_buffer k b p) = pl_has_l1_runner p"
  by (simp add: set_buffer_def)

lemma run_l1_begin_undelivered:
  assumes "pl_l1_phase p = L1None \<or> phase_messages (pl_l1_phase p) = (\<lambda>x. [])" "pl_has_l1_runner p"
  shows "undelivered (run_l1_begin k p) x = undelivered p x"
proof -
  have ph: "phase_messages (v_phase (l1_view p)) x = []"
    using assms(1) by (auto simp: l1_view_def) (simp add: phase_messages_def)
  have b: "buffer_of p = v_buffer (l1_view p)" by (simp add: l1_view_def)
  show ?thesis
    unfolding undelivered_view using ph assms(2)
    by (auto simp: run_l1_begin_def Let_def phase_messages_def b split: option.splits)
qed

lemma run_l1_begin_inv:
  assumes "single_flight (v_flag (l1_view p)) (pl_l1q p)" "sq_running (pl_l1q p) = Some k"
  shows "l1_inv (run_l1_begin k p)"
  using assms by (simp add: l1_inv_def run_l1_begin_view) (simp add: l1_view_def)

text \<open>\<^verbatim>\<open>enqueueL1\<close> first marks the session, then either only queues the task or starts it.\<close>

definition l1_mark :: "string \<Rightarrow> pipeline \<Rightarrow> pipeline" where
  "l1_mark k p = mod_timers k (\<lambda>t. t\<lparr>st_l1_idle := mt_cancel (st_l1_idle t), st_l1_queued := True\<rparr>)
     (get_or_create_timers k p)"

lemma l1_view_mark [simp]: "l1_view (l1_mark k p) = (l1_view p)\<lparr>v_flag := (v_flag (l1_view p))(k := True)\<rparr>"
  by (auto simp: l1_view_def l1_mark_def fun_eq_iff timers_of_mod)
    (auto simp: mod_timers_def get_or_create_timers_def split: option.splits)

lemma l1_mark_queue [simp]: "pl_l1q (l1_mark k p) = pl_l1q p"
  using l1_view_mark [of k p] by (simp add: l1_view_def)

lemma enqueue_l1_unfold:
  "enqueue_l1 k p = (if l1_flag p k then get_or_create_timers k p
     else (case fst (sq_add k (pl_l1q p)) of
             None \<Rightarrow> (l1_mark k p)\<lparr>pl_l1q := snd (sq_add k (pl_l1q p))\<rparr>
           | Some k' \<Rightarrow> run_l1_begin k' ((l1_mark k p)\<lparr>pl_l1q := snd (sq_add k (pl_l1q p))\<rparr>)))"
  unfolding enqueue_l1_def Let_def l1_mark_def [symmetric]
  by (simp add: split_beta)

lemma l1_inv_phase:
  assumes "l1_inv p"
  shows "single_flight (l1_flag p) (pl_l1q p)"
    "sq_running (pl_l1q p) = None \<longleftrightarrow> pl_l1_phase p = L1None"
    "l1_key (pl_l1_phase p) = sq_running (pl_l1q p)"
  using assms by (auto simp: l1_inv_def l1_view_def) (auto simp: l1_key_def split: l1_phase.splits)

text \<open>The state in which \<^verbatim>\<open>enqueueL1\<close> leaves the queue.\<close>

definition l1_queued :: "string \<Rightarrow> pipeline \<Rightarrow> pipeline" where
  "l1_queued k p = (l1_mark k p)\<lparr>pl_l1q := snd (sq_add k (pl_l1q p))\<rparr>"

lemma l1_view_queued [simp]: "l1_view (l1_queued k p) = (l1_view p)
    \<lparr>v_flag := (v_flag (l1_view p))(k := True), v_queue := snd (sq_add k (pl_l1q p))\<rparr>"
  by (simp add: l1_queued_def)

lemma enqueue_l1_inv_unfold:
  assumes "l1_inv p"
  shows "enqueue_l1 k p = (if l1_flag p k then get_or_create_timers k p
     else if pl_l1_phase p = L1None then run_l1_begin k (l1_queued k p) else l1_queued k p)"
  using sq_add_started(1) [OF l1_inv_phase(1) [OF assms], of k] l1_inv_phase(2) [OF assms]
  by (simp add: enqueue_l1_unfold l1_queued_def)

lemma enqueue_l1_inv:
  assumes "l1_inv p"
  shows "l1_inv (enqueue_l1 k p)"
proof (cases "l1_flag p k")
  case True
  then show ?thesis using assms by (simp add: enqueue_l1_inv_unfold l1_inv_def)
next
  case False
  note sf = l1_inv_phase(1) [OF assms]
  have fl: "v_flag (l1_view p) = l1_flag p" "v_phase (l1_view p) = pl_l1_phase p"
    by (simp_all add: l1_view_def)
  have q: "pl_l1q (l1_queued k p) = snd (sq_add k (pl_l1q p))" by (simp add: l1_queued_def)
  have ok: "single_flight (v_flag (l1_view (l1_queued k p))) (pl_l1q (l1_queued k p))"
    using single_flight_add [OF sf False] by (simp add: q fl)
  show ?thesis
  proof (cases "pl_l1_phase p = L1None")
    case True
    then have "sq_running (pl_l1q (l1_queued k p)) = Some k"
      using l1_inv_phase(2) [OF assms] by (simp add: q sq_add_started [OF sf])
    with True False ok show ?thesis
      by (simp add: enqueue_l1_inv_unfold [OF assms] run_l1_begin_inv)
  next
    case nn: False
    then obtain r where "sq_running (pl_l1q p) = Some r"
      using l1_inv_phase(2) [OF assms] by auto
    then have "l1_key (pl_l1_phase p) = sq_running (snd (sq_add k (pl_l1q p)))"
      by (simp add: sq_add_started [OF sf] l1_inv_phase(3) [OF assms])
    with nn False ok show ?thesis
      by (simp add: enqueue_l1_inv_unfold [OF assms] l1_inv_def q fl)
  qed
qed

lemma enqueue_l1_runner [simp]: "pl_has_l1_runner (enqueue_l1 k p) = pl_has_l1_runner p"
proof -
  have "v_runner (l1_view (enqueue_l1 k p)) = v_runner (l1_view p)"
    by (auto simp: enqueue_l1_unfold run_l1_begin_view split: option.splits)
  then show ?thesis by (simp add: l1_view_def)
qed

lemma enqueue_l1_undelivered:
  assumes inv: "l1_inv p" and r: "pl_has_l1_runner p"
  shows "undelivered (enqueue_l1 k p) x = undelivered p x"
proof -
  have m: "pl_l1_phase (l1_queued k p) = pl_l1_phase p"
    "pl_has_l1_runner (l1_queued k p) = pl_has_l1_runner p"
    using l1_view_queued [of k p] by (simp_all add: l1_view_def)
  have u: "undelivered (l1_queued k p) x = undelivered p x"
    by (simp add: undelivered_view)
  have "undelivered (run_l1_begin k (l1_queued k p)) x = undelivered (l1_queued k p) x"
    if "pl_l1_phase p = L1None"
    by (rule run_l1_begin_undelivered) (use that m r in auto)
  then show ?thesis
    using u by (simp add: enqueue_l1_inv_unfold [OF inv] undelivered_view)
qed

section \<open>Steps\<close>

lemma undelivered_cong: "l1_view p' = l1_view p \<Longrightarrow> undelivered p' x = undelivered p x"
  by (simp add: undelivered_view)

lemma runner_cong: "l1_view p' = l1_view p \<Longrightarrow> pl_has_l1_runner p' = pl_has_l1_runner p"
  by (simp add: l1_view_def)

text \<open>A piece that keeps the invariant, the presence of the runner, and the messages that are
  still to be delivered.\<close>

definition l1_safe :: "pipeline \<Rightarrow> pipeline \<Rightarrow> bool" where
  "l1_safe p p' \<longleftrightarrow> (l1_inv p \<longrightarrow> l1_inv p' \<and> pl_has_l1_runner p' = pl_has_l1_runner p
     \<and> (pl_has_l1_runner p \<longrightarrow> (\<forall>x. undelivered p' x = undelivered p x)))"

lemma l1_safe_view [simp]: "l1_view p' = l1_view p \<Longrightarrow> l1_safe p p'"
  using undelivered_cong [of p' p] runner_cong [of p' p] l1_inv_cong [of p' p]
  by (simp add: l1_safe_def)

lemma l1_safe_refl [simp]: "l1_safe p p"
  by (simp add: l1_safe_def)

lemma l1_safe_trans: "l1_safe p q \<Longrightarrow> l1_safe q r \<Longrightarrow> l1_safe p r"
  by (auto simp: l1_safe_def)

lemma l1_safe_enqueue: "l1_safe p (enqueue_l1 k p)"
  by (simp add: l1_safe_def enqueue_l1_inv enqueue_l1_undelivered)

lemma l1_safe_enqueue_after [simp]: "l1_view p' = l1_view p \<Longrightarrow> l1_safe p (enqueue_l1 k p')"
  using l1_safe_trans [OF l1_safe_view l1_safe_enqueue] .

lemma l1_safe_fold: "(\<And>x p. l1_safe p (f x p)) \<Longrightarrow> l1_safe p (fold f xs p)"
proof (induction xs arbitrary: p)
  case (Cons x xs)
  have "l1_safe (f x p) (fold f xs (f x p))" by (rule Cons.IH) (rule Cons.prems)
  with Cons.prems show ?case by (auto intro: l1_safe_trans)
qed simp

lemma l1_safe_notify_rest: "l1_safe p (notify_rest now k th p)"
  by (auto simp: notify_rest_def Let_def intro!: l1_safe_enqueue split: option.splits)

lemma l1_safe_notify_resume: "l1_safe p (notify_resume now p)"
  by (auto simp: notify_resume_def intro!: l1_safe_trans [OF l1_safe_view l1_safe_notify_rest]
      split: list.splits)

lemma l1_safe_idle_fires: "l1_safe p (l1_idle_fires now k p)"
  by (auto simp: l1_idle_fires_def on_l1_idle_timeout_def Let_def
      split: option.splits prod.splits timer_callback.splits)

lemma l1_safe_flush_session: "l1_safe p (flush_session k p)"
  by (auto simp: flush_session_def Let_def)

lemma l1_safe_flush_l1: "l1_safe p (flush_l1_session k p)"
  by (auto simp: flush_l1_session_def Let_def)

lemma l1_safe_destroy_begin: "l1_safe p (destroy_begin p)"
proof (cases "pl_destroyed p")
  case False
  let ?p = "p\<lparr>pl_destroyed := True\<rparr>"
  have "l1_safe p (fold flush_l1_session (jkeys (pl_timers ?p)) ?p)"
    by (rule l1_safe_trans [OF l1_safe_view l1_safe_fold]) (simp_all add: l1_safe_flush_l1)
  then have "l1_safe p ((fold flush_l1_session (jkeys (pl_timers ?p)) ?p)\<lparr>pl_destroy_phase := FlushingL1\<rparr>)"
    by (rule l1_safe_trans) simp
  with False show ?thesis
    by (simp add: destroy_begin_def)
qed (simp add: destroy_begin_def)

text \<open>A piece of the running task that only changes its phase, within the same session.\<close>

lemma l1_inv_phase_change:
  assumes "l1_inv p" "l1_key ph = l1_key (pl_l1_phase p)"
    "l1_view q = (l1_view p)\<lparr>v_phase := ph, v_buffer := b\<rparr>"
  shows "l1_inv q"
  using assms by (simp add: l1_inv_def) (simp add: l1_view_def)

lemma l1_view_fold_scopes [simp]:
  "l1_view (fold (\<lambda>l2k p. mod_state l2k f (get_or_create_state now l2k p)) ks p) = l1_view p"
  "l1_view (fold (advance_l2_timer now) ks p) = l1_view p"
  by (rule l1_view_fold, simp)+

lemma l1_runner_ok_step:
  assumes inv: "l1_inv p" and ph: "pl_l1_phase p = L1AwaitRunner k b"
  shows "l1_inv (l1_runner_ok now r p)"
    and "pl_has_l1_runner (l1_runner_ok now r p) = pl_has_l1_runner p"
    and "undelivered (l1_runner_ok now r p) x = buffer_of p x"
proof -
  have v: "l1_view (l1_runner_ok now r p) = (l1_view p)\<lparr>v_phase := L1AwaitPersist k (l2_keys_of k r) r\<rparr>"
    by (simp add: l1_runner_ok_def ph Let_def)
  then show "l1_inv (l1_runner_ok now r p)"
    by (intro l1_inv_phase_change [OF inv, of "L1AwaitPersist k (l2_keys_of k r) r" _ "v_buffer (l1_view p)"])
      (simp_all add: ph l1_key_def)
  show "undelivered (l1_runner_ok now r p) x = buffer_of p x"
    by (simp add: undelivered_view v phase_messages_def) (simp add: l1_view_def)
  show "pl_has_l1_runner (l1_runner_ok now r p) = pl_has_l1_runner p"
    using arg_cong [OF v, of v_runner] by (simp add: l1_view_def)
qed

lemma l1_safe_runner_fail: "l1_safe p (l1_runner_fail now p)"
proof (cases "\<exists>k b. pl_l1_phase p = L1AwaitRunner k b")
  case True
  then obtain k b where ph: "pl_l1_phase p = L1AwaitRunner k b" by blast
  have v: "l1_view (l1_runner_fail now p) = (l1_view p)\<lparr>v_phase := L1Settled k,
      v_buffer := (v_buffer (l1_view p))(k := b @ buffer_of p k)\<rparr>"
    by (simp add: l1_runner_fail_def ph Let_def)
  have i: "l1_inv p \<Longrightarrow> l1_inv (l1_runner_fail now p)"
    by (rule l1_inv_phase_change [OF _ _ v]) (simp_all add: ph l1_key_def)
  have u: "undelivered (l1_runner_fail now p) x = undelivered p x" for x
    by (simp add: undelivered_view v phase_messages_def) (simp add: l1_view_def ph)
  have r: "pl_has_l1_runner (l1_runner_fail now p) = pl_has_l1_runner p"
    using arg_cong [OF v, of v_runner] by (simp add: l1_view_def)
  show ?thesis by (simp add: l1_safe_def i u r)
next
  case False
  then have "l1_runner_fail now p = p"
    by (auto simp: l1_runner_fail_def split: l1_phase.splits)
  then show ?thesis by simp
qed

text \<open>The phase set to \<open>L1Settled\<close> after a piece that may have enqueued the same session.\<close>

lemma l1_safe_settle:
  assumes "l1_key (pl_l1_phase p) = Some k" "phase_messages (pl_l1_phase p) = (\<lambda>x. [])"
  shows "l1_safe p (p\<lparr>pl_l1_phase := L1Settled k\<rparr>)"
proof -
  have v: "l1_view (p\<lparr>pl_l1_phase := L1Settled k\<rparr>) = (l1_view p)\<lparr>v_phase := L1Settled k, v_buffer := v_buffer (l1_view p)\<rparr>"
    by simp
  have "undelivered (p\<lparr>pl_l1_phase := L1Settled k\<rparr>) x = undelivered p x" for x
    using assms(2) by (simp add: undelivered_def) (simp add: phase_messages_def)
  then show ?thesis
    using l1_inv_phase_change [OF _ _ v] assms(1) by (auto simp: l1_safe_def l1_key_def)
qed

lemma enqueue_l1_phase_busy:
  assumes "l1_inv p" "pl_l1_phase p \<noteq> L1None"
  shows "pl_l1_phase (enqueue_l1 k p) = pl_l1_phase p"
proof -
  have "v_phase (l1_view (enqueue_l1 k p)) = v_phase (l1_view p)"
    using assms by (simp add: enqueue_l1_inv_unfold)
  then show ?thesis by (simp add: l1_view_def)
qed

lemma l1_inv_flag:
  assumes "l1_inv p" "l1_key (pl_l1_phase p) = Some k"
  shows "l1_flag p k" "jhas (pl_timers p) k"
proof -
  show f: "l1_flag p k"
  proof -
    have "l1_flag p = (\<lambda>k. k \<in> set (sq_entries (pl_l1q p)))"
      using l1_inv_phase(1) [OF assms(1)] unfolding single_flight_def by (rule conjunct1)
    moreover have "k \<in> set (sq_entries (pl_l1q p))"
      using l1_inv_phase(3) [OF assms(1)] assms(2) by (simp add: sq_entries_def eq_commute [of "Some k"])
    ultimately show ?thesis by metis
  qed
  then show "jhas (pl_timers p) k"
    by (auto simp: jget_or_def new_timers_def split: option.splits)
qed

text \<open>While a session's own L1 task is finishing, the drain of a full backlog cannot enqueue:
  the session is still flagged.\<close>

lemma l1_view_drain_backlog:
  assumes "l1_flag p k"
  shows "l1_view (drain_backlog now k r p) = l1_view p"
  using assms by (auto simp: drain_backlog_def enqueue_l1_unfold split: option.splits)

lemma l1_view_persisted:
  assumes "l1_inv p"
  shows "l1_view (l1_persisted now p) = (case pl_l1_phase p of
      L1AwaitPersistNoRunner k \<Rightarrow> (l1_view p)\<lparr>v_phase := L1Settled k\<rparr>
    | L1AwaitPersist k ks r \<Rightarrow> (l1_view p)\<lparr>v_phase := L1Settled k\<rparr>
    | _ \<Rightarrow> l1_view p)"
proof (cases "pl_l1_phase p")
  case (L1AwaitPersist k ks r)
  let ?q = "fold (advance_l2_timer now) ks p"
  have "l1_flag ?q = l1_flag p"
    using l1_view_fold_scopes(2) [of now ks p] by (simp add: l1_view_def)
  then have "l1_flag ?q k"
    using l1_inv_flag(1) [OF assms, of k] L1AwaitPersist by (simp add: l1_key_def fun_eq_iff)
  then have "l1_view (drain_backlog now k r ?q) = l1_view p"
    by (simp add: l1_view_drain_backlog)
  then show ?thesis by (simp add: l1_persisted_def L1AwaitPersist)
qed (simp_all add: l1_persisted_def)

lemma l1_safe_persisted: "l1_safe p (l1_persisted now p)"
proof (cases "l1_inv p")
  case True
  show ?thesis
  proof (cases "l1_view (l1_persisted now p) = l1_view p")
    case False
    then obtain k where v: "l1_view (l1_persisted now p) = (l1_view p)\<lparr>v_phase := L1Settled k\<rparr>"
      and k: "l1_key (pl_l1_phase p) = Some k" "phase_messages (pl_l1_phase p) = (\<lambda>x. [])"
      using l1_view_persisted [OF True, of now]
      by (auto simp: l1_key_def phase_messages_def fun_eq_iff split: l1_phase.splits)
    have "l1_safe p (p\<lparr>pl_l1_phase := L1Settled k\<rparr>)"
      by (rule l1_safe_settle [OF k])
    then show ?thesis
      by (rule l1_safe_trans) (rule l1_safe_view, simp add: v)
  qed (rule l1_safe_view)
qed (simp add: l1_safe_def)

definition l1_released :: "string \<Rightarrow> pipeline \<Rightarrow> pipeline" where
  "l1_released k p = (mod_timers k (\<lambda>t. t\<lparr>st_l1_queued := False\<rparr>) p)
     \<lparr>pl_l1q := snd (snd (sq_complete (pl_l1q p))), pl_l1_phase := L1None\<rparr>"

lemma l1_view_release_flag:
  "jhas (pl_timers p) k \<Longrightarrow> l1_view (mod_timers k (\<lambda>t. t\<lparr>st_l1_queued := False\<rparr>) p)
     = (l1_view p)\<lparr>v_flag := (v_flag (l1_view p))(k := False)\<rparr>"
  by (auto simp: l1_view_def fun_eq_iff timers_of_mod) (auto simp: mod_timers_def)

lemma l1_complete_unfold:
  assumes "l1_inv p" "pl_l1_phase p = L1Settled k"
  shows "l1_complete p = (case sq_running (pl_l1q (l1_released k p)) of
      None \<Rightarrow> l1_released k p | Some k' \<Rightarrow> run_l1_begin k' (l1_released k p))"
proof -
  have "pl_l1q (mod_timers k (\<lambda>t. t\<lparr>st_l1_queued := False\<rparr>) p) = pl_l1q p"
    by (simp add: mod_timers_def split: option.splits)
  then show ?thesis
    using sq_complete_started(1) [OF l1_inv_phase(1) [OF assms(1)]]
    by (simp add: l1_complete_def assms(2) l1_released_def split_beta Let_def split: option.split)
qed

lemma l1_safe_complete: "l1_safe p (l1_complete p)"
proof (cases "l1_inv p \<and> (\<exists>k. pl_l1_phase p = L1Settled k)")
  case True
  then obtain k where inv: "l1_inv p" and ph: "pl_l1_phase p = L1Settled k" by blast
  let ?q = "l1_released k p"
  have kp: "l1_key (pl_l1_phase p) = Some k" by (simp add: ph l1_key_def)
  have v: "l1_view ?q = (l1_view p)\<lparr>v_flag := (v_flag (l1_view p))(k := False),
      v_queue := snd (snd (sq_complete (pl_l1q p))), v_phase := L1None\<rparr>"
    using l1_view_release_flag [OF l1_inv_flag(2) [OF inv kp]] by (simp add: l1_released_def)
  have q: "pl_l1q ?q = v_queue (l1_view ?q)" "pl_has_l1_runner ?q = pl_has_l1_runner p"
    "pl_l1_phase ?q = L1None"
    using arg_cong [OF v, of v_runner] arg_cong [OF v, of v_phase] by (simp_all add: l1_view_def)
  have "sq_running (pl_l1q p) = Some k"
    using l1_inv_phase(3) [OF inv] kp by simp
  then have sf: "single_flight (v_flag (l1_view ?q)) (pl_l1q ?q)"
    using single_flight_complete [OF l1_inv_phase(1) [OF inv]] by (simp add: v q) (simp add: l1_view_def)
  have u: "undelivered ?q x = undelivered p x" for x
    using ph by (simp add: undelivered_view v phase_messages_def) (simp add: l1_view_def)
  show ?thesis
  proof (cases "sq_running (pl_l1q ?q)")
    case None
    with sf have "l1_inv ?q" by (simp add: l1_inv_def v q l1_key_def)
    with None u q show ?thesis
      by (simp add: l1_safe_def l1_complete_unfold [OF inv ph])
  next
    case (Some k')
    have "l1_inv (run_l1_begin k' ?q)" by (rule run_l1_begin_inv [OF sf Some])
    moreover have "pl_has_l1_runner (run_l1_begin k' ?q) = pl_has_l1_runner p"
      using run_l1_begin_view(4) [of k' ?q] q(2) by (simp add: l1_view_def)
    moreover have "undelivered (run_l1_begin k' ?q) x = undelivered p x" if "pl_has_l1_runner p" for x
      using run_l1_begin_undelivered [of ?q k' x] q that u by simp
    ultimately show ?thesis
      using Some by (simp add: l1_safe_def l1_complete_unfold [OF inv ph])
  qed
next
  case False
  then show ?thesis
    by (auto simp: l1_safe_def l1_complete_def split: l1_phase.splits)
qed

lemma notify_begin_step:
  "l1_view (notify_begin now k msgs p) = (if accepts p k
     then (l1_view p)\<lparr>v_buffer := (v_buffer (l1_view p))(k := buffer_of p k @ msgs)\<rparr> else l1_view p)"
proof -
  have "buffer_of (mod_timers k f (get_or_create_timers k (mod_state k g (get_or_create_state now k p)))) x
      = buffer_of p x" for f g x
    by (simp add: mod_timers_def get_or_create_timers_def mod_state_def get_or_create_state_def
        split: option.splits)
  then show ?thesis
    by (simp add: notify_begin_def accepts_def Let_def)
qed

section \<open>Runs\<close>

definition pl_run :: "pl_event list \<Rightarrow> pipeline \<Rightarrow> pipeline" where
  "pl_run es p = fold pl_step es p"

lemma pl_run_simps [simp]: "pl_run [] p = p" "pl_run (e # es) p = pl_run es (pl_step e p)"
  by (simp_all add: pl_run_def)

lemma pl_run_append: "pl_run (es @ fs) p = pl_run fs (pl_run es p)"
  by (simp add: pl_run_def)

text \<open>The messages of session \<open>k\<close> that an event captures, and those it hands over for good
  (the runner returned).\<close>

definition captured_by :: "pl_event \<Rightarrow> pipeline \<Rightarrow> string \<Rightarrow> captured_message list" where
  "captured_by e p k = (case e of
     EvNotify now k' msgs \<Rightarrow> if k' = k \<and> accepts p k then msgs else [] | _ \<Rightarrow> [])"

definition delivered_by :: "pl_event \<Rightarrow> pipeline \<Rightarrow> string \<Rightarrow> captured_message list" where
  "delivered_by e p k = (case e of
     EvL1Ok now r \<Rightarrow> phase_messages (pl_l1_phase p) k | _ \<Rightarrow> [])"

fun captured_in :: "pl_event list \<Rightarrow> pipeline \<Rightarrow> string \<Rightarrow> captured_message list" where
  "captured_in [] p k = []"
| "captured_in (e # es) p k = captured_by e p k @ captured_in es (pl_step e p) k"

fun delivered_in :: "pl_event list \<Rightarrow> pipeline \<Rightarrow> string \<Rightarrow> captured_message list" where
  "delivered_in [] p k = []"
| "delivered_in (e # es) p k = delivered_by e p k @ delivered_in es (pl_step e p) k"

lemma l1_step:
  assumes "l1_inv p"
  shows "l1_inv (pl_step e p) \<and> pl_has_l1_runner (pl_step e p) = pl_has_l1_runner p
    \<and> (pl_has_l1_runner p \<longrightarrow>
       undelivered p x @ captured_by e p x = delivered_by e p x @ undelivered (pl_step e p) x)"
proof -
  have safe: "?thesis" if "l1_safe p (pl_step e p)"
      "captured_by e p x = []" "delivered_by e p x = []"
    using that assms by (simp add: l1_safe_def)
  show ?thesis
  proof (cases e)
    case (EvNotify now k msgs)
    have v: "l1_view (pl_step e p) = (if accepts p k
       then (l1_view p)\<lparr>v_buffer := (v_buffer (l1_view p))(k := buffer_of p k @ msgs)\<rparr> else l1_view p)"
      by (simp add: EvNotify notify_begin_step)
    have "l1_inv (pl_step e p)" using assms by (simp add: l1_inv_def v)
    moreover have "undelivered (pl_step e p) x = undelivered p x @ captured_by e p x"
      unfolding undelivered_view v by (auto simp: captured_by_def EvNotify l1_view_def)
    moreover have "pl_has_l1_runner (pl_step e p) = pl_has_l1_runner p"
      using arg_cong [OF v, of v_runner] by (simp add: l1_view_def split: if_splits)
    ultimately show ?thesis by (simp add: delivered_by_def EvNotify)
  next
    case (EvL1Ok now r)
    show ?thesis
    proof (cases "\<exists>k b. pl_l1_phase p = L1AwaitRunner k b")
      case True
      then obtain k b where ph: "pl_l1_phase p = L1AwaitRunner k b" by blast
      show ?thesis
        using l1_runner_ok_step [OF assms ph, of now r]
        by (simp add: EvL1Ok captured_by_def delivered_by_def undelivered_def [of p])
    next
      case False
      then have "l1_runner_ok now r p = p" "phase_messages (pl_l1_phase p) x = []"
        by (auto simp: l1_runner_ok_def phase_messages_def split: l1_phase.splits)
      then show ?thesis using assms by (simp add: EvL1Ok captured_by_def delivered_by_def)
    qed
  qed (rule safe; simp add: captured_by_def delivered_by_def l1_safe_notify_resume
        l1_safe_idle_fires l1_safe_flush_session l1_safe_destroy_begin l1_safe_runner_fail
        l1_safe_persisted l1_safe_complete)+
qed

lemma l1_run:
  assumes "l1_inv p" "pl_has_l1_runner p"
  shows "l1_inv (pl_run es p)
    \<and> undelivered p x @ captured_in es p x = delivered_in es p x @ undelivered (pl_run es p) x"
  using assms
proof (induction es arbitrary: p)
  case (Cons e es)
  have s: "l1_inv (pl_step e p)" "pl_has_l1_runner (pl_step e p)"
    "undelivered p x @ captured_by e p x = delivered_by e p x @ undelivered (pl_step e p) x"
    using l1_step [OF Cons.prems(1), of e x] Cons.prems(2) by auto
  note IH = Cons.IH [OF s(1,2)]
  have "undelivered p x @ captured_in (e # es) p x
      = delivered_by e p x @ undelivered (pl_step e p) x @ captured_in es (pl_step e p) x"
    using s(3) by simp
  with IH show ?case by simp
qed simp

lemma l1_inv_run: "l1_inv p \<Longrightarrow> l1_inv (pl_run es p)"
proof (induction es arbitrary: p)
  case (Cons e es)
  then show ?case using l1_step [of p e "[]"] by simp
qed simp

end
