(* ===== verification/Pipeline_L2.thy ===== *)
theory Pipeline_L2
  imports Pipeline_L1
begin

text \<open>
  The L2 side of \<^verbatim>\<open>MemoryCore/src/utils/pipeline-manager.ts\<close>: at most one L2 task per
  session is queued or running, and the session's L2 timer never becomes due before the
  minimum interval since its last L2 run is over. As on the L1 side, the proofs work on a
  view of the pipeline; \<open>l2_inv t\<close> is the invariant at time \<open>t\<close>.
\<close>

section \<open>The L2 view\<close>

abbreviation l2_flag :: "pipeline \<Rightarrow> string \<Rightarrow> bool" where
  "l2_flag p k \<equiv> st_l2_queued (timers_of p k)"

abbreviation l2_sched :: "pipeline \<Rightarrow> string \<Rightarrow> timer_callback managed_timer" where
  "l2_sched p k \<equiv> st_l2_schedule (timers_of p k)"

record l2_view =
  w_flag :: "string \<Rightarrow> bool"
  w_sched :: "string \<Rightarrow> timer_callback managed_timer"
  w_queue :: "string serial_queue"
  w_phase :: l2_phase
  w_last :: "string \<Rightarrow> ms option"
  w_destroyed :: bool
  w_cfg :: manager_config

definition l2_view :: "pipeline \<Rightarrow> l2_view" where
  "l2_view p = \<lparr>w_flag = l2_flag p, w_sched = l2_sched p, w_queue = pl_l2q p,
     w_phase = pl_l2_phase p, w_last = map_of (pl_l2_last_run p), w_destroyed = pl_destroyed p,
     w_cfg = pl_cfg p\<rparr>"

definition l2_key :: "l2_phase \<Rightarrow> string option" where
  "l2_key ph = (case ph of L2None \<Rightarrow> None | L2AwaitRunner k \<Rightarrow> Some k
     | L2AwaitPersist k s \<Rightarrow> Some k | L2Settled k \<Rightarrow> Some k)"

section \<open>Frame lemmas\<close>

lemma l2_view_frame [simp]:
  "l2_view (get_or_create_state now k p) = l2_view p"
  "l2_view (get_or_create_timers k p) = l2_view p"
  "l2_view (mod_state k f p) = l2_view p"
  "l2_view (log_effect e p) = l2_view p"
  "l2_view (persist_states p) = l2_view p"
  "l2_view (set_buffer k b p) = l2_view p"
  by (auto simp: l2_view_def get_or_create_state_def get_or_create_timers_def mod_state_def
      log_effect_def persist_states_def set_buffer_def jget_or_def fun_eq_iff new_timers_def
      split: option.splits)

lemma l2_view_mod_timers [simp]:
  "(\<And>t. st_l2_queued (f t) = st_l2_queued t) \<Longrightarrow> (\<And>t. st_l2_schedule (f t) = st_l2_schedule t)
   \<Longrightarrow> l2_view (mod_timers k f p) = l2_view p"
  by (auto simp: l2_view_def mod_timers_def jget_or_def fun_eq_iff split: option.splits)

lemma l2_view_updates [simp]:
  "l2_view (p\<lparr>pl_l1q := q2\<rparr>) = l2_view p" "l2_view (p\<lparr>pl_l3q := q3\<rparr>) = l2_view p"
  "l2_view (p\<lparr>pl_l1_phase := ph2\<rparr>) = l2_view p" "l2_view (p\<lparr>pl_l3_phase := ph3\<rparr>) = l2_view p"
  "l2_view (p\<lparr>pl_l3_running := b\<rparr>) = l2_view p" "l2_view (p\<lparr>pl_l3_pending := b\<rparr>) = l2_view p"
  "l2_view (p\<lparr>pl_sessions := ss\<rparr>) = l2_view p"
  "l2_view (p\<lparr>pl_notifies := ns\<rparr>) = l2_view p" "l2_view (p\<lparr>pl_notify_counter := n\<rparr>) = l2_view p"
  "l2_view (p\<lparr>pl_destroy_phase := dp\<rparr>) = l2_view p"
  "l2_view (p\<lparr>pl_destroyed := b\<rparr>) = (l2_view p)\<lparr>w_destroyed := b\<rparr>"
  "l2_view (p\<lparr>pl_l2_phase := ph\<rparr>) = (l2_view p)\<lparr>w_phase := ph\<rparr>"
  "l2_view (p\<lparr>pl_l2q := q\<rparr>) = (l2_view p)\<lparr>w_queue := q\<rparr>"
  "l2_view (p\<lparr>pl_l2_last_run := AList.update k now (pl_l2_last_run p)\<rparr>) =
     (l2_view p)\<lparr>w_last := (w_last (l2_view p))(k := Some now)\<rparr>"
  by (auto simp: l2_view_def)

lemma l2_view_fold:
  "(\<And>x p. x \<in> set xs \<Longrightarrow> l2_view (f x p) = l2_view p) \<Longrightarrow> l2_view (fold f xs p) = l2_view p"
  by (induction xs arbitrary: p) auto

lemma l2_view_l1 [simp]:
  "l2_view (run_l1_begin k p) = l2_view p"
  "l2_view (l1_runner_fail now p) = l2_view p"
  by (auto simp: run_l1_begin_def l1_runner_fail_def Let_def split: option.splits l1_phase.splits)

lemma l2_view_enqueue_l1 [simp]: "l2_view (enqueue_l1 k p) = l2_view p"
  by (auto simp: enqueue_l1_def Let_def split: option.splits prod.splits)

lemma l2_view_drain_backlog [simp]: "l2_view (drain_backlog now k r p) = l2_view p"
  by (auto simp: drain_backlog_def split: option.splits)

lemma l2_view_fold_scopes [simp]:
  "l2_view (fold (\<lambda>l2k p. mod_state l2k f (get_or_create_state now l2k p)) ks p) = l2_view p"
  by (rule l2_view_fold) simp

lemma l2_view_l1_rest [simp]:
  "l2_view (l1_runner_ok now r p) = l2_view p"
  "l2_view (l1_complete p) = l2_view p"
  by (auto simp: l1_runner_ok_def l1_complete_def Let_def intro!: l2_view_fold
      split: option.splits prod.splits l1_phase.splits)

lemma l2_view_l3 [simp]:
  "l2_view (run_l3_begin p) = l2_view p"
  "l2_view (l3_runner_done p) = l2_view p"
  by (auto simp: run_l3_begin_def l3_runner_done_def split: l3_phase.splits)

lemma l2_view_enqueue_l3 [simp]: "l2_view (enqueue_l3 p) = l2_view p"
  by (auto simp: enqueue_l3_def Let_def split: option.splits prod.splits)

lemma l2_view_l3_rest [simp]:
  "l2_view (trigger_l3 p) = l2_view p"
  "l2_view (l3_complete p) = l2_view p"
  by (auto simp: trigger_l3_def l3_complete_def Let_def split: option.splits prod.splits l3_phase.splits)

lemma l2_view_idle_fires [simp]: "l2_view (l1_idle_fires now k p) = l2_view p"
  by (auto simp: l1_idle_fires_def on_l1_idle_timeout_def Let_def
      split: option.splits prod.splits timer_callback.splits)

lemma l2_view_flush [simp]:
  "l2_view (flush_session k p) = l2_view p" "l2_view (flush_l1_session k p) = l2_view p"
  "l2_view (notify_begin now k msgs p) = l2_view p"
  "l2_view (destroy_finish b p) = l2_view p"
  by (simp_all add: flush_session_def flush_l1_session_def notify_begin_def destroy_finish_def Let_def)

lemma l2_view_destroy_begin:
  "l2_view (destroy_begin p) = (l2_view p)\<lparr>w_destroyed := True\<rparr>"
proof (cases "pl_destroyed p")
  case False
  have "l2_view (fold flush_l1_session (jkeys (pl_timers p)) (p\<lparr>pl_destroyed := True\<rparr>))
      = l2_view (p\<lparr>pl_destroyed := True\<rparr>)"
    by (rule l2_view_fold) simp
  with False show ?thesis by (simp add: destroy_begin_def)
qed (simp add: destroy_begin_def l2_view_def)

text \<open>A timer record is replaced only through \<^verbatim>\<open>getOrCreateTimers\<close>, so the session has one.\<close>

lemma l2_view_sched:
  "jhas (pl_timers p) k \<Longrightarrow> l2_view (mod_timers k (\<lambda>t. t\<lparr>st_l2_schedule := g (st_l2_schedule t)\<rparr>) p)
     = (l2_view p)\<lparr>w_sched := (w_sched (l2_view p))(k := g (l2_sched p k))\<rparr>"
  by (auto simp: l2_view_def fun_eq_iff timers_of_mod) (auto simp: mod_timers_def)

lemma l2_view_flag:
  "jhas (pl_timers p) k \<Longrightarrow> l2_view (mod_timers k (\<lambda>t. t\<lparr>st_l2_queued := b\<rparr>) p)
     = (l2_view p)\<lparr>w_flag := (w_flag (l2_view p))(k := b)\<rparr>"
  by (auto simp: l2_view_def fun_eq_iff timers_of_mod) (auto simp: mod_timers_def)

lemma jhas_mod_timers [simp]: "jhas (pl_timers (mod_timers k f p)) x = jhas (pl_timers p) x"
  by (auto simp: mod_timers_def split: option.splits)

section \<open>The invariant\<close>

definition l2_rate :: "manager_config \<Rightarrow> ms option \<Rightarrow> timer_callback managed_timer \<Rightarrow> bool" where
  "l2_rate cfg lr t \<longleftrightarrow>
     (\<forall>l due. lr = Some l \<longrightarrow> mt_handle t = Some due \<longrightarrow> l + mc_l2_min cfg \<le> due)"

definition l2_callback :: "string \<Rightarrow> timer_callback managed_timer \<Rightarrow> bool" where
  "l2_callback k t \<longleftrightarrow> (\<forall>cb. mt_callback t = Some cb \<longrightarrow> (\<exists>src. cb = OnL2Fired k src))"

definition l2_ok :: "ms \<Rightarrow> l2_view \<Rightarrow> bool" where
  "l2_ok t v \<longleftrightarrow> single_flight (w_flag v) (w_queue v) \<and> l2_key (w_phase v) = sq_running (w_queue v)
     \<and> 0 < t \<and> mc_l2_min (w_cfg v) \<le> mc_l2_max (w_cfg v)
     \<and> (\<forall>k. l2_callback k (w_sched v k))
     \<and> (\<forall>k l. w_last v k = Some l \<longrightarrow> 0 < l \<and> l \<le> t)
     \<and> (\<not> w_destroyed v \<longrightarrow> (\<forall>k. w_phase v = L2AwaitPersist k False \<or> l2_rate (w_cfg v) (w_last v k) (w_sched v k)))"

definition l2_inv :: "ms \<Rightarrow> pipeline \<Rightarrow> bool" where
  "l2_inv t p \<longleftrightarrow> l2_ok t (l2_view p)"

lemma l2_inv_later: "l2_inv t p \<Longrightarrow> t \<le> t' \<Longrightarrow> l2_inv t' p"
  unfolding l2_inv_def l2_ok_def by (auto intro: order_trans)

definition l2_safe :: "ms \<Rightarrow> pipeline \<Rightarrow> pipeline \<Rightarrow> bool" where
  "l2_safe t p p' \<longleftrightarrow> (l2_inv t p \<longrightarrow> l2_inv t p' \<and> pl_cfg p' = pl_cfg p)"

lemma pl_cfg_view: "l2_view p' = l2_view p \<Longrightarrow> pl_cfg p' = pl_cfg p"
  by (simp add: l2_view_def)

lemma l2_safe_view [simp]: "l2_view p' = l2_view p \<Longrightarrow> l2_safe t p p'"
  using pl_cfg_view [of p' p] by (simp add: l2_safe_def l2_inv_def)

lemma l2_safe_refl [simp]: "l2_safe t p p"
  by (simp add: l2_safe_def)

lemma l2_safe_trans: "l2_safe t p q \<Longrightarrow> l2_safe t q r \<Longrightarrow> l2_safe t p r"
  by (auto simp: l2_safe_def)

lemma l2_safe_fold: "(\<And>x p. l2_safe t p (f x p)) \<Longrightarrow> l2_safe t p (fold f xs p)"
proof (induction xs arbitrary: p)
  case (Cons x xs)
  have "l2_safe t (f x p) (fold f xs (f x p))" by (rule Cons.IH) (rule Cons.prems)
  with Cons.prems show ?case by (auto intro: l2_safe_trans)
qed simp

lemma l2_inv_new:
  "0 < t \<Longrightarrow> mc_l2_min cfg \<le> mc_l2_max cfg \<Longrightarrow> l2_inv t (new_pipeline cfg r1 r2 r3 pers)"
  by (simp add: l2_inv_def l2_ok_def l2_view_def new_pipeline_def new_timers_def l2_key_def
      single_flight_empty l2_callback_def l2_rate_def mt_new_def) (simp add: sq_empty_def)

text \<open>Rearming a timer keeps the invariant when the new due time respects the interval.\<close>

lemma l2_safe_sched:
  assumes "l2_view p' = (l2_view p)\<lparr>w_sched := (w_sched (l2_view p))(k := tm)\<rparr>"
    "l2_inv t p \<Longrightarrow> l2_callback k tm"
    "l2_inv t p \<Longrightarrow> \<not> pl_destroyed p \<Longrightarrow> pl_l2_phase p \<noteq> L2AwaitPersist k False \<Longrightarrow> l2_rate (pl_cfg p) (map_of (pl_l2_last_run p) k) tm"
  shows "l2_safe t p p'"
proof -
  have c: "pl_cfg p' = pl_cfg p" using arg_cong [OF assms(1), of w_cfg] by (simp add: l2_view_def)
  show ?thesis
    unfolding l2_safe_def
  proof (intro impI conjI)
    assume inv: "l2_inv t p"
    have a: "w_destroyed (l2_view p) = pl_destroyed p" "w_phase (l2_view p) = pl_l2_phase p"
      "w_cfg (l2_view p) = pl_cfg p" "w_last (l2_view p) = map_of (pl_l2_last_run p)"
      by (simp_all add: l2_view_def)
    show "l2_inv t p'"
      using inv assms(2,3) [OF inv] unfolding l2_inv_def l2_ok_def assms(1) by (auto simp: a)
  qed (rule c)
qed

section \<open>Timers\<close>

lemma l2_inv_facts:
  assumes "l2_inv t p"
  shows "single_flight (l2_flag p) (pl_l2q p)" "l2_key (pl_l2_phase p) = sq_running (pl_l2q p)"
    "mc_l2_min (pl_cfg p) \<le> mc_l2_max (pl_cfg p)" "l2_callback k (l2_sched p k)"
    "map_of (pl_l2_last_run p) k = Some l \<Longrightarrow> 0 < l" "map_of (pl_l2_last_run p) k = Some l \<Longrightarrow> l \<le> t"
    "\<not> pl_destroyed p \<Longrightarrow> pl_l2_phase p \<noteq> L2AwaitPersist k False \<Longrightarrow>
       l2_rate (pl_cfg p) (map_of (pl_l2_last_run p) k) (l2_sched p k)"
  using assms unfolding l2_inv_def l2_ok_def l2_view_def
  by (simp_all del: Some_eq_map_of_iff map_of_eq_Some_iff) blast

lemma l2_key_None: "l2_key ph = None \<longleftrightarrow> ph = L2None"
  by (auto simp: l2_key_def split: l2_phase.splits)

lemma l2_inv_idle: "l2_inv t p \<Longrightarrow> sq_running (pl_l2q p) = None \<longleftrightarrow> pl_l2_phase p = L2None"
  using l2_inv_facts(2) [of t p] l2_key_None [of "pl_l2_phase p"] by metis

lemma pl_cfg_w: "pl_cfg p = w_cfg (l2_view p)"
  by (simp add: l2_view_def)

lemma l2_callback_simps [simp]:
  "l2_callback k (mt_schedule_at now e (OnL2Fired k src) tm)" "l2_callback k (mt_cancel tm)"
  by (simp_all add: l2_callback_def mt_defs)

lemma l2_safe_advance: "l2_safe t p (advance_l2_timer now k p)"
proof (cases "pl_destroyed p")
  case False
  define desired where "desired = max (now + mc_l2_delay (pl_cfg p))
    (if 0 < jget_or 0 (pl_l2_last_run p) k then jget_or 0 (pl_l2_last_run p) k + mc_l2_min (pl_cfg p) else 0)"
  let ?q = "get_or_create_timers k p"
  have c: "pl_cfg ?q = pl_cfg p" "pl_l2_last_run ?q = pl_l2_last_run p"
    by (simp_all add: get_or_create_timers_def split: option.splits)
  have e: "advance_l2_timer now k p = mod_timers k (\<lambda>t. t\<lparr>st_l2_schedule :=
      snd (mt_try_advance_to now desired (OnL2Fired k DelayAfterL1) (st_l2_schedule t))\<rparr>) ?q"
    using False by (simp add: advance_l2_timer_def Let_def desired_def c)
  have v: "l2_view (advance_l2_timer now k p) = (l2_view p)\<lparr>w_sched := (w_sched (l2_view p))
      (k := snd (mt_try_advance_to now desired (OnL2Fired k DelayAfterL1) (l2_sched p k)))\<rparr>"
    unfolding e by (subst l2_view_sched) simp_all
  show ?thesis
  proof (rule l2_safe_sched [OF v])
    assume inv: "l2_inv t p"
    then show "l2_callback k (snd (mt_try_advance_to now desired (OnL2Fired k DelayAfterL1) (l2_sched p k)))"
      using l2_inv_facts(4) [OF inv, of k] by (auto simp: l2_callback_def mt_defs)
    assume nd: "\<not> pl_destroyed p" and np: "pl_l2_phase p \<noteq> L2AwaitPersist k False"
    have old: "l2_rate (pl_cfg p) (map_of (pl_l2_last_run p) k) (l2_sched p k)"
      using l2_inv_facts(7) [OF inv nd np] .
    have "l + mc_l2_min (pl_cfg p) \<le> desired" if "map_of (pl_l2_last_run p) k = Some l" for l
      using l2_inv_facts(5) [OF inv that] that by (simp add: desired_def jget_or_Some)
    then show "l2_rate (pl_cfg p) (map_of (pl_l2_last_run p) k)
        (snd (mt_try_advance_to now desired (OnL2Fired k DelayAfterL1) (l2_sched p k)))"
      using old by (fastforce simp: l2_rate_def mt_defs)
  qed
qed (simp add: advance_l2_timer_def)

lemma l2_view_arm:
  "l2_view (arm_l2_max_interval now k p) = (if pl_destroyed p then l2_view p
     else (l2_view p)\<lparr>w_sched := (w_sched (l2_view p))(k :=
       mt_schedule_at now (now + mc_l2_max (pl_cfg p)) (OnL2Fired k MaxInterval) (l2_sched p k))\<rparr>)"
proof -
  have "pl_cfg (get_or_create_timers k p) = pl_cfg p"
    by (simp add: get_or_create_timers_def split: option.splits)
  then show ?thesis
    by (cases "pl_destroyed p") (simp_all add: arm_l2_max_interval_def l2_view_sched)
qed

lemma l2_arm_rate:
  assumes "l2_inv now p"
  shows "l2_rate (pl_cfg p) (map_of (pl_l2_last_run p) k)
    (mt_schedule_at now (now + mc_l2_max (pl_cfg p)) cb tm)"
  using l2_inv_facts(3) [OF assms] l2_inv_facts(6) [OF assms, of k]
  by (fastforce simp: l2_rate_def mt_defs)

lemma l2_safe_arm: "l2_safe now p (arm_l2_max_interval now k p)"
proof (cases "pl_destroyed p")
  case False
  show ?thesis
    by (rule l2_safe_sched) (use False in \<open>auto simp: l2_view_arm intro: l2_arm_rate\<close>)
qed (simp add: arm_l2_max_interval_def)

section \<open>The queue\<close>

lemma l2_view_run_begin [simp]:
  "w_flag (l2_view (run_l2_begin k p)) = w_flag (l2_view p)"
  "w_sched (l2_view (run_l2_begin k p)) = w_sched (l2_view p)"
  "w_queue (l2_view (run_l2_begin k p)) = w_queue (l2_view p)"
  "w_last (l2_view (run_l2_begin k p)) = w_last (l2_view p)"
  "w_destroyed (l2_view (run_l2_begin k p)) = w_destroyed (l2_view p)"
  "w_cfg (l2_view (run_l2_begin k p)) = w_cfg (l2_view p)"
  "l2_key (w_phase (l2_view (run_l2_begin k p))) = Some k"
  "w_phase (l2_view (run_l2_begin k p)) \<noteq> L2AwaitPersist x b"
  by (auto simp: run_l2_begin_def Let_def l2_key_def split: option.splits)

definition l2_cancelled :: "string \<Rightarrow> pipeline \<Rightarrow> pipeline" where
  "l2_cancelled k p = mod_timers k (\<lambda>t. t\<lparr>st_l2_schedule := mt_cancel (st_l2_schedule t)\<rparr>)
     (get_or_create_timers k p)"

definition l2_queued :: "string \<Rightarrow> pipeline \<Rightarrow> pipeline" where
  "l2_queued k p = (mod_timers k (\<lambda>t. t\<lparr>st_l2_queued := True\<rparr>) p)\<lparr>pl_l2q := snd (sq_add k (pl_l2q p))\<rparr>"

lemma l2_view_cancelled: "l2_view (l2_cancelled k p) =
    (l2_view p)\<lparr>w_sched := (w_sched (l2_view p))(k := mt_cancel (l2_sched p k))\<rparr>"
  unfolding l2_cancelled_def by (subst l2_view_sched) simp_all

lemma l2_safe_cancelled: "l2_safe t p (l2_cancelled k p)"
  by (rule l2_safe_sched [OF l2_view_cancelled]) (auto simp: l2_callback_def l2_rate_def mt_defs)

lemma l2_view_queued: "jhas (pl_timers p) k \<Longrightarrow> l2_view (l2_queued k p) = (l2_view p)
    \<lparr>w_flag := (w_flag (l2_view p))(k := True), w_queue := snd (sq_add k (pl_l2q p))\<rparr>"
  by (simp add: l2_queued_def l2_view_flag)

lemma enqueue_l2_unfold:
  "enqueue_l2 k p = (let p = l2_cancelled k p in
     if l2_flag p k then p
     else (case fst (sq_add k (pl_l2q p)) of None \<Rightarrow> l2_queued k p
        | Some k' \<Rightarrow> run_l2_begin k' (l2_queued k p)))"
proof -
  have "pl_l2q (mod_timers k f p) = pl_l2q p" for f p
    by (simp add: mod_timers_def split: option.splits)
  then show ?thesis
    unfolding enqueue_l2_def Let_def l2_cancelled_def [symmetric]
    by (simp add: l2_queued_def split_beta split: option.split)
qed

lemma l2_safe_queued:
  assumes "\<not> l2_flag p k" "jhas (pl_timers p) k"
  shows "l2_safe t p (case fst (sq_add k (pl_l2q p)) of None \<Rightarrow> l2_queued k p
        | Some k' \<Rightarrow> run_l2_begin k' (l2_queued k p))"
proof (cases "l2_inv t p")
  case True
  note sf = l2_inv_facts(1) [OF True]
  have v: "l2_view (l2_queued k p) = (l2_view p)
      \<lparr>w_flag := (w_flag (l2_view p))(k := True), w_queue := snd (sq_add k (pl_l2q p))\<rparr>"
    by (rule l2_view_queued [OF assms(2)])
  have a: "w_flag (l2_view p) = l2_flag p" "w_phase (l2_view p) = pl_l2_phase p" "w_cfg (l2_view p) = pl_cfg p"
    by (simp_all add: l2_view_def)
  have sf': "single_flight ((l2_flag p)(k := True)) (snd (sq_add k (pl_l2q p)))"
    by (rule single_flight_add [OF sf assms(1)])
  show ?thesis
  proof (cases "sq_running (pl_l2q p)")
    case None
    then have ph: "pl_l2_phase p = L2None" using l2_inv_idle [OF True] by simp
    have "l2_inv t (run_l2_begin k (l2_queued k p))"
      using True sf' ph sq_add_started [OF sf, of k] None
      by (simp add: l2_inv_def l2_ok_def v a)
    moreover have "pl_cfg (run_l2_begin k (l2_queued k p)) = pl_cfg p"
      unfolding pl_cfg_w by (simp add: v)
    ultimately show ?thesis
      using sq_add_started(1) [OF sf, of k] None by (simp add: l2_safe_def)
  next
    case (Some r)
    have "l2_key (pl_l2_phase p) = sq_running (snd (sq_add k (pl_l2q p)))"
      using sq_add_started(2) [OF sf, of k] Some l2_inv_facts(2) [OF True] by simp
    then have "l2_inv t (l2_queued k p)"
      using True sf' unfolding l2_inv_def l2_ok_def v by (simp add: a)
    moreover have "pl_cfg (l2_queued k p) = pl_cfg p"
      using arg_cong [OF v, of w_cfg] by (simp add: l2_view_def)
    ultimately show ?thesis
      using sq_add_started(1) [OF sf, of k] Some by (simp add: l2_safe_def)
  qed
qed (simp add: l2_safe_def)

lemma l2_safe_enqueue: "l2_safe t p (enqueue_l2 k p)"
proof -
  have "jhas (pl_timers (l2_cancelled k p)) k"
    unfolding l2_cancelled_def jhas_mod_timers by (rule jhas_get_or_create_timers)
  then have "l2_safe t (l2_cancelled k p) (enqueue_l2 k p)"
    using l2_safe_queued [of "l2_cancelled k p" k t] by (simp add: enqueue_l2_unfold Let_def)
  then show ?thesis by (rule l2_safe_trans [OF l2_safe_cancelled])
qed

lemma l2_safe_fired: "l2_safe t p (on_l2_timer_fired now k src p)"
  by (auto simp: on_l2_timer_fired_def l2_safe_enqueue split: option.splits)

section \<open>Steps\<close>

lemma l2_timer_armed: "mt_handle (l2_sched p k) = Some due \<Longrightarrow> jhas (pl_timers p) k"
  by (auto simp: jget_or_def new_timers_def split: option.splits)

lemma l2_safe_disarmed:
  assumes "mt_handle (l2_sched p k) = Some due" "mt_handle tm = None" "mt_callback tm = None"
  shows "l2_safe t p (mod_timers k (\<lambda>t. t\<lparr>st_l2_schedule := tm\<rparr>) p)"
  by (rule l2_safe_sched [OF l2_view_sched [OF l2_timer_armed [OF assms(1)]]])
    (simp_all add: l2_callback_def l2_rate_def assms)

lemma mt_fire_disarms:
  "mt_handle (snd (mt_fire d tm)) = None" "mt_callback (snd (mt_fire d tm)) = None"
  "mt_handle (snd (mt_flush tm)) = None"
  "mt_handle tm \<noteq> None \<Longrightarrow> mt_callback (snd (mt_flush tm)) = None"
  by (auto simp: mt_defs Let_def)

lemma l2_schedule_fires_unfold:
  "l2_schedule_fires now k p = (case mt_handle (l2_sched p k) of None \<Rightarrow> p
     | Some due \<Rightarrow> if now < due then p
         else (let q = mod_timers k (\<lambda>t. t\<lparr>st_l2_schedule := snd (mt_fire (pl_destroyed p) (l2_sched p k))\<rparr>) p
               in case fst (mt_fire (pl_destroyed p) (l2_sched p k)) of
                    Some (OnL2Fired k' src) \<Rightarrow> on_l2_timer_fired now k' src q | _ \<Rightarrow> q))"
  by (simp add: l2_schedule_fires_def split_beta Let_def split: option.splits timer_callback.splits)

lemma l2_safe_schedule_fires: "l2_safe t p (l2_schedule_fires now k p)"
proof (cases "mt_handle (l2_sched p k)")
  case (Some due)
  have "l2_safe t p (mod_timers k (\<lambda>t. t\<lparr>st_l2_schedule := snd (mt_fire (pl_destroyed p) (l2_sched p k))\<rparr>) p)"
    by (rule l2_safe_disarmed [OF Some]) (simp_all add: mt_fire_disarms)
  from this l2_safe_trans [OF this l2_safe_fired] show ?thesis
    by (simp add: l2_schedule_fires_unfold Some Let_def split: option.split timer_callback.split)
qed (simp add: l2_schedule_fires_unfold)

lemma flush_l2_session_unfold:
  "flush_l2_session now k p = (if mt_pending (l2_sched p k)
     then (let q = mod_timers k (\<lambda>t. t\<lparr>st_l2_schedule := snd (mt_flush (l2_sched p k))\<rparr>) p
           in case fst (mt_flush (l2_sched p k)) of
                Some (OnL2Fired k' src) \<Rightarrow> on_l2_timer_fired now k' src q | _ \<Rightarrow> q)
     else p)"
  by (simp add: flush_l2_session_def split_beta Let_def split: option.splits timer_callback.splits)

lemma l2_safe_flush_session: "l2_safe t p (flush_l2_session now k p)"
proof (cases "mt_handle (l2_sched p k)")
  case (Some due)
  have "l2_safe t p (mod_timers k (\<lambda>t. t\<lparr>st_l2_schedule := snd (mt_flush (l2_sched p k))\<rparr>) p)"
    by (rule l2_safe_disarmed [OF Some]) (simp_all add: mt_fire_disarms Some)
  from this l2_safe_trans [OF this l2_safe_fired] show ?thesis
    by (simp add: flush_l2_session_unfold mt_pending_def Some Let_def split: option.split timer_callback.split)
qed (simp add: flush_l2_session_unfold mt_pending_def)

lemma l2_safe_destroy_flush: "l2_safe t p (destroy_flush_l2 now p)"
proof -
  have "l2_safe t p (fold (flush_l2_session now) (jkeys (pl_timers p)) p)"
    by (rule l2_safe_fold) (rule l2_safe_flush_session)
  then have "l2_safe t p ((fold (flush_l2_session now) (jkeys (pl_timers p)) p)\<lparr>pl_destroy_phase := FlushingL2L3\<rparr>)"
    by (rule l2_safe_trans) simp
  then show ?thesis by (simp add: destroy_flush_l2_def)
qed

lemma l2_safe_persisted_l1: "l2_safe t p (l1_persisted now p)"
proof -
  have "l2_safe t p (fold (advance_l2_timer now) ks p)" for ks
    by (rule l2_safe_fold) (rule l2_safe_advance)
  from l2_safe_trans [OF this l2_safe_view] l2_safe_trans [OF l2_safe_advance l2_safe_view]
  show ?thesis
    by (simp add: l1_persisted_def split: l1_phase.split)
qed

lemma l2_safe_recover: "l2_safe t p (recover_pending_sessions now p)"
proof -
  have "l2_safe t p (recover_session now k p)" for k p
    using l2_safe_trans [OF l2_safe_view l2_safe_advance] by (simp add: recover_session_def split: option.split)
  then show ?thesis unfolding recover_pending_sessions_def by (rule l2_safe_fold)
qed

lemma l2_safe_start: "l2_safe t p (pl_start now r p)"
proof -
  have v: "l2_view (fold (\<lambda>(k, sw) p. if should_skip (mc_filter (pl_cfg p)) k then p
      else p\<lparr>pl_sessions := AList.update k (restore_state sw) (pl_sessions p)\<rparr>) states p) = l2_view p" for states
    by (rule l2_view_fold) auto
  show ?thesis
    using l2_safe_recover l2_safe_trans [OF l2_safe_view [OF v] l2_safe_recover]
    by (simp add: pl_start_def Let_def split: option.split)
qed

lemma l2_inv_phase:
  assumes "l2_inv t p" "l2_key ph = l2_key (pl_l2_phase p)"
    "\<And>k. \<not> pl_destroyed p \<Longrightarrow> pl_l2_phase p = L2AwaitPersist k False \<Longrightarrow>
       l2_rate (pl_cfg p) (map_of (pl_l2_last_run p) k) (l2_sched p k)"
  shows "l2_inv t (p\<lparr>pl_l2_phase := ph\<rparr>)"
proof -
  have r: "l2_rate (pl_cfg p) (map_of (pl_l2_last_run p) k) (l2_sched p k)" if "\<not> pl_destroyed p" for k
    using l2_inv_facts(7) [OF assms(1) that, of k] assms(3) [OF that, of k] by blast
  show ?thesis
    using assms(1,2) unfolding l2_inv_def l2_ok_def l2_view_updates
    by (simp del: map_of_eq_Some_iff Some_eq_map_of_iff) (simp add: l2_view_def r)
qed

lemma l2_safe_runner_fail: "l2_safe now p (l2_runner_fail now p)"
proof (cases "\<exists>k. pl_l2_phase p = L2AwaitRunner k")
  case True
  then obtain k where ph: "pl_l2_phase p = L2AwaitRunner k" by blast
  let ?q = "arm_l2_max_interval now k p"
  have q: "pl_l2_phase ?q = L2AwaitRunner k"
    using arg_cong [OF l2_view_arm [of now k p], of w_phase] ph by (simp add: l2_view_def split: if_splits)
  have "l2_safe now ?q (?q\<lparr>pl_l2_phase := L2Settled k\<rparr>)"
    using l2_inv_phase [of now ?q "L2Settled k"] by (simp add: l2_safe_def q l2_key_def)
  then show ?thesis
    using l2_safe_trans [OF l2_safe_arm] by (simp add: l2_runner_fail_def ph)
next
  case False
  then show ?thesis by (auto simp: l2_runner_fail_def split: l2_phase.splits)
qed

lemma l2_safe_ran:
  assumes ph: "pl_l2_phase p = L2AwaitRunner k"
    and v: "l2_view q = (l2_view p)\<lparr>w_last := (w_last (l2_view p))(k := Some now), w_phase := L2AwaitPersist k False\<rparr>"
  shows "l2_safe now p q"
proof -
  have a: "w_phase (l2_view p) = L2AwaitRunner k" "w_cfg (l2_view q) = w_cfg (l2_view p)"
    using ph v by (simp_all add: l2_view_def)
  have "l2_inv now q" if "l2_inv now p"
    using that unfolding l2_inv_def l2_ok_def v by (auto simp: a l2_key_def)
  then show ?thesis using a(2) by (simp add: l2_safe_def pl_cfg_w)
qed

lemma l2_safe_runner_ok: "l2_safe now p (l2_runner_ok now stamp r p)"
proof (cases "\<exists>k. pl_l2_phase p = L2AwaitRunner k")
  case True
  then obtain k where ph: "pl_l2_phase p = L2AwaitRunner k" by blast
  let ?m = "mod_state k (\<lambda>s. s\<lparr>l2_pending_l1_count := 0\<rparr>) p"
  have jh: "pl_l2_last_run ?m = pl_l2_last_run p"
    by (simp add: mod_state_def split: option.split)
  show ?thesis
  proof (cases "\<not> jhas (pl_l2_last_run p) k \<and> (case r of None \<Rightarrow> False | Some res \<Rightarrow> l2r_skipped res)")
    case True
    let ?q = "persist_states (arm_l2_max_interval now k ?m)"
    have q: "pl_l2_phase ?q = L2AwaitRunner k"
    proof -
      have "w_phase (l2_view ?q) = w_phase (l2_view p)"
        by (simp add: l2_view_arm)
      then show ?thesis using ph by (simp add: l2_view_def)
    qed
    have 1: "l2_safe now p ?q"
      by (rule l2_safe_trans [OF l2_safe_view l2_safe_trans [OF l2_safe_arm l2_safe_view]]) simp_all
    have "l2_safe now ?q (?q\<lparr>pl_l2_phase := L2AwaitPersist k True\<rparr>)"
      using l2_inv_phase [of now ?q "L2AwaitPersist k True"] by (simp add: l2_safe_def q l2_key_def)
    from l2_safe_trans [OF 1 this] show ?thesis
      using True by (simp only: l2_runner_ok_def ph l2_phase.case Let_def jh if_True simp_thms)
  next
    case False
    have "l2_view (l2_runner_ok now stamp r p) =
      (l2_view p)\<lparr>w_last := (w_last (l2_view p))(k := Some now), w_phase := L2AwaitPersist k False\<rparr>"
      using False by (simp only: l2_runner_ok_def ph l2_phase.case Let_def jh if_False)
        (auto split: option.split)
    then show ?thesis by (rule l2_safe_ran [OF ph])
  qed
next
  case False
  then show ?thesis by (auto simp: l2_runner_ok_def split: l2_phase.splits)
qed

text \<open>The end of an L2 run: the maximum-interval timer replaces whatever was armed while the
  task ran.\<close>

lemma l2_inv_rearmed:
  assumes inv: "l2_inv now p" and ph: "pl_l2_phase p = L2AwaitPersist k False"
    and v: "l2_view q = (l2_view (arm_l2_max_interval now k p))\<lparr>w_phase := L2Settled k\<rparr>"
  shows "l2_inv now q"
proof -
  have "single_flight (l2_flag p) (pl_l2q p)" "l2_key (L2Settled k) = sq_running (pl_l2q p)"
    using l2_inv_facts(1,2) [OF inv] ph by (simp_all add: l2_key_def)
  moreover have "l2_rate (pl_cfg p) (map_of (pl_l2_last_run p) x) (l2_sched p x)"
    if "\<not> pl_destroyed p" "x \<noteq> k" for x
    using l2_inv_facts(7) [OF inv that(1), of x] ph that(2) by simp
  ultimately show ?thesis
    using inv l2_arm_rate [OF inv, of k "OnL2Fired k MaxInterval" "l2_sched p k"]
    unfolding l2_inv_def l2_ok_def v l2_view_arm
    by (simp del: map_of_eq_Some_iff Some_eq_map_of_iff) (simp add: l2_view_def)
qed

lemma l2_safe_persisted: "l2_safe now p (l2_persisted now p)"
proof (cases "\<exists>k s. pl_l2_phase p = L2AwaitPersist k s")
  case True
  then obtain k s where ph: "pl_l2_phase p = L2AwaitPersist k s" by blast
  show ?thesis
  proof (cases s)
    case True
    then show ?thesis
      using l2_inv_phase [of now p "L2Settled k"] by (simp add: l2_safe_def l2_persisted_def ph l2_key_def)
  next
    case False
    have v: "l2_view (l2_persisted now p) = (l2_view (arm_l2_max_interval now k p))\<lparr>w_phase := L2Settled k\<rparr>"
      by (simp add: l2_persisted_def ph False)
    then have "pl_cfg (l2_persisted now p) = pl_cfg p"
      unfolding pl_cfg_w by (simp add: l2_view_arm)
    then show ?thesis
      using l2_inv_rearmed [OF _ _ v] ph False by (simp add: l2_safe_def)
  qed
next
  case False
  then show ?thesis by (auto simp: l2_persisted_def split: l2_phase.splits)
qed

definition l2_released :: "string \<Rightarrow> pipeline \<Rightarrow> pipeline" where
  "l2_released k p = (mod_timers k (\<lambda>t. t\<lparr>st_l2_queued := False\<rparr>) p)
     \<lparr>pl_l2q := snd (snd (sq_complete (pl_l2q p))), pl_l2_phase := L2None\<rparr>"

lemma l2_complete_unfold:
  assumes "l2_inv t p" "pl_l2_phase p = L2Settled k"
  shows "l2_complete p = (case sq_running (pl_l2q (l2_released k p)) of
      None \<Rightarrow> l2_released k p | Some k' \<Rightarrow> run_l2_begin k' (l2_released k p))"
proof -
  have "pl_l2q (mod_timers k (\<lambda>t. t\<lparr>st_l2_queued := False\<rparr>) p) = pl_l2q p"
    by (simp add: mod_timers_def split: option.splits)
  then show ?thesis
    using sq_complete_started(1) [OF l2_inv_facts(1) [OF assms(1)]]
    by (simp add: l2_complete_def assms(2) l2_released_def split_beta Let_def split: option.split)
qed

lemma l2_inv_flag:
  assumes "l2_inv t p" "l2_key (pl_l2_phase p) = Some k"
  shows "l2_flag p k" "jhas (pl_timers p) k"
proof -
  show "l2_flag p k"
  proof -
    have "l2_flag p = (\<lambda>k. k \<in> set (sq_entries (pl_l2q p)))"
      using l2_inv_facts(1) [OF assms(1)] unfolding single_flight_def by (rule conjunct1)
    moreover have "k \<in> set (sq_entries (pl_l2q p))"
      using l2_inv_facts(2) [OF assms(1)] assms(2) by (simp add: sq_entries_def eq_commute [of "Some k"])
    ultimately show ?thesis by metis
  qed
  then show "jhas (pl_timers p) k"
    by (auto simp: jget_or_def new_timers_def split: option.splits)
qed

lemma l2_safe_complete: "l2_safe t p (l2_complete p)"
proof (cases "l2_inv t p \<and> (\<exists>k. pl_l2_phase p = L2Settled k)")
  case True
  then obtain k where inv: "l2_inv t p" and ph: "pl_l2_phase p = L2Settled k" by blast
  let ?q = "l2_released k p"
  have kp: "l2_key (pl_l2_phase p) = Some k" by (simp add: ph l2_key_def)
  have v: "l2_view ?q = (l2_view p)\<lparr>w_flag := (w_flag (l2_view p))(k := False),
      w_queue := snd (snd (sq_complete (pl_l2q p))), w_phase := L2None\<rparr>"
    using l2_view_flag [OF l2_inv_flag(2) [OF inv kp]] by (simp add: l2_released_def)
  have a: "w_flag (l2_view p) = l2_flag p" "w_phase (l2_view p) = pl_l2_phase p" "w_cfg (l2_view p) = pl_cfg p"
    "pl_l2q ?q = snd (snd (sq_complete (pl_l2q p)))"
    by (simp_all add: l2_view_def l2_released_def)
  have "sq_running (pl_l2q p) = Some k"
    using l2_inv_facts(2) [OF inv] kp by simp
  then have sf: "single_flight ((l2_flag p)(k := False)) (snd (snd (sq_complete (pl_l2q p))))"
    by (rule single_flight_complete [OF l2_inv_facts(1) [OF inv]])
  show ?thesis
  proof (cases "sq_running (pl_l2q ?q)")
    case None
    then have "l2_inv t ?q"
      using inv sf ph unfolding l2_inv_def l2_ok_def v by (simp add: a l2_key_def)
    then show ?thesis
      using None by (simp add: l2_safe_def l2_complete_unfold [OF inv ph]) (simp add: pl_cfg_w v)
  next
    case (Some k')
    then have "l2_inv t (run_l2_begin k' ?q)"
      using inv sf ph unfolding l2_inv_def l2_ok_def by (simp add: v a)
    then show ?thesis
      using Some by (simp add: l2_safe_def l2_complete_unfold [OF inv ph]) (simp add: pl_cfg_w v)
  qed
next
  case False
  then show ?thesis
    by (auto simp: l2_safe_def l2_complete_def split: l2_phase.splits)
qed

lemma l2_safe_gc: "l2_safe t p (gc_stale_sessions now p)"
proof -
  let ?q = "gc_stale_sessions now p"
  note f = gc_fields [of now p]
  have fl: "l2_flag ?q = l2_flag p"
  proof
    fix k
    show "l2_flag ?q k = l2_flag p k"
      using gc_evicted_idle(2) [of k now p] f [of k]
      by (cases "k \<in> set (gc_evicted now p)") (auto simp: jget_or_def new_timers_def)
  qed
  have sc: "l2_sched ?q k = (if k \<in> set (gc_evicted now p) then mt_new else l2_sched p k)" for k
    using f [of k] by (auto simp: jget_or_def new_timers_def)
  have lr: "map_of (pl_l2_last_run ?q) k = (if k \<in> set (gc_evicted now p) then None else map_of (pl_l2_last_run p) k)" for k
    using f [of k] by auto
  have same: "pl_l2q ?q = pl_l2q p" "pl_l2_phase ?q = pl_l2_phase p" "pl_cfg ?q = pl_cfg p"
    "pl_destroyed ?q = pl_destroyed p"
    using f [of "[]"] by auto
  have "l2_inv t ?q" if inv: "l2_inv t p"
  proof -
    have cb: "l2_callback k (l2_sched ?q k)" for k
      using l2_inv_facts(4) [OF inv, of k] by (simp add: sc l2_callback_def mt_new_def)
    have rate: "l2_rate (pl_cfg p) (map_of (pl_l2_last_run ?q) k) (l2_sched ?q k)"
      if "\<not> pl_destroyed p" "pl_l2_phase p \<noteq> L2AwaitPersist k False" for k
      using l2_inv_facts(7) [OF inv that] by (simp add: sc lr l2_rate_def)
    have last: "0 < l \<and> l \<le> t" if "map_of (pl_l2_last_run ?q) k = Some l" for k l
      using l2_inv_facts(5,6) [OF inv, of k l] that by (simp add: lr split: if_splits)
    show ?thesis
      using inv unfolding l2_inv_def l2_ok_def l2_view_def
      by (simp del: map_of_eq_Some_iff Some_eq_map_of_iff add: same fl cb)
        (intro conjI allI impI; use rate last in blast)
  qed
  then show ?thesis by (simp add: l2_safe_def same)
qed

lemma l2_safe_notify_resume: "l2_safe t p (notify_resume now p)"
proof -
  have "l2_safe t p (notify_rest now k th p)" for k th p
    using l2_safe_trans [OF l2_safe_view l2_safe_gc]
    by (simp add: notify_rest_def Let_def split: option.split)
  from l2_safe_trans [OF l2_safe_view this]
  have "l2_view q = l2_view p \<Longrightarrow> l2_safe t p (notify_rest now k th q)" for k th q
    by blast
  then show ?thesis
    by (simp add: notify_resume_def split: list.split)
qed

lemma l2_safe_destroy: "l2_safe t p (destroy_begin p)"
proof -
  have "l2_inv t (destroy_begin p)" if "l2_inv t p"
    using that unfolding l2_inv_def l2_ok_def l2_view_destroy_begin by simp
  moreover have "pl_cfg (destroy_begin p) = pl_cfg p"
    by (simp add: pl_cfg_w l2_view_destroy_begin)
  ultimately show ?thesis by (simp add: l2_safe_def)
qed

section \<open>Timed runs\<close>

text \<open>The time an event happens at, and the runs whose clock does not go backwards.\<close>

definition ev_time :: "pl_event \<Rightarrow> ms option" where
  "ev_time e = (case e of EvStart now r \<Rightarrow> Some now | EvNotify now k m \<Rightarrow> Some now
     | EvNotifyResume now \<Rightarrow> Some now | EvL1Idle now k \<Rightarrow> Some now | EvL2Schedule now k \<Rightarrow> Some now
     | EvL1Ok now r \<Rightarrow> Some now | EvL1Fail now \<Rightarrow> Some now | EvL1Persisted now \<Rightarrow> Some now
     | EvL2Ok now st r \<Rightarrow> Some now | EvL2Fail now \<Rightarrow> Some now | EvL2Persisted now \<Rightarrow> Some now
     | EvDestroyFlushL2 now \<Rightarrow> Some now | _ \<Rightarrow> None)"

definition ev_clock :: "ms \<Rightarrow> pl_event \<Rightarrow> ms" where
  "ev_clock t e = (case ev_time e of None \<Rightarrow> t | Some now \<Rightarrow> now)"

fun timed :: "ms \<Rightarrow> pl_event list \<Rightarrow> bool" where
  "timed t [] \<longleftrightarrow> 0 < t"
| "timed t (e # es) \<longleftrightarrow> 0 < t \<and> t \<le> ev_clock t e \<and> timed (ev_clock t e) es"

definition run_clock :: "ms \<Rightarrow> pl_event list \<Rightarrow> ms" where
  "run_clock t es = fold (\<lambda>e t. ev_clock t e) es t"

lemma l2_step: "l2_safe (ev_clock t e) p (pl_step e p)"
  by (cases e) (simp_all add: ev_clock_def ev_time_def l2_safe_start l2_safe_notify_resume
      l2_safe_schedule_fires l2_safe_persisted_l1 l2_safe_runner_ok l2_safe_runner_fail
      l2_safe_persisted l2_safe_complete l2_safe_destroy l2_safe_destroy_flush)

lemma l2_run:
  "l2_inv t p \<Longrightarrow> timed t es \<Longrightarrow>
   l2_inv (run_clock t es) (pl_run es p) \<and> pl_cfg (pl_run es p) = pl_cfg p"
proof (induction es arbitrary: t p)
  case (Cons e es)
  then have "l2_inv (ev_clock t e) p" by (auto intro: l2_inv_later)
  then have "l2_inv (ev_clock t e) (pl_step e p)" "pl_cfg (pl_step e p) = pl_cfg p"
    using l2_step [of t e p] by (auto simp: l2_safe_def)
  with Cons.IH [of "ev_clock t e" "pl_step e p"] Cons.prems(2) show ?case
    by (simp add: run_clock_def)
qed (simp add: run_clock_def)

text \<open>A timer that fires enqueues at most its own session.\<close>

lemma l2_schedule_enqueues:
  assumes inv: "l2_inv t p" and nin: "x \<notin> set (sq_entries (pl_l2q p))"
    and inq: "x \<in> set (sq_entries (pl_l2q (l2_schedule_fires now k p)))"
  shows "x = k \<and> \<not> pl_destroyed p \<and> (\<exists>due. mt_handle (l2_sched p k) = Some due \<and> due \<le> now)"
proof (cases "mt_handle (l2_sched p k)")
  case None
  then show ?thesis using nin inq by (simp add: l2_schedule_fires_unfold)
next
  case (Some due)
  let ?q = "mod_timers k (\<lambda>t. t\<lparr>st_l2_schedule := snd (mt_fire (pl_destroyed p) (l2_sched p k))\<rparr>) p"
  have q: "pl_l2q ?q = pl_l2q p"
    by (simp add: mod_timers_def split: option.splits)
  have due: "due \<le> now"
    using nin inq Some by (auto simp: l2_schedule_fires_unfold split: if_splits)
  have "l2_safe t p ?q"
    by (rule l2_safe_disarmed [OF Some]) (simp_all add: mt_fire_disarms)
  then have invq: "l2_inv t ?q" using inv by (simp add: l2_safe_def)
  obtain src where cb: "fst (mt_fire (pl_destroyed p) (l2_sched p k)) = Some (OnL2Fired k src)"
    and nd: "\<not> pl_destroyed p"
  proof (cases "fst (mt_fire (pl_destroyed p) (l2_sched p k))")
    case None
    then show ?thesis using nin inq Some due q by (simp add: l2_schedule_fires_unfold)
  next
    case s: (Some cb)
    then have "mt_callback (l2_sched p k) = Some cb" "\<not> pl_destroyed p"
      by (auto simp: mt_fire_def Let_def split: if_splits)
    with l2_inv_facts(4) [OF inv, of k] s that show ?thesis by (auto simp: l2_callback_def)
  qed
  have fire: "l2_schedule_fires now k p = on_l2_timer_fired now k src ?q"
    using Some due cb by (simp add: l2_schedule_fires_unfold Let_def)
  have "x = k"
  proof (rule ccontr)
    assume xk: "x \<noteq> k"
    have sf: "single_flight (l2_flag (l2_cancelled k ?q)) (pl_l2q (l2_cancelled k ?q))"
      using l2_safe_cancelled [of t ?q k] invq by (intro l2_inv_facts(1) [of t]) (simp add: l2_safe_def)
    have qc: "pl_l2q (l2_cancelled k ?q) = pl_l2q p"
      using arg_cong [OF l2_view_cancelled [of k ?q], of w_queue] q by (simp add: l2_view_def)
    have "sq_entries (pl_l2q (l2_queued k (l2_cancelled k ?q))) = sq_entries (pl_l2q p) @ [k]"
      using sq_add_started(3) [OF sf, of k] by (simp add: l2_queued_def qc)
    moreover have "pl_l2q (run_l2_begin j z) = pl_l2q z" for j z
      using l2_view_run_begin(3) [of j z] by (simp add: l2_view_def)
    ultimately have "x \<notin> set (sq_entries (pl_l2q (enqueue_l2 k ?q)))"
      using nin xk qc by (simp add: enqueue_l2_unfold Let_def split: option.split)
    then show False
      using inq nin q by (simp add: fire on_l2_timer_fired_def split: option.splits if_splits)
  qed
  with nd due Some show ?thesis by blast
qed

end
