(* ===== verification/Pipeline_L3.thy ===== *)
theory Pipeline_L3
  imports Pipeline_L2
begin

text \<open>
  The L3 side of \<^verbatim>\<open>MemoryCore/src/utils/pipeline-manager.ts\<close>: one global run at a time, and
  a trigger that arrives during a run is remembered in \<^verbatim>\<open>l3Pending\<close> until the run ends.
\<close>

record l3_view =
  z_running :: bool
  z_pending :: bool
  z_queue :: "unit serial_queue"
  z_phase :: l3_phase
  z_runner :: bool
  z_destroyed :: bool

definition l3_view :: "pipeline \<Rightarrow> l3_view" where
  "l3_view p = \<lparr>z_running = pl_l3_running p, z_pending = pl_l3_pending p, z_queue = pl_l3q p,
     z_phase = pl_l3_phase p, z_runner = pl_has_l3_runner p, z_destroyed = pl_destroyed p\<rparr>"

section \<open>Frame lemmas\<close>

lemma l3_view_frame [simp]:
  "l3_view (get_or_create_state now k p) = l3_view p"
  "l3_view (get_or_create_timers k p) = l3_view p"
  "l3_view (mod_state k f p) = l3_view p"
  "l3_view (mod_timers k g p) = l3_view p"
  "l3_view (log_effect e p) = l3_view p"
  "l3_view (persist_states p) = l3_view p"
  "l3_view (set_buffer k b p) = l3_view p"
  by (auto simp: l3_view_def get_or_create_state_def get_or_create_timers_def mod_state_def
      mod_timers_def log_effect_def persist_states_def set_buffer_def split: option.splits)

lemma l3_view_updates [simp]:
  "l3_view (p\<lparr>pl_l1q := q1\<rparr>) = l3_view p" "l3_view (p\<lparr>pl_l2q := q2\<rparr>) = l3_view p"
  "l3_view (p\<lparr>pl_l1_phase := ph1\<rparr>) = l3_view p" "l3_view (p\<lparr>pl_l2_phase := ph2\<rparr>) = l3_view p"
  "l3_view (p\<lparr>pl_sessions := ss\<rparr>) = l3_view p" "l3_view (p\<lparr>pl_timers := ts\<rparr>) = l3_view p"
  "l3_view (p\<lparr>pl_buffers := bs\<rparr>) = l3_view p" "l3_view (p\<lparr>pl_l2_last_run := lr\<rparr>) = l3_view p"
  "l3_view (p\<lparr>pl_notifies := ns\<rparr>) = l3_view p" "l3_view (p\<lparr>pl_notify_counter := n\<rparr>) = l3_view p"
  "l3_view (p\<lparr>pl_destroy_phase := dp\<rparr>) = l3_view p"
  "l3_view (p\<lparr>pl_destroyed := b\<rparr>) = (l3_view p)\<lparr>z_destroyed := b\<rparr>"
  by (auto simp: l3_view_def)

lemma l3_view_fold:
  "(\<And>x p. x \<in> set xs \<Longrightarrow> l3_view (f x p) = l3_view p) \<Longrightarrow> l3_view (fold f xs p) = l3_view p"
  by (induction xs arbitrary: p) auto

lemma l3_view_basic [simp]:
  "l3_view (advance_l2_timer now k p) = l3_view p"
  "l3_view (arm_l2_max_interval now k p) = l3_view p"
  "l3_view (run_l1_begin k p) = l3_view p"
  "l3_view (run_l2_begin k p) = l3_view p"
  "l3_view (l1_runner_fail now p) = l3_view p"
  "l3_view (l2_runner_fail now p) = l3_view p"
  "l3_view (l2_runner_ok now s r p) = l3_view p"
  by (auto simp: advance_l2_timer_def arm_l2_max_interval_def run_l1_begin_def run_l2_begin_def
      l1_runner_fail_def l2_runner_fail_def l2_runner_ok_def Let_def
      split: option.splits l1_phase.splits l2_phase.splits)

lemma l3_view_enqueue [simp]:
  "l3_view (enqueue_l1 k p) = l3_view p" "l3_view (enqueue_l2 k p) = l3_view p"
  by (auto simp: enqueue_l1_def enqueue_l2_def Let_def split: option.splits prod.splits)

lemma l3_view_fired [simp]:
  "l3_view (on_l2_timer_fired now k src p) = l3_view p"
  "l3_view (drain_backlog now k r p) = l3_view p"
  by (auto simp: on_l2_timer_fired_def drain_backlog_def split: option.splits)

lemma l3_view_scopes [simp]:
  "l3_view (fold (\<lambda>l2k p. mod_state l2k f (get_or_create_state now l2k p)) ks p) = l3_view p"
  "l3_view (fold (advance_l2_timer now) ks p) = l3_view p"
  by (rule l3_view_fold, simp)+

lemma l3_view_tasks [simp]:
  "l3_view (l1_runner_ok now r p) = l3_view p"
  "l3_view (l1_persisted now p) = l3_view p"
  "l3_view (l1_complete p) = l3_view p"
  "l3_view (l2_complete p) = l3_view p"
  by (auto simp: l1_runner_ok_def l1_persisted_def l1_complete_def l2_complete_def Let_def
      split: option.splits prod.splits l1_phase.splits l2_phase.splits)

lemma l3_view_timers [simp]:
  "l3_view (l1_idle_fires now k p) = l3_view p"
  "l3_view (l2_schedule_fires now k p) = l3_view p"
  by (auto simp: l1_idle_fires_def l2_schedule_fires_def on_l1_idle_timeout_def Let_def
      split: option.splits prod.splits timer_callback.splits)

lemma l3_view_notify [simp]:
  "l3_view (notify_begin now k msgs p) = l3_view p"
  "l3_view (gc_stale_sessions now p) = l3_view p"
  by (auto simp: notify_begin_def gc_stale_sessions_def Let_def intro!: l3_view_fold)

lemma l3_view_notify_rest [simp]: "l3_view (notify_rest now k th p) = l3_view p"
  by (auto simp: notify_rest_def Let_def split: option.splits)

lemma l3_view_others [simp]:
  "l3_view (notify_resume now p) = l3_view p"
  "l3_view (recover_session now k p) = l3_view p"
  "l3_view (flush_session k p) = l3_view p"
  "l3_view (flush_l1_session k p) = l3_view p"
  "l3_view (flush_l2_session now k p) = l3_view p"
  by (auto simp: notify_resume_def recover_session_def flush_session_def flush_l1_session_def
      flush_l2_session_def Let_def split: list.splits option.splits prod.splits timer_callback.splits)

lemma l3_view_restore [simp]:
  "l3_view (fold (\<lambda>(k, sw) p. if should_skip (mc_filter (pl_cfg p)) k then p
     else p\<lparr>pl_sessions := AList.update k (restore_state sw) (pl_sessions p)\<rparr>) states p) = l3_view p"
  by (rule l3_view_fold) auto

lemma l3_view_start [simp]:
  "l3_view (pl_start now r p) = l3_view p"
  "l3_view (destroy_flush_l2 now p) = l3_view p"
  "l3_view (destroy_finish t p) = l3_view p"
  by (auto simp: pl_start_def recover_pending_sessions_def destroy_flush_l2_def destroy_finish_def Let_def
      l3_view_fold split: option.splits)

lemma l3_view_destroy:
  "l3_view (destroy_begin p) = (l3_view p)\<lparr>z_destroyed := True\<rparr>"
proof (cases "pl_destroyed p")
  case False
  have "l3_view (fold flush_l1_session (jkeys (pl_timers p)) (p\<lparr>pl_destroyed := True\<rparr>))
      = l3_view (p\<lparr>pl_destroyed := True\<rparr>)"
    by (rule l3_view_fold) simp
  with False show ?thesis by (simp add: destroy_begin_def)
qed (simp add: destroy_begin_def l3_view_def)

section \<open>The invariant\<close>

definition l3_ok :: "l3_view \<Rightarrow> bool" where
  "l3_ok v \<longleftrightarrow> (z_running v \<longleftrightarrow> z_phase v \<noteq> L3None)
     \<and> sq_running (z_queue v) = (if z_running v then Some () else None)
     \<and> sq_queue (z_queue v) = [] \<and> \<not> sq_paused (z_queue v)
     \<and> (z_pending v \<longrightarrow> z_running v \<or> z_destroyed v)"

lemma l3_enqueue_view:
  assumes "sq_running (pl_l3q p) = None" "sq_queue (pl_l3q p) = []" "\<not> sq_paused (pl_l3q p)"
  shows "l3_view (enqueue_l3 p) = (l3_view p)\<lparr>z_running := True, z_pending := False,
      z_queue := (pl_l3q p)\<lparr>sq_queue := [], sq_running := Some ()\<rparr>,
      z_phase := (if pl_has_l3_runner p then L3AwaitRunner else L3Settled)\<rparr>"
  using assms by (simp add: enqueue_l3_def sq_add_def sq_drain_def run_l3_begin_def Let_def l3_view_def log_effect_def)

lemma l3_ok_trigger: "l3_ok (l3_view p) \<Longrightarrow> l3_ok (l3_view (trigger_l3 p))"
  using l3_enqueue_view [of p]
  by (auto simp: trigger_l3_def l3_ok_def) (auto simp: l3_view_def)

lemma l3_ok_complete: "l3_ok (l3_view p) \<Longrightarrow> l3_ok (l3_view (l3_complete p))"
  by (auto simp: l3_complete_def l3_ok_def l3_view_def enqueue_l3_def sq_add_def sq_drain_def
      sq_complete_def run_l3_begin_def log_effect_def Let_def split: l3_phase.split)

lemma l3_ok_done: "l3_ok (l3_view p) \<Longrightarrow> l3_ok (l3_view (l3_runner_done p))"
  by (auto simp: l3_runner_done_def l3_ok_def l3_view_def split: l3_phase.split)

lemma l3_ok_persisted: "l3_ok (l3_view p) \<Longrightarrow> l3_ok (l3_view (l2_persisted now p))"
  using l3_ok_trigger [of "arm_l2_max_interval now k p" for k]
  by (auto simp: l2_persisted_def split: l2_phase.split)

lemma l3_ok_step: "l3_ok (l3_view p) \<Longrightarrow> l3_ok (l3_view (pl_step e p))"
  by (cases e) (simp_all add: l3_ok_complete l3_ok_done l3_ok_persisted l3_view_destroy, auto simp: l3_ok_def)

lemma l3_ok_new: "l3_ok (l3_view (new_pipeline cfg r1 r2 r3 pers))"
  by (simp add: l3_ok_def l3_view_def new_pipeline_def sq_empty_def)

lemma l3_ok_run: "l3_ok (l3_view p) \<Longrightarrow> l3_ok (l3_view (pl_run es p))"
  by (induction es arbitrary: p) (simp_all add: l3_ok_step)

lemma l3_runner_kept:
  "pl_has_l3_runner (trigger_l3 p) = pl_has_l3_runner p"
  "pl_has_l3_runner (l3_complete p) = pl_has_l3_runner p"
  "pl_has_l3_runner (l3_runner_done p) = pl_has_l3_runner p"
  by (auto simp: trigger_l3_def l3_complete_def l3_runner_done_def enqueue_l3_def run_l3_begin_def
      log_effect_def Let_def split: l3_phase.split prod.split option.split)

lemma l3_runner_view: "l3_view q = l3_view p \<Longrightarrow> pl_has_l3_runner q = pl_has_l3_runner p"
  by (simp add: l3_view_def)

lemma l3_runner_persisted: "pl_has_l3_runner (l2_persisted now p) = pl_has_l3_runner p"
  using l3_runner_view [OF l3_view_basic(2)]
  by (simp add: l2_persisted_def l3_runner_kept split: l2_phase.split)

lemma l3_runner_step: "pl_has_l3_runner (pl_step e p) = pl_has_l3_runner p"
proof (cases "z_runner (l3_view (pl_step e p)) = z_runner (l3_view p)")
  case True
  then show ?thesis by (simp add: l3_view_def)
next
  case False
  then show ?thesis
    by (cases e) (simp_all add: l3_runner_kept l3_runner_persisted l3_view_destroy)
qed

lemma l3_runner_run: "pl_has_l3_runner (pl_run es p) = pl_has_l3_runner p"
  by (induction es arbitrary: p) (simp_all add: l3_runner_step)

section \<open>Triggers\<close>

text \<open>A remembered trigger stays until the running L3 completes, which starts the next run.\<close>

lemma l3_pending_step:
  assumes ok: "l3_ok (l3_view p)" and pend: "pl_l3_pending p" and nd: "\<not> pl_destroyed p"
  shows "pl_l3_pending (pl_step e p) \<or> (e = EvL3Complete \<and> pl_l3_phase p = L3Settled)"
proof -
  have run: "pl_l3_running p" using ok pend nd by (auto simp: l3_ok_def l3_view_def)
  have view: "pl_l3_pending q" if "z_pending (l3_view q) = z_pending (l3_view p)" for q
    using that pend by (simp add: l3_view_def)
  show ?thesis
  proof (cases e)
    case (EvL2Persisted now)
    have "pl_l3_pending (trigger_l3 (arm_l2_max_interval now k p))" for k
    proof -
      let ?q = "arm_l2_max_interval now k p"
      have "pl_l3_running ?q = pl_l3_running p" "pl_l3_pending ?q = pl_l3_pending p"
        using l3_view_basic(2) [of now k p] by (simp_all add: l3_view_def)
      then show ?thesis using run pend by (simp add: trigger_l3_def)
    qed
    then show ?thesis
      using EvL2Persisted pend by (simp add: l2_persisted_def split: l2_phase.split)
  next
    case EvL3Complete
    then show ?thesis using pend by (simp add: l3_complete_def split: l3_phase.split)
  next
    case EvL3Done
    then show ?thesis using pend by (simp add: l3_runner_done_def split: l3_phase.split)
  qed (rule disjI1, rule view, simp add: l3_view_destroy)+
qed

lemma l3_complete_reruns:
  assumes "l3_ok (l3_view p)" "pl_l3_phase p = L3Settled" "pl_l3_pending p" "\<not> pl_destroyed p"
    "pl_has_l3_runner p"
  shows "pl_log (l3_complete p) = pl_log p @ [CallL3] \<and> pl_l3_phase (l3_complete p) = L3AwaitRunner
    \<and> \<not> pl_l3_pending (l3_complete p)"
  using assms
  by (simp add: l3_complete_def l3_ok_def l3_view_def enqueue_l3_def sq_add_def sq_drain_def
      sq_complete_def run_l3_begin_def log_effect_def Let_def)

end
