(* ===== verification/Pipeline_Properties.thy ===== *)
theory Pipeline_Properties
  imports Pipeline_L3
begin

text \<open>
  The properties of \<^verbatim>\<open>MemoryCore/src/utils/pipeline-manager.ts\<close>, over all runs of
  the scheduler from a fresh instance, and the runs in which it does not do what its
  comments promise.
\<close>

section \<open>L1\<close>

text \<open>
  C5: whatever the interleaving of notifications, timers, runner results, flushes and
  shutdown, no session ever has two L1 tasks queued or running, the flag \<^verbatim>\<open>l1Queued\<close>
  says exactly which sessions have one, and the L1 queue never holds work without
  running some.
\<close>

theorem l1_single_flight:
  "let p = pl_run es (new_pipeline cfg r1 r2 r3 pers)
   in distinct (sq_entries (pl_l1q p))
      \<and> (\<forall>k. st_l1_queued (timers_of p k) = (k \<in> set (sq_entries (pl_l1q p))))
      \<and> (sq_running (pl_l1q p) = None) = (sq_entries (pl_l1q p) = [])"
proof -
  define p where "p = pl_run es (new_pipeline cfg r1 r2 r3 pers)"
  have "l1_inv p" unfolding p_def by (rule l1_inv_run) simp
  then have sf: "single_flight (l1_flag p) (pl_l1q p)" by (rule l1_inv_phase(1))
  have "(sq_running (pl_l1q p) = None) = (sq_entries (pl_l1q p) = [])"
    using single_flight_idle(1) [OF sf] by (auto simp: sq_entries_def opt_list_def split: option.splits)
  moreover have "distinct (sq_entries (pl_l1q p))"
    using sf unfolding single_flight_def by blast
  moreover have "st_l1_queued (timers_of p k) = (k \<in> set (sq_entries (pl_l1q p)))" for k
    using sf unfolding single_flight_def by metis
  ultimately show ?thesis by (simp add: p_def [symmetric] Let_def)
qed

text \<open>
  C4: when an L1 runner is set, the messages captured for a session are, at every point of
  every run, exactly the messages the runner has returned for, followed by those with the
  task in flight, followed by those buffered: nothing is lost, duplicated or reordered, also
  when runner calls fail and are retried, sessions are collected, or the scheduler is shut down.
\<close>

theorem captured_messages_conserved:
  "let p0 = new_pipeline cfg True r2 r3 pers
   in captured_in es p0 k = delivered_in es p0 k @ undelivered (pl_run es p0) k"
proof -
  have u: "undelivered (new_pipeline cfg True r2 r3 pers) k = []"
    by (simp add: undelivered_def new_pipeline_def phase_messages_def)
  have "pl_has_l1_runner (new_pipeline cfg True r2 r3 pers)"
    by (simp add: new_pipeline_def)
  from l1_run [OF l1_inv_new this, of es k] show ?thesis
    by (simp add: u)
qed

text \<open>
  a failed L1 run puts its messages back in front of those that arrived meanwhile,
  leaves every session state alone, and re-arms the idle timer 30 s ahead for the first five
  consecutive failures only; after that the timer is left as it is.
\<close>

theorem l1_failure_restores_and_retries:
  assumes "pl_l1_phase p = L1AwaitRunner k b"
  shows "buffer_of (l1_runner_fail now p) k = b @ buffer_of p k
    \<and> pl_sessions (l1_runner_fail now p) = pl_sessions p
    \<and> st_l1_retry_count (timers_of (l1_runner_fail now p) k) = st_l1_retry_count (timers_of p k) + 1
    \<and> st_l1_idle (timers_of (l1_runner_fail now p) k) =
        (if st_l1_retry_count (timers_of p k) < 5
         then mt_schedule now 30000 (OnL1Idle k) (st_l1_idle (timers_of p k))
         else st_l1_idle (timers_of p k))"
proof -
  have j: "jhas (pl_timers (get_or_create_timers k q)) k" for q
    by (rule jhas_get_or_create_timers)
  have s: "pl_sessions (mod_timers k f q) = pl_sessions q"
    "pl_sessions (get_or_create_timers k q) = pl_sessions q"
    "pl_buffers (mod_timers k f q) = pl_buffers q"
    "pl_buffers (get_or_create_timers k q) = pl_buffers q" for f q
    by (simp_all add: mod_timers_def get_or_create_timers_def split: option.splits)
  have t: "timers_of (set_buffer k c q) = timers_of q" for c q
    by (simp add: set_buffer_def)
  show ?thesis
    using assms j
    by (simp add: l1_runner_fail_def Let_def timers_of_mod s t del: split_paired_Ex not_None_eq)
      (auto simp: s set_buffer_def l1_max_retries_def l1_retry_delay_ms_def)
qed

lemma warmup_iterate:
  assumes "mc_warmup cfg"
  shows "warmup_threshold ((advance_warmup_threshold cfg ^^ n) (initial_session cfg now)) =
    (if n = 0 \<or> 2 ^ n < mc_every_n cfg then 2 ^ n else 0)"
proof (induction n)
  case 0
  then show ?case using assms by (simp add: initial_session_def)
next
  case (Suc n)
  have step: "warmup_threshold (advance_warmup_threshold cfg s) =
      (if warmup_threshold s \<le> 0 then warmup_threshold s
       else if mc_every_n cfg \<le> warmup_threshold s * 2 then 0 else warmup_threshold s * 2)" for s
    using assms by (simp add: advance_warmup_threshold_def Let_def)
  obtain m :: int where m: "2 ^ n = m" "0 < m" "n = 0 \<longrightarrow> m = 1"
    by auto
  show ?case
    using Suc m by (auto simp: step)
qed

text \<open>
  the warm-up schedule. After \<open>n\<close> successful L1 runs a new session's trigger threshold
  is the smaller of \<open>2 ^ n\<close> and \<^verbatim>\<open>everyNConversations\<close>; without warm-up it is
  \<^verbatim>\<open>everyNConversations\<close> from the start.
\<close>

theorem warmup_thresholds_double:
  "get_effective_threshold cfg ((advance_warmup_threshold cfg ^^ n) (initial_session cfg now)) =
     (if mc_warmup cfg then min (2 ^ n) (mc_every_n cfg) else mc_every_n cfg)"
proof (cases "mc_warmup cfg")
  case True
  have "(0::int) < 2 ^ n" by simp
  then show ?thesis
    unfolding get_effective_threshold_def warmup_iterate [OF True] using True by auto
qed (simp add: get_effective_threshold_def)

section \<open>L2\<close>

text \<open>
  C37: in every run whose clock does not go backwards, with \<^verbatim>\<open>l2MinInterval\<close> at most
  \<^verbatim>\<open>l2MaxInterval\<close>, an L2 timer that starts or queues an L2 task for a session does so no
  earlier than the minimum interval after the session's last L2 run.
\<close>

theorem l2_runs_respect_min_interval:
  assumes "timed t (es @ [EvL2Schedule now k])" "mc_l2_min cfg \<le> mc_l2_max cfg"
    "p = pl_run es (new_pipeline cfg r1 r2 r3 pers)"
    "x \<notin> set (sq_entries (pl_l2q p))" "x \<in> set (sq_entries (pl_l2q (pl_step (EvL2Schedule now k) p)))"
    "map_of (pl_l2_last_run p) x = Some ran_at"
  shows "ran_at + mc_l2_min cfg \<le> now"
proof -
  have tes: "0 < t" "timed t es"
  proof -
    have a: "timed t (xs @ ys) \<Longrightarrow> timed t xs" for t xs ys
    proof (induction xs arbitrary: t)
      case Nil
      then show ?case by (cases ys) auto
    qed auto
    show "timed t es" by (rule a [OF assms(1)])
    then show "0 < t" by (cases es) auto
  qed
  have r: "l2_inv (run_clock t es) p" "pl_cfg p = cfg"
    using l2_run [OF l2_inv_new [OF tes(1) assms(2)] tes(2)] unfolding assms(3)
    by (auto simp: new_pipeline_def)
  from l2_schedule_enqueues [OF r(1) assms(4), of now k] assms(5)
  obtain due where x: "x = k" and nd: "\<not> pl_destroyed p"
    and due: "mt_handle (l2_sched p k) = Some due" "due \<le> now"
    by auto
  have "pl_l2_phase p \<noteq> L2AwaitPersist k False"
  proof
    assume ph: "pl_l2_phase p = L2AwaitPersist k False"
    have "sq_running (pl_l2q p) = Some k"
      using l2_inv_facts(2) [OF r(1)] by (simp add: ph l2_key_def)
    then show False using assms(4) x by (simp add: sq_entries_def)
  qed
  from l2_inv_facts(7) [OF r(1) nd this] show ?thesis
    using due assms(6) by (auto simp: l2_rate_def x r(2))
qed

definition demo_config :: manager_config where
  "demo_config = \<lparr>mc_l1_idle_timeout = 60000, mc_every_n = 5, mc_warmup = True, mc_l2_delay = 10000,
     mc_l2_min = 300000, mc_l2_max = 1800000, mc_active_window = 86400000,
     mc_filter = []\<rparr>"

definition demo_pipeline :: pipeline where
  "demo_pipeline = new_pipeline demo_config True True True True"

definition demo_message :: "string \<Rightarrow> captured_message" where
  "demo_message c = \<lparr>cm_role = ''user'', cm_content = c, cm_timestamp = ''t''\<rparr>"

text \<open>One L1 run and the L2 run it leads to.\<close>

definition demo_l1_then_l2 :: "pl_event list" where
  "demo_l1_then_l2 = [EvNotify 1000 ''s'' [demo_message ''hi''], EvNotifyResume 1000, EvL1Ok 2000 None,
     EvL1Persisted 2000, EvL1Complete, EvL2Schedule 12000 ''s'', EvL2Ok 20000 ''now'' None,
     EvL2Persisted 20000, EvL2Complete, EvL3Done, EvL3Complete]"

theorem l2_runs_respect_min_interval_witness:
  "(12000::ms) = 12000 \<and> 20000 + mc_l2_min demo_config \<le> (320000::ms)"
proof -
  define es where "es = demo_l1_then_l2 @ [EvNotify 30000 ''s'' [], EvNotify 30000 ''s'' [],
     EvNotifyResume 30000, EvNotifyResume 30000, EvL1Ok 40000 None, EvL1Persisted 40000, EvL1Complete]"
  have 1: "timed 1000 (es @ [EvL2Schedule 320000 ''s''])"
    unfolding es_def by code_simp
  have 2: "mc_l2_min demo_config \<le> mc_l2_max demo_config" by code_simp
  have 3: "pl_run es demo_pipeline = pl_run es (new_pipeline demo_config True True True True)"
    by (simp add: demo_pipeline_def)
  have 4: "''s'' \<notin> set (sq_entries (pl_l2q (pl_run es demo_pipeline)))"
    "''s'' \<in> set (sq_entries (pl_l2q (pl_step (EvL2Schedule 320000 ''s'') (pl_run es demo_pipeline))))"
    "map_of (pl_l2_last_run (pl_run es demo_pipeline)) ''s'' = Some 20000"
    unfolding es_def by code_simp+
  from l2_runs_respect_min_interval [OF 1 2 3 4] show ?thesis by simp
qed

section \<open>L3\<close>


text \<open>Two sessions finish L2 while L3 runs for the first.\<close>

definition demo_two_l2 :: "pl_event list" where
  "demo_two_l2 = [EvNotify 1000 ''a'' [], EvNotify 1000 ''b'' [], EvNotifyResume 1000, EvNotifyResume 1000,
     EvL1Ok 2000 None, EvL1Persisted 2000, EvL1Complete, EvL1Ok 3000 None, EvL1Persisted 3000, EvL1Complete,
     EvL2Schedule 13000 ''a'', EvL2Schedule 13000 ''b'', EvL2Ok 20000 ''t1'' None, EvL2Persisted 20000,
     EvL2Complete, EvL2Ok 21000 ''t2'' None, EvL2Persisted 21000]"


section \<open>Collection and recovery\<close>

text \<open>
  garbage collection evicts exactly the sessions that have been inactive for three
  active windows, have nothing queued, running or buffered, and removes them from all four
  maps; every other session is left exactly as it was. What it may drop is an armed
  L2 timer, which is not among the conditions.
\<close>

theorem gc_evicts_only_idle_sessions:
  "if k \<in> set (gc_evicted now p)
   then (\<exists>s \<in> set (map snd (pl_sessions p)).
           mc_active_window (pl_cfg p) * session_gc_inactive_multiplier \<le> now - last_active_time s)
        \<and> \<not> st_l1_queued (timers_of p k) \<and> \<not> st_l2_queued (timers_of p k) \<and> buffer_of p k = []
        \<and> map_of (pl_sessions (gc_stale_sessions now p)) k = None
        \<and> map_of (pl_timers (gc_stale_sessions now p)) k = None
        \<and> map_of (pl_buffers (gc_stale_sessions now p)) k = None
        \<and> map_of (pl_l2_last_run (gc_stale_sessions now p)) k = None
   else map_of (pl_sessions (gc_stale_sessions now p)) k = map_of (pl_sessions p) k
        \<and> map_of (pl_timers (gc_stale_sessions now p)) k = map_of (pl_timers p) k
        \<and> map_of (pl_buffers (gc_stale_sessions now p)) k = map_of (pl_buffers p) k
        \<and> map_of (pl_l2_last_run (gc_stale_sessions now p)) k = map_of (pl_l2_last_run p) k"
proof (cases "k \<in> set (gc_evicted now p)")
  case True
  then have "\<exists>s \<in> set (map snd (pl_sessions p)).
      mc_active_window (pl_cfg p) * session_gc_inactive_multiplier \<le> now - last_active_time s"
    by (force simp: gc_evicted_def gc_evictable_def)
  with True gc_evicted_idle [OF True] gc_fields [of now p k] show ?thesis by simp
next
  case False
  with gc_fields [of now p k] show ?thesis by simp
qed

text \<open>What recovery does to one session.\<close>

definition needs_recovery :: "session_state \<Rightarrow> bool" where
  "needs_recovery s \<longleftrightarrow> conversation_count s \<noteq> 0 \<or> l2_pending_l1_count s \<noteq> 0"

definition recovered :: "session_state \<Rightarrow> session_state" where
  "recovered s = (if needs_recovery s
     then s\<lparr>l2_pending_l1_count := max (l2_pending_l1_count s) (conversation_count s), conversation_count := 0\<rparr>
     else s)"

lemma advance_fields:
  "pl_sessions (advance_l2_timer now k p) = pl_sessions p"
  "pl_cfg (advance_l2_timer now k p) = pl_cfg p"
  "pl_l2_last_run (advance_l2_timer now k p) = pl_l2_last_run p"
  "pl_destroyed (advance_l2_timer now k p) = pl_destroyed p"
  by (auto simp: advance_l2_timer_def mod_timers_def get_or_create_timers_def Let_def split: option.split)

lemma mod_state_fields:
  "map_of (pl_sessions (mod_state k f p)) x =
     (if x = k then map_option f (map_of (pl_sessions p) k) else map_of (pl_sessions p) x)"
  "pl_timers (mod_state k f p) = pl_timers p" "pl_cfg (mod_state k f p) = pl_cfg p"
  "pl_l2_last_run (mod_state k f p) = pl_l2_last_run p"
  "pl_destroyed (mod_state k f p) = pl_destroyed p"
  by (auto simp: mod_state_def split: option.split)

lemma advance_fresh_sched:
  assumes "\<not> pl_destroyed p" "map_of (pl_l2_last_run p) k = None" "mt_handle (l2_sched p k) = None"
    "0 \<le> now + mc_l2_delay (pl_cfg p)"
  shows "mt_scheduled_time (l2_sched (advance_l2_timer now k p) k) = now + mc_l2_delay (pl_cfg p)"
    "mt_pending (l2_sched (advance_l2_timer now k p) k)"
proof -
  have j: "jhas (pl_timers (get_or_create_timers k p)) k" by (rule jhas_get_or_create_timers)
  have f: "pl_l2_last_run (get_or_create_timers k p) = pl_l2_last_run p"
    "pl_cfg (get_or_create_timers k p) = pl_cfg p"
    by (simp_all add: get_or_create_timers_def split: option.split)
  have e: "l2_sched (advance_l2_timer now k p) k =
      snd (mt_try_advance_to now (now + mc_l2_delay (pl_cfg p)) (OnL2Fired k DelayAfterL1) (l2_sched p k))"
    using assms j by (simp add: advance_l2_timer_def Let_def timers_of_mod f jget_or_None [OF assms(2)] max_def
        del: not_None_eq)
  show "mt_scheduled_time (l2_sched (advance_l2_timer now k p) k) = now + mc_l2_delay (pl_cfg p)"
    "mt_pending (l2_sched (advance_l2_timer now k p) k)"
    using assms(3) by (simp_all add: e mt_defs)
qed

lemma advance_other: "x \<noteq> k \<Longrightarrow> timers_of (advance_l2_timer now k p) x = timers_of p x"
  by (simp add: advance_l2_timer_def Let_def timers_of_mod)

lemma recover_session_other:
  assumes "x \<noteq> k"
  shows "map_of (pl_sessions (recover_session now k p)) x = map_of (pl_sessions p) x"
    "timers_of (recover_session now k p) x = timers_of p x"
  using assms
  by (simp_all add: recover_session_def advance_fields mod_state_fields advance_other split: option.split)

lemma recover_session_fields:
  "pl_cfg (recover_session now k p) = pl_cfg p" "pl_l2_last_run (recover_session now k p) = pl_l2_last_run p"
  "pl_destroyed (recover_session now k p) = pl_destroyed p"
  by (simp_all add: recover_session_def advance_fields mod_state_fields split: option.split)

lemma recover_session_this:
  assumes "map_of (pl_sessions p) k = Some s"
  shows "map_of (pl_sessions (recover_session now k p)) k = Some (recovered s)"
  using assms by (simp add: recover_session_def advance_fields mod_state_fields recovered_def needs_recovery_def)

lemma recover_session_sched:
  assumes "map_of (pl_sessions p) k = Some s" "\<not> pl_destroyed p" "map_of (pl_l2_last_run p) k = None"
    "mt_handle (l2_sched p k) = None" "0 \<le> now + mc_l2_delay (pl_cfg p)"
  shows "mt_pending (l2_sched (recover_session now k p) k) = needs_recovery s"
    "needs_recovery s \<Longrightarrow> mt_scheduled_time (l2_sched (recover_session now k p) k) = now + mc_l2_delay (pl_cfg p)"
proof -
  let ?q = "mod_state k (\<lambda>s. s\<lparr>l2_pending_l1_count := max (l2_pending_l1_count s) (conversation_count s),
      conversation_count := 0\<rparr>) p"
  have e: "recover_session now k p = (if needs_recovery s then advance_l2_timer now k ?q else p)"
    using assms(1) by (simp add: recover_session_def needs_recovery_def)
  have "mt_pending (l2_sched (advance_l2_timer now k ?q) k)"
    "mt_scheduled_time (l2_sched (advance_l2_timer now k ?q) k) = now + mc_l2_delay (pl_cfg ?q)"
    by (rule advance_fresh_sched; use assms in \<open>simp add: mod_state_fields\<close>)+
  with assms(4) show "mt_pending (l2_sched (recover_session now k p) k) = needs_recovery s"
    "needs_recovery s \<Longrightarrow> mt_scheduled_time (l2_sched (recover_session now k p) k) = now + mc_l2_delay (pl_cfg p)"
    by (simp_all add: e mt_pending_def mod_state_fields)
qed

lemma recover_fold:
  assumes "distinct ks" "map_of (pl_sessions p) k = Some s" "\<not> pl_destroyed p"
    "pl_l2_last_run p = []" "mt_handle (l2_sched p k) = None" "0 \<le> now + mc_l2_delay (pl_cfg p)"
  shows "map_of (pl_sessions (fold (recover_session now) ks p)) k =
      Some (if k \<in> set ks then recovered s else s)
    \<and> mt_pending (l2_sched (fold (recover_session now) ks p) k) = (k \<in> set ks \<and> needs_recovery s)
    \<and> (k \<in> set ks \<and> needs_recovery s \<longrightarrow>
        mt_scheduled_time (l2_sched (fold (recover_session now) ks p) k) = now + mc_l2_delay (pl_cfg p))"
  using assms
proof (induction ks arbitrary: p)
  case Nil
  then show ?case by (simp add: mt_pending_def)
next
  case (Cons x xs)
  note f = recover_session_fields [of now x p]
  have rest: "map_of (pl_sessions (fold (recover_session now) ys q)) k = map_of (pl_sessions q) k
      \<and> timers_of (fold (recover_session now) ys q) k = timers_of q k" if "k \<notin> set ys" for ys q
    using that by (induction ys arbitrary: q) (simp_all add: recover_session_other)
  show ?case
  proof (cases "x = k")
    case True
    then have "k \<notin> set xs" using Cons.prems(1) by simp
    from rest [OF this, of "recover_session now x p"] True
    show ?thesis
      using recover_session_this [OF Cons.prems(2), of now]
        recover_session_sched [OF Cons.prems(2,3) _ Cons.prems(5,6)] Cons.prems(4)
      by simp
  next
    case False
    then have "map_of (pl_sessions (recover_session now x p)) k = Some s"
      "mt_handle (l2_sched (recover_session now x p) k) = None"
      using Cons.prems(2,5) by (simp_all add: recover_session_other)
    from Cons.IH [OF _ this(1) _ _ this(2)] Cons.prems False show ?thesis by (simp add: f)
  qed
qed

definition restore_one :: "string \<times> session_state \<times> int option \<Rightarrow> pipeline \<Rightarrow> pipeline" where
  "restore_one = (\<lambda>(k, sw) p. if should_skip (mc_filter (pl_cfg p)) k then p
     else p\<lparr>pl_sessions := AList.update k (restore_state sw) (pl_sessions p)\<rparr>)"

lemma restore_fields:
  "pl_cfg (fold restore_one states p) = pl_cfg p \<and> pl_timers (fold restore_one states p) = pl_timers p
   \<and> pl_l2_last_run (fold restore_one states p) = pl_l2_last_run p
   \<and> pl_destroyed (fold restore_one states p) = pl_destroyed p
   \<and> (distinct (jkeys (pl_sessions p)) \<longrightarrow> distinct (jkeys (pl_sessions (fold restore_one states p))))"
  by (induction states arbitrary: p) (simp_all add: restore_one_def distinct_update split_beta)

lemma restore_lookup:
  assumes "distinct (jkeys states)"
  shows "map_of (pl_sessions (fold restore_one states p)) k =
    (case map_of states k of None \<Rightarrow> map_of (pl_sessions p) k
     | Some sw \<Rightarrow> if should_skip (mc_filter (pl_cfg p)) k then map_of (pl_sessions p) k
                  else Some (restore_state sw))"
  using assms
proof (induction states arbitrary: p)
  case (Cons a states)
  obtain x sw where a: "a = (x, sw)" by (cases a)
  define q where "q = restore_one a p"
  have c: "pl_cfg q = pl_cfg p" by (simp add: q_def restore_one_def a)
  have n: "map_of states x = None"
    using Cons.prems by (simp add: a map_of_eq_None_iff)
  have r: "map_of (pl_sessions q) k = (if k = x \<and> \<not> should_skip (mc_filter (pl_cfg p)) k
      then Some (restore_state sw) else map_of (pl_sessions p) k)"
    by (auto simp: q_def restore_one_def a)
  have f: "fold restore_one (a # states) p = fold restore_one states q"
    by (simp add: q_def)
  have "distinct (jkeys states)" using Cons.prems by simp
  from Cons.IH [OF this, of q] n show ?case
    unfolding f by (cases "k = x") (use r in \<open>auto simp: c a split: option.split\<close>)
qed simp

text \<open>
  a restart from a checkpoint. Internal sessions of the checkpoint are left out; every
  other session is restored with its pending work folded into \<^verbatim>\<open>l2_pending_l1_count\<close> and a
  conversation count of zero, a missing warm-up threshold counts as graduated, and exactly
  the sessions with pending work get an L2 timer, due \<^verbatim>\<open>l2DelayAfterL1\<close> after the start.
\<close>

theorem restart_recovers_pending_work:
  assumes "distinct (jkeys states)" "map_of states k = Some (s, w)" "0 \<le> now + mc_l2_delay cfg"
    "p = pl_start now (Some states) (new_pipeline cfg r1 r2 r3 pers)"
  shows "if should_skip (mc_filter cfg) k then map_of (pl_sessions p) k = None
    else map_of (pl_sessions p) k = Some (recovered (s\<lparr>warmup_threshold := (case w of None \<Rightarrow> 0 | Some t \<Rightarrow> t)\<rparr>))
      \<and> mt_pending (st_l2_schedule (timers_of p k)) = needs_recovery s
      \<and> mt_scheduled_time (st_l2_schedule (timers_of p k)) = (if needs_recovery s then now + mc_l2_delay cfg else 0)"
proof -
  let ?p0 = "new_pipeline cfg r1 r2 r3 pers"
  let ?q = "fold restore_one states ?p0"
  have p: "p = recover_pending_sessions now ?q"
    unfolding assms(4) by (simp add: pl_start_def new_pipeline_def restore_one_def)
  have f: "pl_cfg ?q = cfg" "pl_timers ?q = []" "pl_l2_last_run ?q = []" "\<not> pl_destroyed ?q"
    "distinct (jkeys (pl_sessions ?q))"
    using restore_fields [of states ?p0] by (auto simp: new_pipeline_def)
  have look: "map_of (pl_sessions ?q) k = (if should_skip (mc_filter cfg) k then None else Some (restore_state (s, w)))"
    unfolding restore_lookup [OF assms(1)] using assms(2) by (simp add: new_pipeline_def)
  show ?thesis
  proof (cases "should_skip (mc_filter cfg) k")
    case True
    then have n: "map_of (pl_sessions ?q) k = None" using look by simp
    have one: "map_of (pl_sessions (recover_session now x r)) k = None"
      if "map_of (pl_sessions r) k = None" for x r
      using that by (auto simp: recover_session_def advance_fields mod_state_fields split: option.split)
    have "map_of (pl_sessions (fold (recover_session now) ks r)) k = None"
      if "map_of (pl_sessions r) k = None" for ks r
      using that by (induction ks arbitrary: r) (simp_all add: one)
    from this [OF n] True show ?thesis by (simp add: p recover_pending_sessions_def)
  next
    case False
    then have m: "map_of (pl_sessions ?q) k = Some (restore_state (s, w))" using look by simp
    have kin: "k \<in> set (jkeys (pl_sessions ?q))"
      using m by (metis domI dom_map_of_conv_image_fst list.set_map)
    have nr: "needs_recovery (restore_state (s, w)) = needs_recovery s"
      by (simp add: needs_recovery_def restore_state_def)
    have h: "mt_handle (l2_sched ?q k) = None" by (simp add: f new_timers_def)
    note r = recover_fold [OF f(5) m f(4) f(3) h, of now, folded recover_pending_sessions_def, folded p, unfolded f nr]
    have "mt_scheduled_time (l2_sched p k) = 0" if "\<not> needs_recovery s"
      using r assms(3) that by (simp add: mt_pending_def mt_scheduled_time_def)
    with r assms(3) kin False show ?thesis by (simp add: restore_state_def)
  qed
qed

theorem restart_recovers_pending_work_witness:
  "map_option l2_pending_l1_count (map_of (pl_sessions (pl_start 1000
     (Some [(''a'', initial_session demo_config 0\<lparr>conversation_count := 3\<rparr>, None)]) demo_pipeline)) ''a'') = Some 3"
proof -
  have d: "distinct (jkeys [(''a'', initial_session demo_config 0\<lparr>conversation_count := 3\<rparr>, None :: int option)])"
    by simp
  have m: "map_of [(''a'', initial_session demo_config 0\<lparr>conversation_count := 3\<rparr>, None :: int option)] ''a''
      = Some (initial_session demo_config 0\<lparr>conversation_count := 3\<rparr>, None)"
    by simp
  have t: "0 \<le> (1000::ms) + mc_l2_delay demo_config" by code_simp
  have f: "\<not> should_skip (mc_filter demo_config) ''a''" by code_simp
  from restart_recovers_pending_work [OF d m t refl, of True True True True] f show ?thesis
    by (simp add: demo_pipeline_def recovered_def needs_recovery_def initial_session_def)
qed

theorem l1_failure_restores_and_retries_witness:
  "buffer_of (l1_runner_fail 5000 (pl_run [EvNotify 1000 ''s'' [demo_message ''a''], EvNotifyResume 1000,
     EvNotify 2000 ''s'' [demo_message ''b'']] demo_pipeline)) ''s'' = [demo_message ''a'', demo_message ''b'']"
proof -
  let ?p = "pl_run [EvNotify 1000 ''s'' [demo_message ''a''], EvNotifyResume 1000,
     EvNotify 2000 ''s'' [demo_message ''b'']] demo_pipeline"
  have 1: "pl_l1_phase ?p = L1AwaitRunner ''s'' [demo_message ''a'']" by code_simp
  have 2: "buffer_of ?p ''s'' = [demo_message ''b'']" by code_simp
  from l1_failure_restores_and_retries [OF 1, of 5000] 2 show ?thesis by simp
qed

section \<open>Flushing one session\<close>

lemma run_l1_begin_other:
  assumes "x \<noteq> k"
  shows "map_of (pl_sessions (run_l1_begin k p)) x = map_of (pl_sessions p) x"
    "timers_of (run_l1_begin k p) x = timers_of p x" "buffer_of (run_l1_begin k p) x = buffer_of p x"
    "pl_l2q (run_l1_begin k p) = pl_l2q p" "pl_l3q (run_l1_begin k p) = pl_l3q p"
  using assms
  by (auto simp: run_l1_begin_def Let_def mod_state_def set_buffer_def persist_states_def log_effect_def
      split: option.split)

lemma enqueue_l1_other:
  assumes "l1_inv p" "x \<noteq> k"
  shows "map_of (pl_sessions (enqueue_l1 k p)) x = map_of (pl_sessions p) x
    \<and> timers_of (enqueue_l1 k p) x = timers_of p x \<and> buffer_of (enqueue_l1 k p) x = buffer_of p x
    \<and> pl_l2q (enqueue_l1 k p) = pl_l2q p \<and> pl_l3q (enqueue_l1 k p) = pl_l3q p"
proof -
  have m: "pl_sessions (mod_timers k f q) = pl_sessions q" "pl_buffers (mod_timers k f q) = pl_buffers q"
    "pl_l2q (mod_timers k f q) = pl_l2q q" "pl_l3q (mod_timers k f q) = pl_l3q q" for f q
    by (simp_all add: mod_timers_def split: option.split)
  have g: "pl_sessions (get_or_create_timers k q) = pl_sessions q" "pl_buffers (get_or_create_timers k q) = pl_buffers q"
    "pl_l2q (get_or_create_timers k q) = pl_l2q q" "pl_l3q (get_or_create_timers k q) = pl_l3q q" for q
    by (simp_all add: get_or_create_timers_def split: option.split)
  have q: "map_of (pl_sessions (l1_queued k p)) x = map_of (pl_sessions p) x"
    "timers_of (l1_queued k p) x = timers_of p x" "buffer_of (l1_queued k p) x = buffer_of p x"
    "pl_l2q (l1_queued k p) = pl_l2q p" "pl_l3q (l1_queued k p) = pl_l3q p"
    using assms(2) by (simp_all add: l1_queued_def l1_mark_def m g timers_of_mod)
  show ?thesis
    using assms(2) by (simp add: enqueue_l1_inv_unfold [OF assms(1)] run_l1_begin_other q g)
qed

text \<open>
  \<^verbatim>\<open>flushSession\<close> is scoped. In every reachable state it leaves the state, timers
  and buffered messages of every other session, and the L2 and L3 queues, as they were;
  and when the session has buffered messages and no L1 task yet, it is queued for L1 at once
  with its idle timer cancelled.
\<close>

theorem flush_session_scoped:
  assumes "p = pl_run es (new_pipeline cfg r1 r2 r3 pers)" "x \<noteq> k"
  shows "map_of (pl_sessions (flush_session k p)) x = map_of (pl_sessions p) x
    \<and> timers_of (flush_session k p) x = timers_of p x
    \<and> buffer_of (flush_session k p) x = buffer_of p x
    \<and> pl_l2q (flush_session k p) = pl_l2q p \<and> pl_l3q (flush_session k p) = pl_l3q p
    \<and> (if accepts p k \<and> buffer_of p k \<noteq> [] \<and> \<not> st_l1_queued (timers_of p k)
       then k \<in> set (sq_entries (pl_l1q (flush_session k p))) else True)"
proof -
  have inv: "l1_inv p" unfolding assms(1) by (rule l1_inv_run) simp
  let ?c = "mod_timers k (\<lambda>t. t\<lparr>st_l1_idle := mt_cancel (st_l1_idle t)\<rparr>) p"
  define q where "q = (if mt_pending (st_l1_idle (timers_of p k)) then ?c else p)"
  have v: "l1_view q = l1_view p" by (simp add: q_def)
  then have invq: "l1_inv q" using l1_inv_cong [OF v] inv by simp
  have f: "pl_sessions q = pl_sessions p" "pl_buffers q = pl_buffers p" "pl_l2q q = pl_l2q p"
    "pl_l3q q = pl_l3q p" "timers_of q x = timers_of p x"
    using assms(2) by (simp_all add: q_def timers_of_mod) (simp_all add: mod_timers_def split: option.split)
  have e: "flush_session k p = (if accepts p k then if buffer_of p k \<noteq> [] then enqueue_l1 k q else q else p)"
    using f(2) by (simp add: flush_session_def accepts_def Let_def q_def)
  have i: "l1_inv (enqueue_l1 k q)" by (rule enqueue_l1_inv [OF invq])
  have "v_flag (l1_view (enqueue_l1 k q)) k"
    unfolding enqueue_l1_inv_unfold [OF invq] by (simp add: run_l1_begin_view) (simp add: l1_view_def)
  then have "l1_flag (enqueue_l1 k q) k" by (simp add: l1_view_def)
  then have m: "k \<in> set (sq_entries (pl_l1q (enqueue_l1 k q)))"
    using l1_inv_phase(1) [OF i] unfolding single_flight_def by metis
  show ?thesis
    using enqueue_l1_other [OF invq assms(2)] f m unfolding e by simp
qed

theorem flush_session_scoped_witness:
  "''s'' \<in> set (sq_entries (pl_l1q (flush_session ''s'' (pl_run [EvNotify 1 ''s'' [demo_message ''a'']] demo_pipeline))))"
proof -
  have p: "pl_run [EvNotify 1 ''s'' [demo_message ''a'']] demo_pipeline
      = pl_run [EvNotify 1 ''s'' [demo_message ''a'']] (new_pipeline demo_config True True True True)"
    by (simp add: demo_pipeline_def)
  have n: "''x'' \<noteq> ''s''" by simp
  have "accepts (pl_run [EvNotify 1 ''s'' [demo_message ''a'']] demo_pipeline) ''s''
     \<and> buffer_of (pl_run [EvNotify 1 ''s'' [demo_message ''a'']] demo_pipeline) ''s'' \<noteq> []
     \<and> \<not> st_l1_queued (timers_of (pl_run [EvNotify 1 ''s'' [demo_message ''a'']] demo_pipeline) ''s'')"
    by code_simp
  with flush_session_scoped [OF p n] show ?thesis by simp
qed

section \<open>Where the scheduler falls short\<close>

text \<open>
  a notification that reaches the threshold while the session's L1 task is running
  is stranded. \<^verbatim>\<open>enqueueL1\<close> returns early because the session is still queued, the idle
  timer is not armed because the threshold branch returns first, and the end of the task
  resets the conversation count: the run ends with the message in the buffer, the L1 queue
  idle, and no L1 timer armed.
\<close>

definition demo_stranded :: "pl_event list" where
  "demo_stranded = [EvNotify 1000 ''s'' [demo_message ''a''], EvNotifyResume 1000,
     EvNotify 1500 ''s'' [demo_message ''b''], EvNotifyResume 1500,
     EvL1Ok 2000 None, EvL1Persisted 2000, EvL1Complete]"

theorem threshold_during_l1_strands_messages:
  "let p = pl_run demo_stranded demo_pipeline
   in buffer_of p ''s'' = [demo_message ''b''] \<and> sq_idle (pl_l1q p) \<and> pl_notifies p = []
      \<and> \<not> mt_pending (st_l1_idle (timers_of p ''s''))
      \<and> map_option conversation_count (map_of (pl_sessions p) ''s'') = Some 0"
  by code_simp

text \<open>
  \<^verbatim>\<open>flushSession\<close> called while the session's L1 task is running does not enqueue
  the messages that arrived since the task started, although its comment promises an
  immediate L1 run for buffered work: when the L1 queue is idle again, and the call returns,
  they are still in the buffer, and their idle timer has been cancelled.
\<close>

definition demo_flush :: "pl_event list" where
  "demo_flush = [EvNotify 1000 ''s'' [demo_message ''a''], EvNotifyResume 1000, EvL1Ok 2000 None,
     EvL1Persisted 2000, EvL1Complete, EvNotify 3000 ''s'' [demo_message ''b''], EvNotifyResume 3000,
     EvL1Idle 63000 ''s'', EvNotify 64000 ''s'' [demo_message ''c''], EvNotifyResume 64000]"

theorem flush_during_l1_leaves_messages:
  "let p = pl_run demo_flush demo_pipeline;
       q = pl_run [EvFlushSession ''s'', EvL1Ok 65000 None, EvL1Persisted 65000, EvL1Complete] p
   in buffer_of q ''s'' = [demo_message ''c''] \<and> sq_idle (pl_l1q q)
      \<and> \<not> mt_pending (st_l1_idle (timers_of q ''s''))"
  by code_simp

text \<open>
  the drain of a full backlog never happens. With \<^verbatim>\<open>hasMore\<close> alone the residual rows
  get an idle timer; with \<^verbatim>\<open>hasFullBacklog\<close> the immediate next round is requested while the
  session is still marked as queued, so it is skipped: the L1 queue goes idle with nothing
  scheduled.
\<close>

definition demo_backlog :: "bool \<Rightarrow> pl_event list" where
  "demo_backlog full = [EvNotify 1000 ''s'' [demo_message ''a''], EvNotifyResume 1000,
     EvL1Ok 2000 (Some \<lparr>l1r_profile_scopes = None, l1r_has_more = True, l1r_has_full_backlog = full\<rparr>),
     EvL1Persisted 2000, EvL1Complete]"

theorem full_backlog_is_not_drained:
  "mt_pending (st_l1_idle (timers_of (pl_run (demo_backlog False) demo_pipeline) ''s''))
   \<and> \<not> mt_pending (st_l1_idle (timers_of (pl_run (demo_backlog True) demo_pipeline) ''s''))
   \<and> sq_idle (pl_l1q (pl_run (demo_backlog True) demo_pipeline))"
  by code_simp

text \<open>
  the shutdown flush stops after L1. \<^verbatim>\<open>destroy\<close> sets \<^verbatim>\<open>destroyed\<close> before it runs the
  buffered messages through L1, so the L2 timer that L1's completion should arm is refused,
  and the second stage finds nothing to flush: the comment's "flushed through L1 then L2"
  becomes a pending count in the last persisted state.
\<close>

definition demo_shutdown :: "pl_event list" where
  "demo_shutdown = [EvNotify 1000 ''s'' [demo_message ''a''], EvNotifyResume 1000, EvDestroy,
     EvL1Ok 2000 None, EvL1Persisted 2000, EvL1Complete, EvDestroyFlushL2 2000, EvDestroyFinish False]"

theorem shutdown_flush_stops_after_l1:
  "let p = pl_run demo_shutdown (new_pipeline (demo_config\<lparr>mc_warmup := False\<rparr>) True True True True)
   in pl_destroy_phase p = Persisted \<and> buffer_of p ''s'' = []
      \<and> list_all (\<lambda>e. case e of CallL2 k c \<Rightarrow> False | _ \<Rightarrow> True) (pl_log p)
      \<and> map_option l2_pending_l1_count (map_of (pl_sessions p) ''s'') = Some 1"
  by code_simp

text \<open>
  A collected session does not come back. Its next notification finds no state and starts
  the session afresh, warm-up threshold, extraction cursor and pending counts included,
  where the comment of \<^verbatim>\<open>gcStaleSessions\<close> says that it is fully restored from the checkpoint.
\<close>

theorem notify_after_gc_starts_afresh:
  assumes "k \<in> set (gc_evicted t p)" "accepts p k"
  shows "map_of (pl_sessions (notify_begin now k msgs (gc_stale_sessions t p))) k =
    Some ((initial_session (pl_cfg p) now)\<lparr>conversation_count := 1\<rparr>)"
proof -
  let ?q = "gc_stale_sessions t p"
  have q: "map_of (pl_sessions ?q) k = None" "pl_cfg ?q = pl_cfg p" "pl_destroyed ?q = pl_destroyed p"
    using gc_fields [of t p k] assms(1) by auto
  have m: "pl_sessions (mod_timers k f r) = pl_sessions r" "pl_sessions (get_or_create_timers k r) = pl_sessions r"
    "pl_sessions (persist_states r) = pl_sessions r" "pl_sessions (set_buffer k b r) = pl_sessions r" for f b r
    by (simp_all add: mod_timers_def get_or_create_timers_def persist_states_def log_effect_def set_buffer_def
        split: option.split)
  show ?thesis
    using assms(2) q(1)
    by (simp add: notify_begin_def accepts_def q Let_def m mod_state_fields)
      (simp add: get_or_create_state_def q initial_session_def)
qed

definition demo_stale :: "pl_event list" where
  "demo_stale = [EvNotify 1000 ''s'' [demo_message ''a''], EvNotifyResume 1000, EvL1Ok 2000 None,
     EvL1Persisted 2000, EvL1Complete]"

theorem notify_after_gc_starts_afresh_witness:
  "map_option warmup_threshold (map_of (pl_sessions (notify_begin 400000000 ''s'' []
     (gc_stale_sessions 300000000 (pl_run demo_stale demo_pipeline)))) ''s'') = Some 1
   \<and> map_option warmup_threshold (map_of (pl_sessions (pl_run demo_stale demo_pipeline)) ''s'') = Some 2"
proof -
  have 1: "''s'' \<in> set (gc_evicted 300000000 (pl_run demo_stale demo_pipeline))"
    "accepts (pl_run demo_stale demo_pipeline) ''s''"
    by code_simp+
  have 2: "map_option warmup_threshold (map_of (pl_sessions (pl_run demo_stale demo_pipeline)) ''s'') = Some 2"
    "mc_warmup (pl_cfg (pl_run demo_stale demo_pipeline))"
    by code_simp+
  from notify_after_gc_starts_afresh [OF 1, of 400000000 "[]"] 2 show ?thesis
    by (simp add: initial_session_def)
qed

end
