(* ===== verification/Permit_Pool.thy ===== *)
theory Permit_Pool
  imports Prelude
begin

text \<open>
  \<^verbatim>\<open>MemoryCore/src/services/worker-permit-pool.ts\<close>: the counting semaphore that bounds the
  concurrency of the memory pipeline worker. A waiter is identified by a number; the
  promise it waits on is settled by the operation that dequeues it.
\<close>

section \<open>State and operations\<close>

record permit_pool =
  pp_capacity :: nat
  pp_in_flight :: nat
  pp_waiters :: "nat list"
  pp_destroyed :: bool

datatype pool_error = CapacityNotPositive | PoolDestroyed | UnbalancedRelease

text \<open>The constructor rejects a capacity that is not a positive integer.\<close>

definition new_pool :: "int \<Rightarrow> pool_error + permit_pool" where
  "new_pool capacity =
     (if capacity \<le> 0 then Inl CapacityNotPositive
      else Inr \<lparr>pp_capacity = nat capacity, pp_in_flight = 0, pp_waiters = [], pp_destroyed = False\<rparr>)"

text \<open>Settlement of \<^verbatim>\<open>acquire()\<close>: rejected, granted at once, or queued.\<close>

datatype acquire_result = Rejected pool_error | Granted | Queued

definition pp_acquire :: "nat \<Rightarrow> permit_pool \<Rightarrow> acquire_result \<times> permit_pool" where
  "pp_acquire w p =
     (if pp_destroyed p then (Rejected PoolDestroyed, p)
      else if pp_in_flight p < pp_capacity p
      then (Granted, p\<lparr>pp_in_flight := pp_in_flight p + 1\<rparr>)
      else (Queued, p\<lparr>pp_waiters := pp_waiters p @ [w]\<rparr>))"

text \<open>\<^verbatim>\<open>release()\<close>: an error, or the waiter that inherits the permit (if any).\<close>

definition pp_release :: "permit_pool \<Rightarrow> (pool_error + nat option) \<times> permit_pool" where
  "pp_release p =
     (if pp_in_flight p = 0 \<and> length (pp_waiters p) = 0 then (Inl UnbalancedRelease, p)
      else (case pp_waiters p of
              w # ws \<Rightarrow> (Inr (Some w), p\<lparr>pp_waiters := ws\<rparr>)
            | [] \<Rightarrow> (Inr None, p\<lparr>pp_in_flight := pp_in_flight p - 1\<rparr>)))"

definition pp_available :: "permit_pool \<Rightarrow> int" where
  "pp_available p = max 0 (int (pp_capacity p) - int (pp_in_flight p))"

definition pp_waiting :: "permit_pool \<Rightarrow> nat" where
  "pp_waiting p = length (pp_waiters p)"

text \<open>\<^verbatim>\<open>destroy()\<close> returns the waiters it rejects.\<close>

definition pp_destroy :: "permit_pool \<Rightarrow> nat list \<times> permit_pool" where
  "pp_destroy p =
     (if pp_destroyed p then ([], p)
      else (pp_waiters p, p\<lparr>pp_destroyed := True, pp_waiters := []\<rparr>))"

section \<open>Histories\<close>

datatype pool_event = PAcquire nat | PRelease | PDestroy

text \<open>The history records who has been granted a permit, how many permits have been
  returned, and who was rejected.\<close>

record pool_history =
  ph_pool :: permit_pool
  ph_granted :: "nat list"
  ph_returned :: nat
  ph_rejected :: "nat list"

definition ph_init :: "nat \<Rightarrow> pool_history" where
  "ph_init c = \<lparr>ph_pool = \<lparr>pp_capacity = c, pp_in_flight = 0, pp_waiters = [], pp_destroyed = False\<rparr>,
     ph_granted = [], ph_returned = 0, ph_rejected = []\<rparr>"

fun ph_step :: "pool_event \<Rightarrow> pool_history \<Rightarrow> pool_history" where
  "ph_step (PAcquire w) h =
     (case pp_acquire w (ph_pool h) of
        (Rejected _, p) \<Rightarrow> h\<lparr>ph_pool := p, ph_rejected := ph_rejected h @ [w]\<rparr>
      | (Granted, p) \<Rightarrow> h\<lparr>ph_pool := p, ph_granted := ph_granted h @ [w]\<rparr>
      | (Queued, p) \<Rightarrow> h\<lparr>ph_pool := p\<rparr>)"
| "ph_step PRelease h =
     (case pp_release (ph_pool h) of
        (Inl _, p) \<Rightarrow> h\<lparr>ph_pool := p\<rparr>
      | (Inr None, p) \<Rightarrow> h\<lparr>ph_pool := p, ph_returned := ph_returned h + 1\<rparr>
      | (Inr (Some w), p) \<Rightarrow> h\<lparr>ph_pool := p, ph_returned := ph_returned h + 1,
           ph_granted := ph_granted h @ [w]\<rparr>)"
| "ph_step PDestroy h =
     (let (ws, p) = pp_destroy (ph_pool h)
      in h\<lparr>ph_pool := p, ph_rejected := ph_rejected h @ ws\<rparr>)"

definition ph_run :: "nat \<Rightarrow> pool_event list \<Rightarrow> pool_history" where
  "ph_run c es = fold ph_step es (ph_init c)"

section \<open>Invariant\<close>

definition pool_inv :: "permit_pool \<Rightarrow> bool" where
  "pool_inv p \<longleftrightarrow> pp_in_flight p \<le> pp_capacity p \<and>
     (pp_waiters p = [] \<or> pp_in_flight p = pp_capacity p \<and> \<not> pp_destroyed p)"

definition hist_inv :: "pool_history \<Rightarrow> bool" where
  "hist_inv h \<longleftrightarrow> pool_inv (ph_pool h) \<and>
     length (ph_granted h) = pp_in_flight (ph_pool h) + ph_returned h"

lemmas pool_defs = pp_acquire_def pp_release_def pp_destroy_def

lemma hist_inv_init: "hist_inv (ph_init c)"
  by (simp add: hist_inv_def ph_init_def pool_inv_def)

lemma ph_step_capacity: "pp_capacity (ph_pool (ph_step e h)) = pp_capacity (ph_pool h)"
  by (cases e) (auto simp: pool_defs split: list.splits)

lemma hist_inv_step:
  "0 < pp_capacity (ph_pool h) \<Longrightarrow> hist_inv h \<Longrightarrow> hist_inv (ph_step e h)"
  by (cases e) (auto simp: hist_inv_def pool_inv_def pool_defs split: list.splits)

lemma ph_run_snoc: "ph_run c (es @ [e]) = ph_step e (ph_run c es)"
  by (simp add: ph_run_def)

lemma ph_run_capacity: "pp_capacity (ph_pool (ph_run c es)) = c"
proof (induction es rule: rev_induct)
  case Nil
  show ?case by (simp add: ph_run_def ph_init_def)
next
  case (snoc e es)
  then show ?case by (simp only: ph_run_snoc ph_step_capacity)
qed

lemma ph_run_inv: "0 < c \<Longrightarrow> hist_inv (ph_run c es)"
proof (induction es rule: rev_induct)
  case Nil
  show ?case by (simp add: ph_run_def hist_inv_init)
next
  case (snoc e es)
  then show ?case
    by (simp only: ph_run_snoc) (rule hist_inv_step, simp_all add: ph_run_capacity)
qed

section \<open>First come, first served\<close>

fun pool_requests :: "pool_event list \<Rightarrow> nat list" where
  "pool_requests [] = []"
| "pool_requests (PAcquire w # es) = w # pool_requests es"
| "pool_requests (_ # es) = pool_requests es"

lemma pool_requests_append: "pool_requests (es @ fs) = pool_requests es @ pool_requests fs"
  by (induction es rule: pool_requests.induct) auto

lemma ph_step_fifo:
  assumes "0 < pp_capacity (ph_pool h)" "hist_inv h" "\<not> pp_destroyed (ph_pool h)" "e \<noteq> PDestroy"
  shows "ph_granted (ph_step e h) @ pp_waiters (ph_pool (ph_step e h)) =
         ph_granted h @ pp_waiters (ph_pool h) @ pool_requests [e] \<and>
         \<not> pp_destroyed (ph_pool (ph_step e h))"
  using assms
  by (cases e) (auto simp: hist_inv_def pool_inv_def pool_defs split: list.splits)

lemma ph_run_fifo:
  "0 < c \<Longrightarrow> PDestroy \<notin> set es \<Longrightarrow>
   ph_granted (ph_run c es) @ pp_waiters (ph_pool (ph_run c es)) = pool_requests es \<and>
   \<not> pp_destroyed (ph_pool (ph_run c es))"
proof (induction es rule: rev_induct)
  case Nil
  show ?case by (simp add: ph_run_def ph_init_def)
next
  case (snoc e es)
  have h: "hist_inv (ph_run c es)" "0 < pp_capacity (ph_pool (ph_run c es))"
    using snoc.prems by (simp_all add: ph_run_inv ph_run_capacity)
  from snoc ph_step_fifo [OF h(2,1), of e] show ?case
    by (auto simp: ph_run_snoc pool_requests_append)
qed

section \<open>Properties\<close>

text \<open>
  at every moment of the pool's life the permits granted and not yet returned are
  exactly \<^verbatim>\<open>inFlight()\<close>, they never exceed the capacity, and a caller waits only while all
  permits are taken.
\<close>

theorem permits_bounded:
  assumes "0 < c"
  shows "length (ph_granted (ph_run c es)) =
           pp_in_flight (ph_pool (ph_run c es)) + ph_returned (ph_run c es)
       \<and> pp_in_flight (ph_pool (ph_run c es)) \<le> c
       \<and> (pp_waiters (ph_pool (ph_run c es)) \<noteq> [] \<longrightarrow>
            pp_in_flight (ph_pool (ph_run c es)) = c)"
  using ph_run_inv [OF assms, of es] ph_run_capacity [of c es]
  by (auto simp: hist_inv_def pool_inv_def)

definition pool_demo :: "pool_event list" where
  "pool_demo = [PAcquire 1, PAcquire 2, PAcquire 3, PRelease, PRelease]"

theorem permits_bounded_witness:
  "length (ph_granted (ph_run 2 pool_demo)) = 3
   \<and> pp_in_flight (ph_pool (ph_run 2 pool_demo)) = 1 \<and> ph_returned (ph_run 2 pool_demo) = 2"
  using permits_bounded [of 2 pool_demo]
  by (simp add: pool_demo_def ph_run_def ph_init_def pool_defs)

text \<open>
  Permits are handed out in the order they were asked for, and, as long as the pool is
  not destroyed, every request is either granted or still waiting.
\<close>

theorem permits_fifo:
  assumes "0 < c" "PDestroy \<notin> set es"
  shows "ph_granted (ph_run c es) @ pp_waiters (ph_pool (ph_run c es)) = pool_requests es"
  using ph_run_fifo [OF assms] by simp

theorem permits_fifo_witness:
  "ph_granted (ph_run 2 pool_demo) @ pp_waiters (ph_pool (ph_run 2 pool_demo)) = [1, 2, 3]"
  using permits_fifo [of 2 pool_demo] by (simp add: pool_demo_def)

end
