(* ===== verification/Agent_Schedule.thy ===== *)
theory Agent_Schedule
  imports Prelude
begin

text \<open>
  The contract of the agent queue of \<^verbatim>\<open>ISkillAgentTaskQueue\<close>
  (\<^verbatim>\<open>MemoryCore/src/core/skill/conversation-add/agent-task-queue.ts\<close>) that the extraction
  workers rely on: a set of known agents and a list of them in service order, where peeking
  rotates the list instead of popping it. An agent is its serialised tuple. The in-process
  queue and the Redis queue are both shown to provide it.
\<close>

datatype sched_op = SEnq string | SPeek | SRequeue string | SRemove string | SAddRaw string

locale agent_schedule =
  fixes enq :: "string \<Rightarrow> 's \<Rightarrow> 's"
    and peek :: "'s \<Rightarrow> string option \<times> 's"
    and requeue :: "string \<Rightarrow> 's \<Rightarrow> 's"
    and remove :: "string \<Rightarrow> 's \<Rightarrow> 's"
    and add_raw :: "string \<Rightarrow> 's \<Rightarrow> 's"
    and listed :: "'s \<Rightarrow> string list"
    and known :: "'s \<Rightarrow> string set"
    and invar :: "'s \<Rightarrow> bool"
  assumes invar_enq: "invar s \<Longrightarrow> invar (enq k s)"
    and invar_peek: "invar s \<Longrightarrow> invar (snd (peek s))"
    and invar_requeue: "invar s \<Longrightarrow> invar (requeue k s)"
    and invar_remove: "invar s \<Longrightarrow> invar (remove k s)"
    and invar_add_raw: "invar s \<Longrightarrow> invar (add_raw k s)"
    and enq_view: "invar s \<Longrightarrow> known (enq k s) = insert k (known s)"
      "invar s \<Longrightarrow> listed (enq k s) = (if k \<in> known s then listed s else k # listed s)"
    and peek_empty: "invar s \<Longrightarrow> listed s = [] \<Longrightarrow> fst (peek s) = None \<and> listed (snd (peek s)) = []"
    and peek_last: "invar s \<Longrightarrow> listed s = xs @ [x] \<Longrightarrow> fst (peek s) = Some x \<and> listed (snd (peek s)) = x # xs"
    and peek_known: "invar s \<Longrightarrow> known (snd (peek s)) = known s"
    and requeue_view: "invar s \<Longrightarrow> known (requeue k s) = insert k (known s)"
      "invar s \<Longrightarrow> listed (requeue k s) = k # listed s"
    and remove_view: "invar s \<Longrightarrow> known (remove k s) = known s - {k}"
      "invar s \<Longrightarrow> listed (remove k s) = filter (\<lambda>x. x \<noteq> k) (listed s)"
    and add_raw_view: "invar s \<Longrightarrow> known (add_raw k s) = known s"
      "invar s \<Longrightarrow> listed (add_raw k s) = k # listed s"
begin

fun step :: "sched_op \<Rightarrow> 's \<Rightarrow> 's" where
  "step (SEnq k) s = enq k s"
| "step SPeek s = snd (peek s)"
| "step (SRequeue k) s = requeue k s"
| "step (SRemove k) s = remove k s"
| "step (SAddRaw k) s = add_raw k s"

lemma step_invar: "invar s \<Longrightarrow> invar (step e s)"
  by (cases e) (auto intro: invar_enq invar_peek invar_requeue invar_remove invar_add_raw)

lemma peek_set: "invar s \<Longrightarrow> set (listed (snd (peek s))) = set (listed s)"
proof (cases "listed s" rule: rev_cases)
  case Nil
  assume "invar s"
  with Nil show ?thesis using peek_empty by simp
next
  case (snoc xs x)
  assume "invar s"
  from peek_last [OF this snoc] snoc show ?thesis by auto
qed

text \<open>An agent that is known is listed: nothing that is to be done is forgotten.\<close>

lemma step_no_orphan:
  assumes "invar s" "known s \<subseteq> set (listed s)"
  shows "known (step e s) \<subseteq> set (listed (step e s))"
  using assms
  by (cases e) (auto simp: enq_view requeue_view remove_view add_raw_view peek_known peek_set)

lemma run_no_orphan:
  assumes "invar s" "known s \<subseteq> set (listed s)"
  shows "invar (fold step es s) \<and> known (fold step es s) \<subseteq> set (listed (fold step es s))"
  using assms by (induction es arbitrary: s) (simp_all add: step_invar step_no_orphan)

text \<open>Peeking is a round robin.\<close>

fun peeks :: "nat \<Rightarrow> 's \<Rightarrow> string option list \<times> 's" where
  "peeks 0 s = ([], s)"
| "peeks (Suc n) s = (let (x, s1) = peek s; (xs, s2) = peeks n s1 in (x # xs, s2))"

lemma peeks_rotate:
  assumes "invar s" "listed s = xs @ ys"
  shows "fst (peeks (length ys) s) = map Some (rev ys) \<and> listed (snd (peeks (length ys) s)) = ys @ xs"
  using assms
proof (induction "length ys" arbitrary: s xs ys)
  case 0
  then show ?case by simp
next
  case (Suc n)
  then obtain zs z where ys: "ys = zs @ [z]" by (cases ys rule: rev_cases) auto
  have l: "listed s = (xs @ zs) @ [z]" using Suc.prems(2) ys by simp
  obtain r s1 where p: "peek s = (r, s1)" by fastforce
  have 1: "r = Some z" "listed s1 = (z # xs) @ zs" "invar s1"
    using peek_last [OF Suc.prems(1) l] invar_peek [OF Suc.prems(1)] p by auto
  have n: "n = length zs" using Suc.hyps(2) ys by simp
  from Suc.hyps(1) [OF n 1(3,2)] show ?case
    by (simp add: ys p 1(1) n split_beta)
qed

lemma peeks_all:
  assumes "invar s"
  shows "fst (peeks (length (listed s)) s) = map Some (rev (listed s))"
    and "listed (snd (peeks (length (listed s)) s)) = listed s"
  using peeks_rotate [OF assms, of "[]" "listed s"] by simp_all

end

end
