(* ===== verification/Agent_Queue.thy ===== *)
theory Agent_Queue
  imports Lock_Service Agent_Schedule
begin

text \<open>
  \<^verbatim>\<open>MemoryCore/src/core/skill/conversation-add/agent-task-queue.ts\<close>, first half: the agent
  tuple and its serialisation, and \<^verbatim>\<open>LocalSkillAgentTaskQueue\<close>, the in-process queue of
  agents that have extraction work. The agent list has its head first (\<^verbatim>\<open>LPUSH\<close> side) and its
  tail last (\<^verbatim>\<open>RPOP\<close> side). An operation that wakes blocked consumers returns them, each
  with the tuple it is handed. \<^verbatim>\<open>randomUUID()\<close> is the argument \<open>token\<close>.
\<close>

section \<open>Agent tuples\<close>

record agent_tuple =
  at_instance :: string
  at_space :: string
  at_user :: string
  at_team :: string
  at_agent :: string

definition legacy_instance_id :: string where
  "legacy_instance_id = ''__legacy__''"

text \<open>\<^verbatim>\<open>assertTupleField\<close>: the name of the offending field is the error.\<close>

definition tuple_field_ok :: "string \<Rightarrow> bool" where
  "tuple_field_ok v \<longleftrightarrow> v \<noteq> [] \<and> CHR ''|'' \<notin> set v"

definition assert_tuple_field :: "string \<Rightarrow> string \<Rightarrow> string + unit" where
  "assert_tuple_field name v =
     (if length v = 0 then Inl name else if CHR ''|'' \<in> set v then Inl name else Inr ())"

definition tuple_fields :: "agent_tuple \<Rightarrow> (string \<times> string) list" where
  "tuple_fields a = [(''instance_id'', at_instance a), (''space_id'', at_space a),
     (''user_id'', at_user a), (''team_id'', at_team a), (''agent_id'', at_agent a)]"

fun first_error :: "(string + unit) list \<Rightarrow> string option" where
  "first_error [] = None"
| "first_error (Inl e # rs) = Some e"
| "first_error (Inr u # rs) = first_error rs"

definition tuple_key :: "agent_tuple \<Rightarrow> string" where
  "tuple_key a = join_with (CHR ''|'') (map snd (tuple_fields a))"

definition serialize_agent_tuple :: "agent_tuple \<Rightarrow> string + string" where
  "serialize_agent_tuple a =
     (case first_error (map (\<lambda>(n, v). assert_tuple_field n v) (tuple_fields a)) of
        Some e \<Rightarrow> Inl e
      | None \<Rightarrow> Inr (tuple_key a))"

definition parse_agent_tuple :: "string \<Rightarrow> agent_tuple option" where
  "parse_agent_tuple raw =
     (if raw = [] then None
      else (case split_on (CHR ''|'') raw of
              [i, sp, u, t, a] \<Rightarrow>
                if i = [] \<or> sp = [] \<or> u = [] \<or> t = [] \<or> a = [] then None
                else Some \<lparr>at_instance = i, at_space = sp, at_user = u, at_team = t, at_agent = a\<rparr>
            | [sp, u, t, a] \<Rightarrow>
                if sp = [] \<or> u = [] \<or> t = [] \<or> a = [] then None
                else Some \<lparr>at_instance = legacy_instance_id, at_space = sp, at_user = u,
                           at_team = t, at_agent = a\<rparr>
            | _ \<Rightarrow> None))"

definition tuple_ok :: "agent_tuple \<Rightarrow> bool" where
  "tuple_ok a \<longleftrightarrow> list_all (\<lambda>(n, v). tuple_field_ok v) (tuple_fields a)"

lemma first_error_None: "first_error rs = None \<longleftrightarrow> (\<forall>r \<in> set rs. \<exists>u. r = Inr u)"
  by (induction rs rule: first_error.induct) auto

lemma assert_tuple_field_ok: "assert_tuple_field n v = Inr () \<longleftrightarrow> tuple_field_ok v"
  by (auto simp: assert_tuple_field_def tuple_field_ok_def)

lemma serialize_ok_iff: "serialize_agent_tuple a = Inr s \<longleftrightarrow> tuple_ok a \<and> s = tuple_key a"
proof -
  have "first_error (map (\<lambda>(n, v). assert_tuple_field n v) (tuple_fields a)) = None \<longleftrightarrow> tuple_ok a"
    by (simp add: first_error_None tuple_ok_def list_all_iff assert_tuple_field_ok split_beta)
  then show ?thesis
    by (auto simp: serialize_agent_tuple_def split: option.splits)
qed

lemma split_tuple_key:
  assumes "tuple_ok a"
  shows "split_on (CHR ''|'') (tuple_key a) = map snd (tuple_fields a)"
  unfolding tuple_key_def
  by (rule split_on_join) (use assms in \<open>auto simp: tuple_ok_def tuple_fields_def tuple_field_ok_def\<close>)

lemma parse_tuple_key: "tuple_ok a \<Longrightarrow> parse_agent_tuple (tuple_key a) = Some a"
proof -
  assume ok: "tuple_ok a"
  have "tuple_key a \<noteq> []" using split_tuple_key [OF ok] by (auto simp: tuple_fields_def)
  then show ?thesis
    using ok split_tuple_key [OF ok]
    by (auto simp: parse_agent_tuple_def tuple_fields_def tuple_ok_def tuple_field_ok_def)
qed

lemma tuple_key_inj: "tuple_ok a \<Longrightarrow> tuple_ok b \<Longrightarrow> tuple_key a = tuple_key b \<longleftrightarrow> a = b"
  by (metis option.inject parse_tuple_key)

section \<open>State\<close>

datatype peek_strategy = Lmove | Evalsha | Eval | RpopDowngrade

record local_agent_queue =
  aq_list :: "string list"
  aq_set :: "string list"
  aq_mutex :: "(string, string) lock_table"
  aq_locks :: "(string, string) lock_table"
  aq_waiters :: "nat list"

definition aq_empty :: local_agent_queue where
  "aq_empty = \<lparr>aq_list = [], aq_set = [], aq_mutex = [], aq_locks = [], aq_waiters = []\<rparr>"

text \<open>A JavaScript \<^verbatim>\<open>Set\<close> in insertion order.\<close>

definition set_add :: "'a \<Rightarrow> 'a list \<Rightarrow> 'a list" where
  "set_add x xs = (if x \<in> set xs then xs else xs @ [x])"

lemma set_set_add [simp]: "set (set_add x xs) = insert x (set xs)"
  by (auto simp: set_add_def)

lemma distinct_set_add [simp]: "distinct (set_add x xs) = distinct xs"
  by (auto simp: set_add_def)

section \<open>Queue operations\<close>

text \<open>\<^verbatim>\<open>notify\<close>: the oldest waiter gets the tail of the list, until one of them is empty.\<close>

fun wake :: "nat list \<Rightarrow> string list \<Rightarrow> (nat \<times> agent_tuple option) list \<times> nat list \<times> string list" where
  "wake [] xs = ([], [], xs)"
| "wake (w # ws) [] = ([], w # ws, [])"
| "wake (w # ws) (x # xs) =
     (let (out, ws', xs') = wake ws (butlast (x # xs))
      in ((w, parse_agent_tuple (last (x # xs))) # out, ws', xs'))"

definition aq_notify :: "local_agent_queue \<Rightarrow> (nat \<times> agent_tuple option) list \<times> local_agent_queue" where
  "aq_notify q = (let (out, ws, xs) = wake (aq_waiters q) (aq_list q)
     in (out, q\<lparr>aq_waiters := ws, aq_list := xs\<rparr>))"

definition aq_enqueue_key ::
  "string \<Rightarrow> local_agent_queue \<Rightarrow> (bool \<times> (nat \<times> agent_tuple option) list) \<times> local_agent_queue" where
  "aq_enqueue_key key q =
     (let added = (key \<notin> set (aq_set q));
          q1 = (if added then q\<lparr>aq_set := set_add key (aq_set q), aq_list := key # aq_list q\<rparr> else q);
          (out, q2) = aq_notify q1
      in ((added, out), q2))"

definition aq_enqueue_agent ::
  "agent_tuple \<Rightarrow> local_agent_queue \<Rightarrow> (string + bool \<times> (nat \<times> agent_tuple option) list) \<times> local_agent_queue" where
  "aq_enqueue_agent t q =
     (case serialize_agent_tuple t of
        Inl e \<Rightarrow> (Inl e, q)
      | Inr key \<Rightarrow> (let (r, q') = aq_enqueue_key key q in (Inr r, q')))"

datatype dequeue_result = Dequeued "agent_tuple option" | Waiting

definition aq_dequeue_agent :: "nat \<Rightarrow> ms \<Rightarrow> local_agent_queue \<Rightarrow> dequeue_result \<times> local_agent_queue" where
  "aq_dequeue_agent w block_ms q =
     (if 0 < length (aq_list q)
      then (Dequeued (parse_agent_tuple (last (aq_list q))), q\<lparr>aq_list := butlast (aq_list q)\<rparr>)
      else if block_ms \<le> 0 then (Dequeued None, q)
      else (Waiting, q\<lparr>aq_waiters := aq_waiters q @ [w]\<rparr>))"

definition aq_dequeue_timeout :: "nat \<Rightarrow> local_agent_queue \<Rightarrow> local_agent_queue" where
  "aq_dequeue_timeout w q =
     (case find_index (\<lambda>v. v = w) (aq_waiters q) of
        None \<Rightarrow> q
      | Some i \<Rightarrow> q\<lparr>aq_waiters := take i (aq_waiters q) @ drop (Suc i) (aq_waiters q)\<rparr>)"

text \<open>One round of the loop of \<^verbatim>\<open>peekAgent\<close>, and what it does when the list is empty.\<close>

definition aq_peek_raw :: "local_agent_queue \<Rightarrow> string option \<times> local_agent_queue" where
  "aq_peek_raw q =
     (if 0 < length (aq_list q)
      then (Some (last (aq_list q)), q\<lparr>aq_list := last (aq_list q) # butlast (aq_list q)\<rparr>)
      else (None, q))"

definition aq_peek_once :: "local_agent_queue \<Rightarrow> agent_tuple option option \<times> local_agent_queue" where
  "aq_peek_once q = (let (raw, q') = aq_peek_raw q in (map_option parse_agent_tuple raw, q'))"

definition poll_next :: "ms \<Rightarrow> ms \<Rightarrow> ms \<Rightarrow> ms option" where
  "poll_next interval deadline now =
     (let remaining = deadline - now in if remaining \<le> 0 then None else Some (min interval remaining))"

definition aq_get_peek_strategy :: peek_strategy where
  "aq_get_peek_strategy = Lmove"

definition aq_requeue_key ::
  "string \<Rightarrow> local_agent_queue \<Rightarrow> (nat \<times> agent_tuple option) list \<times> local_agent_queue" where
  "aq_requeue_key key q = aq_notify (q\<lparr>aq_set := set_add key (aq_set q), aq_list := key # aq_list q\<rparr>)"

definition aq_requeue_agent ::
  "agent_tuple \<Rightarrow> local_agent_queue \<Rightarrow> (string + (nat \<times> agent_tuple option) list) \<times> local_agent_queue" where
  "aq_requeue_agent t q =
     (case serialize_agent_tuple t of
        Inl e \<Rightarrow> (Inl e, q)
      | Inr key \<Rightarrow> (let (out, q') = aq_requeue_key key q in (Inr out, q')))"

definition aq_purge_raw_agent :: "string \<Rightarrow> local_agent_queue \<Rightarrow> local_agent_queue" where
  "aq_purge_raw_agent raw q =
     q\<lparr>aq_set := filter (\<lambda>x. x \<noteq> raw) (aq_set q), aq_list := filter (\<lambda>x. x \<noteq> raw) (aq_list q)\<rparr>"

definition aq_remove_agent :: "agent_tuple \<Rightarrow> local_agent_queue \<Rightarrow> (string + unit) \<times> local_agent_queue" where
  "aq_remove_agent t q =
     (case serialize_agent_tuple t of
        Inl e \<Rightarrow> (Inl e, q)
      | Inr key \<Rightarrow> (Inr (), q\<lparr>aq_set := filter (\<lambda>x. x \<noteq> key) (aq_set q),
                              aq_list := filter (\<lambda>x. x \<noteq> key) (aq_list q)\<rparr>))"

definition aq_scan_agent_set :: "local_agent_queue \<Rightarrow> string list" where
  "aq_scan_agent_set q = aq_set q"

definition aq_list_contains :: "string \<Rightarrow> local_agent_queue \<Rightarrow> bool" where
  "aq_list_contains raw q \<longleftrightarrow> raw \<in> set (aq_list q)"

definition aq_enqueue_raw_agent ::
  "string \<Rightarrow> local_agent_queue \<Rightarrow> (nat \<times> agent_tuple option) list \<times> local_agent_queue" where
  "aq_enqueue_raw_agent raw q = aq_notify (q\<lparr>aq_list := raw # aq_list q\<rparr>)"

section \<open>The tasks mutex and the extract locks\<close>

text \<open>One round of the loop of \<^verbatim>\<open>withTasksMutex\<close>: it runs \<^verbatim>\<open>fn\<close>, gives up, or sleeps. The second
  definition is its \<^verbatim>\<open>finally\<close> block.\<close>

datatype mutex_result = MutexHeld | MutexTimeout | MutexRetry

definition mutex_key :: "string \<Rightarrow> string" where
  "mutex_key key = ''mutex:'' @ key"

definition aq_mutex_attempt ::
  "string \<Rightarrow> string \<Rightarrow> ms \<Rightarrow> ms \<Rightarrow> ms \<Rightarrow> local_agent_queue \<Rightarrow> mutex_result \<times> local_agent_queue" where
  "aq_mutex_attempt key token lock_ttl deadline now q =
     (let k = mutex_key key;
          take = (MutexHeld, q\<lparr>aq_mutex := AList.update k (token, now + lock_ttl) (aq_mutex q)\<rparr>)
      in case map_of (aq_mutex q) k of
           None \<Rightarrow> take
         | Some (tok, e) \<Rightarrow> if e \<le> now then take
             else if deadline < now then (MutexTimeout, q) else (MutexRetry, q))"

definition aq_mutex_release :: "string \<Rightarrow> string \<Rightarrow> local_agent_queue \<Rightarrow> local_agent_queue" where
  "aq_mutex_release key token q =
     (case map_of (aq_mutex q) (mutex_key key) of
        None \<Rightarrow> q
      | Some (tok, e) \<Rightarrow> if tok = token then q\<lparr>aq_mutex := AList.delete (mutex_key key) (aq_mutex q)\<rparr> else q)"

definition aq_acquire_lock ::
  "string \<Rightarrow> string \<Rightarrow> ms \<Rightarrow> ms \<Rightarrow> local_agent_queue \<Rightarrow> bool \<times> local_agent_queue" where
  "aq_acquire_lock key token now ttl q =
     (case map_of (aq_locks q) key of
        Some (tok, e) \<Rightarrow> if now < e then (False, q)
          else (True, q\<lparr>aq_locks := AList.update key (token, now + ttl) (aq_locks q)\<rparr>)
      | None \<Rightarrow> (True, q\<lparr>aq_locks := AList.update key (token, now + ttl) (aq_locks q)\<rparr>))"

definition aq_renew_lock ::
  "string \<Rightarrow> string \<Rightarrow> ms \<Rightarrow> ms \<Rightarrow> local_agent_queue \<Rightarrow> bool \<times> local_agent_queue" where
  "aq_renew_lock key token now ttl q =
     (case map_of (aq_locks q) key of
        None \<Rightarrow> (False, q)
      | Some (tok, e) \<Rightarrow> if tok \<noteq> token then (False, q)
          else (True, q\<lparr>aq_locks := AList.update key (tok, now + ttl) (aq_locks q)\<rparr>))"

definition aq_release_lock :: "string \<Rightarrow> string \<Rightarrow> local_agent_queue \<Rightarrow> local_agent_queue" where
  "aq_release_lock key token q =
     (case map_of (aq_locks q) key of
        None \<Rightarrow> q
      | Some (tok, e) \<Rightarrow> if tok \<noteq> token then q else q\<lparr>aq_locks := AList.delete key (aq_locks q)\<rparr>)"

definition aq_holder :: "local_agent_queue \<Rightarrow> string \<Rightarrow> (string \<times> ms) option" where
  "aq_holder q k = map_of (aq_locks q) k"

lemmas aq_lock_defs = aq_acquire_lock_def aq_renew_lock_def aq_release_lock_def aq_holder_def

interpretation aq_locks: lock_service aq_acquire_lock aq_renew_lock aq_release_lock
  aq_holder "\<lambda>q. True"
proof (unfold_locales, goal_cases)
  case (3 s k now o' ttl)
  then show ?case
    by (fastforce simp: aq_lock_defs simp del: map_of_eq_Some_iff Some_eq_map_of_iff
        split: option.splits)
qed (auto simp: aq_lock_defs simp del: map_of_eq_Some_iff Some_eq_map_of_iff split: option.splits if_splits)

section \<open>The queue provides the scheduling contract\<close>

text \<open>Consumers that only peek never wait, so \<^verbatim>\<open>notify\<close> hands nothing out.\<close>

definition aq_no_waiters :: "local_agent_queue \<Rightarrow> bool" where
  "aq_no_waiters q \<longleftrightarrow> aq_waiters q = []"

lemma aq_notify_none: "aq_waiters q = [] \<Longrightarrow> aq_notify q = ([], q)"
  by (simp add: aq_notify_def)

interpretation aq: agent_schedule "\<lambda>k q. snd (aq_enqueue_key k q)" aq_peek_raw
  "\<lambda>k q. snd (aq_requeue_key k q)" aq_purge_raw_agent "\<lambda>k q. snd (aq_enqueue_raw_agent k q)"
  aq_list "\<lambda>q. set (aq_set q)" aq_no_waiters
  by unfold_locales
    (auto simp: aq_no_waiters_def aq_enqueue_key_def aq_peek_raw_def aq_requeue_key_def
      aq_purge_raw_agent_def aq_enqueue_raw_agent_def aq_notify_none Let_def split_beta)

lemma aq_remove_is_purge:
  "tuple_ok t \<Longrightarrow> aq_remove_agent t q = (Inr (), aq_purge_raw_agent (tuple_key t) q)"
  using serialize_ok_iff [of t "tuple_key t"] by (simp add: aq_remove_agent_def aq_purge_raw_agent_def)

section \<open>Properties\<close>

text \<open>
  the tuple format round trips. Serialising fails exactly when a field is empty or
  contains the separator; a serialised tuple parses back to itself; and every string that
  parses, other than a four-segment legacy one, is the serialisation of its result.
\<close>

theorem agent_tuple_roundtrip:
  "(case serialize_agent_tuple t of
      Inl e \<Rightarrow> \<exists>v \<in> {at_instance t, at_space t, at_user t, at_team t, at_agent t}. v = [] \<or> CHR ''|'' \<in> set v
    | Inr raw \<Rightarrow> parse_agent_tuple raw = Some t)
   \<and> (case parse_agent_tuple raw' of
        None \<Rightarrow> True
      | Some u \<Rightarrow> if length (split_on (CHR ''|'') raw') = 4 then at_instance u = legacy_instance_id
                  else serialize_agent_tuple u = Inr raw')"
proof (rule conjI)
  show "case serialize_agent_tuple t of
      Inl e \<Rightarrow> \<exists>v \<in> {at_instance t, at_space t, at_user t, at_team t, at_agent t}. v = [] \<or> CHR ''|'' \<in> set v
    | Inr raw \<Rightarrow> parse_agent_tuple raw = Some t"
  proof (cases "serialize_agent_tuple t")
    case (Inl e)
    then have "\<not> tuple_ok t" using serialize_ok_iff [of t "tuple_key t"] by auto
    then show ?thesis
      using Inl by (auto simp: tuple_ok_def tuple_fields_def tuple_field_ok_def)
  next
    case (Inr raw)
    then show ?thesis using serialize_ok_iff [of t raw] parse_tuple_key [of t] by simp
  qed
  show "case parse_agent_tuple raw' of
        None \<Rightarrow> True
      | Some u \<Rightarrow> if length (split_on (CHR ''|'') raw') = 4 then at_instance u = legacy_instance_id
                  else serialize_agent_tuple u = Inr raw'"
  proof (cases "parse_agent_tuple raw'")
    case (Some u)
    show ?thesis
    proof (cases "length (split_on (CHR ''|'') raw') = 4")
      case True
      with Some show ?thesis
        by (auto simp: parse_agent_tuple_def split: if_splits list.splits)
    next
      case False
      with Some have s: "split_on (CHR ''|'') raw' = map snd (tuple_fields u)"
        and ne: "\<forall>v \<in> set (map snd (tuple_fields u)). v \<noteq> []"
        by (auto simp: parse_agent_tuple_def tuple_fields_def split: if_splits list.splits)
      have "tuple_ok u"
        using split_on_sep_free [of _ "CHR ''|''" raw'] ne unfolding s
        by (auto simp: tuple_ok_def tuple_fields_def tuple_field_ok_def)
      moreover have "tuple_key u = raw'"
        using join_split_on [of "CHR ''|''" raw'] unfolding s tuple_key_def .
      ultimately show ?thesis using Some False serialize_ok_iff [of u raw'] by simp
    qed
  qed simp
qed

text \<open>
  C40: as long as consumers peek (no \<^verbatim>\<open>dequeueAgent\<close>), no sequence of queue operations
  orphans an agent: whatever is in the set is in the list. And peeking is fair: as many
  peeks as the list is long return every listed agent once, in list order from the tail, and
  leave the list as it was.
\<close>

fun aq_op :: "sched_op \<Rightarrow> local_agent_queue \<Rightarrow> local_agent_queue" where
  "aq_op (SEnq k) q = snd (aq_enqueue_key k q)"
| "aq_op SPeek q = snd (aq_peek_raw q)"
| "aq_op (SRequeue k) q = snd (aq_requeue_key k q)"
| "aq_op (SRemove k) q = aq_purge_raw_agent k q"
| "aq_op (SAddRaw k) q = snd (aq_enqueue_raw_agent k q)"

fun aq_peeks :: "nat \<Rightarrow> local_agent_queue \<Rightarrow> string option list \<times> local_agent_queue" where
  "aq_peeks 0 q = ([], q)"
| "aq_peeks (Suc n) q = (let (x, q1) = aq_peek_raw q; (xs, q2) = aq_peeks n q1 in (x # xs, q2))"

lemma aq_op_step: "aq_op = aq.step"
proof (rule ext, rule ext)
  fix e q
  show "aq_op e q = aq.step e q" by (cases e) simp_all
qed

lemma aq_peeks_eq: "aq_peeks n q = aq.peeks n q"
  by (induction n arbitrary: q) (auto simp: split_beta)

theorem agents_listed_and_served:
  "let q = fold aq_op ops aq_empty; n = length (aq_list q)
   in set (aq_set q) \<subseteq> set (aq_list q)
      \<and> fst (aq_peeks n q) = map Some (rev (aq_list q)) \<and> aq_list (snd (aq_peeks n q)) = aq_list q"
proof -
  define q where "q = fold aq_op ops aq_empty"
  have "aq_no_waiters aq_empty" "set (aq_set aq_empty) \<subseteq> set (aq_list aq_empty)"
    by (simp_all add: aq_no_waiters_def aq_empty_def)
  from aq.run_no_orphan [OF this, of ops]
  have i: "aq_no_waiters q" "set (aq_set q) \<subseteq> set (aq_list q)"
    by (simp_all add: q_def aq_op_step)
  from i aq.peeks_all [OF i(1)] show ?thesis
    by (simp add: q_def [symmetric] aq_peeks_eq Let_def)
qed

end
