(* ===== verification/Json_Text.thy ===== *)
theory Json_Text
  imports Prelude
begin

text \<open>
  The parts of the JavaScript runtime the message pipeline measures and cuts text with:
  \<^verbatim>\<open>JSON.stringify\<close> (as UTF-8 bytes, for numbers that are integers), the decimal rendering of
  numbers, and \<^verbatim>\<open>Buffer.toString("utf8")\<close>, which replaces every maximal malformed piece of a
  byte sequence by U+FFFD.
\<close>

section \<open>Numbers and JSON\<close>

fun dec_digits :: "nat \<Rightarrow> string" where
  "dec_digits n = (if n < 10 then [char_of (48 + n)] else dec_digits (n div 10) @ [char_of (48 + n mod 10)])"

declare dec_digits.simps [simp del]

definition dec_int :: "int \<Rightarrow> string" where
  "dec_int i = (if i < 0 then CHR ''-'' # dec_digits (nat (- i)) else dec_digits (nat i))"

definition dec_value :: "string \<Rightarrow> nat" where
  "dec_value s = foldl (\<lambda>n c. 10 * n + (of_char c - 48)) 0 s"

lemma dec_value_digits: "dec_value (dec_digits n) = n"
proof (induction n rule: dec_digits.induct)
  case (1 n)
  show ?case
  proof (cases "n < 10")
    case True
    then show ?thesis by (simp add: dec_digits.simps [of n] dec_value_def)
  next
    case False
    with 1 have "dec_value (dec_digits (n div 10)) = n div 10" by simp
    with False show ?thesis by (simp add: dec_digits.simps [of n] dec_value_def)
  qed
qed

lemma dec_digits_set: "c \<in> set (dec_digits n) \<Longrightarrow> 48 \<le> (of_char c :: nat) \<and> (of_char c :: nat) \<le> 57"
proof (induction n rule: dec_digits.induct)
  case (1 n)
  have "c \<in> set (if n < 10 then [char_of (48 + n)] else dec_digits (n div 10) @ [char_of (48 + n mod 10)])"
    using 1(2) by (simp only: dec_digits.simps [of n])
  then consider "n < 10" "c = char_of (48 + n)" | "\<not> n < 10" "c \<in> set (dec_digits (n div 10))"
    | "c = char_of (48 + n mod 10)"
    by (auto split: if_splits)
  then show ?case
  proof cases
    case 2
    with 1(1) show ?thesis by blast
  next
    case 3
    then show ?thesis using mod_less_divisor [of 10 n] by simp
  qed simp
qed

lemma dec_digits_nonempty [simp]: "dec_digits n \<noteq> []"
  by (subst dec_digits.simps) simp

lemma dec_digits_inj [simp]: "dec_digits m = dec_digits n \<longleftrightarrow> m = n"
  by (metis dec_value_digits)

lemma dec_int_inj [simp]: "dec_int i = dec_int j \<longleftrightarrow> i = j"
proof -
  have d: "CHR ''-'' \<notin> set (dec_digits n)" for n
    using dec_digits_set [of "CHR ''-''" n] by auto
  have n: "dec_digits m \<noteq> CHR ''-'' # dec_digits n" "CHR ''-'' # dec_digits n \<noteq> dec_digits m" for m n
    using d [of m] by (metis list.set_intros(1))+
  show ?thesis by (auto simp: dec_int_def n)
qed

datatype json = JNull | JBool bool | JNum int | JStr string | JArr "json list" | JObj "(string \<times> json) list"

text \<open>\<^verbatim>\<open>\"\<close>, \<^verbatim>\<open>\\\<close> and the five named control characters take two bytes, the other control
  characters six.\<close>

definition hex_digit :: "nat \<Rightarrow> char" where
  "hex_digit n = (if n < 10 then char_of (48 + n) else char_of (87 + n))"

definition json_escape :: "char \<Rightarrow> string" where
  "json_escape c =
     (let n = (of_char c :: nat) in
      if n = 34 then [CHR 0x5C, CHR 0x22]
      else if n = 92 then [CHR 0x5C, CHR 0x5C]
      else if n = 8 then [CHR 0x5C, CHR ''b'']
      else if n = 9 then [CHR 0x5C, CHR ''t'']
      else if n = 10 then [CHR 0x5C, CHR ''n'']
      else if n = 12 then [CHR 0x5C, CHR ''f'']
      else if n = 13 then [CHR 0x5C, CHR ''r'']
      else if n < 32 then [CHR 0x5C, CHR ''u'', CHR ''0'', CHR ''0'', hex_digit (n div 16), hex_digit (n mod 16)]
      else [c])"

definition json_quote :: "string \<Rightarrow> string" where
  "json_quote s = CHR 0x22 # concat (map json_escape s) @ [CHR 0x22]"

fun json_text :: "json \<Rightarrow> string" where
  "json_text JNull = ''null''"
| "json_text (JBool b) = (if b then ''true'' else ''false'')"
| "json_text (JNum i) = dec_int i"
| "json_text (JStr s) = json_quote s"
| "json_text (JArr js) = ''['' @ join_with (CHR '','') (map json_text js) @ '']''"
| "json_text (JObj fs) =
     ''{'' @ join_with (CHR '','') (map (\<lambda>kj. json_quote (fst kj) @ '':'' @ json_text (snd kj)) fs) @ ''}''"

section \<open>Decoding UTF-8\<close>

text \<open>The ranges of the bytes that may follow a lead byte (None: not a lead byte).\<close>

definition utf8_follow :: "nat \<Rightarrow> (nat \<times> nat) list option" where
  "utf8_follow b =
     (if 0xC2 \<le> b \<and> b \<le> 0xDF then Some [(0x80, 0xBF)]
      else if b = 0xE0 then Some [(0xA0, 0xBF), (0x80, 0xBF)]
      else if b = 0xED then Some [(0x80, 0x9F), (0x80, 0xBF)]
      else if 0xE1 \<le> b \<and> b \<le> 0xEF then Some [(0x80, 0xBF), (0x80, 0xBF)]
      else if b = 0xF0 then Some [(0x90, 0xBF), (0x80, 0xBF), (0x80, 0xBF)]
      else if 0xF1 \<le> b \<and> b \<le> 0xF3 then Some [(0x80, 0xBF), (0x80, 0xBF), (0x80, 0xBF)]
      else if b = 0xF4 then Some [(0x80, 0x8F), (0x80, 0xBF), (0x80, 0xBF)]
      else None)"

text \<open>The bytes taken, the rest, and whether the sequence is complete.\<close>

fun utf8_take :: "(nat \<times> nat) list \<Rightarrow> string \<Rightarrow> string \<times> string \<times> bool" where
  "utf8_take [] bs = ([], bs, True)"
| "utf8_take (r # rs) [] = ([], [], False)"
| "utf8_take (r # rs) (b # bs) =
     (if fst r \<le> (of_char b :: nat) \<and> (of_char b :: nat) \<le> snd r
      then (let (m, rest, ok) = utf8_take rs bs in (b # m, rest, ok))
      else ([], b # bs, False))"

definition replacement_char :: string where
  "replacement_char = [CHR 0xEF, CHR 0xBF, CHR 0xBD]"

lemma utf8_take_append: "utf8_take rs bs = (m, rest, ok) \<Longrightarrow> bs = m @ rest"
  by (induction rs bs arbitrary: m rest ok rule: utf8_take.induct) (auto split: if_splits prod.splits)

lemma utf8_take_length: "utf8_take rs bs = (m, rest, ok) \<Longrightarrow> length rest \<le> length bs"
  by (drule utf8_take_append) simp

function utf8_lossy :: "string \<Rightarrow> string" where
  "utf8_lossy [] = []"
| "utf8_lossy (b # bs) =
     (if (of_char b :: nat) < 0x80 then b # utf8_lossy bs
      else case utf8_follow (of_char b) of
             None \<Rightarrow> replacement_char @ utf8_lossy bs
           | Some rs \<Rightarrow>
               (case utf8_take rs bs of
                  (m, rest, ok) \<Rightarrow> (if ok then b # m else replacement_char) @ utf8_lossy rest))"
  by pat_completeness auto
termination
  by (relation "measure length") (auto simp: less_Suc_eq_le dest: utf8_take_length [OF sym])

definition ascii :: "string \<Rightarrow> bool" where
  "ascii s \<longleftrightarrow> (\<forall>b \<in> set s. (of_char b :: nat) < 0x80)"

lemma utf8_lossy_ascii: "ascii s \<Longrightarrow> utf8_lossy s = s"
  by (induction s) (auto simp: ascii_def)

text \<open>Decoding at most triples the length: every replaced byte becomes three.\<close>

lemma utf8_lossy_length: "length (utf8_lossy s) \<le> 3 * length s"
proof (induction s rule: utf8_lossy.induct)
  case 1
  then show ?case by simp
next
  case (2 b bs)
  show ?case
  proof (cases "(of_char b :: nat) < 0x80")
    case True
    with 2(1) show ?thesis by simp
  next
    case ge: False
    show ?thesis
    proof (cases "utf8_follow (of_char b)")
      case None
      with ge 2(2) show ?thesis by (simp add: replacement_char_def)
    next
      case (Some rs)
      obtain m rest ok where t: "utf8_take rs bs = (m, rest, ok)" by (cases "utf8_take rs bs")
      have "length bs = length m + length rest" using utf8_take_append [OF t] by simp
      moreover have "length (utf8_lossy rest) \<le> 3 * length rest" using 2(3) ge Some t by simp
      ultimately show ?thesis
        using ge Some t by (simp add: replacement_char_def)
    qed
  qed
qed

lemma ascii_take: "ascii s \<Longrightarrow> ascii (take n s)" and ascii_drop: "ascii s \<Longrightarrow> ascii (drop n s)"
  by (auto simp: ascii_def dest: in_set_takeD in_set_dropD)

text \<open>\<^verbatim>\<open>s.replace(pat, r)\<close> for a literal pattern: the first occurrence.\<close>

fun replace_first :: "string \<Rightarrow> string \<Rightarrow> string \<Rightarrow> string" where
  "replace_first pat r [] = (if pat = [] then r else [])"
| "replace_first pat r (c # cs) =
     (if prefix pat (c # cs) then r @ drop (length pat) (c # cs) else c # replace_first pat r cs)"

end
