(* ===== verification/Skill_Message.thy ===== *)
theory Skill_Message
  imports Json_Text
begin

text \<open>
  What happens to conversation messages before they are archived for skill extraction:
  \<^verbatim>\<open>message-compressor.ts\<close> (oversized tool payloads), \<^verbatim>\<open>oversize-strategy.ts\<close> (the head and
  tail of an oversized conversation) and \<^verbatim>\<open>prepare-archive.ts\<close> (their composition), all of
  \<^verbatim>\<open>MemoryCore/src/core/skill/conversation-add/\<close>. Strings are UTF-8 bytes; the two Chinese
  placeholder texts are written out byte by byte. Sizes are \<^verbatim>\<open>Buffer.byteLength\<close>.
\<close>

section \<open>Messages\<close>

text \<open>\<^verbatim>\<open>CompressibleMessage\<close> and \<^verbatim>\<open>OversizeMessage\<close>; metadata is a JSON object.\<close>

record message =
  m_role :: string
  m_content :: string
  m_tool_name :: "string option"
  m_tool_call_id :: "string option"
  m_timestamp :: "int option"
  m_metadata :: "(string \<times> json) list option"

definition opt_field :: "string \<Rightarrow> ('a \<Rightarrow> json) \<Rightarrow> 'a option \<Rightarrow> (string \<times> json) list" where
  "opt_field k f v = (case v of None \<Rightarrow> [] | Some x \<Rightarrow> [(k, f x)])"

text \<open>The object \<^verbatim>\<open>JSON.stringify\<close> renders; absent fields are left out.\<close>

definition message_json :: "message \<Rightarrow> json" where
  "message_json m = JObj ([(''role'', JStr (m_role m)), (''content'', JStr (m_content m))]
     @ opt_field ''tool_name'' JStr (m_tool_name m) @ opt_field ''tool_call_id'' JStr (m_tool_call_id m)
     @ opt_field ''timestamp'' JNum (m_timestamp m) @ opt_field ''metadata'' JObj (m_metadata m))"

definition message_bytes :: "message \<Rightarrow> nat" where
  "message_bytes m = length (json_text (message_json m))"

definition total_bytes :: "message list \<Rightarrow> nat" where
  "total_bytes ms = sum_list (map message_bytes ms)"

lemma total_bytes_simps [simp]:
  "total_bytes [] = 0" "total_bytes (m # ms) = message_bytes m + total_bytes ms"
  "total_bytes (xs @ ys) = total_bytes xs + total_bytes ys"
  by (simp_all add: total_bytes_def)

lemma total_bytes_rev [simp]: "total_bytes (rev ms) = total_bytes ms"
  by (induction ms) simp_all

section \<open>Compression of tool payloads\<close>

record compress_options =
  co_threshold :: nat
  co_head :: nat
  co_tail :: nat
  co_placeholder :: string

definition compress_placeholder :: string where
  "compress_placeholder =
     [CHR 0x0A, CHR 0x0A, CHR 0x5B, CHR 0xE4, CHR 0xB8, CHR 0xAD, CHR 0xE9, CHR 0x97, CHR 0xB4, CHR
     0xE5, CHR 0x86, CHR 0x85, CHR 0xE5, CHR 0xAE, CHR 0xB9, CHR 0xE8, CHR 0xBF, CHR 0x87, CHR 0xE9,
     CHR 0x95, CHR 0xBF, CHR 0xE5, CHR 0xB7, CHR 0xB2, CHR 0xE8, CHR 0xA2, CHR 0xAB, CHR 0xE5, CHR
     0x8E, CHR 0x8B, CHR 0xE7, CHR 0xBC, CHR 0xA9, CHR 0xEF, CHR 0xBC, CHR 0x8C, CHR 0xE5, CHR 0x8F,
     CHR 0xAA, CHR 0xE5, CHR 0xB1, CHR 0x95, CHR 0xE7, CHR 0xA4, CHR 0xBA, CHR 0xE5, CHR 0xA4, CHR
     0xB4, CHR 0xE5, CHR 0xB0, CHR 0xBE, CHR 0x5D, CHR 0x0A, CHR 0x0A]"

definition default_compress_options :: compress_options where
  "default_compress_options = \<lparr>co_threshold = 2048, co_head = 1024, co_tail = 1024,
     co_placeholder = compress_placeholder\<rparr>"

definition compressible_role :: "string \<Rightarrow> bool" where
  "compressible_role r \<longleftrightarrow> r = ''tool_call'' \<or> r = ''tool_result''"

text \<open>\<^verbatim>\<open>{...metadata, k: v}\<close>: an existing key keeps its place.\<close>

definition json_set :: "string \<Rightarrow> json \<Rightarrow> (string \<times> json) list \<Rightarrow> (string \<times> json) list" where
  "json_set k v fs = AList.update k v fs"

definition should_compress :: "compress_options \<Rightarrow> message \<Rightarrow> bool" where
  "should_compress opts m \<longleftrightarrow> compressible_role (m_role m) \<and> \<not> length (m_content m) \<le> co_threshold opts"

text \<open>\<^verbatim>\<open>buf.subarray(buf.length - n)\<close>: a negative start (content shorter than the tail)
  counts from the end again.\<close>

definition js_tail :: "nat \<Rightarrow> string \<Rightarrow> string" where
  "js_tail n s = (if n \<le> length s then drop (length s - n) s
     else drop (length s - min (length s) (n - length s)) s)"

definition compress_message :: "compress_options \<Rightarrow> message \<Rightarrow> message" where
  "compress_message opts m =
     (if \<not> should_compress opts m then m
      else (let bytes = length (m_content m);
                head = utf8_lossy (take (co_head opts) (m_content m));
                tail = utf8_lossy (js_tail (co_tail opts) (m_content m));
                meta = (case m_metadata m of None \<Rightarrow> [] | Some f \<Rightarrow> f)
            in m\<lparr>m_content := head @ co_placeholder opts @ tail,
                 m_metadata := Some (json_set ''original_bytes'' (JNum (int bytes))
                                      (json_set ''truncated'' (JBool True) meta))\<rparr>))"

definition compress_messages :: "compress_options \<Rightarrow> message list \<Rightarrow> message list" where
  "compress_messages opts ms = (if length ms = 0 then [] else map (compress_message opts) ms)"

section \<open>Oversized conversations\<close>

record oversize_options =
  oo_chunk_max :: nat
  oo_head_keep :: nat
  oo_tail_keep :: nat
  oo_template :: string

definition oversize_template :: string where
  "oversize_template =
     [CHR 0x5B, CHR 0xE4, CHR 0xB8, CHR 0xAD, CHR 0xE9, CHR 0x97, CHR 0xB4, CHR 0x20, CHR 0x7B, CHR
     0x6E, CHR 0x7D, CHR 0x20, CHR 0xE6, CHR 0x9D, CHR 0xA1, CHR 0xE6, CHR 0xB6, CHR 0x88, CHR 0xE6,
     CHR 0x81, CHR 0xAF, CHR 0x20, CHR 0x2F, CHR 0x20, CHR 0x7B, CHR 0x62, CHR 0x79, CHR 0x74, CHR
     0x65, CHR 0x73, CHR 0x7D, CHR 0x20, CHR 0xE5, CHR 0xAD, CHR 0x97, CHR 0xE8, CHR 0x8A, CHR 0x82,
     CHR 0xE5, CHR 0x86, CHR 0x85, CHR 0xE5, CHR 0xAE, CHR 0xB9, CHR 0xE8, CHR 0xBF, CHR 0x87, CHR
     0xE9, CHR 0x95, CHR 0xBF, CHR 0xE5, CHR 0xB7, CHR 0xB2, CHR 0xE7, CHR 0x9C, CHR 0x81, CHR 0xE7,
     CHR 0x95, CHR 0xA5, CHR 0x5D]"

definition default_oversize_options :: oversize_options where
  "default_oversize_options = \<lparr>oo_chunk_max = 81920, oo_head_keep = 20480, oo_tail_keep = 20480,
     oo_template = oversize_template\<rparr>"

record oversize_result =
  or_messages :: "message list"
  or_truncated :: bool
  or_omitted_count :: nat
  or_omitted_bytes :: nat

text \<open>The accumulation loops: how many messages are kept, from the front of the list given.
  \<open>kept\<close> is the length of the list built so far, \<open>acc\<close> its bytes.\<close>

fun keep_count :: "nat \<Rightarrow> nat \<Rightarrow> nat \<Rightarrow> message list \<Rightarrow> nat" where
  "keep_count budget kept acc [] = 0"
| "keep_count budget kept acc (m # ms) =
     (let b = message_bytes m in
      if 0 < kept \<and> budget < acc + b then 0
      else if budget \<le> acc + b then 1
      else 1 + keep_count budget (kept + 1) (acc + b) ms)"

definition oversize_placeholder :: "oversize_options \<Rightarrow> nat \<Rightarrow> nat \<Rightarrow> message" where
  "oversize_placeholder opts n bytes = \<lparr>m_role = ''system'',
     m_content = replace_first ''{bytes}'' (dec_int (int bytes))
                  (replace_first ''{n}'' (dec_int (int n)) (oo_template opts)),
     m_tool_name = None, m_tool_call_id = None, m_timestamp = None,
     m_metadata = Some [(''omitted_message_count'', JNum (int n)), (''omitted_bytes'', JNum (int bytes))]\<rparr>"

definition passthrough :: "message list \<Rightarrow> oversize_result" where
  "passthrough ms = \<lparr>or_messages = ms, or_truncated = False, or_omitted_count = 0, or_omitted_bytes = 0\<rparr>"

definition apply_oversize_strategy :: "oversize_options \<Rightarrow> message list \<Rightarrow> oversize_result" where
  "apply_oversize_strategy opts ms =
     (if length ms = 0 then passthrough []
      else if total_bytes ms \<le> oo_chunk_max opts then passthrough ms
      else (let head_end = keep_count (oo_head_keep opts) 0 0 ms;
                tail_len = keep_count (oo_tail_keep opts) 0 0 (rev (drop head_end ms));
                tail_start = length ms - tail_len;
                omitted = take (tail_start - head_end) (drop head_end ms)
            in if length omitted = 0 then passthrough ms
               else \<lparr>or_messages = take head_end ms
                       @ [oversize_placeholder opts (length omitted) (total_bytes omitted)]
                       @ drop tail_start ms,
                     or_truncated = True, or_omitted_count = length omitted,
                     or_omitted_bytes = total_bytes omitted\<rparr>))"

section \<open>The archive payload\<close>

record prepare_result =
  pr_messages :: "message list"
  pr_used_compress :: bool
  pr_used_oversize :: bool

definition prepare_archive_payload ::
  "compress_options \<Rightarrow> oversize_options \<Rightarrow> bool \<Rightarrow> message list \<Rightarrow> message list \<Rightarrow> prepare_result" where
  "prepare_archive_payload copts oopts force existing incoming =
     (let compressed = (if force then compress_messages copts incoming else incoming);
          used_compress = (force \<and> list_ex (should_compress copts) incoming);
          combined = existing @ compressed
      in if \<not> force then \<lparr>pr_messages = combined, pr_used_compress = used_compress, pr_used_oversize = False\<rparr>
         else if total_bytes combined \<le> oo_chunk_max oopts
         then \<lparr>pr_messages = combined, pr_used_compress = used_compress, pr_used_oversize = False\<rparr>
         else (let out = apply_oversize_strategy oopts combined
               in \<lparr>pr_messages = or_messages out, pr_used_compress = used_compress,
                   pr_used_oversize = or_truncated out\<rparr>))"

section \<open>Bounds of the loops\<close>

lemma keep_count_le: "keep_count budget kept acc ms \<le> length ms"
  by (induction budget kept acc ms rule: keep_count.induct) (auto simp: Let_def)

text \<open>What is kept fits the budget, unless it is a single message.\<close>

lemma keep_count_bytes:
  "0 < kept \<Longrightarrow> acc \<le> budget \<Longrightarrow> acc + total_bytes (take (keep_count budget kept acc ms) ms) \<le> budget"
proof (induction budget kept acc ms rule: keep_count.induct)
  case (2 budget kept acc m ms)
  show ?case
    using 2 by (auto simp: Let_def add.assoc)
qed simp

lemma keep_count_first:
  "total_bytes (take (keep_count budget 0 0 ms) ms) \<le> max budget (case ms of [] \<Rightarrow> 0 | m # r \<Rightarrow> message_bytes m)"
proof (cases ms)
  case (Cons m r)
  show ?thesis
  proof (cases "budget \<le> message_bytes m")
    case False
    then have "message_bytes m + total_bytes (take (keep_count budget 1 (message_bytes m) r) r) \<le> budget"
      by (intro keep_count_bytes) auto
    with False Cons show ?thesis by (simp add: Let_def)
  qed (simp add: Cons Let_def)
qed simp

lemma keep_count_pos: "ms \<noteq> [] \<Longrightarrow> 0 < keep_count budget 0 0 ms"
  by (cases ms) (auto simp: Let_def)

lemma keep_count_last:
  assumes "ms \<noteq> []"
  shows "total_bytes (drop (length ms - keep_count budget 0 0 (rev ms)) ms) \<le> max budget (message_bytes (last ms))"
proof -
  let ?n = "keep_count budget 0 0 (rev ms)"
  have "drop (length ms - ?n) ms = rev (take ?n (rev ms))"
    using keep_count_le [of budget 0 0 "rev ms"] by (simp add: take_rev)
  moreover have "(case rev ms of [] \<Rightarrow> 0 | m # r \<Rightarrow> message_bytes m) = message_bytes (last ms)"
    using assms by (cases ms rule: rev_cases) simp_all
  ultimately show ?thesis using keep_count_first [of budget "rev ms"] by simp
qed

section \<open>What truncation leaves\<close>

text \<open>The three pieces of a truncated conversation.\<close>

definition oversize_head :: "oversize_options \<Rightarrow> message list \<Rightarrow> message list" where
  "oversize_head opts ms = take (keep_count (oo_head_keep opts) 0 0 ms) ms"

definition oversize_rest :: "oversize_options \<Rightarrow> message list \<Rightarrow> message list" where
  "oversize_rest opts ms = drop (keep_count (oo_head_keep opts) 0 0 ms) ms"

definition oversize_omitted :: "oversize_options \<Rightarrow> message list \<Rightarrow> message list" where
  "oversize_omitted opts ms = (let r = oversize_rest opts ms in
     take (length r - keep_count (oo_tail_keep opts) 0 0 (rev r)) r)"

definition oversize_tail :: "oversize_options \<Rightarrow> message list \<Rightarrow> message list" where
  "oversize_tail opts ms = (let r = oversize_rest opts ms in
     drop (length r - keep_count (oo_tail_keep opts) 0 0 (rev r)) r)"

lemma oversize_pieces: "ms = oversize_head opts ms @ oversize_omitted opts ms @ oversize_tail opts ms"
proof -
  have "ms = oversize_head opts ms @ oversize_rest opts ms"
    by (simp add: oversize_head_def oversize_rest_def)
  moreover have "oversize_rest opts ms = oversize_omitted opts ms @ oversize_tail opts ms"
    by (simp only: oversize_omitted_def oversize_tail_def Let_def append_take_drop_id)
  ultimately show ?thesis by simp
qed

lemma oversize_eq:
  "apply_oversize_strategy opts ms =
     (if total_bytes ms \<le> oo_chunk_max opts \<or> oversize_omitted opts ms = [] then passthrough ms
      else \<lparr>or_messages = oversize_head opts ms
              @ [oversize_placeholder opts (length (oversize_omitted opts ms)) (total_bytes (oversize_omitted opts ms))]
              @ oversize_tail opts ms,
            or_truncated = True, or_omitted_count = length (oversize_omitted opts ms),
            or_omitted_bytes = total_bytes (oversize_omitted opts ms)\<rparr>)"
proof -
  define h where "h = keep_count (oo_head_keep opts) 0 0 ms"
  define t where "t = keep_count (oo_tail_keep opts) 0 0 (rev (drop h ms))"
  have h: "h \<le> length ms" unfolding h_def by (rule keep_count_le)
  have t: "t \<le> length ms - h" using keep_count_le [of "oo_tail_keep opts" 0 0 "rev (drop h ms)"] by (simp add: t_def)
  have o': "take (length ms - t - h) (drop h ms) = oversize_omitted opts ms"
    by (simp add: oversize_omitted_def oversize_rest_def Let_def h_def [symmetric] t_def [symmetric] diff_commute add.commute)
  have d: "drop (length ms - t) ms = oversize_tail opts ms"
    using h t by (simp add: oversize_tail_def oversize_rest_def Let_def h_def [symmetric] t_def [symmetric] diff_commute)
  have e: "take h ms = oversize_head opts ms"
    by (simp add: oversize_head_def h_def)
  show ?thesis
  proof (cases "length ms = 0")
    case True
    then show ?thesis by (simp add: apply_oversize_strategy_def)
  next
    case False
    then show ?thesis
      by (simp only: apply_oversize_strategy_def Let_def h_def [symmetric] t_def [symmetric] o' d e) simp
  qed
qed

lemma oversize_head_bytes:
  "total_bytes (oversize_head opts ms) \<le> max (oo_head_keep opts) (case ms of [] \<Rightarrow> 0 | m # r \<Rightarrow> message_bytes m)"
  unfolding oversize_head_def by (rule keep_count_first)

lemma oversize_tail_bytes:
  "total_bytes (oversize_tail opts ms) \<le> max (oo_tail_keep opts) (if ms = [] then 0 else message_bytes (last ms))"
proof (cases "oversize_rest opts ms = []")
  case False
  from keep_count_last [OF this, of "oo_tail_keep opts"] False show ?thesis
    by (auto simp: oversize_tail_def Let_def oversize_rest_def last_drop)
qed (simp add: oversize_tail_def)

section \<open>Properties\<close>

text \<open>
  the oversize strategy keeps an initial and a final segment of the conversation in order,
  puts one placeholder between them that counts exactly what is gone, and never truncates a
  conversation that fits the chunk. Its result is no larger than the chunk, or than the two
  budgets (where a single message at either end may exceed its budget) plus the placeholder.
\<close>

theorem oversize_keeps_ends:
  "let r = apply_oversize_strategy opts ms;
       first = (case ms of [] \<Rightarrow> 0 | m # r \<Rightarrow> message_bytes m);
       final = (if ms = [] then 0 else message_bytes (last ms));
       ends = max (oo_head_keep opts) first + max (oo_tail_keep opts) final
   in if or_truncated r
      then oo_chunk_max opts < total_bytes ms
           \<and> (\<exists>head omitted tail. ms = head @ omitted @ tail \<and> head \<noteq> [] \<and> omitted \<noteq> [] \<and> tail \<noteq> []
                \<and> or_messages r = head @ [oversize_placeholder opts (length omitted) (total_bytes omitted)] @ tail
                \<and> or_omitted_count r = length omitted
                \<and> or_omitted_bytes r + total_bytes head + total_bytes tail = total_bytes ms)
           \<and> total_bytes (or_messages r)
               \<le> ends + message_bytes (oversize_placeholder opts (or_omitted_count r) (or_omitted_bytes r))
      else or_messages r = ms \<and> or_omitted_count r = 0
           \<and> total_bytes (or_messages r) \<le> max (oo_chunk_max opts) ends"
proof -
  let ?h = "oversize_head opts ms" and ?o = "oversize_omitted opts ms" and ?t = "oversize_tail opts ms"
  have p: "ms = ?h @ ?o @ ?t" by (rule oversize_pieces)
  have sum: "total_bytes ms = total_bytes ?h + total_bytes ?o + total_bytes ?t"
    using arg_cong [OF p, of total_bytes] by simp
  note b = oversize_head_bytes [of opts ms] oversize_tail_bytes [of opts ms]
  show ?thesis
  proof (cases "total_bytes ms \<le> oo_chunk_max opts \<or> ?o = []")
    case True
    with b sum show ?thesis by (auto simp: oversize_eq passthrough_def Let_def)
  next
    case False
    then have ne: "ms \<noteq> []" "oversize_rest opts ms \<noteq> []"
      by (auto simp: oversize_omitted_def)
    have "?h \<noteq> []" using ne(1) keep_count_pos [of ms "oo_head_keep opts"] by (simp add: oversize_head_def)
    moreover have "?t \<noteq> []"
      using ne(2) keep_count_pos [of "rev (oversize_rest opts ms)" "oo_tail_keep opts"]
      by (simp add: oversize_tail_def Let_def not_le)
    ultimately have w: "\<exists>head omitted tail. ms = head @ omitted @ tail \<and> head \<noteq> [] \<and> omitted \<noteq> [] \<and> tail \<noteq> []
        \<and> ?h @ [oversize_placeholder opts (length ?o) (total_bytes ?o)] @ ?t
            = head @ [oversize_placeholder opts (length omitted) (total_bytes omitted)] @ tail
        \<and> length ?o = length omitted \<and> total_bytes ?o + total_bytes head + total_bytes tail = total_bytes ms"
      using p False sum by (intro exI [of _ ?h] exI [of _ ?o] exI [of _ ?t]) auto
    have bd: "total_bytes (?h @ [oversize_placeholder opts (length ?o) (total_bytes ?o)] @ ?t)
      \<le> max (oo_head_keep opts) (case ms of [] \<Rightarrow> 0 | m # r \<Rightarrow> message_bytes m)
        + max (oo_tail_keep opts) (if ms = [] then 0 else message_bytes (last ms))
        + message_bytes (oversize_placeholder opts (length ?o) (total_bytes ?o))"
      using b by simp
    from False have e: "apply_oversize_strategy opts ms =
      \<lparr>or_messages = ?h @ [oversize_placeholder opts (length ?o) (total_bytes ?o)] @ ?t,
       or_truncated = True, or_omitted_count = length ?o, or_omitted_bytes = total_bytes ?o\<rparr>"
      by (simp add: oversize_eq)
    from False w bd show ?thesis
      unfolding e Let_def oversize_result.simps if_True by simp
  qed
qed

lemma compress_placeholder_length: "length compress_placeholder = 54"
  by (simp add: compress_placeholder_def)

lemma js_tail_exact: "n \<le> length s \<Longrightarrow> js_tail n s = drop (length s - n) s"
  by (simp add: js_tail_def)

text \<open>
  compression touches nothing but the content and two metadata keys of tool messages above
  the threshold. With the default options a tool message of plain ASCII keeps exactly its first
  and last 1024 bytes, and its size is recorded; but
  the result is always 2102 bytes, so every content of 2049 to 2101 bytes gets longer.
\<close>

theorem compression_size:
  "let m' = compress_message default_compress_options m; n = length (m_content m) in
   if compressible_role (m_role m) \<and> 2048 < n \<and> ascii (m_content m)
   then m_content m' = take 1024 (m_content m) @ compress_placeholder @ drop (n - 1024) (m_content m)
        \<and> length (m_content m') = 2102
        \<and> (n < length (m_content m') \<longleftrightarrow> n \<le> 2101)
        \<and> (case m_metadata m' of None \<Rightarrow> False
            | Some meta \<Rightarrow> map_of meta ''original_bytes'' = Some (JNum (int n))
                          \<and> map_of meta ''truncated'' = Some (JBool True))
        \<and> m' = m\<lparr>m_content := m_content m', m_metadata := m_metadata m'\<rparr>
   else compressible_role (m_role m) \<and> 2048 < n \<or> m' = m"
proof (cases "compressible_role (m_role m) \<and> 2048 < length (m_content m)")
  case False
  then show ?thesis
    by (auto simp: Let_def compress_message_def should_compress_def default_compress_options_def)
next
  case True
  then have sc: "should_compress default_compress_options m"
    by (simp add: should_compress_def default_compress_options_def)
  show ?thesis
  proof (cases "ascii (m_content m)")
    case False
    with True show ?thesis by (simp add: Let_def)
  next
    case a: True
    let ?c = "m_content m"
    define meta where "meta = (case m_metadata m of None \<Rightarrow> [] | Some f \<Rightarrow> f)"
    have e: "compress_message default_compress_options m =
      m\<lparr>m_content := take 1024 ?c @ compress_placeholder @ drop (length ?c - 1024) ?c,
        m_metadata := Some (json_set ''original_bytes'' (JNum (int (length ?c)))
                             (json_set ''truncated'' (JBool True) meta))\<rparr>"
      unfolding compress_message_def Let_def meta_def
      using sc True a
      by (simp add: default_compress_options_def js_tail_exact utf8_lossy_ascii ascii_take ascii_drop)
    have l: "length (take 1024 ?c @ compress_placeholder @ drop (length ?c - 1024) ?c) = 2102"
      using True by (simp add: compress_placeholder_length)
    show ?thesis
      unfolding e Let_def using True a l
      by (auto simp: json_set_def update_conv compress_placeholder_length)
  qed
qed

end
