(* ===== verification/Io_Monad.thy ===== *)
theory Io_Monad
  imports Prelude
begin

text \<open>
  Fallible effects on a state: the model of an \<^verbatim>\<open>async\<close> call that may reject. An error
  is its message; \<open>io_bind\<close> is sequencing with \<^verbatim>\<open>await\<close>, \<open>io_catch\<close> is \<^verbatim>\<open>try ... catch\<close>.
  A rejected call keeps the effects it had before it failed.
\<close>

type_synonym ('s, 'a) io = "'s \<Rightarrow> (string + 'a) \<times> 's"

definition io_return :: "'a \<Rightarrow> ('s, 'a) io" where
  "io_return a s = (Inr a, s)"

definition io_throw :: "string \<Rightarrow> ('s, 'a) io" where
  "io_throw e s = (Inl e, s)"

definition io_bind :: "('s, 'a) io \<Rightarrow> ('a \<Rightarrow> ('s, 'b) io) \<Rightarrow> ('s, 'b) io" where
  "io_bind m f s = (case m s of (Inl e, s') \<Rightarrow> (Inl e, s') | (Inr a, s') \<Rightarrow> f a s')"

definition io_catch :: "('s, 'a) io \<Rightarrow> (string \<Rightarrow> ('s, 'a) io) \<Rightarrow> ('s, 'a) io" where
  "io_catch m h s = (case m s of (Inl e, s') \<Rightarrow> h e s' | (Inr a, s') \<Rightarrow> (Inr a, s'))"

definition io_update :: "('s \<Rightarrow> 's) \<Rightarrow> ('s, unit) io" where
  "io_update f s = (Inr (), f s)"

definition io_get :: "('s \<Rightarrow> 'a) \<Rightarrow> ('s, 'a) io" where
  "io_get f s = (Inr (f s), s)"

text \<open>An effect on the first component of a larger state.\<close>

definition io_lift :: "('s, 'a) io \<Rightarrow> ('s \<times> 't, 'a) io" where
  "io_lift m st = (case m (fst st) of (r, s') \<Rightarrow> (r, (s', snd st)))"

text \<open>\<^verbatim>\<open>Promise.all([m, n])\<close> of two calls that do not touch each other's data: both run,
  whatever the other does; an error of either is the error of the pair.\<close>

definition io_both :: "('s, 'a) io \<Rightarrow> ('s, 'b) io \<Rightarrow> ('s, 'a \<times> 'b) io" where
  "io_both m n s =
     (case m s of
        (Inl e, s1) \<Rightarrow> (Inl e, snd (n s1))
      | (Inr a, s1) \<Rightarrow> (case n s1 of (Inl e, s2) \<Rightarrow> (Inl e, s2) | (Inr b, s2) \<Rightarrow> (Inr (a, b), s2)))"

lemma io_return_bind [simp]: "io_bind (io_return a) f = f a"
  by (simp add: io_bind_def io_return_def fun_eq_iff)

lemma io_throw_bind [simp]: "io_bind (io_throw e) f = io_throw e"
  by (simp add: io_bind_def io_throw_def fun_eq_iff)

lemma io_bind_return [simp]: "io_bind m io_return = m"
  by (auto simp: io_bind_def io_return_def fun_eq_iff split: sum.splits prod.splits)

lemma io_bind_assoc: "io_bind (io_bind m f) g = io_bind m (\<lambda>a. io_bind (f a) g)"
  by (auto simp: io_bind_def fun_eq_iff split: sum.splits prod.splits)

lemma io_bind_ok: "m s = (Inr a, s') \<Longrightarrow> io_bind m f s = f a s'"
  by (simp add: io_bind_def)

lemma io_bind_error: "m s = (Inl e, s') \<Longrightarrow> io_bind m f s = (Inl e, s')"
  by (simp add: io_bind_def)

lemma io_bind_Inr_iff:
  "io_bind m f s = (Inr b, s2) \<longleftrightarrow> (\<exists>a s1. m s = (Inr a, s1) \<and> f a s1 = (Inr b, s2))"
  by (auto simp: io_bind_def split: sum.splits prod.splits)

lemmas io_defs = io_return_def io_throw_def io_bind_def io_catch_def io_update_def io_get_def io_lift_def

end
