(* ===== verification/Skill_Buffer.thy ===== *)
theory Skill_Buffer
  imports Agent_Queue Skill_Message Io_Monad
begin

text \<open>
  \<^verbatim>\<open>MemoryCore/src/core/skill/conversation-add/buffer-storage.ts\<close>: the files in which a
  session's buffered messages, its counters, its archives and its agent's pending and dead
  tasks live. The world of the skill pipeline is the storage (a map from object keys to parsed
  documents), the agent queue, and the log of what was handed to the sink. Every storage call
  may fail: \<open>sw_faults\<close> says which of the upcoming ones do (none when it is used up).
\<close>

section \<open>Documents\<close>

record skill_session_key =
  sk_instance :: string
  sk_space :: string
  sk_user :: string
  sk_team :: string
  sk_agent :: string
  sk_session :: string

definition agent_of :: "skill_session_key \<Rightarrow> agent_tuple" where
  "agent_of s = \<lparr>at_instance = sk_instance s, at_space = sk_space s, at_user = sk_user s,
     at_team = sk_team s, at_agent = sk_agent s\<rparr>"

record session_meta =
  sm_session :: string
  sm_space :: string
  sm_user :: string
  sm_team :: string
  sm_agent :: string
  sm_tool_call_count :: nat
  sm_byte_count :: nat
  sm_last_appended :: "ms option"
  sm_last_archived :: "ms option"

record skill_task =
  te_task_id :: string
  te_session :: string
  te_user :: string
  te_team :: string
  te_agent :: string
  te_space :: string
  te_task_ref :: "string option"
  te_archive_key :: string
  te_archived_at :: ms
  te_enqueued_at :: ms
  te_reason :: "string option"
  te_max_iterations :: "int option"
  te_retry_count :: "nat option"
  te_last_error :: "string option"

record skill_dead_task = skill_task +
  de_dead_lettered_at :: ms

record agent_tasks =
  td_team :: string
  td_agent :: string
  td_updated :: ms
  td_tasks :: "skill_task list"

record agent_dead_tasks =
  dd_team :: string
  dd_agent :: string
  dd_updated :: ms
  dd_tasks :: "skill_dead_task list"

text \<open>The content of a file: one of the documents the code writes, or text that does not parse.\<close>

datatype doc = DMessages "message list" | DMeta session_meta | DTasks agent_tasks
  | DDead agent_dead_tasks | DCorrupt

type_synonym files = "string \<Rightarrow> doc option"

record ('q, 'c) skill_world =
  sw_files :: files
  sw_faults :: "bool list"
  sw_queue :: 'q
  sw_applied :: "(skill_task \<times> 'c list) list"

type_synonym ('q, 'c, 'a) sk = "(('q, 'c) skill_world, 'a) io"

section \<open>The storage adapter and the queue as seen by the pipeline\<close>

definition storage_call :: "(files \<Rightarrow> 'a \<times> files) \<Rightarrow> ('q, 'c, 'a) sk" where
  "storage_call f w =
     (if sw_faults w \<noteq> [] \<and> hd (sw_faults w) then (Inl ''storage error'', w\<lparr>sw_faults := tl (sw_faults w)\<rparr>)
      else (case f (sw_files w) of (a, fs) \<Rightarrow> (Inr a, w\<lparr>sw_files := fs, sw_faults := tl (sw_faults w)\<rparr>)))"

definition read_file :: "string \<Rightarrow> ('q, 'c, doc option) sk" where
  "read_file k = storage_call (\<lambda>fs. (fs k, fs))"

definition file_exists :: "string \<Rightarrow> ('q, 'c, bool) sk" where
  "file_exists k = storage_call (\<lambda>fs. (fs k \<noteq> None, fs))"

definition write_file :: "string \<Rightarrow> doc \<Rightarrow> ('q, 'c, unit) sk" where
  "write_file k d = storage_call (\<lambda>fs. ((), fs(k \<mapsto> d)))"

definition on_queue :: "('q, 'a) io \<Rightarrow> ('q, 'c, 'a) sk" where
  "on_queue m w = (case m (sw_queue w) of (r, q) \<Rightarrow> (r, w\<lparr>sw_queue := q\<rparr>))"

section \<open>Keys\<close>

record buffer_storage =
  bs_sub_path :: string

text \<open>\<^verbatim>\<open>s.replace(/\/+$/, "")\<close>\<close>

definition strip_slashes :: "string \<Rightarrow> string" where
  "strip_slashes s = rev (dropWhile (\<lambda>c. c = CHR ''/'') (rev s))"

definition default_sub_path :: string where
  "default_sub_path = ''skill_buffer''"

definition new_buffer :: "string option \<Rightarrow> buffer_storage" where
  "new_buffer p = \<lparr>bs_sub_path = strip_slashes (case p of None \<Rightarrow> default_sub_path | Some s \<Rightarrow> s)\<rparr>"

definition session_dir :: "buffer_storage \<Rightarrow> skill_session_key \<Rightarrow> string" where
  "session_dir b s = join_with (CHR ''/'') [bs_sub_path b, sk_user s, sk_team s, sk_agent s, sk_session s]"

definition agent_dir :: "buffer_storage \<Rightarrow> agent_tuple \<Rightarrow> string" where
  "agent_dir b a = join_with (CHR ''/'') [bs_sub_path b, at_user a, at_team a, at_agent a]"

definition current_key :: "buffer_storage \<Rightarrow> skill_session_key \<Rightarrow> string" where
  "current_key b s = session_dir b s @ ''/data-current.jsonl''"

definition meta_key :: "buffer_storage \<Rightarrow> skill_session_key \<Rightarrow> string" where
  "meta_key b s = session_dir b s @ ''/meta.json''"

definition archive_key :: "buffer_storage \<Rightarrow> skill_session_key \<Rightarrow> ms \<Rightarrow> string" where
  "archive_key b s t = session_dir b s @ ''/data-'' @ dec_int t @ ''.jsonl''"

definition tasks_key :: "buffer_storage \<Rightarrow> agent_tuple \<Rightarrow> string" where
  "tasks_key b a = agent_dir b a @ ''/_tasks.json''"

definition dlq_key :: "buffer_storage \<Rightarrow> agent_tuple \<Rightarrow> string" where
  "dlq_key b a = agent_dir b a @ ''/_tasks_dlq.json''"

section \<open>Reading and writing\<close>

text \<open>A missing, unparsable or foreign document reads as the default.\<close>

definition messages_in :: "doc option \<Rightarrow> message list" where
  "messages_in d = (case d of Some (DMessages ms) \<Rightarrow> ms | _ \<Rightarrow> [])"

definition read_current :: "buffer_storage \<Rightarrow> skill_session_key \<Rightarrow> ('q, 'c, message list) sk" where
  "read_current b s = io_bind (read_file (current_key b s)) (\<lambda>raw. io_return (messages_in raw))"

definition write_current :: "buffer_storage \<Rightarrow> skill_session_key \<Rightarrow> message list \<Rightarrow> ('q, 'c, unit) sk" where
  "write_current b s ms = write_file (current_key b s) (DMessages ms)"

definition default_meta :: "skill_session_key \<Rightarrow> session_meta" where
  "default_meta s = \<lparr>sm_session = sk_session s, sm_space = sk_space s, sm_user = sk_user s,
     sm_team = sk_team s, sm_agent = sk_agent s, sm_tool_call_count = 0, sm_byte_count = 0,
     sm_last_appended = None, sm_last_archived = None\<rparr>"

definition meta_in :: "skill_session_key \<Rightarrow> doc option \<Rightarrow> session_meta" where
  "meta_in s d = (case d of
       Some (DMeta m) \<Rightarrow> m\<lparr>sm_session := sk_session s, sm_space := sk_space s, sm_user := sk_user s,
                           sm_team := sk_team s, sm_agent := sk_agent s\<rparr>
     | _ \<Rightarrow> default_meta s)"

definition read_meta :: "buffer_storage \<Rightarrow> skill_session_key \<Rightarrow> ('q, 'c, session_meta) sk" where
  "read_meta b s = io_bind (read_file (meta_key b s)) (\<lambda>raw. io_return (meta_in s raw))"

definition write_meta :: "buffer_storage \<Rightarrow> skill_session_key \<Rightarrow> session_meta \<Rightarrow> ('q, 'c, unit) sk" where
  "write_meta b s m = write_file (meta_key b s) (DMeta m)"

definition write_archive :: "buffer_storage \<Rightarrow> skill_session_key \<Rightarrow> ms \<Rightarrow> message list \<Rightarrow> ('q, 'c, unit) sk" where
  "write_archive b s t ms =
     io_bind (file_exists (archive_key b s t)) (\<lambda>there.
       if there then io_return () else write_file (archive_key b s t) (DMessages ms))"

text \<open>\<^verbatim>\<open>null\<close> is None; the caller reads \<^verbatim>\<open>archive.messages ?? []\<close>.\<close>

definition archive_in :: "doc option \<Rightarrow> message list option" where
  "archive_in d = (case d of None \<Rightarrow> None | Some DCorrupt \<Rightarrow> None | Some x \<Rightarrow> Some (messages_in (Some x)))"

definition read_archive :: "string \<Rightarrow> ('q, 'c, message list option) sk" where
  "read_archive k = io_bind (read_file k) (\<lambda>raw. io_return (archive_in raw))"

definition default_tasks :: "agent_tuple \<Rightarrow> agent_tasks" where
  "default_tasks a = \<lparr>td_team = at_team a, td_agent = at_agent a, td_updated = 0, td_tasks = []\<rparr>"

definition tasks_in :: "agent_tuple \<Rightarrow> doc option \<Rightarrow> agent_tasks" where
  "tasks_in a d = (case d of
       Some (DTasks t) \<Rightarrow> t\<lparr>td_team := at_team a, td_agent := at_agent a\<rparr>
     | Some (DDead t) \<Rightarrow> \<lparr>td_team = at_team a, td_agent = at_agent a, td_updated = dd_updated t,
                          td_tasks = map skill_task.truncate (dd_tasks t)\<rparr>
     | _ \<Rightarrow> default_tasks a)"

definition read_tasks :: "buffer_storage \<Rightarrow> agent_tuple \<Rightarrow> ('q, 'c, agent_tasks) sk" where
  "read_tasks b a = io_bind (read_file (tasks_key b a)) (\<lambda>raw. io_return (tasks_in a raw))"

definition write_tasks :: "buffer_storage \<Rightarrow> agent_tuple \<Rightarrow> agent_tasks \<Rightarrow> ('q, 'c, unit) sk" where
  "write_tasks b a d = write_file (tasks_key b a) (DTasks d)"

definition default_dlq :: "agent_tuple \<Rightarrow> agent_dead_tasks" where
  "default_dlq a = \<lparr>dd_team = at_team a, dd_agent = at_agent a, dd_updated = 0, dd_tasks = []\<rparr>"

definition dlq_in :: "agent_tuple \<Rightarrow> doc option \<Rightarrow> agent_dead_tasks" where
  "dlq_in a d = (case d of
       Some (DDead t) \<Rightarrow> t\<lparr>dd_team := at_team a, dd_agent := at_agent a\<rparr>
     | _ \<Rightarrow> default_dlq a)"

definition read_dlq :: "buffer_storage \<Rightarrow> agent_tuple \<Rightarrow> ('q, 'c, agent_dead_tasks) sk" where
  "read_dlq b a = io_bind (read_file (dlq_key b a)) (\<lambda>raw. io_return (dlq_in a raw))"

definition append_dlq :: "buffer_storage \<Rightarrow> agent_tuple \<Rightarrow> skill_dead_task \<Rightarrow> ('q, 'c, unit) sk" where
  "append_dlq b a dead = io_bind (read_dlq b a) (\<lambda>d.
     write_file (dlq_key b a)
       (DDead (d\<lparr>dd_tasks := dd_tasks d @ [dead], dd_updated := de_dead_lettered_at dead\<rparr>)))"

section \<open>Which files can coincide\<close>

text \<open>Every key is a directory and a file name without a slash.\<close>

definition archive_name :: "ms \<Rightarrow> string" where
  "archive_name t = ''data-'' @ dec_int t @ ''.jsonl''"

lemma dec_int_chars: "c \<in> set (dec_int t) \<Longrightarrow> c = CHR ''-'' \<or> 48 \<le> (of_char c :: nat) \<and> (of_char c :: nat) \<le> 57"
  by (auto simp: dec_int_def dest: dec_digits_set split: if_splits)

lemma slash_not_in_dec: "CHR ''/'' \<notin> set (dec_int t)"
  using dec_int_chars [of "CHR ''/''" t] by auto

lemma archive_name_slash: "CHR ''/'' \<notin> set (archive_name t)"
  using slash_not_in_dec by (simp add: archive_name_def)

lemma archive_name_inj [simp]: "archive_name t = archive_name t' \<longleftrightarrow> t = t'"
  by (simp add: archive_name_def)

lemma archive_name_kinds [simp]:
  "archive_name t \<noteq> ''data-current.jsonl''" "archive_name t \<noteq> ''meta.json''"
  "archive_name t \<noteq> ''_tasks.json''" "archive_name t \<noteq> ''_tasks_dlq.json''"
proof -
  have "dec_int t \<noteq> ''current''"
    using dec_int_chars [of "CHR ''c''" t] by auto
  moreover have "''data-current.jsonl'' = ''data-'' @ ''current'' @ ''.jsonl''" by simp
  ultimately show "archive_name t \<noteq> ''data-current.jsonl''"
    by (simp only: archive_name_def append_same_eq same_append_eq not_False_eq_True)
qed (auto simp: archive_name_def)

lemma key_forms:
  "current_key b s = session_dir b s @ CHR ''/'' # ''data-current.jsonl''"
  "meta_key b s = session_dir b s @ CHR ''/'' # ''meta.json''"
  "archive_key b s t = session_dir b s @ CHR ''/'' # archive_name t"
  "tasks_key b a = agent_dir b a @ CHR ''/'' # ''_tasks.json''"
  "dlq_key b a = agent_dir b a @ CHR ''/'' # ''_tasks_dlq.json''"
  by (simp_all add: current_key_def meta_key_def archive_key_def tasks_key_def dlq_key_def archive_name_def)

lemma keys_apart [simp]:
  "tasks_key b a \<noteq> dlq_key b' a'" "dlq_key b' a' \<noteq> tasks_key b a"
  "tasks_key b a \<noteq> archive_key b' s t" "archive_key b' s t \<noteq> tasks_key b a"
  "tasks_key b a \<noteq> current_key b' s" "current_key b' s \<noteq> tasks_key b a"
  "tasks_key b a \<noteq> meta_key b' s" "meta_key b' s \<noteq> tasks_key b a"
  "dlq_key b a \<noteq> archive_key b' s t" "archive_key b' s t \<noteq> dlq_key b a"
  "archive_key b s' t \<noteq> current_key b' s" "current_key b' s \<noteq> archive_key b s' t"
  "archive_key b s' t \<noteq> meta_key b' s" "meta_key b' s \<noteq> archive_key b s' t"
  "current_key b s' \<noteq> meta_key b' s" "meta_key b' s \<noteq> current_key b s'"
  using archive_name_kinds [of t]
  by (simp_all add: key_forms sep_append_eq_last archive_name_slash archive_name_kinds [symmetric])

lemma archive_key_same_session [simp]: "archive_key b s t = archive_key b s t' \<longleftrightarrow> t = t'"
  by (simp add: archive_key_def)

definition slash_free :: "string \<Rightarrow> bool" where
  "slash_free s \<longleftrightarrow> CHR ''/'' \<notin> set s"

lemma session_dir_inj:
  assumes "list_all slash_free [sk_user s, sk_team s, sk_agent s, sk_session s]"
    and "list_all slash_free [sk_user s', sk_team s', sk_agent s', sk_session s']"
  shows "session_dir b s = session_dir b s' \<longleftrightarrow>
    sk_user s = sk_user s' \<and> sk_team s = sk_team s' \<and> sk_agent s = sk_agent s' \<and> sk_session s = sk_session s'"
  using assms by (auto simp: session_dir_def slash_free_def sep_append_eq)

lemma agent_dir_inj:
  assumes "list_all slash_free [at_user a, at_team a, at_agent a]"
    and "list_all slash_free [at_user a', at_team a', at_agent a']"
  shows "agent_dir b a = agent_dir b a' \<longleftrightarrow>
    at_user a = at_user a' \<and> at_team a = at_team a' \<and> at_agent a = at_agent a'"
  using assms by (auto simp: agent_dir_def slash_free_def sep_append_eq)

section \<open>Properties\<close>

text \<open>
  which agents and sessions share files. For ids without a slash, two archives coincide
  only for the same user, team, agent, session and time, and two agents share their task and
  dead-letter files exactly when user, team and agent agree: the space and the instance are not
  part of the key although the lock that guards the file is per instance and space. An id with
  a slash (which the validation admits) makes different teams share files.
\<close>

theorem task_files_identify_agents:
  assumes "list_all slash_free [sk_user s, sk_team s, sk_agent s, sk_session s]"
    and "list_all slash_free [sk_user s', sk_team s', sk_agent s', sk_session s']"
  shows "(archive_key b s t = archive_key b s' t' \<longleftrightarrow>
      (sk_user s, sk_team s, sk_agent s, sk_session s, t) = (sk_user s', sk_team s', sk_agent s', sk_session s', t'))
    \<and> (tasks_key b (agent_of s) = tasks_key b (agent_of s') \<longleftrightarrow>
      (sk_user s, sk_team s, sk_agent s) = (sk_user s', sk_team s', sk_agent s'))
    \<and> (dlq_key b (agent_of s) = dlq_key b (agent_of s') \<longleftrightarrow>
      tasks_key b (agent_of s) = tasks_key b (agent_of s'))
    \<and> (tasks_key b (agent_of (s\<lparr>sk_space := sp, sk_instance := i\<rparr>)) = tasks_key b (agent_of s))
    \<and> (tuple_key (agent_of (s\<lparr>sk_space := sk_space s @ ''x''\<rparr>)) \<noteq> tuple_key (agent_of s))
    \<and> (tasks_key b (agent_of (s\<lparr>sk_user := ''u/v'', sk_team := ''t''\<rparr>))
       = tasks_key b (agent_of (s\<lparr>sk_user := ''u'', sk_team := ''v/t''\<rparr>)))"
proof -
  have aa: "list_all slash_free [at_user (agent_of s), at_team (agent_of s), at_agent (agent_of s)]"
    "list_all slash_free [at_user (agent_of s'), at_team (agent_of s'), at_agent (agent_of s')]"
    using assms by (simp_all add: agent_of_def)
  note ad = agent_dir_inj [OF aa, of b]
  show ?thesis
  proof (intro conjI)
    show "archive_key b s t = archive_key b s' t' \<longleftrightarrow>
        (sk_user s, sk_team s, sk_agent s, sk_session s, t) = (sk_user s', sk_team s', sk_agent s', sk_session s', t')"
      using session_dir_inj [OF assms, of b]
      by (simp add: key_forms sep_append_eq_last archive_name_slash)
    show "tasks_key b (agent_of s) = tasks_key b (agent_of s') \<longleftrightarrow>
        (sk_user s, sk_team s, sk_agent s) = (sk_user s', sk_team s', sk_agent s')"
      using ad by (simp add: key_forms agent_of_def)
    show "dlq_key b (agent_of s) = dlq_key b (agent_of s') \<longleftrightarrow>
        tasks_key b (agent_of s) = tasks_key b (agent_of s')"
      by (simp add: key_forms)
    show "tasks_key b (agent_of (s\<lparr>sk_space := sp, sk_instance := i\<rparr>)) = tasks_key b (agent_of s)"
      by (simp add: tasks_key_def agent_dir_def agent_of_def)
    show "tuple_key (agent_of (s\<lparr>sk_space := sk_space s @ ''x''\<rparr>)) \<noteq> tuple_key (agent_of s)"
      by (simp add: tuple_key_def tuple_fields_def agent_of_def)
    show "tasks_key b (agent_of (s\<lparr>sk_user := ''u/v'', sk_team := ''t''\<rparr>))
         = tasks_key b (agent_of (s\<lparr>sk_user := ''u'', sk_team := ''v/t''\<rparr>))"
      by (simp add: tasks_key_def agent_dir_def agent_of_def)
  qed
qed

definition demo_session :: skill_session_key where
  "demo_session = \<lparr>sk_instance = ''i'', sk_space = ''p'', sk_user = ''u'', sk_team = ''t'', sk_agent = ''a'',
     sk_session = ''s''\<rparr>"

theorem task_files_identify_agents_witness:
  "archive_key (new_buffer None) demo_session 5 \<noteq> archive_key (new_buffer None) (demo_session\<lparr>sk_session := ''r''\<rparr>) 5
   \<and> tasks_key (new_buffer None) (agent_of demo_session)
       = tasks_key (new_buffer None) (agent_of (demo_session\<lparr>sk_session := ''r'', sk_space := ''other''\<rparr>))"
proof -
  have "list_all slash_free [sk_user demo_session, sk_team demo_session, sk_agent demo_session, sk_session demo_session]"
    "list_all slash_free [sk_user (demo_session\<lparr>sk_session := ''r''\<rparr>), sk_team (demo_session\<lparr>sk_session := ''r''\<rparr>),
       sk_agent (demo_session\<lparr>sk_session := ''r''\<rparr>), sk_session (demo_session\<lparr>sk_session := ''r''\<rparr>)]"
    by (simp_all add: demo_session_def slash_free_def)
  note t = task_files_identify_agents [OF this, of "new_buffer None" 5 5]
  from t have "archive_key (new_buffer None) demo_session 5 \<noteq> archive_key (new_buffer None) (demo_session\<lparr>sk_session := ''r''\<rparr>) 5"
    by (simp add: demo_session_def)
  moreover from t have "tasks_key (new_buffer None) (agent_of demo_session)
       = tasks_key (new_buffer None) (agent_of (demo_session\<lparr>sk_session := ''r'', sk_space := ''other''\<rparr>))"
    by (simp add: agent_of_def tasks_key_def agent_dir_def)
  ultimately show ?thesis ..
qed

end
