(* ===== verification/Skill_Queue.thy ===== *)
theory Skill_Queue
  imports Skill_Buffer
begin

text \<open>
  The interface \<^verbatim>\<open>ISkillAgentTaskQueue\<close>
  (\<^verbatim>\<open>MemoryCore/src/core/skill/conversation-add/agent-task-queue.ts\<close>) through which the trigger,
  the worker and the pool use whichever queue they were given: a record of operations, its
  instance for the in-process queue, and the contract (an extension of the scheduling contract)
  under which no pending task is left without a queued agent.
\<close>

section \<open>The interface\<close>

record 'q queue_if =
  qi_peek_strategy :: "'q \<Rightarrow> peek_strategy"
  qi_peek_once :: "('q, agent_tuple option option) io"
  qi_enqueue_agent :: "agent_tuple \<Rightarrow> ('q, bool) io"
  qi_requeue_agent :: "agent_tuple \<Rightarrow> ('q, unit) io"
  qi_remove_agent :: "agent_tuple \<Rightarrow> ('q, unit) io"
  qi_purge_raw :: "string \<Rightarrow> ('q, unit) io"
  qi_scan_set :: "('q, string list) io"
  qi_list_contains :: "string \<Rightarrow> ('q, bool) io"
  qi_enqueue_raw :: "string \<Rightarrow> ('q, unit) io"
  qi_mutex_enter :: "agent_tuple \<Rightarrow> ('q, unit) io"
  qi_mutex_leave :: "agent_tuple \<Rightarrow> 'q \<Rightarrow> 'q"
  qi_acquire_lock :: "agent_tuple \<Rightarrow> ms \<Rightarrow> ('q, string option) io"
  qi_release_lock :: "agent_tuple \<Rightarrow> string \<Rightarrow> ('q, unit) io"

text \<open>\<^verbatim>\<open>withTasksMutex\<close>: waiting for the mutex (which may time out), the body, and the
  \<^verbatim>\<open>finally\<close> block that gives the mutex back whether or not the body failed.\<close>

definition with_tasks_mutex ::
  "'q queue_if \<Rightarrow> agent_tuple \<Rightarrow> ('q, 'c, 'a) sk \<Rightarrow> ('q, 'c, 'a) sk" where
  "with_tasks_mutex Q a body w =
     (case on_queue (qi_mutex_enter Q a) w of
        (Inl e, w1) \<Rightarrow> (Inl e, w1)
      | (Inr u, w1) \<Rightarrow> (case body w1 of (r, w2) \<Rightarrow> (r, w2\<lparr>sw_queue := qi_mutex_leave Q a (sw_queue w2)\<rparr>)))"

section \<open>The in-process queue as an instance\<close>

text \<open>One caller of the queue: the mutex options, the instant of the attempt that decides its
  wait for the mutex and the deadline of that wait, and the random tokens it draws.\<close>

record caller =
  cl_now :: ms
  cl_mutex_ttl :: ms
  cl_deadline :: ms
  cl_mutex_token :: string
  cl_lock_token :: string

definition local_mutex_enter :: "caller \<Rightarrow> agent_tuple \<Rightarrow> (local_agent_queue, unit) io" where
  "local_mutex_enter c a q =
     (case serialize_agent_tuple a of
        Inl e \<Rightarrow> (Inl e, q)
      | Inr key \<Rightarrow>
          (case aq_mutex_attempt key (cl_mutex_token c) (cl_mutex_ttl c) (cl_deadline c) (cl_now c) q of
             (MutexHeld, q') \<Rightarrow> (Inr (), q')
           | (_, q') \<Rightarrow> (Inl ''tasks-mutex wait timeout'', q')))"

definition local_queue_if :: "caller \<Rightarrow> local_agent_queue queue_if" where
  "local_queue_if c = \<lparr>
     qi_peek_strategy = (\<lambda>q. aq_get_peek_strategy),
     qi_peek_once = (\<lambda>q. case aq_peek_once q of (r, q') \<Rightarrow> (Inr r, q')),
     qi_enqueue_agent = (\<lambda>a q. case aq_enqueue_agent a q of (Inl e, q') \<Rightarrow> (Inl e, q') | (Inr r, q') \<Rightarrow> (Inr (fst r), q')),
     qi_requeue_agent = (\<lambda>a q. case aq_requeue_agent a q of (Inl e, q') \<Rightarrow> (Inl e, q') | (Inr r, q') \<Rightarrow> (Inr (), q')),
     qi_remove_agent = aq_remove_agent,
     qi_purge_raw = (\<lambda>raw q. (Inr (), aq_purge_raw_agent raw q)),
     qi_scan_set = io_get aq_scan_agent_set,
     qi_list_contains = (\<lambda>raw. io_get (aq_list_contains raw)),
     qi_enqueue_raw = (\<lambda>raw q. (Inr (), snd (aq_enqueue_raw_agent raw q))),
     qi_mutex_enter = local_mutex_enter c,
     qi_mutex_leave = (\<lambda>a q. aq_mutex_release (tuple_key a) (cl_mutex_token c) q),
     qi_acquire_lock = (\<lambda>a ttl q. case serialize_agent_tuple a of
        Inl e \<Rightarrow> (Inl e, q)
      | Inr key \<Rightarrow> (case aq_acquire_lock key (cl_lock_token c) (cl_now c) ttl q of
                     (got, q') \<Rightarrow> (Inr (if got then Some (cl_lock_token c) else None), q'))),
     qi_release_lock = (\<lambda>a token q. (Inr (), aq_release_lock (tuple_key a) token q))\<rparr>"

section \<open>The contract\<close>

text \<open>The operations act on the schedule as their names say, fail without effect on a tuple that
  cannot be serialised, and the mutex and the locks do not touch the schedule.\<close>

locale extract_queue = agent_schedule enq peek requeue remove add_raw listed known invar
  for enq :: "string \<Rightarrow> 'q \<Rightarrow> 'q" and peek :: "'q \<Rightarrow> string option \<times> 'q"
    and requeue :: "string \<Rightarrow> 'q \<Rightarrow> 'q" and remove :: "string \<Rightarrow> 'q \<Rightarrow> 'q"
    and add_raw :: "string \<Rightarrow> 'q \<Rightarrow> 'q" and listed :: "'q \<Rightarrow> string list"
    and known :: "'q \<Rightarrow> string set" and invar :: "'q \<Rightarrow> bool" +
  fixes Q :: "'q queue_if"
  assumes q_enqueue: "invar q \<Longrightarrow> tuple_ok a \<Longrightarrow> \<exists>r. qi_enqueue_agent Q a q = (Inr r, enq (tuple_key a) q)"
    and q_peek: "invar q \<Longrightarrow> qi_peek_once Q q = (Inr (map_option parse_agent_tuple (fst (peek q))), snd (peek q))"
    and q_requeue: "invar q \<Longrightarrow> tuple_ok a \<Longrightarrow> qi_requeue_agent Q a q = (Inr (), requeue (tuple_key a) q)"
    and q_remove: "invar q \<Longrightarrow> tuple_ok a \<Longrightarrow> qi_remove_agent Q a q = (Inr (), remove (tuple_key a) q)"
    and q_purge: "invar q \<Longrightarrow> qi_purge_raw Q raw q = (Inr (), remove raw q)"
    and q_add_raw: "invar q \<Longrightarrow> qi_enqueue_raw Q raw q = (Inr (), add_raw raw q)"
    and q_scan: "invar q \<Longrightarrow> \<exists>xs. qi_scan_set Q q = (Inr xs, q) \<and> set xs = known q"
    and q_contains: "invar q \<Longrightarrow> qi_list_contains Q raw q = (Inr (raw \<in> set (listed q)), q)"
    and q_enter_bad: "\<not> tuple_ok a \<Longrightarrow> \<exists>e. qi_mutex_enter Q a q = (Inl e, q)"
    and q_enter: "invar q \<Longrightarrow> invar (snd (qi_mutex_enter Q a q)) \<and> listed (snd (qi_mutex_enter Q a q)) = listed q
        \<and> known (snd (qi_mutex_enter Q a q)) = known q"
    and q_leave: "invar q \<Longrightarrow> invar (qi_mutex_leave Q a q) \<and> listed (qi_mutex_leave Q a q) = listed q
        \<and> known (qi_mutex_leave Q a q) = known q"
    and q_acquire: "invar q \<Longrightarrow> invar (snd (qi_acquire_lock Q a ttl q)) \<and> listed (snd (qi_acquire_lock Q a ttl q)) = listed q
        \<and> known (snd (qi_acquire_lock Q a ttl q)) = known q"
    and q_release: "invar q \<Longrightarrow> invar (snd (qi_release_lock Q a tok q)) \<and> listed (snd (qi_release_lock Q a tok q)) = listed q
        \<and> known (snd (qi_release_lock Q a tok q)) = known q"
begin

definition sound :: "'q \<Rightarrow> bool" where
  "sound q \<longleftrightarrow> invar q \<and> known q \<subseteq> set (listed q)"

lemma sound_ops:
  assumes "sound q"
  shows "sound (enq k q)" "sound (requeue k q)" "sound (remove k q)" "sound (add_raw k q)" "sound (snd (peek q))"
  using assms step_invar [of q "SEnq k"] step_no_orphan [of q "SEnq k"]
    step_invar [of q "SRequeue k"] step_no_orphan [of q "SRequeue k"]
    step_invar [of q "SRemove k"] step_no_orphan [of q "SRemove k"]
    step_invar [of q "SAddRaw k"] step_no_orphan [of q "SAddRaw k"]
    step_invar [of q SPeek] step_no_orphan [of q SPeek]
  by (simp_all add: sound_def)

lemma sound_mutex:
  assumes "sound q"
  shows "sound (snd (qi_mutex_enter Q a q))" "sound (qi_mutex_leave Q a q)"
    "sound (snd (qi_acquire_lock Q a ttl q))" "sound (snd (qi_release_lock Q a tok q))"
  using assms q_enter [of q a] q_leave [of q a] q_acquire [of q a ttl] q_release [of q a tok]
  by (simp_all add: sound_def)

end

lemma bad_tuple_serialize: "\<not> tuple_ok a \<Longrightarrow> \<exists>e. serialize_agent_tuple a = Inl e"
  using serialize_ok_iff [of a] by (cases "serialize_agent_tuple a") auto

lemma good_tuple_serialize: "tuple_ok a \<Longrightarrow> serialize_agent_tuple a = Inr (tuple_key a)"
  using serialize_ok_iff [of a "tuple_key a"] by simp

lemma aq_mutex_attempt_schedule:
  "aq_list (snd (aq_mutex_attempt k t l d n q)) = aq_list q"
  "aq_set (snd (aq_mutex_attempt k t l d n q)) = aq_set q"
  "aq_waiters (snd (aq_mutex_attempt k t l d n q)) = aq_waiters q"
  by (auto simp: aq_mutex_attempt_def Let_def split: option.splits)

lemma aq_mutex_release_schedule:
  "aq_list (aq_mutex_release k t q) = aq_list q" "aq_set (aq_mutex_release k t q) = aq_set q"
  "aq_waiters (aq_mutex_release k t q) = aq_waiters q"
  by (auto simp: aq_mutex_release_def split: option.splits)

lemma aq_lock_schedule:
  "aq_list (snd (aq_acquire_lock k t n l q)) = aq_list q" "aq_set (snd (aq_acquire_lock k t n l q)) = aq_set q"
  "aq_waiters (snd (aq_acquire_lock k t n l q)) = aq_waiters q"
  "aq_list (aq_release_lock k t q) = aq_list q" "aq_set (aq_release_lock k t q) = aq_set q"
  "aq_waiters (aq_release_lock k t q) = aq_waiters q"
  by (auto simp: aq_acquire_lock_def aq_release_lock_def split: option.splits)

lemma local_mutex_enter_schedule:
  "aq_list (snd (local_mutex_enter c a q)) = aq_list q" "aq_set (snd (local_mutex_enter c a q)) = aq_set q"
  "aq_waiters (snd (local_mutex_enter c a q)) = aq_waiters q"
  by (auto simp: local_mutex_enter_def split: sum.splits prod.splits mutex_result.splits
      dest!: arg_cong [of _ _ snd] simp: aq_mutex_attempt_schedule)

interpretation lq: extract_queue "\<lambda>k q. snd (aq_enqueue_key k q)" aq_peek_raw
  "\<lambda>k q. snd (aq_requeue_key k q)" aq_purge_raw_agent "\<lambda>k q. snd (aq_enqueue_raw_agent k q)"
  aq_list "\<lambda>q. set (aq_set q)" aq_no_waiters "local_queue_if c" for c
proof (unfold_locales, goal_cases)
  case (1 q a)
  then show ?case
    by (auto simp: local_queue_if_def aq_enqueue_agent_def good_tuple_serialize split_beta)
next
  case (3 q a)
  then show ?case
    by (simp add: local_queue_if_def aq_requeue_agent_def good_tuple_serialize split_beta)
next
  case (9 a q)
  then show ?case
    using bad_tuple_serialize by (fastforce simp: local_queue_if_def local_mutex_enter_def)
next
  case (12 q a ttl)
  then show ?case
    by (auto simp: local_queue_if_def aq_no_waiters_def aq_lock_schedule split: sum.split prod.split)
      (metis aq_lock_schedule snd_conv)+
qed (auto simp: local_queue_if_def aq_peek_once_def split_beta aq_remove_is_purge io_get_def aq_scan_agent_set_def aq_list_contains_def
    aq_no_waiters_def local_mutex_enter_schedule aq_mutex_release_schedule aq_lock_schedule)

end
