(* ===== verification/Skill_Trigger.thy ===== *)
theory Skill_Trigger
  imports Skill_Queue
begin

text \<open>
  \<^verbatim>\<open>MemoryCore/src/core/skill/conversation-add/trigger-service.ts\<close>: archiving a session. The
  archive file is written first; then, inside the agent's tasks mutex, the task is appended to
  the agent's task file and the agent is queued. The clock reading and the random part of the
  task id are arguments.
\<close>

section \<open>The service\<close>

record trigger_input =
  ti_session :: skill_session_key
  ti_buffer :: "message list"
  ti_task_ref :: "string option"
  ti_reason :: "string option"
  ti_max_iterations :: "int option"

record trigger_result =
  tr_task_id :: string
  tr_archived_at :: ms
  tr_archive_key :: string

record trigger_service =
  ts_buffer :: buffer_storage
  ts_mutex_lock_ttl :: ms
  ts_mutex_wait :: ms

definition new_trigger :: "buffer_storage \<Rightarrow> ms option \<Rightarrow> ms option \<Rightarrow> trigger_service" where
  "new_trigger b ttl wait = \<lparr>ts_buffer = b,
     ts_mutex_lock_ttl = (case ttl of None \<Rightarrow> 10000 | Some x \<Rightarrow> x),
     ts_mutex_wait = (case wait of None \<Rightarrow> 30000 | Some x \<Rightarrow> x)\<rparr>"

text \<open>The caller the service is for the queue: it starts waiting at one instant, and the
  attempt that decides happens at another.\<close>

definition trigger_caller :: "trigger_service \<Rightarrow> ms \<Rightarrow> ms \<Rightarrow> string \<Rightarrow> caller" where
  "trigger_caller ts started decided token = \<lparr>cl_now = decided, cl_mutex_ttl = ts_mutex_lock_ttl ts,
     cl_deadline = started + ts_mutex_wait ts, cl_mutex_token = token, cl_lock_token = token\<rparr>"

definition task_id_of :: "string \<Rightarrow> string" where
  "task_id_of uuid = ''skill-extract-task-'' @ take 8 uuid"

definition archive_entry :: "buffer_storage \<Rightarrow> ms \<Rightarrow> string \<Rightarrow> trigger_input \<Rightarrow> skill_task" where
  "archive_entry b now uuid inp =
     (let s = ti_session inp in
      \<lparr>te_task_id = task_id_of uuid, te_session = sk_session s, te_user = sk_user s, te_team = sk_team s,
       te_agent = sk_agent s, te_space = sk_space s, te_task_ref = ti_task_ref inp,
       te_archive_key = archive_key b s now, te_archived_at = now, te_enqueued_at = now,
       te_reason = ti_reason inp, te_max_iterations = ti_max_iterations inp,
       te_retry_count = None, te_last_error = None\<rparr>)"

text \<open>The body run under the mutex.\<close>

definition register_section ::
  "'q queue_if \<Rightarrow> buffer_storage \<Rightarrow> agent_tuple \<Rightarrow> skill_task \<Rightarrow> ms \<Rightarrow> ('q, 'c, unit) sk" where
  "register_section Q b a entry now =
     io_bind (read_tasks b a) (\<lambda>d.
     io_bind (write_tasks b a (d\<lparr>td_tasks := td_tasks d @ [entry], td_updated := now\<rparr>)) (\<lambda>u.
     io_bind (on_queue (qi_enqueue_agent Q a)) (\<lambda>added. io_return ())))"

definition trigger_archive ::
  "'q queue_if \<Rightarrow> buffer_storage \<Rightarrow> ms \<Rightarrow> string \<Rightarrow> trigger_input \<Rightarrow> ('q, 'c, trigger_result) sk" where
  "trigger_archive Q b now uuid inp =
     (let s = ti_session inp; a = agent_of s; entry = archive_entry b now uuid inp in
      io_bind (write_archive b s now (ti_buffer inp)) (\<lambda>u.
      io_bind (with_tasks_mutex Q a (register_section Q b a entry now)) (\<lambda>u.
        io_return \<lparr>tr_task_id = te_task_id entry, tr_archived_at = now, tr_archive_key = te_archive_key entry\<rparr>)))"

section \<open>Storage calls\<close>

definition fault_next :: "('q, 'c) skill_world \<Rightarrow> bool" where
  "fault_next w \<longleftrightarrow> sw_faults w \<noteq> [] \<and> hd (sw_faults w)"

definition spent :: "('q, 'c) skill_world \<Rightarrow> ('q, 'c) skill_world" where
  "spent w = w\<lparr>sw_faults := tl (sw_faults w)\<rparr>"

lemma spent_simps [simp]:
  "sw_files (spent w) = sw_files w" "sw_queue (spent w) = sw_queue w" "sw_applied (spent w) = sw_applied w"
  "sw_faults (spent w) = tl (sw_faults w)"
  by (simp_all add: spent_def)

lemma storage_ops:
  "read_file k w = (if fault_next w then (Inl ''storage error'', spent w) else (Inr (sw_files w k), spent w))"
  "file_exists k w = (if fault_next w then (Inl ''storage error'', spent w) else (Inr (sw_files w k \<noteq> None), spent w))"
  "write_file k d w = (if fault_next w then (Inl ''storage error'', spent w)
     else (Inr (), (spent w)\<lparr>sw_files := (sw_files w)(k \<mapsto> d)\<rparr>))"
  by (simp_all add: read_file_def file_exists_def write_file_def storage_call_def fault_next_def spent_def)

lemma buffer_reads:
  "read_tasks b a w = (if fault_next w then (Inl ''storage error'', spent w)
     else (Inr (tasks_in a (sw_files w (tasks_key b a))), spent w))"
  "read_dlq b a w = (if fault_next w then (Inl ''storage error'', spent w)
     else (Inr (dlq_in a (sw_files w (dlq_key b a))), spent w))"
  "read_archive k w = (if fault_next w then (Inl ''storage error'', spent w)
     else (Inr (archive_in (sw_files w k)), spent w))"
  "read_current b s w = (if fault_next w then (Inl ''storage error'', spent w)
     else (Inr (messages_in (sw_files w (current_key b s))), spent w))"
  "read_meta b s w = (if fault_next w then (Inl ''storage error'', spent w)
     else (Inr (meta_in s (sw_files w (meta_key b s))), spent w))"
  by (simp_all add: read_tasks_def read_dlq_def read_archive_def read_current_def read_meta_def
      storage_ops io_defs)

lemma on_queue_frame:
  "sw_files (snd (on_queue m w)) = sw_files w" "sw_faults (snd (on_queue m w)) = sw_faults w"
  "sw_applied (snd (on_queue m w)) = sw_applied w" "sw_queue (snd (on_queue m w)) = snd (m (sw_queue w))"
  "fst (on_queue m w) = fst (m (sw_queue w))"
  by (simp_all add: on_queue_def split: prod.splits)

text \<open>A world in which no storage call fails any more stays one.\<close>

definition keeps_clear :: "('q, 'c, 'a) sk \<Rightarrow> bool" where
  "keeps_clear m \<longleftrightarrow> (\<forall>w. sw_faults w = [] \<longrightarrow> sw_faults (snd (m w)) = [])"

named_theorems clear_intros "calls that keep the world free of faults"

lemma clear_storage [clear_intros]: "keeps_clear (storage_call f)"
  by (simp add: keeps_clear_def storage_call_def split_beta)

lemma clear_file_ops [clear_intros]:
  "keeps_clear (read_file k)" "keeps_clear (file_exists k)" "keeps_clear (write_file k d)"
  unfolding read_file_def file_exists_def write_file_def by (rule clear_storage)+

lemma clear_on_queue [clear_intros]: "keeps_clear (on_queue m)"
  by (simp add: keeps_clear_def on_queue_frame)

lemma clear_return [clear_intros]: "keeps_clear (io_return a)" "keeps_clear (io_throw e)"
  by (simp_all add: keeps_clear_def io_return_def io_throw_def)

lemma clear_bind [clear_intros]: "keeps_clear m \<Longrightarrow> (\<And>a. keeps_clear (f a)) \<Longrightarrow> keeps_clear (io_bind m f)"
  unfolding keeps_clear_def io_bind_def by (auto split: prod.split sum.split)

lemma clear_both [clear_intros]: "keeps_clear m \<Longrightarrow> keeps_clear n \<Longrightarrow> keeps_clear (io_both m n)"
  unfolding keeps_clear_def io_both_def by (auto split: prod.split sum.split)

lemma clear_mutex [clear_intros]: "keeps_clear body \<Longrightarrow> keeps_clear (with_tasks_mutex Q a body)"
  unfolding keeps_clear_def with_tasks_mutex_def
  by (auto split: prod.split sum.split) (metis on_queue_frame(2) snd_conv)+

lemma clear_buffer [clear_intros]:
  "keeps_clear (read_tasks b a)" "keeps_clear (write_tasks b a d)" "keeps_clear (read_current b s)"
  "keeps_clear (read_meta b s)" "keeps_clear (write_current b s ms)" "keeps_clear (write_meta b s m)"
  "keeps_clear (write_archive b s t ms)"
  unfolding read_tasks_def write_tasks_def read_current_def read_meta_def write_current_def write_meta_def
    write_archive_def by (auto intro!: clear_intros)

lemma clear_trigger [clear_intros]: "keeps_clear (trigger_archive Q b now uuid inp)"
  unfolding trigger_archive_def register_section_def Let_def by (intro clear_intros)

lemma no_faults: "sw_faults w = [] \<Longrightarrow> \<not> fault_next w" "sw_faults w = [] \<Longrightarrow> spent w = w"
  by (simp_all add: fault_next_def spent_def)

lemma tasks_in_DTasks [simp]: "td_tasks (tasks_in a (Some (DTasks d))) = td_tasks d"
  by (simp add: tasks_in_def)

section \<open>What archiving does to the files\<close>

lemma write_archive_run:
  "write_archive b s t ms w =
     (if fault_next w then (Inl ''storage error'', spent w)
      else if sw_files w (archive_key b s t) \<noteq> None then (Inr (), spent w)
      else if fault_next (spent w) then (Inl ''storage error'', spent (spent w))
      else (Inr (), (spent (spent w))\<lparr>sw_files := (sw_files w)(archive_key b s t \<mapsto> DMessages ms)\<rparr>))"
  by (simp add: write_archive_def io_bind_def storage_ops io_return_def)

text \<open>What the in-process queue makes of the registration.\<close>

lemma aq_enqueue_known:
  "tuple_ok a \<Longrightarrow> \<exists>r q'. qi_enqueue_agent (local_queue_if c) a q = (Inr r, q') \<and> set (aq_set q') = insert (tuple_key a) (set (aq_set q))"
proof -
  assume ok: "tuple_ok a"
  have n: "aq_set (snd (aq_notify q1)) = aq_set q1" for q1
    by (auto simp: aq_notify_def split: prod.splits)
  have "set (aq_set (snd (aq_enqueue_key (tuple_key a) q))) = insert (tuple_key a) (set (aq_set q))"
    by (auto simp: aq_enqueue_key_def Let_def split_beta n)
  with ok show ?thesis
    by (auto simp: local_queue_if_def aq_enqueue_agent_def good_tuple_serialize split_beta)
qed

lemma register_run:
  assumes "tuple_ok a"
  shows "(\<exists>e. fst (register_section (local_queue_if c) b a entry now w) = Inl e
            \<and> sw_files (snd (register_section (local_queue_if c) b a entry now w)) = sw_files w)
       \<or> (fst (register_section (local_queue_if c) b a entry now w) = Inr ()
            \<and> sw_files (snd (register_section (local_queue_if c) b a entry now w))
                = (sw_files w)(tasks_key b a \<mapsto> DTasks ((tasks_in a (sw_files w (tasks_key b a)))
                     \<lparr>td_tasks := td_tasks (tasks_in a (sw_files w (tasks_key b a))) @ [entry], td_updated := now\<rparr>))
            \<and> tuple_key a \<in> set (aq_set (sw_queue (snd (register_section (local_queue_if c) b a entry now w)))))"
proof -
  let ?w = "(spent (spent w))\<lparr>sw_files := (sw_files w)(tasks_key b a \<mapsto> DTasks ((tasks_in a (sw_files w (tasks_key b a)))
                     \<lparr>td_tasks := td_tasks (tasks_in a (sw_files w (tasks_key b a))) @ [entry], td_updated := now\<rparr>))\<rparr>"
  obtain r q' where e: "qi_enqueue_agent (local_queue_if c) a (sw_queue w) = (Inr r, q')"
    "set (aq_set q') = insert (tuple_key a) (set (aq_set (sw_queue w)))"
    using aq_enqueue_known [OF assms] by blast
  have "on_queue (qi_enqueue_agent (local_queue_if c) a) ?w = (Inr r, ?w\<lparr>sw_queue := q'\<rparr>)"
    using e(1) by (simp add: on_queue_def)
  then show ?thesis
    using e(2) by (simp add: register_section_def io_bind_def buffer_reads write_tasks_def storage_ops io_return_def)
qed

text \<open>The task file after a successful registration.\<close>

definition with_task :: "agent_tuple \<Rightarrow> skill_task \<Rightarrow> ms \<Rightarrow> doc option \<Rightarrow> doc" where
  "with_task a entry now d = DTasks ((tasks_in a d)\<lparr>td_tasks := td_tasks (tasks_in a d) @ [entry], td_updated := now\<rparr>)"

lemma mutex_leave_set: "aq_set (qi_mutex_leave (local_queue_if c) a q) = aq_set q"
  by (simp add: local_queue_if_def aq_mutex_release_schedule)

lemma mutexed_register_run:
  fixes w :: "(local_agent_queue, 'c) skill_world"
  shows "(\<exists>e w'. with_tasks_mutex (local_queue_if c) a (register_section (local_queue_if c) b a entry now) w = (Inl e, w')
            \<and> sw_files w' = sw_files w)
       \<or> (\<exists>w'. with_tasks_mutex (local_queue_if c) a (register_section (local_queue_if c) b a entry now) w = (Inr (), w')
            \<and> sw_files w' = (sw_files w)(tasks_key b a \<mapsto> with_task a entry now (sw_files w (tasks_key b a)))
            \<and> tuple_key a \<in> set (aq_set (sw_queue w')))"
proof -
  let ?Q = "local_queue_if c"
  obtain r q1 where en: "qi_mutex_enter ?Q a (sw_queue w) = (r, q1)" by (cases "qi_mutex_enter ?Q a (sw_queue w)")
  have on: "on_queue (qi_mutex_enter ?Q a) w = (r, w\<lparr>sw_queue := q1\<rparr>)" using en by (simp add: on_queue_def)
  show ?thesis
  proof (cases r)
    case (Inl e)
    then show ?thesis using on by (simp add: with_tasks_mutex_def)
  next
    case (Inr u)
    have ok: "tuple_ok a"
      using lq.q_enter_bad [of a c "sw_queue w"] en Inr by auto
    obtain r2 w2 where reg: "register_section ?Q b a entry now (w\<lparr>sw_queue := q1\<rparr>) = (r2, w2)"
      by (cases "register_section ?Q b a entry now (w\<lparr>sw_queue := q1\<rparr>)")
    have e: "with_tasks_mutex ?Q a (register_section ?Q b a entry now) w
      = (r2, w2\<lparr>sw_queue := qi_mutex_leave ?Q a (sw_queue w2)\<rparr>)"
      using on Inr reg by (simp add: with_tasks_mutex_def)
    from register_run [OF ok, of c b entry now "w\<lparr>sw_queue := q1\<rparr>"] show ?thesis
      unfolding e reg by (auto simp: mutex_leave_set with_task_def)
  qed
qed

definition trigger_result_of :: "buffer_storage \<Rightarrow> ms \<Rightarrow> string \<Rightarrow> trigger_input \<Rightarrow> trigger_result" where
  "trigger_result_of b now uuid inp =
     \<lparr>tr_task_id = task_id_of uuid, tr_archived_at = now, tr_archive_key = archive_key b (ti_session inp) now\<rparr>"

definition with_archive :: "buffer_storage \<Rightarrow> ms \<Rightarrow> trigger_input \<Rightarrow> files \<Rightarrow> files" where
  "with_archive b now inp fs =
     (let k = archive_key b (ti_session inp) now
      in if fs k = None then fs(k \<mapsto> DMessages (ti_buffer inp)) else fs)"

lemma trigger_outcome:
  fixes w :: "(local_agent_queue, 'c) skill_world" and b :: buffer_storage and now :: ms
    and uuid :: string and inp :: trigger_input
  defines "a \<equiv> agent_of (ti_session inp)" and "entry \<equiv> archive_entry b now uuid inp"
  shows "(\<exists>e w'. trigger_archive (local_queue_if c) b now uuid inp w = (Inl e, w')
            \<and> (sw_files w' = sw_files w \<or> sw_files w' = with_archive b now inp (sw_files w)))
       \<or> (\<exists>w'. trigger_archive (local_queue_if c) b now uuid inp w = (Inr (trigger_result_of b now uuid inp), w')
            \<and> sw_files w' = (with_archive b now inp (sw_files w))
                (tasks_key b a \<mapsto> with_task a entry now (sw_files w (tasks_key b a)))
            \<and> tuple_key a \<in> set (aq_set (sw_queue w')))"
proof -
  let ?Q = "local_queue_if c" and ?s = "ti_session inp"
  obtain ra wa where wa: "write_archive b ?s now (ti_buffer inp) w = (ra, wa)"
    by (cases "write_archive b ?s now (ti_buffer inp) w")
  note wr = write_archive_run [of b ?s now "ti_buffer inp" w, unfolded wa]
  show ?thesis
  proof (cases ra)
    case (Inl e)
    with wr have "sw_files wa = sw_files w" by (auto split: if_splits)
    then show ?thesis using Inl wa by (simp add: trigger_archive_def Let_def io_bind_def)
  next
    case (Inr u)
    have f: "sw_files wa = with_archive b now inp (sw_files w)"
      using wr Inr by (auto simp: with_archive_def Let_def split: if_splits)
    have tk: "sw_files wa (tasks_key b a) = sw_files w (tasks_key b a)"
      by (simp add: f with_archive_def Let_def)
    from mutexed_register_run [of c a b entry now wa] show ?thesis
    proof (elim disjE exE conjE)
      fix e w'
      assume "with_tasks_mutex ?Q a (register_section ?Q b a entry now) wa = (Inl e, w')"
        "sw_files w' = sw_files wa"
      then have "trigger_archive ?Q b now uuid inp w = (Inl e, w') \<and> sw_files w' = with_archive b now inp (sw_files w)"
        using f Inr wa by (simp add: trigger_archive_def Let_def io_bind_def a_def entry_def)
      then show ?thesis by blast
    next
      fix w'
      assume m: "with_tasks_mutex ?Q a (register_section ?Q b a entry now) wa = (Inr (), w')"
        "sw_files w' = (sw_files wa)(tasks_key b a \<mapsto> with_task a entry now (sw_files wa (tasks_key b a)))"
        "tuple_key a \<in> set (aq_set (sw_queue w'))"
      have "trigger_archive ?Q b now uuid inp w = (Inr (trigger_result_of b now uuid inp), w')"
        using m(1) Inr wa unfolding a_def entry_def
        by (simp add: trigger_archive_def Let_def io_bind_def io_return_def trigger_result_of_def archive_entry_def)
      then show ?thesis using m(2,3) f tk by auto
    qed
  qed
qed

section \<open>Properties\<close>


text \<open>
  when queueing the agent fails after the task was written, the call rejects but the task
  stays registered: the caller's retry archives and registers the same messages again. The
  source documents only a left-over archive for this failure.
\<close>

definition failing_enqueue :: "caller \<Rightarrow> local_agent_queue queue_if" where
  "failing_enqueue c = (local_queue_if c)\<lparr>qi_enqueue_agent := (\<lambda>a q. (Inl ''redis error'', q))\<rparr>"

theorem failed_enqueue_leaves_task:
  "let w = \<lparr>sw_files = Map.empty, sw_faults = [], sw_queue = aq_empty, sw_applied = []\<rparr>;
       inp = \<lparr>ti_session = demo_session, ti_buffer = ms, ti_task_ref = None, ti_reason = None, ti_max_iterations = None\<rparr>;
       a = agent_of demo_session; b = new_buffer None
   in case trigger_archive (failing_enqueue c) b now uuid inp w of (r, w') \<Rightarrow>
        r = Inl ''redis error''
        \<and> td_tasks (tasks_in a (sw_files w' (tasks_key b a))) = [archive_entry b now uuid inp]
        \<and> tuple_key a \<notin> set (aq_set (sw_queue w'))
        \<and> (case trigger_archive (local_queue_if c) b later uuid2 inp w' of (r2, w2) \<Rightarrow>
             td_tasks (tasks_in a (sw_files w2 (tasks_key b a)))
               = [archive_entry b now uuid inp, archive_entry b later uuid2 inp])"
proof -
  have ok: "serialize_agent_tuple (agent_of demo_session) = Inr (tuple_key (agent_of demo_session))"
    by (rule good_tuple_serialize) (simp add: agent_of_def demo_session_def tuple_ok_def tuple_fields_def tuple_field_ok_def)
  show ?thesis
    by (simp add: Let_def trigger_archive_def write_archive_run fault_next_def io_bind_def with_tasks_mutex_def on_queue_def
        failing_enqueue_def local_queue_if_def local_mutex_enter_def ok aq_mutex_attempt_def aq_empty_def
        register_section_def buffer_reads storage_ops write_tasks_def io_return_def aq_mutex_release_def
        tasks_in_def default_tasks_def aq_enqueue_agent_def aq_enqueue_key_def aq_notify_def)
qed

end
