(* ===== verification/Extract_Worker.thy ===== *)
theory Extract_Worker
  imports Skill_Trigger Session_Filter
begin

text \<open>
  \<^verbatim>\<open>MemoryCore/src/core/skill/conversation-add/extract-worker.ts\<close>: consuming an agent. The
  worker takes the agent's extract lock, reads the head of its task file under the tasks mutex,
  extracts and applies it outside the mutex, and settles the task: deleted when done (or when
  its archive is gone), left in place after a transient error, counted and finally moved to the
  dead-letter file after permanent ones. The extractor and the sink are parameters. Sleeps, the
  lock renewal timer and observability calls are left out; \<open>now\<close> is the clock reading of the
  call's writes.
\<close>

section \<open>Classifying errors\<close>

text \<open>A JavaScript error: its name and its message.\<close>

type_synonym js_error = "string \<times> string"

datatype error_class = Transient | Permanent

definition is_digit :: "char \<Rightarrow> bool" where
  "is_digit c \<longleftrightarrow> 48 \<le> (of_char c :: nat) \<and> (of_char c :: nat) \<le> 57"

text \<open>\<^verbatim>\<open>/(^|[^\d])(code|...)([^\d]|$)/.test(s)\<close> for three-character codes: \<open>free\<close> says that the
  previous character is not a digit.\<close>

fun status_test :: "(string \<Rightarrow> bool) \<Rightarrow> bool \<Rightarrow> string \<Rightarrow> bool" where
  "status_test p free [] = False"
| "status_test p free (c # cs) =
     (free \<and> p (take 3 (c # cs)) \<and> (case drop 2 cs of [] \<Rightarrow> True | d # ds \<Rightarrow> \<not> is_digit d)
      \<or> status_test p (\<not> is_digit c) cs)"

definition permanent_status :: "string \<Rightarrow> bool" where
  "permanent_status s \<longleftrightarrow> s = ''400'' \<or> s = ''422''"

definition transient_status :: "string \<Rightarrow> bool" where
  "transient_status s \<longleftrightarrow> s = ''401'' \<or> s = ''403'' \<or> s = ''429''
     \<or> (length s = 3 \<and> hd s = CHR ''5'' \<and> list_all is_digit (tl s))"

definition permanent_words :: "string list" where
  "permanent_words = [''json.parse'', ''unexpected token'', ''invalid json'', ''invalid response'', ''schema'',
     ''zod'', ''validation failed'']"

definition transient_words :: "string list" where
  "transient_words = [''econnrefused'', ''etimedout'', ''enotfound'', ''eai_again'', ''socket hang up'',
     ''client network socket disconnected'', ''fetch failed'', ''und_err_'', ''timeout'', ''timed out'']"

definition classify_error :: "js_error \<Rightarrow> error_class" where
  "classify_error err =
     (let msg = to_lower (fst err @ '' '' @ snd err) in
      if fst err = ''AbortError'' then Transient
      else if status_test permanent_status True msg then Permanent
      else if list_ex (\<lambda>w. str_includes w msg) permanent_words then Permanent
      else if status_test transient_status True msg then Transient
      else if list_ex (\<lambda>w. str_includes w msg) transient_words then Transient
      else Transient)"

section \<open>Sampling of transient failures\<close>

datatype log_level = LogError | LogWarn

type_synonym streaks = "(string \<times> nat) list"

definition log_transient_failure :: "nat \<Rightarrow> string \<Rightarrow> streaks \<Rightarrow> log_level option \<times> streaks" where
  "log_transient_failure every tid m =
     (let streak = jget_or 0 m tid + 1
      in (if streak = 1 then Some LogError
          else if 0 < every \<and> streak mod every = 0 then Some LogWarn else None,
          AList.update tid streak m))"

section \<open>The worker\<close>

record ('c) extract_worker =
  ew_buffer :: buffer_storage
  ew_lock_ttl :: ms
  ew_per_round :: nat
  ew_max_retries :: nat
  ew_sample_every :: nat
  ew_extract :: "skill_task \<Rightarrow> (string \<times> string) list \<Rightarrow> js_error + 'c list"
  ew_sink :: "skill_task \<Rightarrow> 'c list \<Rightarrow> js_error + unit"

text \<open>\<^verbatim>\<open>s.slice(0, n)\<close> counts UTF-16 units: a four-byte sequence is two of them. (A cut between
  the two halves of a pair drops the pair; JavaScript keeps an unpaired half.)\<close>

definition utf16_units :: "char \<Rightarrow> nat" where
  "utf16_units c = (let b = (of_char c :: nat) in
     if b < 0x80 then 1 else if b < 0xC0 then 0 else if b < 0xF0 then 1 else 2)"

fun utf16_take :: "nat \<Rightarrow> string \<Rightarrow> string" where
  "utf16_take n [] = []"
| "utf16_take n (c # cs) = (if utf16_units c \<le> n then c # utf16_take (n - utf16_units c) cs else [])"

text \<open>The critical section that reads the head, and takes an agent without tasks off the queue.\<close>

definition head_section :: "'q queue_if \<Rightarrow> buffer_storage \<Rightarrow> agent_tuple \<Rightarrow> ('q, 'c, skill_task option) sk" where
  "head_section Q b a =
     io_bind (read_tasks b a) (\<lambda>d.
       case td_tasks d of
         [] \<Rightarrow> io_bind (on_queue (qi_remove_agent Q a)) (\<lambda>u. io_return None)
       | t # ts \<Rightarrow> io_return (Some t))"

text \<open>The body of the \<^verbatim>\<open>try\<close>: a ghost (True), a processed task (False), or the error caught.\<close>

definition extract_section :: "'c extract_worker \<Rightarrow> skill_task \<Rightarrow> ('q, 'c, js_error + bool) sk" where
  "extract_section ew t w =
     (case read_archive (te_archive_key t) w of
        (Inl e, w1) \<Rightarrow> (Inr (Inl (''Error'', e)), w1)
      | (Inr None, w1) \<Rightarrow> (Inr (Inr True), w1)
      | (Inr (Some ms), w1) \<Rightarrow>
          (case ew_extract ew t (map (\<lambda>m. (m_role m, m_content m)) ms) of
             Inl err \<Rightarrow> (Inr (Inl err), w1)
           | Inr cands \<Rightarrow>
               (case ew_sink ew t cands of
                  Inl err \<Rightarrow> (Inr (Inl err), w1)
                | Inr u \<Rightarrow> (Inr (Inr False), w1\<lparr>sw_applied := sw_applied w1 @ [(t, cands)]\<rparr>))))"

text \<open>In the downgraded mode an agent was popped and has to be put back or taken off.\<close>

definition requeue_or_remove :: "'q queue_if \<Rightarrow> bool \<Rightarrow> agent_tuple \<Rightarrow> skill_task list \<Rightarrow> ('q, 'c, unit) sk" where
  "requeue_or_remove Q downgrade a ts =
     (if downgrade
      then (if 0 < length ts then on_queue (qi_requeue_agent Q a) else on_queue (qi_remove_agent Q a))
      else io_return ())"

definition delete_section ::
  "'q queue_if \<Rightarrow> buffer_storage \<Rightarrow> bool \<Rightarrow> agent_tuple \<Rightarrow> skill_task \<Rightarrow> ms \<Rightarrow> ('q, 'c, unit) sk" where
  "delete_section Q b downgrade a head now =
     io_bind (read_tasks b a) (\<lambda>d.
       let ts = filter (\<lambda>t. te_task_id t \<noteq> te_task_id head) (td_tasks d)
       in io_bind (if length ts \<noteq> length (td_tasks d)
                   then write_tasks b a (d\<lparr>td_tasks := ts, td_updated := now\<rparr>) else io_return ())
            (\<lambda>u. requeue_or_remove Q downgrade a ts))"

definition failed_once_more :: "string \<Rightarrow> skill_task \<Rightarrow> skill_task" where
  "failed_once_more err t =
     t\<lparr>te_retry_count := Some ((case te_retry_count t of None \<Rightarrow> 0 | Some n \<Rightarrow> n) + 1),
       te_last_error := Some (utf16_take 1024 err)\<rparr>"

text \<open>The critical section of \<^verbatim>\<open>handlePermanentFailure\<close>; it returns the task to bury.\<close>

definition permanent_section ::
  "'q queue_if \<Rightarrow> 'c extract_worker \<Rightarrow> bool \<Rightarrow> agent_tuple \<Rightarrow> skill_task \<Rightarrow> string \<Rightarrow> ms
     \<Rightarrow> ('q, 'c, skill_task option) sk" where
  "permanent_section Q ew downgrade a head err now =
     io_bind (read_tasks (ew_buffer ew) a) (\<lambda>d.
       case find_index (\<lambda>t. te_task_id t = te_task_id head) (td_tasks d) of
         None \<Rightarrow> io_bind (requeue_or_remove Q downgrade a (td_tasks d)) (\<lambda>u. io_return None)
       | Some n \<Rightarrow>
           let cur = failed_once_more err (td_tasks d ! n);
               dead = (ew_max_retries ew \<le> the (te_retry_count cur));
               ts = (if dead then take n (td_tasks d) @ drop (Suc n) (td_tasks d) else (td_tasks d)[n := cur])
           in io_bind (write_tasks (ew_buffer ew) a (d\<lparr>td_tasks := ts, td_updated := now\<rparr>)) (\<lambda>u.
              io_bind (requeue_or_remove Q downgrade a ts) (\<lambda>u.
              io_return (if dead then Some cur else None))))"

definition bury :: "buffer_storage \<Rightarrow> agent_tuple \<Rightarrow> skill_task \<Rightarrow> ms \<Rightarrow> ('q, 'c, unit) sk" where
  "bury b a t now = append_dlq b a (skill_task.extend t (skill_dead_task.fields now))"

definition handle_permanent_failure ::
  "'q queue_if \<Rightarrow> 'c extract_worker \<Rightarrow> bool \<Rightarrow> agent_tuple \<Rightarrow> skill_task \<Rightarrow> string \<Rightarrow> ms \<Rightarrow> ('q, 'c, unit) sk" where
  "handle_permanent_failure Q ew downgrade a head err now =
     io_bind (with_tasks_mutex Q a (permanent_section Q ew downgrade a head err now)) (\<lambda>dead.
       case dead of None \<Rightarrow> io_return ()
       | Some t \<Rightarrow> io_catch (bury (ew_buffer ew) a t now) (\<lambda>e. io_return ()))"

section \<open>Consuming an agent\<close>

text \<open>How a round ends: no task, a failure (the loop breaks), or a task that is settled.\<close>

datatype round_result = RoundEmpty | RoundBroken | RoundDone string bool

type_synonym ('q, 'c, 'a) wk = "(('q, 'c) skill_world \<times> streaks, 'a) io"

definition on_streaks :: "(streaks \<Rightarrow> streaks) \<Rightarrow> ('q, 'c, unit) wk" where
  "on_streaks f st = (Inr (), (fst st, f (snd st)))"

definition consume_round ::
  "'q queue_if \<Rightarrow> 'c extract_worker \<Rightarrow> bool \<Rightarrow> agent_tuple \<Rightarrow> ms \<Rightarrow> ('q, 'c, round_result) wk" where
  "consume_round Q ew downgrade a now =
     io_bind (io_lift (with_tasks_mutex Q a (head_section Q (ew_buffer ew) a))) (\<lambda>head.
       case head of
         None \<Rightarrow> io_return RoundEmpty
       | Some t \<Rightarrow>
           io_bind (io_lift (extract_section ew t)) (\<lambda>r.
             case r of
               Inl err \<Rightarrow>
                 (case classify_error err of
                    Transient \<Rightarrow>
                      io_bind (on_streaks (\<lambda>m. snd (log_transient_failure (ew_sample_every ew) (te_task_id t) m))) (\<lambda>u.
                      io_bind (io_lift (if downgrade then on_queue (qi_requeue_agent Q a) else io_return ()))
                        (\<lambda>u. io_return RoundBroken))
                  | Permanent \<Rightarrow>
                      io_bind (on_streaks (AList.delete (te_task_id t))) (\<lambda>u.
                      io_bind (io_lift (handle_permanent_failure Q ew downgrade a t (snd err) now))
                        (\<lambda>u. io_return RoundBroken)))
             | Inr ghost \<Rightarrow>
                 io_bind (io_lift (with_tasks_mutex Q a (delete_section Q (ew_buffer ew) downgrade a t now)))
                   (\<lambda>u. io_return (RoundDone (te_task_id t) ghost))))"

record consume_summary =
  cr_processed :: "string list"
  cr_dropped :: "string list"
  cr_contended :: bool

fun consume_rounds ::
  "'q queue_if \<Rightarrow> 'c extract_worker \<Rightarrow> bool \<Rightarrow> agent_tuple \<Rightarrow> ms \<Rightarrow> nat \<Rightarrow> consume_summary
     \<Rightarrow> ('q, 'c, consume_summary) wk" where
  "consume_rounds Q ew downgrade a now 0 acc = io_return acc"
| "consume_rounds Q ew downgrade a now (Suc n) acc =
     io_bind (consume_round Q ew downgrade a now) (\<lambda>r.
       case r of
         RoundEmpty \<Rightarrow> io_return acc
       | RoundBroken \<Rightarrow> io_return acc
       | RoundDone tid ghost \<Rightarrow> consume_rounds Q ew downgrade a now n
           (if ghost then acc\<lparr>cr_dropped := cr_dropped acc @ [tid]\<rparr>
            else acc\<lparr>cr_processed := cr_processed acc @ [tid]\<rparr>))"

text \<open>\<^verbatim>\<open>finally\<close>: the lock is released whatever happened, and a failing release is only logged.\<close>

definition release_after :: "'q queue_if \<Rightarrow> agent_tuple \<Rightarrow> string \<Rightarrow> ('q, 'c, 'a) wk \<Rightarrow> ('q, 'c, 'a) wk" where
  "release_after Q a token body st =
     (case body st of (r, st1) \<Rightarrow> (r, snd (io_lift (on_queue (qi_release_lock Q a token)) st1)))"

definition consume_agent ::
  "'q queue_if \<Rightarrow> 'c extract_worker \<Rightarrow> agent_tuple \<Rightarrow> ms \<Rightarrow> ('q, 'c, consume_summary) wk" where
  "consume_agent Q ew a now st =
     (let downgrade = (qi_peek_strategy Q (sw_queue (fst st)) = RpopDowngrade)
      in io_bind (io_lift (on_queue (qi_acquire_lock Q a (ew_lock_ttl ew)))) (\<lambda>handle.
           case handle of
             None \<Rightarrow>
               io_bind (io_lift (if downgrade then on_queue (qi_requeue_agent Q a) else io_return ()))
                 (\<lambda>u. io_return \<lparr>cr_processed = [], cr_dropped = [], cr_contended = True\<rparr>)
           | Some token \<Rightarrow>
               release_after Q a token
                 (consume_rounds Q ew downgrade a now (ew_per_round ew)
                    \<lparr>cr_processed = [], cr_dropped = [], cr_contended = False\<rparr>)) st)"

section \<open>What the sections do to the files\<close>

definition pending_tasks :: "buffer_storage \<Rightarrow> agent_tuple \<Rightarrow> files \<Rightarrow> skill_task list" where
  "pending_tasks b a fs = td_tasks (tasks_in a (fs (tasks_key b a)))"

definition dead_tasks :: "buffer_storage \<Rightarrow> agent_tuple \<Rightarrow> files \<Rightarrow> skill_dead_task list" where
  "dead_tasks b a fs = dd_tasks (dlq_in a (fs (dlq_key b a)))"

text \<open>The worlds before and after a call that touches no file and settles nothing.\<close>

definition quiet :: "('q, 'c) skill_world \<Rightarrow> ('q, 'c) skill_world \<Rightarrow> bool" where
  "quiet w w' \<longleftrightarrow> sw_files w' = sw_files w \<and> sw_applied w' = sw_applied w
     \<and> set (sw_faults w') \<subseteq> set (sw_faults w)"

definition rewrites_tasks ::
  "buffer_storage \<Rightarrow> agent_tuple \<Rightarrow> skill_task list \<Rightarrow> ('q, 'c) skill_world \<Rightarrow> ('q, 'c) skill_world \<Rightarrow> bool" where
  "rewrites_tasks b a ts w w' \<longleftrightarrow>
     (\<exists>d. sw_files w' = (sw_files w)(tasks_key b a \<mapsto> DTasks d) \<and> td_tasks d = ts)
     \<and> sw_applied w' = sw_applied w \<and> set (sw_faults w') \<subseteq> set (sw_faults w)"

lemma set_tl_subset: "set (tl xs) \<subseteq> set xs"
  by (cases xs) auto

lemma in_set_tl: "x \<in> set (tl xs) \<Longrightarrow> x \<in> set xs"
  using set_tl_subset by fast

lemma quiet_refl [simp]: "quiet w w"
  by (simp add: quiet_def)

lemma quiet_spent [simp]: "quiet w (spent w)"
  by (simp add: quiet_def set_tl_subset)

lemma quiet_queue [simp]: "quiet w (w\<lparr>sw_queue := q\<rparr>)"
  by (simp add: quiet_def)

lemma quiet_trans: "quiet w w1 \<Longrightarrow> quiet w1 w2 \<Longrightarrow> quiet w w2"
  by (auto simp: quiet_def)

lemma rewrites_quiet:
  "quiet w w1 \<Longrightarrow> rewrites_tasks b a ts w1 w2 \<Longrightarrow> rewrites_tasks b a ts w w2"
  "rewrites_tasks b a ts w w1 \<Longrightarrow> quiet w1 w2 \<Longrightarrow> rewrites_tasks b a ts w w2"
  by (auto simp: quiet_def rewrites_tasks_def)

lemma quiet_on_queue: "on_queue m w = (r, w') \<Longrightarrow> quiet w w'"
  by (auto simp: on_queue_def split: prod.splits)

lemma mutex_effect:
  assumes "with_tasks_mutex Q a body w = (r, w')"
  obtains (refused) e where "r = Inl e" "quiet w w'"
  | (ran) q w2 where "body (w\<lparr>sw_queue := q\<rparr>) = (r, w2)" "quiet w2 w'"
proof (cases "on_queue (qi_mutex_enter Q a) w")
  case (Pair x w1)
  show ?thesis
  proof (cases x)
    case (Inl e)
    then show ?thesis using assms Pair refused [of e] quiet_on_queue [OF Pair] by (auto simp: with_tasks_mutex_def)
  next
    case (Inr u)
    obtain r2 w2 where b: "body w1 = (r2, w2)" by (cases "body w1")
    have "w1 = w\<lparr>sw_queue := sw_queue w1\<rparr>" using Pair by (auto simp: on_queue_def split: prod.splits)
    moreover have "r2 = r" "w' = w2\<lparr>sw_queue := qi_mutex_leave Q a (sw_queue w2)\<rparr>"
      using assms Pair Inr b by (simp_all add: with_tasks_mutex_def)
    ultimately show ?thesis using b ran [of "sw_queue w1" w2] by simp
  qed
qed

lemma write_tasks_effect:
  "write_tasks b a d w = (r, w') \<Longrightarrow> (\<exists>e. r = Inl e) \<and> quiet w w' \<or> r = Inr () \<and> rewrites_tasks b a (td_tasks d) w w'"
  by (auto simp: write_tasks_def storage_ops rewrites_tasks_def split: if_splits dest: in_set_tl)

lemma requeue_or_remove_quiet: "requeue_or_remove Q dg a ts w = (r, w') \<Longrightarrow> quiet w w'"
  by (auto simp: requeue_or_remove_def io_return_def split: if_splits dest: quiet_on_queue)

lemma head_section_effect:
  assumes "head_section Q b a w = (r, w')"
  shows "quiet w w' \<and> ((\<exists>e. r = Inl e) \<or> r = Inr None
    \<or> (pending_tasks b a (sw_files w) \<noteq> [] \<and> r = Inr (Some (hd (pending_tasks b a (sw_files w))))))"
proof (cases "fault_next w")
  case True
  then show ?thesis using assms by (auto simp: head_section_def io_bind_def buffer_reads)
next
  case False
  then show ?thesis
    using assms
    by (auto simp: head_section_def io_bind_def buffer_reads pending_tasks_def io_return_def
        split: list.splits prod.splits sum.splits dest: quiet_on_queue intro: quiet_trans [OF quiet_spent])
qed

lemma extract_section_effect:
  assumes "extract_section ew t w = (r, w')"
  shows "sw_files w' = sw_files w \<and> set (sw_faults w') \<subseteq> set (sw_faults w)
    \<and> ((\<exists>err. r = Inr (Inl err)) \<and> sw_applied w' = sw_applied w
      \<or> r = Inr (Inr True) \<and> archive_in (sw_files w (te_archive_key t)) = None \<and> sw_applied w' = sw_applied w
      \<or> (\<exists>cands. r = Inr (Inr False) \<and> sw_applied w' = sw_applied w @ [(t, cands)]))"
  using assms set_tl_subset [of "sw_faults w"]
  by (auto simp: extract_section_def buffer_reads split: if_splits option.splits sum.splits)

lemma delete_section_effect:
  assumes "delete_section Q b dg a head now w = (r, w')"
  shows "quiet w w' \<or> rewrites_tasks b a
    (filter (\<lambda>t. te_task_id t \<noteq> te_task_id head) (pending_tasks b a (sw_files w))) w w'"
proof (cases "fault_next w")
  case True
  then show ?thesis using assms by (auto simp: delete_section_def io_bind_def buffer_reads)
next
  case False
  let ?d = "tasks_in a (sw_files w (tasks_key b a))"
  let ?ts = "filter (\<lambda>t. te_task_id t \<noteq> te_task_id head) (td_tasks ?d)"
  define m :: "('a, 'b, unit) sk" where "m = (if length ?ts \<noteq> length (td_tasks ?d)
      then write_tasks b a (?d\<lparr>td_tasks := ?ts, td_updated := now\<rparr>) else io_return ())"
  obtain x w1 where wr: "m (spent w) = (x, w1)" by (cases "m (spent w)")
  have e1: "quiet w w1 \<or> rewrites_tasks b a ?ts w w1"
    using wr write_tasks_effect [of b a "?d\<lparr>td_tasks := ?ts, td_updated := now\<rparr>" "spent w" x w1]
      quiet_trans [OF quiet_spent] rewrites_quiet(1) [OF quiet_spent]
    by (fastforce simp: io_return_def m_def split: if_splits)
  have "io_bind m (\<lambda>u. requeue_or_remove Q dg a ?ts) (spent w) = (r, w')"
    using assms False unfolding delete_section_def io_bind_def [of "read_tasks b a"] buffer_reads Let_def m_def by simp
  then have r: "(case x of Inl e \<Rightarrow> (Inl e, w1) | Inr u \<Rightarrow> requeue_or_remove Q dg a ?ts w1) = (r, w')"
    by (simp add: io_bind_def wr)
  have e2: "quiet w1 w'" using r by (auto dest: requeue_or_remove_quiet split: sum.splits)
  show ?thesis
    using e1 quiet_trans [OF _ e2] rewrites_quiet(2) [OF _ e2] by (auto simp: pending_tasks_def)
qed

definition retries :: "skill_task \<Rightarrow> nat" where
  "retries t = (case te_retry_count t of None \<Rightarrow> 0 | Some n \<Rightarrow> n)"

lemma failed_once_more_id [simp]: "te_task_id (failed_once_more err t) = te_task_id t"
  by (simp add: failed_once_more_def)

lemma failed_once_more_count [simp]: "te_retry_count (failed_once_more err t) = Some (retries t + 1)"
  by (simp add: failed_once_more_def retries_def)

lemma permanent_section_effect:
  assumes run: "permanent_section Q ew dg a head err now w = (r, w')"
    and pend: "pending_tasks (ew_buffer ew) a (sw_files w) = head # rest"
  shows "quiet w w' \<and> (\<exists>e. r = Inl e)
    \<or> rewrites_tasks (ew_buffer ew) a (failed_once_more err head # rest) w w'
        \<and> retries head + 1 < ew_max_retries ew \<and> ((\<exists>e. r = Inl e) \<or> r = Inr None)
    \<or> rewrites_tasks (ew_buffer ew) a rest w w'
        \<and> ew_max_retries ew \<le> retries head + 1 \<and> ((\<exists>e. r = Inl e) \<or> r = Inr (Some (failed_once_more err head)))"
proof (cases "fault_next w")
  case True
  then show ?thesis using run by (auto simp: permanent_section_def io_bind_def buffer_reads)
next
  case False
  let ?b = "ew_buffer ew" and ?cur = "failed_once_more err head"
  let ?d = "tasks_in a (sw_files w (tasks_key ?b a))"
  let ?dead = "ew_max_retries ew \<le> retries head + 1"
  let ?ts = "if ?dead then rest else ?cur # rest"
  have ts: "td_tasks ?d = head # rest" using pend by (simp add: pending_tasks_def)
  define m :: "('a, 'b, skill_task option) sk" where "m = io_bind (write_tasks ?b a (?d\<lparr>td_tasks := ?ts, td_updated := now\<rparr>)) (\<lambda>u.
      io_bind (requeue_or_remove Q dg a ?ts) (\<lambda>u. io_return (if ?dead then Some ?cur else None)))"
  have m: "m (spent w) = (r, w')"
    using run False unfolding m_def permanent_section_def io_bind_def [of "read_tasks ?b a"] buffer_reads
    by (cases ?dead) (simp_all add: ts Let_def)
  obtain x w1 where wr: "write_tasks ?b a (?d\<lparr>td_tasks := ?ts, td_updated := now\<rparr>) (spent w) = (x, w1)"
    by (cases "write_tasks ?b a (?d\<lparr>td_tasks := ?ts, td_updated := now\<rparr>) (spent w)")
  from write_tasks_effect [OF wr] show ?thesis
  proof (elim disjE conjE exE)
    fix e
    assume "x = Inl e" "quiet (spent w) w1"
    then show ?thesis using m wr quiet_trans [OF quiet_spent] by (auto simp: m_def io_bind_def)
  next
    assume x: "x = Inr ()" and rw: "rewrites_tasks ?b a (td_tasks (?d\<lparr>td_tasks := ?ts, td_updated := now\<rparr>)) (spent w) w1"
    obtain y w2 where rq: "requeue_or_remove Q dg a ?ts w1 = (y, w2)" by (cases "requeue_or_remove Q dg a ?ts w1")
    have "w' = w2" and r: "r = (case y of Inl e \<Rightarrow> Inl e | Inr u \<Rightarrow> Inr (if ?dead then Some ?cur else None))"
      using m x wr rq by (cases y; simp add: m_def io_bind_def io_return_def)+
    then have "rewrites_tasks ?b a ?ts w w'"
      using rewrites_quiet(2) [OF rewrites_quiet(1) [OF quiet_spent rw] requeue_or_remove_quiet [OF rq]] by simp
    then show ?thesis using r by (cases ?dead; cases y) (auto simp: not_le)
  qed
qed

lemma fault_next_set: "fault_next w \<Longrightarrow> True \<in> set (sw_faults w)"
  by (cases "sw_faults w") (auto simp: fault_next_def)

lemma fault_next_spent: "fault_next (spent w) \<Longrightarrow> True \<in> set (sw_faults w)"
  using fault_next_set [of "spent w"] in_set_tl [of True "sw_faults w"] by simp

lemma in_set_tl_tl: "x \<in> set (tl (tl xs)) \<Longrightarrow> x \<in> set xs"
  by (rule in_set_tl, rule in_set_tl)

lemma bury_effect:
  assumes "bury b a t now w = (r, w')"
  shows "quiet w w' \<and> True \<in> set (sw_faults w)
    \<or> (\<exists>d. sw_files w' = (sw_files w)(dlq_key b a \<mapsto> DDead d)
         \<and> dd_tasks d = dead_tasks b a (sw_files w) @ [skill_task.extend t (skill_dead_task.fields now)])
       \<and> sw_applied w' = sw_applied w \<and> set (sw_faults w') \<subseteq> set (sw_faults w)"
  using assms
  by (auto simp: bury_def append_dlq_def io_bind_def buffer_reads storage_ops dead_tasks_def
      split: if_splits dest: fault_next_set fault_next_spent in_set_tl_tl intro: quiet_trans [OF quiet_spent quiet_spent])

text \<open>How the burial shows in the dead-letter file.\<close>

definition buried :: "buffer_storage \<Rightarrow> agent_tuple \<Rightarrow> skill_task \<Rightarrow> ms \<Rightarrow> files \<Rightarrow> files \<Rightarrow> bool" where
  "buried b a t now fs fs' \<longleftrightarrow>
     dead_tasks b a fs' = dead_tasks b a fs @ [skill_task.extend t (skill_dead_task.fields now)]"

text \<open>What became of the head of the queue after a permanent failure.\<close>

definition failure_recorded ::
  "'c extract_worker \<Rightarrow> agent_tuple \<Rightarrow> skill_task \<Rightarrow> skill_task list \<Rightarrow> string \<Rightarrow> ms
     \<Rightarrow> ('q, 'c) skill_world \<Rightarrow> string + 'a \<Rightarrow> ('q, 'c) skill_world \<Rightarrow> bool" where
  "failure_recorded ew a head rest err now w r w' \<longleftrightarrow>
     (let b = ew_buffer ew; cur = failed_once_more err head; ts' = pending_tasks b a (sw_files w');
          unburied = (dead_tasks b a (sw_files w') = dead_tasks b a (sw_files w))
      in ts' = head # rest \<and> unburied
       \<or> ts' = cur # rest \<and> unburied \<and> retries head + 1 < ew_max_retries ew
       \<or> ts' = rest \<and> ew_max_retries ew \<le> retries head + 1
           \<and> (buried b a cur now (sw_files w) (sw_files w')
             \<or> unburied \<and> (True \<in> set (sw_faults w) \<or> (\<exists>e. r = Inl e))))"

lemma quiet_files: "quiet w w' \<Longrightarrow> sw_files w' = sw_files w" "quiet w w' \<Longrightarrow> sw_applied w' = sw_applied w"
  by (simp_all add: quiet_def)

lemma rewrites_views:
  assumes "rewrites_tasks b a ts w w'"
  shows "pending_tasks b a (sw_files w') = ts" "dead_tasks b a (sw_files w') = dead_tasks b a (sw_files w)"
    "sw_applied w' = sw_applied w" "k = tasks_key b a \<or> sw_files w' k = sw_files w k"
  using assms by (auto simp: rewrites_tasks_def pending_tasks_def dead_tasks_def split: if_splits)

lemma rewrites_other: "rewrites_tasks b a ts w w' \<Longrightarrow> sw_files w' k \<noteq> sw_files w k \<Longrightarrow> k = tasks_key b a"
  using rewrites_views(4) by blast

lemma handle_permanent_effect:
  assumes run: "handle_permanent_failure Q ew dg a head err now w = (r, w')"
    and pend: "pending_tasks (ew_buffer ew) a (sw_files w) = head # rest"
  shows "failure_recorded ew a head rest err now w r w' \<and> sw_applied w' = sw_applied w
    \<and> (k = tasks_key (ew_buffer ew) a \<or> k = dlq_key (ew_buffer ew) a \<or> sw_files w' k = sw_files w k)"
proof -
  let ?b = "ew_buffer ew" and ?cur = "failed_once_more err head"
  obtain x w1 where m: "with_tasks_mutex Q a (permanent_section Q ew dg a head err now) w = (x, w1)"
    by (cases "with_tasks_mutex Q a (permanent_section Q ew dg a head err now) w")
  have cases1: "quiet w w1 \<and> (\<exists>e. x = Inl e)
      \<or> rewrites_tasks ?b a (?cur # rest) w w1 \<and> retries head + 1 < ew_max_retries ew \<and> ((\<exists>e. x = Inl e) \<or> x = Inr None)
      \<or> rewrites_tasks ?b a rest w w1 \<and> ew_max_retries ew \<le> retries head + 1 \<and> ((\<exists>e. x = Inl e) \<or> x = Inr (Some ?cur))"
    using m
  proof (cases rule: mutex_effect)
    case (refused e)
    then show ?thesis by blast
  next
    case (ran q w2)
    have p: "pending_tasks ?b a (sw_files (w\<lparr>sw_queue := q\<rparr>)) = head # rest" using pend by simp
    have l: "quiet (w\<lparr>sw_queue := q\<rparr>) w2 \<Longrightarrow> quiet w w1"
      "rewrites_tasks ?b a ts (w\<lparr>sw_queue := q\<rparr>) w2 \<Longrightarrow> rewrites_tasks ?b a ts w w1" for ts
      using quiet_trans [OF quiet_trans [OF quiet_queue] ran(2)] rewrites_quiet(2) [OF rewrites_quiet(1) [OF quiet_queue] ran(2)]
      by blast+
    from permanent_section_effect [OF ran(1) p] l show ?thesis by blast
  qed
  show ?thesis
  proof (cases x)
    case (Inl e)
    then have "r = Inl e" "w' = w1" using run m by (simp_all add: handle_permanent_failure_def io_bind_def)
    then show ?thesis
      using cases1 Inl pend
      by (auto simp: failure_recorded_def Let_def quiet_files rewrites_views dest: quiet_files rewrites_other)
  next
    case (Inr dead)
    show ?thesis
    proof (cases dead)
      case None
      then have "w' = w1" using run m Inr by (simp add: handle_permanent_failure_def io_bind_def io_return_def)
      then show ?thesis
        using cases1 Inr None
        by (auto simp: failure_recorded_def Let_def rewrites_views dest: rewrites_other)
    next
      case (Some t)
      obtain y w2 where bu: "bury ?b a t now w1 = (y, w2)" by (cases "bury ?b a t now w1")
      have w': "w' = w2"
        using run m Inr Some bu
        by (cases y) (simp_all add: handle_permanent_failure_def io_bind_def io_catch_def io_return_def)
      have c: "rewrites_tasks ?b a rest w w1" "ew_max_retries ew \<le> retries head + 1" "t = ?cur"
        using cases1 Inr Some by auto
      note v = rewrites_views [OF c(1)]
      from bury_effect [OF bu] show ?thesis
      proof (elim disjE conjE exE)
        assume "quiet w1 w2" "True \<in> set (sw_faults w1)"
        then show ?thesis
          using c v(1,2,3) v(4) [of k] w' by (auto simp: failure_recorded_def Let_def quiet_def rewrites_tasks_def)
      next
        fix d
        assume d: "sw_files w2 = (sw_files w1)(dlq_key ?b a \<mapsto> DDead d)"
          "dd_tasks d = dead_tasks ?b a (sw_files w1) @ [skill_task.extend t (skill_dead_task.fields now)]"
          "sw_applied w2 = sw_applied w1"
        have "pending_tasks ?b a (sw_files w2) = rest" using v(1) by (simp add: pending_tasks_def d)
        moreover have "dead_tasks ?b a (sw_files w2) = dd_tasks d"
          by (simp add: dead_tasks_def d(1) dlq_in_def)
        ultimately show ?thesis
          using c v(2,3) v(4) [of k] w' d by (auto simp: failure_recorded_def Let_def buried_def)
      qed
    qed
  qed
qed

lemma failure_recorded_result:
  "failure_recorded ew a head rest err now w r w' \<Longrightarrow> (\<And>e. r = Inl e \<Longrightarrow> \<exists>e. r' = Inl e)
    \<Longrightarrow> failure_recorded ew a head rest err now w r' w'"
  by (auto simp: failure_recorded_def Let_def)

lemma failure_recorded_quiet:
  "failure_recorded ew a head rest err now w1 r w' \<Longrightarrow> quiet w w1 \<Longrightarrow> failure_recorded ew a head rest err now w r w'"
  by (auto simp: failure_recorded_def Let_def quiet_def)

lemma mutexed_delete_effect:
  assumes "with_tasks_mutex Q a (delete_section Q b dg a head now) w = (r, w')"
  shows "quiet w w' \<or> rewrites_tasks b a
    (filter (\<lambda>t. te_task_id t \<noteq> te_task_id head) (pending_tasks b a (sw_files w))) w w'"
  using assms
proof (cases rule: mutex_effect)
  case (ran q w2)
  from delete_section_effect [OF ran(1)] show ?thesis
    using quiet_trans [OF quiet_trans [OF quiet_queue] ran(2)] rewrites_quiet(2) [OF rewrites_quiet(1) [OF quiet_queue] ran(2)]
    by auto
qed simp

section \<open>Properties\<close>

text \<open>
  C31: a task leaves its agent's file only when it is settled. Whatever storage calls, queue
  operations, extractor and sink do, a round of consuming an agent changes no file but the
  agent's task and dead-letter files, and either leaves the pending tasks as they were, or
  removes exactly the head's id after its candidates were applied or because its archive is
  gone, or records a permanent failure of the head: counted in place below the limit, moved to
  the dead letters at the limit. The one way to lose a task is a failure between the two writes
  of that move.
\<close>

theorem tasks_leave_only_settled:
  "case consume_round Q ew dg a now (w, m) of (r, (w', m')) \<Rightarrow>
     (let b = ew_buffer ew; ts = pending_tasks b a (sw_files w); ts' = pending_tasks b a (sw_files w');
          ap = sw_applied w; ap' = sw_applied w'; unburied = (dead_tasks b a (sw_files w') = dead_tasks b a (sw_files w))
      in (\<forall>k. k = tasks_key b a \<or> k = dlq_key b a \<or> sw_files w' k = sw_files w k)
         \<and> (ts' = ts \<and> unburied \<and> (ap' = ap \<or> ts \<noteq> [] \<and> (\<exists>cands. ap' = ap @ [(hd ts, cands)]))
          \<or> ts \<noteq> [] \<and> ts' = filter (\<lambda>t. te_task_id t \<noteq> te_task_id (hd ts)) ts \<and> unburied
              \<and> (archive_in (sw_files w (te_archive_key (hd ts))) = None \<and> ap' = ap
                 \<or> (\<exists>cands. ap' = ap @ [(hd ts, cands)]))
          \<or> ts \<noteq> [] \<and> ap' = ap \<and> (\<exists>err. failure_recorded ew a (hd ts) (tl ts) err now w r w')))"
proof -
  let ?b = "ew_buffer ew"
  obtain r w' m' where run: "consume_round Q ew dg a now (w, m) = (r, (w', m'))"
    by (metis surj_pair)
  obtain x w1 where h: "with_tasks_mutex Q a (head_section Q ?b a) w = (x, w1)"
    by (cases "with_tasks_mutex Q a (head_section Q ?b a) w")
  have hd: "quiet w w1 \<and> ((\<exists>e. x = Inl e) \<or> x = Inr None
      \<or> pending_tasks ?b a (sw_files w) \<noteq> [] \<and> x = Inr (Some (hd (pending_tasks ?b a (sw_files w)))))"
    using h
  proof (cases rule: mutex_effect)
    case (ran q w2)
    from head_section_effect [OF ran(1)] show ?thesis
      using quiet_trans [OF quiet_trans [OF quiet_queue] ran(2)] by auto
  qed simp
  show ?thesis
  proof (cases "\<exists>t. x = Inr (Some t)")
    case False
    then have "w' = w1"
      using run h hd by (auto simp: consume_round_def io_bind_def io_lift_def io_return_def)
    then show ?thesis using run hd by (auto simp: Let_def quiet_files)
  next
    case True
    let ?ts = "pending_tasks ?b a (sw_files w)"
    from True hd have t: "x = Inr (Some (hd ?ts))" "?ts \<noteq> []" by auto
    obtain y w2 where e: "extract_section ew (hd ?ts) w1 = (y, w2)" by (cases "extract_section ew (hd ?ts) w1")
    have f1: "sw_files w1 = sw_files w" "sw_applied w1 = sw_applied w" using hd by (simp_all add: quiet_def)
    have f2: "sw_files w2 = sw_files w" using extract_section_effect [OF e] f1 by simp
    from extract_section_effect [OF e] consider
        (err) er where "y = Inr (Inl er)" "quiet w1 w2"
      | (settled) ghost where "y = Inr (Inr ghost)"
          "archive_in (sw_files w (te_archive_key (hd ?ts))) = None \<and> sw_applied w2 = sw_applied w
           \<or> (\<exists>cands. sw_applied w2 = sw_applied w @ [(hd ?ts, cands)])"
      using f1 by (auto simp: quiet_def)
    then show ?thesis
    proof cases
      case err
      have q2: "quiet w w2" using hd err(2) quiet_trans by blast
      show ?thesis
      proof (cases "classify_error er")
        case Transient
        then have "quiet w2 w'"
          using run h t e err(1)
          by (auto simp: consume_round_def io_bind_def io_lift_def on_streaks_def io_return_def
              split: if_splits prod.splits sum.splits dest: quiet_on_queue)
        then show ?thesis using run quiet_files [OF quiet_trans [OF q2]] by (simp add: Let_def)
      next
        case Permanent
        obtain z w3 where hp: "handle_permanent_failure Q ew dg a (hd ?ts) (snd er) now w2 = (z, w3)"
          by (cases "handle_permanent_failure Q ew dg a (hd ?ts) (snd er) now w2")
        have rr: "w' = w3" "\<And>e. z = Inl e \<Longrightarrow> \<exists>e. r = Inl e"
          using run h t e err(1) Permanent hp
          by (auto simp: consume_round_def io_bind_def io_lift_def on_streaks_def io_return_def split: sum.splits)
        have p2: "pending_tasks ?b a (sw_files w2) = hd ?ts # tl ?ts" using t(2) f2 by simp
        note hpe = handle_permanent_effect [OF hp p2]
        have "failure_recorded ew a (hd ?ts) (tl ?ts) (snd er) now w r w'"
          using failure_recorded_quiet [OF failure_recorded_result [OF hpe [THEN conjunct1] rr(2)] q2] rr(1) by simp
        moreover have "sw_applied w' = sw_applied w" using hpe rr(1) quiet_files [OF q2] by simp
        moreover have "k = tasks_key ?b a \<or> k = dlq_key ?b a \<or> sw_files w' k = sw_files w k" for k
          using hpe [of k] rr(1) f2 by simp
        ultimately show ?thesis using run t(2) by (auto simp: Let_def)
      qed
    next
      case settled
      obtain z w3 where de: "with_tasks_mutex Q a (delete_section Q ?b dg a (hd ?ts) now) w2 = (z, w3)"
        by (cases "with_tasks_mutex Q a (delete_section Q ?b dg a (hd ?ts) now) w2")
      have w': "w' = w3"
        using run h t e settled(1) de
        by (cases z) (simp_all add: consume_round_def io_bind_def io_lift_def io_return_def)
      from mutexed_delete_effect [OF de] show ?thesis
      proof
        assume "quiet w2 w3"
        then show ?thesis using run w' settled(2) f2 t(2) by (auto simp: Let_def quiet_def)
      next
        assume rw: "rewrites_tasks ?b a (filter (\<lambda>t. te_task_id t \<noteq> te_task_id (hd ?ts)) (pending_tasks ?b a (sw_files w2))) w2 w3"
        show ?thesis
          using run w' settled(2) f2 t(2) rewrites_views(1-3) [OF rw] rewrites_other [OF rw]
          by (auto simp: Let_def)
      qed
    qed
  qed
qed

definition demo_task :: "nat option \<Rightarrow> skill_task" where
  "demo_task retry = \<lparr>te_task_id = ''t1'', te_session = ''s'', te_user = ''u'', te_team = ''t'', te_agent = ''a'',
     te_space = ''p'', te_task_ref = None, te_archive_key = ''k'', te_archived_at = 1, te_enqueued_at = 1,
     te_reason = None, te_max_iterations = None, te_retry_count = retry, te_last_error = None\<rparr>"

definition demo_caller :: caller where
  "demo_caller = \<lparr>cl_now = 9, cl_mutex_ttl = 10000, cl_deadline = 30009, cl_mutex_token = ''m'', cl_lock_token = ''l''\<rparr>"

definition demo_worker :: "js_error + nat list \<Rightarrow> nat extract_worker" where
  "demo_worker outcome = \<lparr>ew_buffer = new_buffer None, ew_lock_ttl = 600000, ew_per_round = 1, ew_max_retries = 3,
     ew_sample_every = 60, ew_extract = (\<lambda>t conv. outcome), ew_sink = (\<lambda>t cands. Inr ())\<rparr>"

definition demo_world :: "bool list \<Rightarrow> (local_agent_queue, nat) skill_world" where
  "demo_world faults = \<lparr>sw_files = Map.empty
       (tasks_key (new_buffer None) (agent_of demo_session) \<mapsto>
          DTasks \<lparr>td_team = ''t'', td_agent = ''a'', td_updated = 0, td_tasks = [demo_task (Some 2)]\<rparr>,
        ''k'' \<mapsto> DMessages []),
     sw_faults = faults, sw_queue = aq_empty, sw_applied = []\<rparr>"

text \<open>
  the last permanent failure moves a task to the dead letters in two writes, and only logs
  a failure of the second: the task is then in neither file. With working storage it is buried.
\<close>

theorem failed_burial_loses_task:
  "let b = new_buffer None; a = agent_of demo_session; ew = demo_worker (Inl (''Error'', ''HTTP 400''));
       run = (\<lambda>faults. consume_agent (local_queue_if demo_caller) ew a 9 (demo_world faults, []))
   in (case run [False, False, False, False, False, True] of (r, (w, m)) \<Rightarrow>
         (\<exists>x. r = Inr x) \<and> pending_tasks b a (sw_files w) = [] \<and> dead_tasks b a (sw_files w) = [] \<and> sw_applied w = [])
      \<and> (case run [] of (r, (w, m)) \<Rightarrow>
         pending_tasks b a (sw_files w) = []
         \<and> map te_task_id (dead_tasks b a (sw_files w)) = [''t1''])"
proof -
  let ?run = "\<lambda>faults. consume_agent (local_queue_if demo_caller) (demo_worker (Inl (''Error'', ''HTTP 400'')))
      (agent_of demo_session) 9 (demo_world faults, [])"
  have "case ?run [False, False, False, False, False, True] of (r, (w, m)) \<Rightarrow>
      (case r of Inl e \<Rightarrow> False | Inr x \<Rightarrow> True) \<and> pending_tasks (new_buffer None) (agent_of demo_session) (sw_files w) = []
      \<and> dead_tasks (new_buffer None) (agent_of demo_session) (sw_files w) = [] \<and> sw_applied w = []"
    by code_simp
  moreover have "case ?run [] of (r, (w, m)) \<Rightarrow>
      pending_tasks (new_buffer None) (agent_of demo_session) (sw_files w) = []
      \<and> map te_task_id (dead_tasks (new_buffer None) (agent_of demo_session) (sw_files w)) = [''t1'']"
    by code_simp
  ultimately show ?thesis by (auto simp: Let_def split: prod.splits sum.splits)
qed

lemma rate_limit_text_with_400: "classify_error (''Error'', ''429 rate limited: 400 rpm'') = Permanent"
  by code_simp

end
