(* ===== verification/Redis_Queue.thy ===== *)
theory Redis_Queue
  imports Agent_Queue Io_Monad Session_Filter
begin

text \<open>
  \<^verbatim>\<open>MemoryCore/src/core/skill/conversation-add/agent-task-queue.ts\<close>, second half:
  \<^verbatim>\<open>RedisSkillAgentTaskQueue\<close>. The Redis client is supplied from outside and is a
  parameter, a record of the \<^verbatim>\<open>RedisLike\<close> methods over a server state of any type; each of
  them may fail with a message. What the queue relies on of a Redis server is the locale
  \<open>redis_server\<close>. The polling loops are cut at their sleeps: a definition is one round, and
  \<open>poll_next\<close> (theory \<open>Agent_Queue\<close>) says how long the loop sleeps before the next.
\<close>

section \<open>Error messages\<close>

text \<open>The case-insensitive regular expressions that classify error messages.\<close>

datatype rx = RChar char | RSpaces | RAny | ROpt char

fun rx_here :: "rx list \<Rightarrow> string \<Rightarrow> bool" where
  "rx_here [] xs = True"
| "rx_here (RChar c # r) [] = False"
| "rx_here (RChar c # r) (x # xs) = (to_lower_char x = to_lower_char c \<and> rx_here r xs)"
| "rx_here (RSpaces # r) [] = False"
| "rx_here (RSpaces # r) (x # xs) = (ascii_space x \<and> (rx_here r xs \<or> rx_here (RSpaces # r) xs))"
| "rx_here (RAny # r) [] = rx_here r []"
| "rx_here (RAny # r) (x # xs) =
     (rx_here r (x # xs) \<or> (\<not> line_terminator x \<and> rx_here (RAny # r) xs))"
| "rx_here (ROpt c # r) [] = rx_here r []"
| "rx_here (ROpt c # r) (x # xs) =
     (rx_here r (x # xs) \<or> (to_lower_char x = to_lower_char c \<and> rx_here r xs))"

fun rx_test :: "rx list \<Rightarrow> string \<Rightarrow> bool" where
  "rx_test r [] = rx_here r []"
| "rx_test r (x # xs) = (rx_here r (x # xs) \<or> rx_test r xs)"

definition rx_text :: "string \<Rightarrow> rx list" where
  "rx_text s = map RChar s"

definition is_unknown_command :: "string \<Rightarrow> bool" where
  "is_unknown_command msg \<longleftrightarrow>
     rx_test (rx_text ''ERR'' @ RSpaces # rx_text ''unknown command'') msg
     \<or> rx_test (rx_text ''command'' @ RSpaces # RAny # RSpaces # rx_text ''is not allowed'') msg"

definition is_no_script :: "string \<Rightarrow> bool" where
  "is_no_script msg \<longleftrightarrow> rx_test (rx_text ''NOSCRIPT'') msg"

definition is_eval_disabled :: "string \<Rightarrow> bool" where
  "is_eval_disabled msg \<longleftrightarrow>
     rx_test (rx_text ''command'' @ RSpaces # ROpt (CHR 0x27) # rx_text ''EVAL'' @ ROpt (CHR 0x27)
       # RSpaces # rx_text ''is not allowed'') msg
     \<or> rx_test (rx_text ''NOPERM'') msg
     \<or> list_ex (\<lambda>cmd. rx_test (rx_text ''ERR'' @ RSpaces # rx_text ''unknown command'' @ RSpaces
         # ROpt (CHR 0x27) # rx_text cmd) msg) [''EVAL'', ''EVALSHA'', ''SCRIPT'']"

section \<open>The client\<close>

datatype lua_script = LuaRenew | LuaRelease | LuaPeek

text \<open>\<^verbatim>\<open>RedisLike\<close>: the methods the queue calls. \<open>rc_set_nx_px\<close> is \<^verbatim>\<open>SET key value NX PX ttl\<close>,
  \<open>rc_lmove\<close> is \<^verbatim>\<open>LMOVE src dst RIGHT LEFT\<close>; an \<^verbatim>\<open>eval\<close> of the renew and release scripts
  returns an integer. Methods the interface marks optional are options.\<close>

record 's redis_client =
  rc_sadd :: "string \<Rightarrow> string \<Rightarrow> ('s, nat) io"
  rc_srem :: "string \<Rightarrow> string \<Rightarrow> ('s, nat) io"
  rc_smembers :: "string \<Rightarrow> ('s, string list) io"
  rc_lpush :: "string \<Rightarrow> string \<Rightarrow> ('s, nat) io"
  rc_lrem :: "string \<Rightarrow> int \<Rightarrow> string \<Rightarrow> ('s, nat) io"
  rc_rpop :: "string \<Rightarrow> ('s, string option) io"
  rc_set_nx_px :: "string \<Rightarrow> string \<Rightarrow> ms \<Rightarrow> ('s, bool) io"
  rc_eval :: "lua_script \<Rightarrow> string \<Rightarrow> string \<Rightarrow> ms \<Rightarrow> ('s, int) io"
  rc_eval_peek :: "string \<Rightarrow> ('s, string option) io"
  rc_lmove :: "(string \<Rightarrow> string \<Rightarrow> ('s, string option) io) option"
  rc_evalsha :: "(string \<Rightarrow> string \<Rightarrow> ('s, string option) io) option"
  rc_script_load :: "(lua_script \<Rightarrow> ('s, string) io) option"
  rc_lpos :: "(string \<Rightarrow> string \<Rightarrow> ('s, int option) io) option"
  rc_lrange :: "(string \<Rightarrow> int \<Rightarrow> int \<Rightarrow> ('s, string list) io) option"

section \<open>The queue\<close>

record redis_queue =
  rq_list_key :: string
  rq_set_key :: string
  rq_lock_prefix :: string
  rq_mutex_prefix :: string
  rq_poll_interval :: ms
  rq_strategy :: peek_strategy
  rq_sha :: "string option"
  rq_probed :: bool

definition new_redis_queue :: "string option \<Rightarrow> ms option \<Rightarrow> redis_queue" where
  "new_redis_queue key_prefix poll =
     (let p = (case key_prefix of None \<Rightarrow> ''skill-conv'' | Some p \<Rightarrow> p)
      in \<lparr>rq_list_key = p @ '':pending-agents'', rq_set_key = p @ '':pending-agents-set'',
          rq_lock_prefix = p @ '':extract-lock:'', rq_mutex_prefix = p @ '':tasks-mutex:'',
          rq_poll_interval = (case poll of None \<Rightarrow> 200 | Some n \<Rightarrow> n),
          rq_strategy = Lmove, rq_sha = None, rq_probed = False\<rparr>)"

text \<open>A client command issued by the queue.\<close>

definition rq_call :: "(redis_queue \<Rightarrow> ('s, 'a) io) \<Rightarrow> ('s \<times> redis_queue, 'a) io" where
  "rq_call f st = (case f (snd st) (fst st) of (r, s') \<Rightarrow> (r, (s', snd st)))"

definition rq_set :: "(redis_queue \<Rightarrow> redis_queue) \<Rightarrow> ('s \<times> redis_queue, unit) io" where
  "rq_set f st = (Inr (), (fst st, f (snd st)))"

definition rq_serialized :: "agent_tuple \<Rightarrow> (string \<Rightarrow> ('s, 'a) io) \<Rightarrow> ('s, 'a) io" where
  "rq_serialized t f = (case serialize_agent_tuple t of Inl e \<Rightarrow> io_throw e | Inr raw \<Rightarrow> f raw)"

definition rq_enqueue_key :: "'s redis_client \<Rightarrow> string \<Rightarrow> ('s \<times> redis_queue, bool) io" where
  "rq_enqueue_key c raw =
     io_bind (rq_call (\<lambda>q. rc_sadd c (rq_set_key q) raw)) (\<lambda>added.
       if added = 1
       then io_bind (rq_call (\<lambda>q. rc_lpush c (rq_list_key q) raw)) (\<lambda>n. io_return True)
       else io_return False)"

definition rq_enqueue_agent :: "'s redis_client \<Rightarrow> agent_tuple \<Rightarrow> ('s \<times> redis_queue, bool) io" where
  "rq_enqueue_agent c t = rq_serialized t (rq_enqueue_key c)"

text \<open>One round of \<^verbatim>\<open>dequeueAgent\<close>; None means the list was empty.\<close>

definition rq_dequeue_once :: "'s redis_client \<Rightarrow> ('s \<times> redis_queue, agent_tuple option option) io" where
  "rq_dequeue_once c = io_bind (rq_call (\<lambda>q. rc_rpop c (rq_list_key q)))
     (\<lambda>raw. io_return (map_option parse_agent_tuple raw))"

text \<open>\<^verbatim>\<open>probePeekStrategy\<close>, level by level.\<close>

definition rq_probed_as :: "peek_strategy \<Rightarrow> ('s \<times> redis_queue, unit) io" where
  "rq_probed_as strat = rq_set (\<lambda>q. q\<lparr>rq_strategy := strat, rq_probed := True\<rparr>)"

definition rq_probe_evalsha :: "'s redis_client \<Rightarrow> ('s \<times> redis_queue, unit) io" where
  "rq_probe_evalsha c =
     (case (rc_script_load c, rc_evalsha c) of
        (Some load, Some evalsha) \<Rightarrow>
          io_catch
            (io_bind (rq_call (\<lambda>q. load LuaPeek)) (\<lambda>sha.
             io_bind (rq_set (\<lambda>q. q\<lparr>rq_sha := Some sha\<rparr>)) (\<lambda>u.
             io_bind (rq_call (\<lambda>q. evalsha sha (rq_list_key q))) (\<lambda>raw. rq_probed_as Evalsha))))
            (\<lambda>e. if \<not> is_eval_disabled e \<and> \<not> is_unknown_command e then io_throw e
                 else rq_probed_as RpopDowngrade)
      | _ \<Rightarrow> rq_probed_as RpopDowngrade)"

definition rq_probe :: "'s redis_client \<Rightarrow> ('s \<times> redis_queue, unit) io" where
  "rq_probe c st =
     (if rq_probed (snd st) then (Inr (), st)
      else (case rc_lmove c of
              None \<Rightarrow> rq_probe_evalsha c st
            | Some lmove \<Rightarrow>
                (case rq_call (\<lambda>q. lmove (rq_list_key q) (rq_list_key q)) st of
                   (Inr raw, st') \<Rightarrow> rq_probed_as Lmove st'
                 | (Inl e, st') \<Rightarrow> if is_unknown_command e then rq_probe_evalsha c st' else (Inl e, st'))))"

text \<open>\<^verbatim>\<open>executePeek\<close>. Calling an optional method that is missing is a \<^verbatim>\<open>TypeError\<close>.\<close>

definition opt_call :: "'f option \<Rightarrow> ('f \<Rightarrow> ('s, 'a) io) \<Rightarrow> ('s, 'a) io" where
  "opt_call m f = (case m of None \<Rightarrow> io_throw ''TypeError'' | Some g \<Rightarrow> f g)"

definition rq_evalsha_peek :: "'s redis_client \<Rightarrow> string \<Rightarrow> ('s \<times> redis_queue, string option) io" where
  "rq_evalsha_peek c sha = opt_call (rc_evalsha c) (\<lambda>evalsha. rq_call (\<lambda>q. evalsha sha (rq_list_key q)))"

definition rq_execute_peek :: "'s redis_client \<Rightarrow> ('s \<times> redis_queue, string option) io" where
  "rq_execute_peek c st =
     (case rq_strategy (snd st) of
        Lmove \<Rightarrow> opt_call (rc_lmove c) (\<lambda>lmove. rq_call (\<lambda>q. lmove (rq_list_key q) (rq_list_key q))) st
      | Evalsha \<Rightarrow>
          (case rq_sha (snd st) of
             None \<Rightarrow> io_throw ''TypeError'' st
           | Some sha \<Rightarrow>
               io_catch (rq_evalsha_peek c sha)
                 (\<lambda>e. if is_no_script e
                      then io_bind (opt_call (rc_script_load c) (\<lambda>load. rq_call (\<lambda>q. load LuaPeek)))
                             (\<lambda>sha'. io_bind (rq_set (\<lambda>q. q\<lparr>rq_sha := Some sha'\<rparr>))
                             (\<lambda>u. rq_evalsha_peek c sha'))
                      else io_throw e) st)
      | Eval \<Rightarrow> rq_call (\<lambda>q. rc_eval_peek c (rq_list_key q)) st
      | RpopDowngrade \<Rightarrow> rq_call (\<lambda>q. rc_rpop c (rq_list_key q)) st)"

text \<open>The first round of \<^verbatim>\<open>peekAgent\<close> probes; every round executes one peek.\<close>

definition rq_peek_raw :: "'s redis_client \<Rightarrow> ('s \<times> redis_queue, string option) io" where
  "rq_peek_raw c = io_bind (rq_probe c) (\<lambda>u. rq_execute_peek c)"

definition rq_peek_once :: "'s redis_client \<Rightarrow> ('s \<times> redis_queue, agent_tuple option option) io" where
  "rq_peek_once c = io_bind (rq_peek_raw c) (\<lambda>raw. io_return (map_option parse_agent_tuple raw))"

definition rq_get_peek_strategy :: "redis_queue \<Rightarrow> peek_strategy" where
  "rq_get_peek_strategy q = rq_strategy q"

definition rq_requeue_key :: "'s redis_client \<Rightarrow> string \<Rightarrow> ('s \<times> redis_queue, unit) io" where
  "rq_requeue_key c raw =
     io_bind (rq_call (\<lambda>q. rc_sadd c (rq_set_key q) raw)) (\<lambda>n.
     io_bind (rq_call (\<lambda>q. rc_lpush c (rq_list_key q) raw)) (\<lambda>m. io_return ()))"

definition rq_requeue_agent :: "'s redis_client \<Rightarrow> agent_tuple \<Rightarrow> ('s \<times> redis_queue, unit) io" where
  "rq_requeue_agent c t = rq_serialized t (rq_requeue_key c)"

definition rq_purge_raw_agent :: "'s redis_client \<Rightarrow> string \<Rightarrow> ('s \<times> redis_queue, unit) io" where
  "rq_purge_raw_agent c raw =
     io_bind (rq_call (\<lambda>q. rc_srem c (rq_set_key q) raw)) (\<lambda>n.
     io_bind (rq_call (\<lambda>q. rc_lrem c (rq_list_key q) 0 raw)) (\<lambda>m. io_return ()))"

definition rq_remove_agent :: "'s redis_client \<Rightarrow> agent_tuple \<Rightarrow> ('s \<times> redis_queue, unit) io" where
  "rq_remove_agent c t = rq_serialized t (rq_purge_raw_agent c)"

definition rq_scan_agent_set :: "'s redis_client \<Rightarrow> ('s \<times> redis_queue, string list) io" where
  "rq_scan_agent_set c = rq_call (\<lambda>q. rc_smembers c (rq_set_key q))"

definition rq_list_contains :: "'s redis_client \<Rightarrow> string \<Rightarrow> ('s \<times> redis_queue, bool) io" where
  "rq_list_contains c raw =
     (case rc_lpos c of
        Some lpos \<Rightarrow> io_bind (rq_call (\<lambda>q. lpos (rq_list_key q) raw))
          (\<lambda>pos. io_return (case pos of None \<Rightarrow> False | Some i \<Rightarrow> 0 \<le> i))
      | None \<Rightarrow>
          (case rc_lrange c of
             Some lrange \<Rightarrow> io_bind (rq_call (\<lambda>q. lrange (rq_list_key q) 0 (- 1)))
               (\<lambda>xs. io_return (raw \<in> set xs))
           | None \<Rightarrow> io_return True))"

definition rq_enqueue_raw_agent :: "'s redis_client \<Rightarrow> string \<Rightarrow> ('s \<times> redis_queue, unit) io" where
  "rq_enqueue_raw_agent c raw =
     io_bind (rq_call (\<lambda>q. rc_lpush c (rq_list_key q) raw)) (\<lambda>m. io_return ())"

section \<open>Mutex and extract locks\<close>

definition rq_mutex_attempt ::
  "'s redis_client \<Rightarrow> string \<Rightarrow> string \<Rightarrow> ms \<Rightarrow> ms \<Rightarrow> ms \<Rightarrow> ('s \<times> redis_queue, mutex_result) io" where
  "rq_mutex_attempt c tuple token lock_ttl deadline now =
     io_bind (rq_call (\<lambda>q. rc_set_nx_px c (rq_mutex_prefix q @ tuple) token lock_ttl)) (\<lambda>ok.
       io_return (if ok then MutexHeld else if deadline < now then MutexTimeout else MutexRetry))"

definition rq_mutex_release :: "'s redis_client \<Rightarrow> string \<Rightarrow> string \<Rightarrow> ('s \<times> redis_queue, unit) io" where
  "rq_mutex_release c tuple token =
     io_catch (io_bind (rq_call (\<lambda>q. rc_eval c LuaRelease (rq_mutex_prefix q @ tuple) token 0)) (\<lambda>r. io_return ()))
       (\<lambda>e. io_return ())"

text \<open>An extract-lock handle is the Redis key and the token.\<close>

definition rq_acquire_lock ::
  "'s redis_client \<Rightarrow> string \<Rightarrow> string \<Rightarrow> ms \<Rightarrow> ('s \<times> redis_queue, (string \<times> string) option) io" where
  "rq_acquire_lock c tuple token ttl st =
     io_bind (rq_call (\<lambda>q. rc_set_nx_px c (rq_lock_prefix q @ tuple) token ttl)) (\<lambda>ok.
       io_return (if ok then Some (rq_lock_prefix (snd st) @ tuple, token) else None)) st"

definition rq_handle_key :: "redis_queue \<Rightarrow> string \<Rightarrow> string" where
  "rq_handle_key q key = (if prefix (rq_lock_prefix q) key then key else rq_lock_prefix q @ key)"

definition rq_renew_lock ::
  "'s redis_client \<Rightarrow> string \<times> string \<Rightarrow> ms \<Rightarrow> ('s \<times> redis_queue, bool) io" where
  "rq_renew_lock c h ttl =
     io_bind (rq_call (\<lambda>q. rc_eval c LuaRenew (rq_handle_key q (fst h)) (snd h) ttl)) (\<lambda>r. io_return (r = 1))"

definition rq_release_lock :: "'s redis_client \<Rightarrow> string \<times> string \<Rightarrow> ('s \<times> redis_queue, unit) io" where
  "rq_release_lock c h =
     io_catch (io_bind (rq_call (\<lambda>q. rc_eval c LuaRelease (rq_handle_key q (fst h)) (snd h) 0)) (\<lambda>r. io_return ()))
       (\<lambda>e. io_return ())"

section \<open>What the queue relies on of a server\<close>

text \<open>
  The documented behaviour of the commands on a server that can be reached, seen through the
  lists and sets it stores. \<open>has_lmove\<close> says whether the server knows \<^verbatim>\<open>LMOVE\<close> (6.2 and
  later); \<open>loaded\<close> whether a script is in the script cache, which may be lost at any time.
\<close>

definition rotated :: "'a list \<Rightarrow> 'a list" where
  "rotated xs = (if xs = [] then [] else last xs # butlast xs)"

definition last_opt :: "'a list \<Rightarrow> 'a option" where
  "last_opt xs = (if xs = [] then None else Some (last xs))"

locale redis_server =
  fixes c :: "'s redis_client"
    and lists :: "'s \<Rightarrow> string \<Rightarrow> string list"
    and sets :: "'s \<Rightarrow> string \<Rightarrow> string set"
    and has_lmove :: bool
    and loaded :: "'s \<Rightarrow> string \<Rightarrow> bool"
  assumes sadd: "fst (rc_sadd c k v s) = Inr (if v \<in> sets s k then 0 else 1)"
      "sets (snd (rc_sadd c k v s)) = (sets s)(k := insert v (sets s k))"
      "lists (snd (rc_sadd c k v s)) = lists s"
    and srem: "\<exists>n. fst (rc_srem c k v s) = Inr n"
      "sets (snd (rc_srem c k v s)) = (sets s)(k := sets s k - {v})"
      "lists (snd (rc_srem c k v s)) = lists s"
    and lpush: "\<exists>n. fst (rc_lpush c k v s) = Inr n"
      "lists (snd (rc_lpush c k v s)) = (lists s)(k := v # lists s k)"
      "sets (snd (rc_lpush c k v s)) = sets s"
    and lrem: "\<exists>n. fst (rc_lrem c k 0 v s) = Inr n"
      "lists (snd (rc_lrem c k 0 v s)) = (lists s)(k := filter (\<lambda>x. x \<noteq> v) (lists s k))"
      "sets (snd (rc_lrem c k 0 v s)) = sets s"
    and lmove: "rc_lmove c = Some f \<Longrightarrow> has_lmove \<Longrightarrow> fst (f k k s) = Inr (last_opt (lists s k))"
      "rc_lmove c = Some f \<Longrightarrow> has_lmove \<Longrightarrow> lists (snd (f k k s)) = (lists s)(k := rotated (lists s k))"
      "rc_lmove c = Some f \<Longrightarrow> \<not> has_lmove \<Longrightarrow> \<exists>e. fst (f k k s) = Inl e \<and> is_unknown_command e"
      "rc_lmove c = Some f \<Longrightarrow> \<not> has_lmove \<Longrightarrow> lists (snd (f k k s)) = lists s"
      "rc_lmove c = Some f \<Longrightarrow> sets (snd (f k k s)) = sets s"
    and load: "rc_script_load c = Some l \<Longrightarrow> \<exists>sha. fst (l LuaPeek s) = Inr sha \<and> loaded (snd (l LuaPeek s)) sha"
      "rc_script_load c = Some l \<Longrightarrow> lists (snd (l LuaPeek s)) = lists s"
      "rc_script_load c = Some l \<Longrightarrow> sets (snd (l LuaPeek s)) = sets s"
    and evalsha: "rc_evalsha c = Some f \<Longrightarrow> loaded s sha \<Longrightarrow> fst (f sha k s) = Inr (last_opt (lists s k))"
      "rc_evalsha c = Some f \<Longrightarrow> loaded s sha \<Longrightarrow> lists (snd (f sha k s)) = (lists s)(k := rotated (lists s k))"
      "rc_evalsha c = Some f \<Longrightarrow> \<not> loaded s sha \<Longrightarrow> \<exists>e. fst (f sha k s) = Inl e \<and> is_no_script e"
      "rc_evalsha c = Some f \<Longrightarrow> \<not> loaded s sha \<Longrightarrow> lists (snd (f sha k s)) = lists s"
      "rc_evalsha c = Some f \<Longrightarrow> sets (snd (f sha k s)) = sets s"
begin

definition rq_listed :: "'s \<times> redis_queue \<Rightarrow> string list" where
  "rq_listed st = lists (fst st) (rq_list_key (snd st))"

definition rq_known :: "'s \<times> redis_queue \<Rightarrow> string set" where
  "rq_known st = sets (fst st) (rq_set_key (snd st))"

text \<open>The queue has found an atomic way to peek.\<close>

definition rq_atomic :: "'s \<times> redis_queue \<Rightarrow> bool" where
  "rq_atomic st \<longleftrightarrow> rq_probed (snd st) \<and>
     (rq_strategy (snd st) = Lmove \<and> has_lmove \<and> rc_lmove c \<noteq> None \<or>
      rq_strategy (snd st) = Evalsha \<and> rq_sha (snd st) \<noteq> None \<and> rc_evalsha c \<noteq> None \<and> rc_script_load c \<noteq> None)"

lemma sadd_run: "rc_sadd c k v s = (Inr (if v \<in> sets s k then 0 else 1), snd (rc_sadd c k v s))"
  using sadd(1) by (metis prod.collapse)

lemma srem_run: "\<exists>n. rc_srem c k v s = (Inr n, snd (rc_srem c k v s))"
  using srem(1) by (metis prod.collapse)

lemma lpush_run: "\<exists>n. rc_lpush c k v s = (Inr n, snd (rc_lpush c k v s))"
  using lpush(1) by (metis prod.collapse)

lemma lrem_run: "\<exists>n. rc_lrem c k 0 v s = (Inr n, snd (rc_lrem c k 0 v s))"
  using lrem(1) by (metis prod.collapse)

lemma enqueue_run:
  "rq_enqueue_key c raw (s, q) =
     (if raw \<in> sets s (rq_set_key q) then (Inr False, (snd (rc_sadd c (rq_set_key q) raw s), q))
      else (Inr True, (snd (rc_lpush c (rq_list_key q) raw (snd (rc_sadd c (rq_set_key q) raw s))), q)))"
  using sadd_run [of "rq_set_key q" raw s]
    lpush_run [of "rq_list_key q" raw "snd (rc_sadd c (rq_set_key q) raw s)"]
  by (cases "raw \<in> sets s (rq_set_key q)")
    (auto simp: rq_enqueue_key_def io_bind_def rq_call_def io_return_def split: sum.split prod.split)

lemma requeue_run:
  "rq_requeue_key c raw (s, q) =
     (Inr (), (snd (rc_lpush c (rq_list_key q) raw (snd (rc_sadd c (rq_set_key q) raw s))), q))"
  using sadd_run [of "rq_set_key q" raw s]
    lpush_run [of "rq_list_key q" raw "snd (rc_sadd c (rq_set_key q) raw s)"]
  by (auto simp: rq_requeue_key_def io_bind_def rq_call_def io_return_def split: sum.split prod.split)

lemma purge_run:
  "rq_purge_raw_agent c raw (s, q) =
     (Inr (), (snd (rc_lrem c (rq_list_key q) 0 raw (snd (rc_srem c (rq_set_key q) raw s))), q))"
  using srem_run [of "rq_set_key q" raw s]
    lrem_run [of "rq_list_key q" raw "snd (rc_srem c (rq_set_key q) raw s)"]
  by (auto simp: rq_purge_raw_agent_def io_bind_def rq_call_def io_return_def split: sum.split prod.split)

lemma enqueue_raw_run:
  "rq_enqueue_raw_agent c raw (s, q) = (Inr (), (snd (rc_lpush c (rq_list_key q) raw s), q))"
  using lpush_run [of "rq_list_key q" raw s]
  by (auto simp: rq_enqueue_raw_agent_def io_bind_def rq_call_def io_return_def split: sum.split prod.split)

text \<open>Peeking, whichever atomic strategy was found and whether or not the script cache was lost.\<close>

definition peeked :: "'s \<times> redis_queue \<Rightarrow> (string + string option) \<times> ('s \<times> redis_queue) \<Rightarrow> bool" where
  "peeked st out \<longleftrightarrow> fst out = Inr (last_opt (rq_listed st)) \<and> rq_listed (snd out) = rotated (rq_listed st)
     \<and> rq_known (snd out) = rq_known st \<and> rq_atomic (snd out)"

lemma execute_lmove:
  assumes "rq_atomic st" "rq_strategy (snd st) = Lmove"
  shows "peeked st (rq_execute_peek c st)"
proof -
  obtain f where f: "rc_lmove c = Some f" and h: "has_lmove"
    using assms by (auto simp: rq_atomic_def)
  let ?k = "rq_list_key (snd st)"
  have e: "rq_execute_peek c st = (fst (f ?k ?k (fst st)), (snd (f ?k ?k (fst st)), snd st))"
    using assms(2) by (simp add: rq_execute_peek_def opt_call_def f rq_call_def split_beta)
  show ?thesis
    unfolding e peeked_def rq_listed_def rq_known_def
    using lmove(1,2) [OF f h] lmove(5) [OF f] assms(1) by (simp add: rq_atomic_def)
qed

lemma evalsha_peek_loaded:
  assumes "rc_evalsha c = Some f" "loaded (fst st) sha"
  shows "fst (rq_evalsha_peek c sha st) = Inr (last_opt (rq_listed st))"
    "rq_listed (snd (rq_evalsha_peek c sha st)) = rotated (rq_listed st)"
    "rq_known (snd (rq_evalsha_peek c sha st)) = rq_known st"
    "snd (snd (rq_evalsha_peek c sha st)) = snd st"
  using evalsha(1,2,5) [OF assms(1)] assms(2)
  by (simp_all add: rq_evalsha_peek_def opt_call_def assms(1) rq_call_def rq_listed_def rq_known_def split_beta)

lemma execute_evalsha:
  assumes "rq_atomic st" "rq_strategy (snd st) = Evalsha"
  shows "peeked st (rq_execute_peek c st)"
proof -
  obtain sha f l where q: "rq_sha (snd st) = Some sha" and f: "rc_evalsha c = Some f" and l: "rc_script_load c = Some l"
    and pr: "rq_probed (snd st)"
    using assms by (auto simp: rq_atomic_def)
  show ?thesis
  proof (cases "loaded (fst st) sha")
    case True
    note e = evalsha_peek_loaded [OF f True]
    have "rq_execute_peek c st = rq_evalsha_peek c sha st"
      using e(1) by (simp add: rq_execute_peek_def assms(2) q io_catch_def split: prod.split sum.split)
        (metis fst_conv sum.distinct(1))
    with e assms(1) show ?thesis by (simp add: peeked_def rq_atomic_def)
  next
    case False
    obtain s q0 where st: "st = (s, q0)" by (cases st)
    obtain e s1 where r: "f sha (rq_list_key q0) s = (Inl e, s1)" "is_no_script e" "lists s1 = lists s" "sets s1 = sets s"
      using evalsha(3,4) [OF f, of s sha "rq_list_key q0"] evalsha(5) [OF f, of sha "rq_list_key q0" s] False st
      by (cases "f sha (rq_list_key q0) s") auto
    obtain sha' s2 where ld: "l LuaPeek s1 = (Inr sha', s2)" "loaded s2 sha'" "lists s2 = lists s" "sets s2 = sets s"
      using load [OF l, of s1] r(3,4) by (cases "l LuaPeek s1") auto
    let ?q = "q0\<lparr>rq_sha := Some sha'\<rparr>"
    have x: "rq_execute_peek c st = rq_evalsha_peek c sha' (s2, ?q)"
      using q assms(2) st r(1,2) ld(1)
      by (simp add: rq_execute_peek_def io_catch_def io_bind_def rq_evalsha_peek_def [of c sha] opt_call_def f l
          rq_call_def rq_set_def)
    have ld2: "loaded (fst (s2, ?q)) sha'" using ld(2) by simp
    from evalsha_peek_loaded [OF f ld2] ld(3,4) show ?thesis
      unfolding x peeked_def
      using pr assms(2) st by (simp add: rq_listed_def rq_known_def rq_atomic_def f l)
  qed
qed

lemma peek_raw_peeked:
  assumes "rq_atomic st"
  shows "peeked st (rq_peek_raw c st)"
proof -
  have "rq_peek_raw c st = rq_execute_peek c st"
    using assms by (simp add: rq_peek_raw_def rq_probe_def rq_atomic_def io_bind_def)
  moreover have "rq_strategy (snd st) = Lmove \<or> rq_strategy (snd st) = Evalsha"
    using assms by (auto simp: rq_atomic_def)
  ultimately show ?thesis using execute_lmove [OF assms] execute_evalsha [OF assms] by auto
qed

lemma atomic_ops:
  assumes "rq_atomic st"
  shows "rq_atomic (snd (rq_enqueue_key c k st))" "rq_atomic (snd (rq_requeue_key c k st))"
    "rq_atomic (snd (rq_purge_raw_agent c k st))" "rq_atomic (snd (rq_enqueue_raw_agent c k st))"
  using assms
  by (cases st; simp add: enqueue_run requeue_run purge_run enqueue_raw_run rq_atomic_def)+

lemma view_ops:
  "rq_known (snd (rq_enqueue_key c k st)) = insert k (rq_known st)"
  "rq_listed (snd (rq_enqueue_key c k st)) = (if k \<in> rq_known st then rq_listed st else k # rq_listed st)"
  "rq_known (snd (rq_requeue_key c k st)) = insert k (rq_known st)"
  "rq_listed (snd (rq_requeue_key c k st)) = k # rq_listed st"
  "rq_known (snd (rq_purge_raw_agent c k st)) = rq_known st - {k}"
  "rq_listed (snd (rq_purge_raw_agent c k st)) = filter (\<lambda>x. x \<noteq> k) (rq_listed st)"
  "rq_known (snd (rq_enqueue_raw_agent c k st)) = rq_known st"
  "rq_listed (snd (rq_enqueue_raw_agent c k st)) = k # rq_listed st"
  by (cases st; simp add: enqueue_run requeue_run purge_run enqueue_raw_run rq_listed_def rq_known_def
      sadd srem lpush lrem)+

text \<open>Probing a new queue finds an atomic strategy when the server offers one.\<close>

lemma probe_atomic:
  assumes "\<not> rq_probed q" "rc_lmove c \<noteq> None \<and> has_lmove \<or> rc_script_load c \<noteq> None \<and> rc_evalsha c \<noteq> None"
  shows "rq_atomic (snd (rq_probe c (s, q)))
    \<and> rq_known (snd (rq_probe c (s, q))) = rq_known (s, q)
    \<and> set (rq_listed (snd (rq_probe c (s, q)))) = set (rq_listed (s, q))"
proof -
  have rot: "set (rotated xs) = set xs" for xs :: "'a list"
    by (cases xs rule: rev_cases) (auto simp: rotated_def)
  have script: "rq_atomic (snd (rq_probe_evalsha c (s', q)))
    \<and> rq_known (snd (rq_probe_evalsha c (s', q))) = rq_known (s', q)
    \<and> set (rq_listed (snd (rq_probe_evalsha c (s', q)))) = set (rq_listed (s', q))"
    if sc: "rc_script_load c \<noteq> None" "rc_evalsha c \<noteq> None" for s'
  proof -
    obtain l f where l: "rc_script_load c = Some l" and f: "rc_evalsha c = Some f" using sc by auto
    obtain sha s2 where ld: "l LuaPeek s' = (Inr sha, s2)" "loaded s2 sha" "lists s2 = lists s'" "sets s2 = sets s'"
      using load [OF l, of s'] by (cases "l LuaPeek s'") auto
    obtain s3 where ev: "f sha (rq_list_key q) s2 = (Inr (last_opt (lists s2 (rq_list_key q))), s3)"
      "lists s3 = (lists s2)(rq_list_key q := rotated (lists s2 (rq_list_key q)))" "sets s3 = sets s2"
      using evalsha(1,2) [OF f ld(2), of "rq_list_key q"] evalsha(5) [OF f, of sha "rq_list_key q" s2]
      by (cases "f sha (rq_list_key q) s2") auto
    have "rq_probe_evalsha c (s', q) =
        (Inr (), (s3, q\<lparr>rq_sha := Some sha, rq_strategy := Evalsha, rq_probed := True\<rparr>))"
      using ld(1) ev(1)
      by (simp add: rq_probe_evalsha_def l f io_catch_def io_bind_def rq_call_def rq_set_def rq_probed_as_def)
    then show ?thesis
      using ld(3,4) ev(2,3) by (simp add: rq_atomic_def rq_known_def rq_listed_def l f rot)
  qed
  show ?thesis
  proof (cases "rc_lmove c")
    case None
    then show ?thesis using assms script [of s] by (simp add: rq_probe_def)
  next
    case (Some m)
    let ?k = "rq_list_key q"
    obtain r s1 where m: "m ?k ?k s = (r, s1)" by fastforce
    show ?thesis
    proof (cases has_lmove)
      case True
      have "rq_atomic (x, q\<lparr>rq_strategy := Lmove, rq_probed := True\<rparr>)" for x
        unfolding rq_atomic_def using True Some by simp
      then show ?thesis
        using m lmove(1,2) [OF Some True, of ?k s] lmove(5) [OF Some, of ?k s] assms(1)
        by (simp add: rq_probe_def Some rq_call_def rq_probed_as_def rq_set_def rq_known_def
            rq_listed_def rot)
    next
      case False
      with m lmove(3,4) [OF Some False, of ?k s] lmove(5) [OF Some, of ?k s]
      obtain e where "r = Inl e" "is_unknown_command e" "lists s1 = lists s" "sets s1 = sets s" by auto
      with m assms script [of s1] False show ?thesis
        by (auto simp: rq_probe_def Some rq_call_def rq_known_def rq_listed_def)
    qed
  qed
qed

end

section \<open>The Redis queue provides the scheduling contract\<close>

definition rq_value :: "('s, 'a option) io \<Rightarrow> 's \<Rightarrow> 'a option \<times> 's" where
  "rq_value m st = (case m st of (Inr a, st') \<Rightarrow> (a, st') | (Inl e, st') \<Rightarrow> (None, st'))"

context redis_server
begin

lemma peek_value:
  assumes "rq_atomic st"
  shows "fst (rq_value (rq_peek_raw c) st) = last_opt (rq_listed st)"
    "rq_listed (snd (rq_value (rq_peek_raw c) st)) = rotated (rq_listed st)"
    "rq_known (snd (rq_value (rq_peek_raw c) st)) = rq_known st"
    "rq_atomic (snd (rq_value (rq_peek_raw c) st))"
proof -
  obtain r st' where e: "rq_peek_raw c st = (r, st')" by (cases "rq_peek_raw c st")
  have p: "peeked st (r, st')" using peek_raw_peeked [OF assms] unfolding e .
  then have "rq_value (rq_peek_raw c) st = (last_opt (rq_listed st), st')"
    unfolding peeked_def by (simp add: rq_value_def e)
  with p show "fst (rq_value (rq_peek_raw c) st) = last_opt (rq_listed st)"
    "rq_listed (snd (rq_value (rq_peek_raw c) st)) = rotated (rq_listed st)"
    "rq_known (snd (rq_value (rq_peek_raw c) st)) = rq_known st"
    "rq_atomic (snd (rq_value (rq_peek_raw c) st))"
    unfolding peeked_def by simp_all
qed

end

sublocale redis_server \<subseteq> rq: agent_schedule
  "\<lambda>k st. snd (rq_enqueue_key c k st)" "rq_value (rq_peek_raw c)"
  "\<lambda>k st. snd (rq_requeue_key c k st)" "\<lambda>k st. snd (rq_purge_raw_agent c k st)"
  "\<lambda>k st. snd (rq_enqueue_raw_agent c k st)" rq_listed rq_known rq_atomic
  by unfold_locales (simp_all add: view_ops atomic_ops peek_value last_opt_def rotated_def)

text \<open>Operations on the queue, and repeated peeks.\<close>

fun rq_op :: "'s redis_client \<Rightarrow> sched_op \<Rightarrow> 's \<times> redis_queue \<Rightarrow> 's \<times> redis_queue" where
  "rq_op c (SEnq k) st = snd (rq_enqueue_key c k st)"
| "rq_op c SPeek st = snd (rq_peek_raw c st)"
| "rq_op c (SRequeue k) st = snd (rq_requeue_key c k st)"
| "rq_op c (SRemove k) st = snd (rq_purge_raw_agent c k st)"
| "rq_op c (SAddRaw k) st = snd (rq_enqueue_raw_agent c k st)"

fun rq_peeks :: "'s redis_client \<Rightarrow> nat \<Rightarrow> 's \<times> redis_queue \<Rightarrow> string option list \<times> ('s \<times> redis_queue)" where
  "rq_peeks c 0 st = ([], st)"
| "rq_peeks c (Suc n) st =
     (let (x, st1) = rq_value (rq_peek_raw c) st; (xs, st2) = rq_peeks c n st1 in (x # xs, st2))"

lemma snd_rq_value: "snd (rq_value m st) = snd (m st)"
  by (simp add: rq_value_def split: prod.split sum.split)

context redis_server
begin

lemma rq_op_step: "rq_op c = rq.step"
proof (rule ext, rule ext)
  fix e st
  show "rq_op c e st = rq.step e st" by (cases e) (simp_all add: snd_rq_value)
qed

lemma rq_peeks_eq: "rq_peeks c n st = rq.peeks n st"
  by (induction n arbitrary: st) (auto simp: split_beta)

lemma keeps_agents:
  assumes "\<not> rq_probed q" "rc_lmove c \<noteq> None \<and> has_lmove \<or> rc_script_load c \<noteq> None \<and> rc_evalsha c \<noteq> None"
    "sets s (rq_set_key q) \<subseteq> set (lists s (rq_list_key q))"
    "st = fold (rq_op c) ops (snd (rq_probe c (s, q)))"
  shows "rq_known st \<subseteq> set (rq_listed st)"
    "fst (rq_peeks c (length (rq_listed st)) st) = map Some (rev (rq_listed st))"
proof -
  let ?p = "snd (rq_probe c (s, q))"
  have "rq_known (s, q) \<subseteq> set (rq_listed (s, q))" using assms(3) by (simp add: rq_known_def rq_listed_def)
  then have p: "rq_atomic ?p" "rq_known ?p \<subseteq> set (rq_listed ?p)"
    using probe_atomic [OF assms(1,2), of s] by auto
  from rq.run_no_orphan [OF p, of ops]
  have i: "rq_atomic st" "rq_known st \<subseteq> set (rq_listed st)"
    by (simp_all add: assms(4) rq_op_step)
  show "rq_known st \<subseteq> set (rq_listed st)" by (rule i(2))
  show "fst (rq_peeks c (length (rq_listed st)) st) = map Some (rev (rq_listed st))"
    unfolding rq_peeks_eq by (rule rq.peeks_all(1) [OF i(1)])
qed

end

section \<open>A reference server\<close>

text \<open>An in-memory server with the documented behaviour of the commands, and the three scripts
  of the source run on it: the instance that shows that the contract can be met.\<close>

record mem_redis =
  mr_lists :: "(string, string list) jsmap"
  mr_sets :: "(string, string list) jsmap"
  mr_vals :: "(string, string) lock_table"
  mr_scripts :: "string list"
  mr_now :: ms

definition mem_empty :: mem_redis where
  "mem_empty = \<lparr>mr_lists = [], mr_sets = [], mr_vals = [], mr_scripts = [], mr_now = 0\<rparr>"

definition mr_list :: "mem_redis \<Rightarrow> string \<Rightarrow> string list" where
  "mr_list s k = jget_or [] (mr_lists s) k"

definition mr_set :: "mem_redis \<Rightarrow> string \<Rightarrow> string list" where
  "mr_set s k = jget_or [] (mr_sets s) k"

definition mr_get :: "string \<Rightarrow> mem_redis \<Rightarrow> string option" where
  "mr_get k s = (case map_of (mr_vals s) k of None \<Rightarrow> None | Some (v, e) \<Rightarrow> if e \<le> mr_now s then None else Some v)"

definition mr_put_list :: "string \<Rightarrow> string list \<Rightarrow> mem_redis \<Rightarrow> mem_redis" where
  "mr_put_list k xs s = s\<lparr>mr_lists := AList.update k xs (mr_lists s)\<rparr>"

definition mr_put_set :: "string \<Rightarrow> string list \<Rightarrow> mem_redis \<Rightarrow> mem_redis" where
  "mr_put_set k xs s = s\<lparr>mr_sets := AList.update k xs (mr_sets s)\<rparr>"

text \<open>\<^verbatim>\<open>LUA_RENEW\<close>, \<^verbatim>\<open>LUA_RELEASE\<close> and \<^verbatim>\<open>LUA_PEEK\<close>.\<close>

definition lua_renew :: "string \<Rightarrow> string \<Rightarrow> ms \<Rightarrow> mem_redis \<Rightarrow> int \<times> mem_redis" where
  "lua_renew k tok ttl s =
     (if mr_get k s = Some tok then (1, s\<lparr>mr_vals := AList.update k (tok, mr_now s + ttl) (mr_vals s)\<rparr>)
      else (0, s))"

definition lua_release :: "string \<Rightarrow> string \<Rightarrow> mem_redis \<Rightarrow> int \<times> mem_redis" where
  "lua_release k tok s =
     (if mr_get k s = Some tok then (1, s\<lparr>mr_vals := AList.delete k (mr_vals s)\<rparr>) else (0, s))"

definition lua_peek :: "string \<Rightarrow> mem_redis \<Rightarrow> string option \<times> mem_redis" where
  "lua_peek k s =
     (if mr_list s k = [] then (None, s)
      else (let raw = last (mr_list s k); s1 = mr_put_list k (butlast (mr_list s k)) s
            in (Some raw, mr_put_list k (raw # mr_list s1 k) s1)))"

definition mem_lmove :: "bool \<Rightarrow> string \<Rightarrow> string \<Rightarrow> (mem_redis, string option) io" where
  "mem_lmove new_server a b s =
     (if \<not> new_server then (Inl ''ERR unknown command LMOVE'', s)
      else if mr_list s a = [] then (Inr None, s)
      else (let s1 = mr_put_list a (butlast (mr_list s a)) s
            in (Inr (Some (last (mr_list s a))), mr_put_list b (last (mr_list s a) # mr_list s1 b) s1)))"

definition mem_evalsha :: "string \<Rightarrow> string \<Rightarrow> (mem_redis, string option) io" where
  "mem_evalsha sha k s =
     (if sha \<in> set (mr_scripts s) then (let (r, s') = lua_peek k s in (Inr r, s'))
      else (Inl ''NOSCRIPT No matching script'', s))"

definition mem_script_load :: "lua_script \<Rightarrow> (mem_redis, string) io" where
  "mem_script_load script s = (Inr ''sha-peek'', s\<lparr>mr_scripts := ''sha-peek'' # mr_scripts s\<rparr>)"

definition mem_client :: "bool \<Rightarrow> mem_redis redis_client" where
  "mem_client new_server = \<lparr>
     rc_sadd = (\<lambda>k v s. (Inr (if v \<in> set (mr_set s k) then 0 else 1), mr_put_set k (set_add v (mr_set s k)) s)),
     rc_srem = (\<lambda>k v s. (Inr (length (filter (\<lambda>x. x = v) (mr_set s k))),
                         mr_put_set k (filter (\<lambda>x. x \<noteq> v) (mr_set s k)) s)),
     rc_smembers = (\<lambda>k s. (Inr (mr_set s k), s)),
     rc_lpush = (\<lambda>k v s. (Inr (Suc (length (mr_list s k))), mr_put_list k (v # mr_list s k) s)),
     rc_lrem = (\<lambda>k n v s. (Inr (length (filter (\<lambda>x. x = v) (mr_list s k))),
                           mr_put_list k (filter (\<lambda>x. x \<noteq> v) (mr_list s k)) s)),
     rc_rpop = (\<lambda>k s. (Inr (last_opt (mr_list s k)), mr_put_list k (butlast (mr_list s k)) s)),
     rc_set_nx_px = (\<lambda>k v ttl s. if mr_get k s = None
        then (Inr True, s\<lparr>mr_vals := AList.update k (v, mr_now s + ttl) (mr_vals s)\<rparr>) else (Inr False, s)),
     rc_eval = (\<lambda>script k tok ttl s. case script of
        LuaRenew \<Rightarrow> (let (r, s') = lua_renew k tok ttl s in (Inr r, s'))
      | LuaRelease \<Rightarrow> (let (r, s') = lua_release k tok s in (Inr r, s'))
      | LuaPeek \<Rightarrow> (Inl ''ERR wrong reply type'', s)),
     rc_eval_peek = (\<lambda>k s. let (r, s') = lua_peek k s in (Inr r, s')),
     rc_lmove = Some (mem_lmove new_server), rc_evalsha = Some mem_evalsha,
     rc_script_load = Some mem_script_load,
     rc_lpos = Some (\<lambda>k v s. (Inr (map_option int (find_index (\<lambda>x. x = v) (mr_list s k))), s)),
     rc_lrange = None\<rparr>"

lemma mr_put_simps [simp]:
  "mr_list (mr_put_list k xs s) = (mr_list s)(k := xs)" "mr_list (mr_put_set k ys s) = mr_list s"
  "mr_set (mr_put_set k ys s) = (mr_set s)(k := ys)" "mr_set (mr_put_list k xs s) = mr_set s"
  "mr_scripts (mr_put_list k xs s) = mr_scripts s"
  by (simp_all add: mr_put_list_def mr_put_set_def mr_list_def mr_set_def fun_eq_iff)

lemma mr_scripts_simps [simp]:
  "mr_list (s\<lparr>mr_scripts := x\<rparr>) = mr_list s" "mr_set (s\<lparr>mr_scripts := x\<rparr>) = mr_set s"
  by (simp_all add: mr_list_def mr_set_def fun_eq_iff)

lemma lua_peek_result:
  "fst (lua_peek k s) = last_opt (mr_list s k)"
  "mr_list (snd (lua_peek k s)) = (mr_list s)(k := rotated (mr_list s k))"
  "mr_set (snd (lua_peek k s)) = mr_set s"
  by (auto simp: lua_peek_def last_opt_def rotated_def Let_def)

lemma mem_messages:
  "is_unknown_command ''ERR unknown command LMOVE''" "is_no_script ''NOSCRIPT No matching script''"
  by code_simp+

lemma set_fun_upd: "(\<lambda>ka. set (if ka = k then a else f ka)) = (\<lambda>k. set (f k))(k := set a)"
  by (simp add: fun_eq_iff)

lemma set_filter_neq: "set (filter (\<lambda>x. x \<noteq> v) xs) = set xs - {v}"
  by auto

interpretation mem: redis_server "mem_client new_server" mr_list "\<lambda>s k. set (mr_set s k)" new_server
  "\<lambda>s sha. sha \<in> set (mr_scripts s)" for new_server
  by unfold_locales
    (auto simp: mem_client_def mem_lmove_def mem_evalsha_def mem_script_load_def lua_peek_result mem_messages
      last_opt_def rotated_def Let_def split_beta set_fun_upd set_filter_neq simp del: set_filter)

section \<open>Properties\<close>

text \<open>
  C35: on every server with the documented behaviour that has either \<^verbatim>\<open>LMOVE\<close> or scripting,
  whichever strategy the probe settles on and however often the script cache is lost, no
  sequence of enqueues, peeks, requeues and removals orphans an agent: whatever is in the Redis set is
  in the Redis list, and consecutive peeks serve the whole list in order.
\<close>

theorem redis_queue_keeps_agents:
  assumes "redis_server c lists_of sets_of has_lmove loaded"
    "rc_lmove c \<noteq> None \<and> has_lmove \<or> rc_script_load c \<noteq> None \<and> rc_evalsha c \<noteq> None"
    "sets_of s (rq_set_key (new_redis_queue pre poll)) \<subseteq> set (lists_of s (rq_list_key (new_redis_queue pre poll)))"
    "(s', q') = fold (rq_op c) ops (snd (rq_probe c (s, new_redis_queue pre poll)))"
  shows "sets_of s' (rq_set_key q') \<subseteq> set (lists_of s' (rq_list_key q'))
    \<and> fst (rq_peeks c (length (lists_of s' (rq_list_key q'))) (s', q')) = map Some (rev (lists_of s' (rq_list_key q')))"
proof -
  have np: "\<not> rq_probed (new_redis_queue pre poll)" by (simp add: new_redis_queue_def Let_def)
  from redis_server.keeps_agents [OF assms(1) np assms(2,3,4)] show ?thesis
    by (simp add: redis_server.rq_known_def [OF assms(1)] redis_server.rq_listed_def [OF assms(1)])
qed

theorem redis_queue_keeps_agents_witness:
  "fst (rq_peeks (mem_client False) 2 (fold (rq_op (mem_client False)) [SEnq ''a'', SEnq ''b'', SEnq ''a'']
     (snd (rq_probe (mem_client False) (mem_empty, new_redis_queue None None))))) = [Some ''a'', Some ''b'']"
proof -
  let ?c = "mem_client False" and ?q = "new_redis_queue None None"
  have cap: "rc_lmove ?c \<noteq> None \<and> False \<or> rc_script_load ?c \<noteq> None \<and> rc_evalsha ?c \<noteq> None"
    by (simp add: mem_client_def)
  have sub: "set (mr_set mem_empty (rq_set_key ?q)) \<subseteq> set (mr_list mem_empty (rq_list_key ?q))"
    by (simp add: mr_set_def mem_empty_def)
  obtain s' q' where st: "(s', q') = fold (rq_op ?c) [SEnq ''a'', SEnq ''b'', SEnq ''a'']
     (snd (rq_probe ?c (mem_empty, ?q)))"
    by (metis prod.collapse)
  have "mr_list (fst (fold (rq_op ?c) [SEnq ''a'', SEnq ''b'', SEnq ''a''] (snd (rq_probe ?c (mem_empty, ?q)))))
      (rq_list_key (snd (fold (rq_op ?c) [SEnq ''a'', SEnq ''b'', SEnq ''a''] (snd (rq_probe ?c (mem_empty, ?q))))))
      = [''b'', ''a'']"
    by code_simp
  then have l: "mr_list s' (rq_list_key q') = [''b'', ''a'']" unfolding st [symmetric] by simp
  have two: "2 = length (mr_list s' (rq_list_key q'))" unfolding l by simp
  show ?thesis
    unfolding st [symmetric] two
    using redis_queue_keeps_agents [OF mem.redis_server_axioms cap sub st, THEN conjunct2]
    unfolding l by simp
qed

end
