(* ===== verification/Worker_Pool.thy ===== *)
theory Worker_Pool
  imports Extract_Worker Redis_Queue
begin

text \<open>
  \<^verbatim>\<open>MemoryCore/src/core/skill/conversation-add/worker-pool.ts\<close>: the pool of worker loops. One
  round of a loop peeks an agent, skips it while it is suppressed, purges it when it is a
  legacy tuple, and otherwise resolves the resources of its instance and consumes it with a
  worker built for this one call. The self-heal scan repairs the agreement of the agent set
  and list. The per-instance resolvers are a parameter.
\<close>

section \<open>The pool\<close>

record worker_pool =
  wp_concurrency :: nat
  wp_suppress_ttl :: ms
  wp_heal_interval :: ms
  wp_started :: bool
  wp_closed :: bool
  wp_heal_timer :: "ms option"
  wp_loops :: nat

definition new_worker_pool :: "int \<Rightarrow> ms option \<Rightarrow> ms option \<Rightarrow> string + worker_pool" where
  "new_worker_pool concurrency ttl interval =
     (if concurrency < 1 then Inl ''concurrency must be positive integer''
      else Inr \<lparr>wp_concurrency = nat concurrency,
                wp_suppress_ttl = (case ttl of None \<Rightarrow> 200 | Some x \<Rightarrow> x),
                wp_heal_interval = (case interval of None \<Rightarrow> 60000 | Some x \<Rightarrow> x),
                wp_started = False, wp_closed = False, wp_heal_timer = None, wp_loops = 0\<rparr>)"

text \<open>\<^verbatim>\<open>start()\<close>: the strategy is the one the queue reports at this moment. The cold-start scan is
  \<open>self_heal_scan\<close> below, run by whoever calls this.\<close>

definition pool_start :: "peek_strategy \<Rightarrow> worker_pool \<Rightarrow> worker_pool" where
  "pool_start strategy p =
     (if wp_started p then p
      else p\<lparr>wp_started := True, wp_closed := False,
             wp_heal_timer := (if strategy = RpopDowngrade then Some (wp_heal_interval p) else wp_heal_timer p),
             wp_loops := wp_loops p + wp_concurrency p\<rparr>)"

definition pool_stop :: "worker_pool \<Rightarrow> worker_pool" where
  "pool_stop p = p\<lparr>wp_closed := True, wp_heal_timer := None, wp_loops := 0\<rparr>"

section \<open>The self-heal scan\<close>

record heal_result =
  hr_scanned :: nat
  hr_repushed :: nat
  hr_purged :: nat

text \<open>Whether the pool can serve a raw queue entry.\<close>

definition servable_raw :: "string \<Rightarrow> bool" where
  "servable_raw raw \<longleftrightarrow>
     (case parse_agent_tuple raw of None \<Rightarrow> False | Some t \<Rightarrow> at_instance t \<noteq> legacy_instance_id)"

definition heal_member :: "'q queue_if \<Rightarrow> string \<Rightarrow> heal_result \<Rightarrow> ('q, heal_result) io" where
  "heal_member Q raw res =
     (let res = res\<lparr>hr_scanned := hr_scanned res + 1\<rparr>
      in if \<not> servable_raw raw
         then io_bind (qi_purge_raw Q raw) (\<lambda>u. io_return (res\<lparr>hr_purged := hr_purged res + 1\<rparr>))
         else io_bind (qi_list_contains Q raw) (\<lambda>in_list.
                if \<not> in_list
                then io_bind (qi_enqueue_raw Q raw) (\<lambda>u. io_return (res\<lparr>hr_repushed := hr_repushed res + 1\<rparr>))
                else io_return res))"

fun heal_members :: "'q queue_if \<Rightarrow> string list \<Rightarrow> heal_result \<Rightarrow> ('q, heal_result) io" where
  "heal_members Q [] res = io_return res"
| "heal_members Q (raw # rest) res = io_bind (heal_member Q raw res) (heal_members Q rest)"

definition self_heal_scan :: "'q queue_if \<Rightarrow> ('q, heal_result) io" where
  "self_heal_scan Q =
     io_bind (qi_scan_set Q) (\<lambda>members. heal_members Q members \<lparr>hr_scanned = 0, hr_repushed = 0, hr_purged = 0\<rparr>)"

section \<open>The suppression table of a loop\<close>

type_synonym suppression = "(string \<times> ms) list"

definition is_suppressed :: "ms \<Rightarrow> agent_tuple \<Rightarrow> suppression \<Rightarrow> bool \<times> suppression" where
  "is_suppressed now a m =
     (case map_of m (tuple_key a) of
        None \<Rightarrow> (False, m)
      | Some until \<Rightarrow> if until \<le> now then (False, AList.delete (tuple_key a) m) else (True, m))"

definition suppress_agent :: "ms \<Rightarrow> ms \<Rightarrow> agent_tuple \<Rightarrow> suppression \<Rightarrow> suppression" where
  "suppress_agent ttl now a m =
     (let m = AList.update (tuple_key a) (now + ttl) m
      in if 100 < length m then filter (\<lambda>(k, v). \<not> v \<le> now) m else m)"

section \<open>One round of a loop\<close>

datatype pool_round_result = PeekFailed | NoAgent | SuppressedSkip | LegacyPurged | Consumed | Contended | ConsumeFailed

definition legacy_raw :: "agent_tuple \<Rightarrow> string" where
  "legacy_raw a = join_with (CHR ''|'') [at_space a, at_user a, at_team a, at_agent a]"

text \<open>\<^verbatim>\<open>consumeAgent\<close> of the pool: a failing resolver fails the call, and the worker is new, so it
  starts without failure streaks.\<close>

definition pool_consume ::
  "'q queue_if \<Rightarrow> (string \<Rightarrow> string + 'c extract_worker) \<Rightarrow> agent_tuple \<Rightarrow> ms \<Rightarrow> ('q, 'c, bool) sk" where
  "pool_consume Q resolve a now w =
     (case resolve (at_instance a) of
        Inl e \<Rightarrow> (Inl e, w)
      | Inr ew \<Rightarrow>
          (case consume_agent Q ew a now (w, []) of
             (Inl e, (w', m)) \<Rightarrow> (Inl e, w')
           | (Inr res, (w', m)) \<Rightarrow> (Inr (cr_contended res), w')))"

text \<open>The loop's handling of a peeked agent; \<open>now\<close> is the clock before it is consumed, \<open>later\<close>
  the clock after.\<close>

definition pool_agent ::
  "'q queue_if \<Rightarrow> (string \<Rightarrow> string + 'c extract_worker) \<Rightarrow> ms \<Rightarrow> ms \<Rightarrow> ms \<Rightarrow> agent_tuple
     \<Rightarrow> suppression \<Rightarrow> ('q, 'c) skill_world \<Rightarrow> pool_round_result \<times> suppression \<times> ('q, 'c) skill_world" where
  "pool_agent Q resolve ttl now later a m w =
     (let (skip, m) = is_suppressed now a m
      in if skip then (SuppressedSkip, m, w)
         else if at_instance a = legacy_instance_id
         then (LegacyPurged, m, snd (on_queue (qi_purge_raw Q (legacy_raw a)) w))
         else (case pool_consume Q resolve a now w of
                 (Inl e, w') \<Rightarrow> (ConsumeFailed, suppress_agent ttl later a m, w')
               | (Inr contended, w') \<Rightarrow>
                   if contended then (Contended, suppress_agent ttl later a m, w') else (Consumed, m, w')))"

definition pool_round ::
  "'q queue_if \<Rightarrow> (string \<Rightarrow> string + 'c extract_worker) \<Rightarrow> ms \<Rightarrow> ms \<Rightarrow> ms
     \<Rightarrow> suppression \<Rightarrow> ('q, 'c) skill_world \<Rightarrow> pool_round_result \<times> suppression \<times> ('q, 'c) skill_world" where
  "pool_round Q resolve ttl now later m w =
     (case on_queue (qi_peek_once Q) w of
        (Inl e, w') \<Rightarrow> (PeekFailed, m, w')
      | (Inr None, w') \<Rightarrow> (NoAgent, m, w')
      | (Inr (Some None), w') \<Rightarrow> (NoAgent, m, w')
      | (Inr (Some (Some a)), w') \<Rightarrow> pool_agent Q resolve ttl now later a m w')"

section \<open>What the scan establishes\<close>

context extract_queue
begin

lemma heal_member_effect:
  assumes "invar q"
  shows "\<exists>res' q'. heal_member Q raw res q = (Inr res', q') \<and> invar q'
    \<and> known q' = (if servable_raw raw then known q else known q - {raw})
    \<and> listed q' = (if \<not> servable_raw raw then filter (\<lambda>x. x \<noteq> raw) (listed q)
                   else if raw \<in> set (listed q) then listed q else raw # listed q)
    \<and> hr_scanned res' = hr_scanned res + 1
    \<and> hr_repushed res' = hr_repushed res + (if servable_raw raw \<and> raw \<notin> set (listed q) then 1 else 0)
    \<and> hr_purged res' = hr_purged res + (if servable_raw raw then 0 else 1)"
  using assms invar_remove [OF assms, of raw] invar_add_raw [OF assms, of raw]
  by (auto simp: heal_member_def Let_def io_bind_def io_return_def q_purge q_contains q_add_raw remove_view add_raw_view)

lemma heal_members_effect:
  assumes "invar q"
  shows "\<exists>res' q'. heal_members Q raws res q = (Inr res', q') \<and> invar q'
    \<and> known q' = known q - {r \<in> set raws. \<not> servable_raw r}
    \<and> (\<forall>x. x \<in> set (listed q') \<longleftrightarrow> (if x \<in> set raws then servable_raw x else x \<in> set (listed q)))
    \<and> hr_scanned res' = hr_scanned res + length raws"
  using assms
proof (induction raws arbitrary: q res)
  case Nil
  then show ?case by (simp add: io_return_def)
next
  case (Cons raw raws)
  obtain res1 q1 where s: "heal_member Q raw res q = (Inr res1, q1)" "invar q1"
    "known q1 = (if servable_raw raw then known q else known q - {raw})"
    "listed q1 = (if \<not> servable_raw raw then filter (\<lambda>x. x \<noteq> raw) (listed q)
                   else if raw \<in> set (listed q) then listed q else raw # listed q)"
    "hr_scanned res1 = hr_scanned res + 1"
    using heal_member_effect [OF Cons.prems, of raw res] by blast
  from Cons.IH [OF s(2), of res1] obtain res' q' where t: "heal_members Q raws res1 q1 = (Inr res', q')" "invar q'"
    "known q' = known q1 - {r \<in> set raws. \<not> servable_raw r}"
    "\<forall>x. x \<in> set (listed q') \<longleftrightarrow> (if x \<in> set raws then servable_raw x else x \<in> set (listed q1))"
    "hr_scanned res' = hr_scanned res1 + length raws"
    by blast
  show ?case
    using s t by (intro exI [of _ res'] exI [of _ q']) (auto simp: io_bind_def)
qed

text \<open>The scan makes every known agent servable and listed, and drops only what is not servable.\<close>

lemma self_heal_effect:
  assumes "invar q"
  shows "\<exists>res q'. self_heal_scan Q q = (Inr res, q') \<and> invar q'
    \<and> known q' = {r \<in> known q. servable_raw r} \<and> known q' \<subseteq> set (listed q')
    \<and> (\<forall>x. x \<in> set (listed q') \<longleftrightarrow> (if x \<in> known q then servable_raw x else x \<in> set (listed q)))"
proof -
  obtain xs where xs: "qi_scan_set Q q = (Inr xs, q)" "set xs = known q" using q_scan [OF assms] by blast
  from heal_members_effect [OF assms, of xs "\<lparr>hr_scanned = 0, hr_repushed = 0, hr_purged = 0\<rparr>"]
  obtain res q' where h: "heal_members Q xs \<lparr>hr_scanned = 0, hr_repushed = 0, hr_purged = 0\<rparr> q = (Inr res, q')" "invar q'"
    "known q' = known q - {r \<in> set xs. \<not> servable_raw r}"
    "\<forall>x. x \<in> set (listed q') \<longleftrightarrow> (if x \<in> set xs then servable_raw x else x \<in> set (listed q))" by blast
  show ?thesis
    using xs h by (intro exI [of _ res] exI [of _ q']) (auto simp: self_heal_scan_def io_bind_def)
qed

end

section \<open>Properties\<close>

text \<open>
  the self-heal scan repairs whatever a crash left. From any state of the queue without
  blocked consumers (agents popped and never pushed back, legacy or corrupt entries), afterwards
  every agent of the set can be served and is in the list, nothing that can be served was
  dropped from either, and nothing else was added.
\<close>

theorem self_heal_restores_agents:
  assumes "aq_waiters q = []"
  shows "case self_heal_scan (local_queue_if c) q of (r, q') \<Rightarrow>
    (\<exists>res. r = Inr res)
    \<and> set (aq_set q') = {raw \<in> set (aq_set q). servable_raw raw}
    \<and> set (aq_set q') \<subseteq> set (aq_list q')
    \<and> set (aq_list q') = {raw. if raw \<in> set (aq_set q) then servable_raw raw else raw \<in> set (aq_list q)}"
proof -
  have "aq_no_waiters q" using assms by (simp add: aq_no_waiters_def)
  from lq.self_heal_effect [OF this, of c] show ?thesis by auto
qed

theorem self_heal_restores_agents_witness:
  "set (aq_set (aq_empty\<lparr>aq_set := [''i|p|u|t|a'', ''p|u|t|a'']\<rparr>)) \<noteq> {}
   \<and> (case self_heal_scan (local_queue_if demo_caller) (aq_empty\<lparr>aq_set := [''i|p|u|t|a'', ''p|u|t|a'']\<rparr>) of (r, q') \<Rightarrow>
        set (aq_set q') \<subseteq> set (aq_list q'))"
  using self_heal_restores_agents [of "aq_empty\<lparr>aq_set := [''i|p|u|t|a'', ''p|u|t|a'']\<rparr>" demo_caller]
  by (auto simp: aq_empty_def split: prod.splits)

text \<open>
  A Redis queue reports the optimistic strategy until its first peek, and the pool asks
  before its loops have peeked: on a server that leaves only the non-atomic fallback the
  periodic self-heal that this fallback needs is never started.
\<close>

theorem downgraded_pool_never_heals:
  "let q = new_redis_queue key_prefix poll in
   case new_worker_pool n ttl interval of
     Inl e \<Rightarrow> n < 1
   | Inr p \<Rightarrow> wp_heal_timer (pool_start (rq_get_peek_strategy q) p) = None
       \<and> wp_heal_timer (pool_start RpopDowngrade p) = Some (wp_heal_interval p)"
  by (simp add: Let_def new_worker_pool_def pool_start_def rq_get_peek_strategy_def new_redis_queue_def)

end
