(* ===== verification/Skill_Add.thy ===== *)
theory Skill_Add
  imports Skill_Trigger
begin

text \<open>
  \<^verbatim>\<open>MemoryCore/src/core/skill/conversation-add/add-handler.ts\<close>: \<^verbatim>\<open>POST /v3/skill/conversation/add\<close>.
  The request is validated, appended to the session's buffer, and the buffer is archived when
  a threshold is reached or the request is large. The clock readings (of the trigger and of the
  write-back) and the random part of the task id are arguments.
\<close>

section \<open>Requests\<close>

record add_input =
  ai_instance :: string
  ai_session :: string
  ai_space :: string
  ai_user :: string
  ai_team :: string
  ai_agent :: string
  ai_task_id :: "string option"
  ai_messages :: "message list"

definition valid_roles :: "string list" where
  "valid_roles = [''user'', ''assistant'', ''tool_call'', ''tool_result'', ''system'']"

definition tool_call_roles :: "string list" where
  "tool_call_roles = [''tool_call'']"

definition tool_pair_roles :: "string list" where
  "tool_pair_roles = [''tool_call'', ''tool_result'']"

text \<open>Errors name the offending field.\<close>

definition required_ids :: "add_input \<Rightarrow> (string \<times> string) list" where
  "required_ids i = [(''instance_id'', ai_instance i), (''session_id'', ai_session i), (''space_id'', ai_space i),
     (''user_id'', ai_user i), (''team_id'', ai_team i), (''agent_id'', ai_agent i)]"

definition validate_id :: "string \<Rightarrow> string \<Rightarrow> string + unit" where
  "validate_id f v = (if length v = 0 then Inl f else if CHR ''|'' \<in> set v then Inl f else Inr ())"

definition message_field :: "nat \<Rightarrow> string \<Rightarrow> string" where
  "message_field i f = ''messages['' @ dec_int (int i) @ '']'' @ f"

definition validate_message :: "nat \<Rightarrow> message \<Rightarrow> string + unit" where
  "validate_message i m =
     (if m_role m \<notin> set valid_roles then Inl (message_field i ''.role'')
      else if m_role m \<in> set tool_pair_roles then
        (if m_tool_call_id m = None \<or> m_tool_call_id m = Some [] then Inl (message_field i ''.tool_call_id'')
         else if m_tool_name m = Some [] then Inl (message_field i ''.tool_name'')
         else Inr ())
      else Inr ())"

definition validate :: "add_input \<Rightarrow> string + unit" where
  "validate i =
     (case first_error (map (\<lambda>(f, v). validate_id f v) (required_ids i)) of
        Some e \<Rightarrow> Inl e
      | None \<Rightarrow>
          if length (ai_messages i) = 0 then Inl ''messages''
          else (case first_error (map (\<lambda>(n, m). validate_message n m) (enumerate 0 (ai_messages i))) of
                  Some e \<Rightarrow> Inl e
                | None \<Rightarrow> Inr ()))"

definition session_of :: "add_input \<Rightarrow> skill_session_key" where
  "session_of i = \<lparr>sk_instance = ai_instance i, sk_space = ai_space i, sk_user = ai_user i,
     sk_team = ai_team i, sk_agent = ai_agent i, sk_session = ai_session i\<rparr>"

definition count_roles :: "message list \<Rightarrow> string list \<Rightarrow> nat" where
  "count_roles ms roles = length (filter (\<lambda>m. m_role m \<in> set roles) ms)"

section \<open>The handler\<close>

record handler_thresholds =
  ht_tool_call :: nat
  ht_bytes :: nat
  ht_request_compress :: nat

definition default_thresholds :: handler_thresholds where
  "default_thresholds = \<lparr>ht_tool_call = 10, ht_bytes = 40 * 1024, ht_request_compress = 40 * 1024\<rparr>"

record add_handler =
  ah_buffer :: buffer_storage
  ah_thresholds :: handler_thresholds
  ah_compress :: compress_options
  ah_oversize :: oversize_options

datatype archive_reason = ByToolCalls | ByBytes | ByCompressed | ByOversize

record archived_info =
  ad_task_id :: string
  ad_archived_at :: ms
  ad_archive_key :: string
  ad_reason :: archive_reason

text \<open>\<^verbatim>\<open>{ status: "ok" }\<close> or \<^verbatim>\<open>{ status: "archived", archived }\<close>.\<close>

datatype add_result = AddOk | AddArchived archived_info

definition meta_after :: "skill_session_key \<Rightarrow> nat \<Rightarrow> nat \<Rightarrow> ms option \<Rightarrow> ms option \<Rightarrow> session_meta" where
  "meta_after s tools bytes appended archived = \<lparr>sm_session = sk_session s, sm_space = sk_space s,
     sm_user = sk_user s, sm_team = sk_team s, sm_agent = sk_agent s, sm_tool_call_count = tools,
     sm_byte_count = bytes, sm_last_appended = appended, sm_last_archived = archived\<rparr>"

definition use_compress :: "add_handler \<Rightarrow> message list \<Rightarrow> bool" where
  "use_compress h ms \<longleftrightarrow> ht_request_compress (ah_thresholds h) \<le> total_bytes ms"

definition archive_reason_of :: "bool \<Rightarrow> bool \<Rightarrow> bool \<Rightarrow> archive_reason" where
  "archive_reason_of oversize compress tool =
     (if oversize then ByOversize else if compress then ByCompressed
      else if tool then ByToolCalls else ByBytes)"

text \<open>The archive branch, and the branch that only appends.\<close>

definition handle_archive ::
  "'q queue_if \<Rightarrow> add_handler \<Rightarrow> ms \<Rightarrow> ms \<Rightarrow> string \<Rightarrow> add_input \<Rightarrow> message list \<Rightarrow> archive_reason
     \<Rightarrow> ('q, 'c, add_result) sk" where
  "handle_archive Q h now now' uuid i combined reason =
     (let s = session_of i in
      io_bind (trigger_archive Q (ah_buffer h) now uuid
        \<lparr>ti_session = s, ti_buffer = combined, ti_task_ref = ai_task_id i, ti_reason = None, ti_max_iterations = None\<rparr>)
      (\<lambda>res. io_bind (io_both (write_current (ah_buffer h) s [])
                             (write_meta (ah_buffer h) s (meta_after s 0 0 (Some now') (Some (tr_archived_at res)))))
      (\<lambda>u. io_return (AddArchived \<lparr>ad_task_id = tr_task_id res, ad_archived_at = tr_archived_at res,
                                   ad_archive_key = tr_archive_key res, ad_reason = reason\<rparr>))))"

definition handle_append ::
  "add_handler \<Rightarrow> ms \<Rightarrow> add_input \<Rightarrow> message list \<Rightarrow> nat \<Rightarrow> nat \<Rightarrow> session_meta \<Rightarrow> ('q, 'c, add_result) sk" where
  "handle_append h now' i combined next_tool next_bytes meta =
     (let s = session_of i in
      io_bind (io_both (write_current (ah_buffer h) s combined)
                       (write_meta (ah_buffer h) s (meta_after s next_tool next_bytes (Some now') (sm_last_archived meta))))
      (\<lambda>u. io_return AddOk))"

definition handle_read ::
  "'q queue_if \<Rightarrow> add_handler \<Rightarrow> ms \<Rightarrow> ms \<Rightarrow> string \<Rightarrow> add_input \<Rightarrow> message list \<times> session_meta
     \<Rightarrow> ('q, 'c, add_result) sk" where
  "handle_read Q h now now' uuid i = (\<lambda>(current, meta).
     (let ms = ai_messages i;
          compress = use_compress h ms;
          prepared = prepare_archive_payload (ah_compress h) (ah_oversize h) compress current ms;
          next_tool = sm_tool_call_count meta + count_roles ms tool_call_roles;
          next_bytes = sm_byte_count meta + total_bytes ms;
          hit_tool = (ht_tool_call (ah_thresholds h) \<le> next_tool);
          hit_bytes = (ht_bytes (ah_thresholds h) \<le> next_bytes)
      in if compress \<or> hit_tool \<or> hit_bytes
         then handle_archive Q h now now' uuid i (pr_messages prepared)
                (archive_reason_of (pr_used_oversize prepared) compress hit_tool)
         else handle_append h now' i (pr_messages prepared) next_tool next_bytes meta))"

definition handle ::
  "'q queue_if \<Rightarrow> add_handler \<Rightarrow> ms \<Rightarrow> ms \<Rightarrow> string \<Rightarrow> add_input \<Rightarrow> ('q, 'c, add_result) sk" where
  "handle Q h now now' uuid i =
     (case validate i of
        Inl field \<Rightarrow> io_throw field
      | Inr u \<Rightarrow>
          io_bind (io_both (read_current (ah_buffer h) (session_of i)) (read_meta (ah_buffer h) (session_of i)))
            (handle_read Q h now now' uuid i))"

section \<open>What one request does\<close>

definition trigger_input_of :: "add_input \<Rightarrow> message list \<Rightarrow> trigger_input" where
  "trigger_input_of i combined = \<lparr>ti_session = session_of i, ti_buffer = combined,
     ti_task_ref = ai_task_id i, ti_reason = None, ti_max_iterations = None\<rparr>"

definition buffered :: "add_handler \<Rightarrow> skill_session_key \<Rightarrow> files \<Rightarrow> message list" where
  "buffered h s fs = messages_in (fs (current_key (ah_buffer h) s))"

definition counted :: "add_handler \<Rightarrow> skill_session_key \<Rightarrow> files \<Rightarrow> session_meta" where
  "counted h s fs = meta_in s (fs (meta_key (ah_buffer h) s))"

definition combined_of :: "add_handler \<Rightarrow> add_input \<Rightarrow> files \<Rightarrow> message list" where
  "combined_of h i fs = pr_messages (prepare_archive_payload (ah_compress h) (ah_oversize h)
     (use_compress h (ai_messages i)) (buffered h (session_of i) fs) (ai_messages i))"

definition next_tools :: "add_handler \<Rightarrow> add_input \<Rightarrow> files \<Rightarrow> nat" where
  "next_tools h i fs = sm_tool_call_count (counted h (session_of i) fs) + count_roles (ai_messages i) tool_call_roles"

definition next_bytes :: "add_handler \<Rightarrow> add_input \<Rightarrow> files \<Rightarrow> nat" where
  "next_bytes h i fs = sm_byte_count (counted h (session_of i) fs) + total_bytes (ai_messages i)"

definition stays_below :: "add_handler \<Rightarrow> add_input \<Rightarrow> files \<Rightarrow> bool" where
  "stays_below h i fs \<longleftrightarrow> \<not> use_compress h (ai_messages i)
     \<and> next_tools h i fs < ht_tool_call (ah_thresholds h) \<and> next_bytes h i fs < ht_bytes (ah_thresholds h)"

definition with_buffer :: "add_handler \<Rightarrow> skill_session_key \<Rightarrow> message list \<Rightarrow> session_meta \<Rightarrow> files \<Rightarrow> files" where
  "with_buffer h s ms m fs = fs(current_key (ah_buffer h) s \<mapsto> DMessages ms, meta_key (ah_buffer h) s \<mapsto> DMeta m)"

lemma write_both_run:
  assumes "sw_faults w = []"
  shows "io_both (write_current b s ms) (write_meta b s m) w
    = (Inr ((), ()), w\<lparr>sw_files := (sw_files w)(current_key b s \<mapsto> DMessages ms, meta_key b s \<mapsto> DMeta m)\<rparr>)"
  using assms by (simp add: io_both_def write_current_def write_meta_def storage_ops no_faults fault_next_def spent_def)

lemma handle_reads:
  assumes "sw_faults w = []" "validate i = Inr u"
  shows "handle Q h now now' uuid i w
    = handle_read Q h now now' uuid i (buffered h (session_of i) (sw_files w), counted h (session_of i) (sw_files w)) w"
  using assms
  by (simp add: handle_def io_bind_def io_both_def buffer_reads no_faults buffered_def counted_def)

lemma handle_read_append:
  assumes "stays_below h i (sw_files w)" "sw_faults w = []"
  shows "handle_read Q h now now' uuid i (buffered h (session_of i) (sw_files w), counted h (session_of i) (sw_files w)) w
    = (Inr AddOk, w\<lparr>sw_files := with_buffer h (session_of i) (combined_of h i (sw_files w))
        (meta_after (session_of i) (next_tools h i (sw_files w)) (next_bytes h i (sw_files w)) (Some now')
          (sm_last_archived (counted h (session_of i) (sw_files w)))) (sw_files w)\<rparr>)"
  using assms
  by (simp add: handle_read_def Let_def stays_below_def next_tools_def next_bytes_def handle_append_def
      io_bind_def write_both_run io_return_def with_buffer_def combined_of_def not_le)

lemma handle_read_archive:
  assumes "\<not> stays_below h i (sw_files w)"
  shows "\<exists>reason. handle_read Q h now now' uuid i (buffered h (session_of i) (sw_files w), counted h (session_of i) (sw_files w)) w
    = handle_archive Q h now now' uuid i (combined_of h i (sw_files w)) reason w"
proof -
  have "use_compress h (ai_messages i) \<or> ht_tool_call (ah_thresholds h) \<le> next_tools h i (sw_files w)
      \<or> ht_bytes (ah_thresholds h) \<le> next_bytes h i (sw_files w)"
    using assms by (auto simp: stays_below_def)
  then show ?thesis
    unfolding handle_read_def prod.case Let_def next_tools_def [symmetric] next_bytes_def [symmetric]
      combined_of_def [symmetric] by (simp only: if_True) blast
qed

text \<open>The files after a successful archive.\<close>

definition archived_files :: "add_handler \<Rightarrow> ms \<Rightarrow> ms \<Rightarrow> string \<Rightarrow> add_input \<Rightarrow> files \<Rightarrow> files" where
  "archived_files h now now' uuid i fs =
     (let b = ah_buffer h; s = session_of i; inp = trigger_input_of i (combined_of h i fs); a = agent_of s
      in with_buffer h s [] (meta_after s 0 0 (Some now') (Some now))
           ((with_archive b now inp fs)
              (tasks_key b a \<mapsto> with_task a (archive_entry b now uuid inp) now (fs (tasks_key b a)))))"

lemma handle_archive_run:
  fixes w :: "(local_agent_queue, 'c) skill_world" and h :: add_handler and i :: add_input
  assumes "sw_faults w = []"
  defines "inp \<equiv> trigger_input_of i (combined_of h i (sw_files w))"
  shows "(\<exists>e w'. handle_archive (local_queue_if c) h now now' uuid i (combined_of h i (sw_files w)) reason w = (Inl e, w')
            \<and> sw_faults w' = []
            \<and> (sw_files w' = sw_files w \<or> sw_files w' = with_archive (ah_buffer h) now inp (sw_files w)))
       \<or> (\<exists>w' d. handle_archive (local_queue_if c) h now now' uuid i (combined_of h i (sw_files w)) reason w = (Inr (AddArchived d), w')
            \<and> sw_faults w' = [] \<and> ad_archive_key d = archive_key (ah_buffer h) (session_of i) now
            \<and> sw_files w' = archived_files h now now' uuid i (sw_files w))"
proof -
  have s: "ti_session inp = session_of i" by (simp add: inp_def trigger_input_of_def)
  have fold: "\<lparr>ti_session = session_of i, ti_buffer = combined_of h i (sw_files w), ti_task_ref = ai_task_id i,
      ti_reason = None, ti_max_iterations = None\<rparr> = inp" by (simp add: inp_def trigger_input_of_def)
  obtain r w1 where t: "trigger_archive (local_queue_if c) (ah_buffer h) now uuid inp w = (r, w1)"
    by (cases "trigger_archive (local_queue_if c) (ah_buffer h) now uuid inp w")
  have f: "sw_faults w1 = []"
    using clear_trigger [of "local_queue_if c" "ah_buffer h" now uuid inp] assms(1) t
    unfolding keeps_clear_def by (metis snd_conv)
  from trigger_outcome [of c "ah_buffer h" now uuid inp w] show ?thesis
  proof (elim disjE exE conjE)
    fix w'
    assume o': "trigger_archive (local_queue_if c) (ah_buffer h) now uuid inp w
        = (Inr (trigger_result_of (ah_buffer h) now uuid inp), w')"
      and fs: "sw_files w' = (with_archive (ah_buffer h) now inp (sw_files w))
         (tasks_key (ah_buffer h) (agent_of (ti_session inp)) \<mapsto>
           with_task (agent_of (ti_session inp)) (archive_entry (ah_buffer h) now uuid inp) now
             (sw_files w (tasks_key (ah_buffer h) (agent_of (ti_session inp)))))"
    from o' t have w1: "w1 = w'" by simp
    have "handle_archive (local_queue_if c) h now now' uuid i (combined_of h i (sw_files w)) reason w
      = (Inr (AddArchived \<lparr>ad_task_id = task_id_of uuid, ad_archived_at = now,
              ad_archive_key = archive_key (ah_buffer h) (session_of i) now, ad_reason = reason\<rparr>),
         w'\<lparr>sw_files := with_buffer h (session_of i) [] (meta_after (session_of i) 0 0 (Some now') (Some now)) (sw_files w')\<rparr>)"
      using o' f w1
      by (simp add: handle_archive_def Let_def fold io_bind_def write_both_run io_return_def trigger_result_of_def
          with_buffer_def s)
    then show ?thesis
      using fs f w1 by (auto simp: archived_files_def Let_def inp_def [symmetric] s)
  qed (use f t in \<open>auto simp: handle_archive_def Let_def fold io_bind_def\<close>)
qed

lemma handle_outcome:
  fixes w :: "(local_agent_queue, 'c) skill_world"
  assumes w: "sw_faults w = []" and run: "handle (local_queue_if c) h now now' uuid i w = (r, w')"
  shows "sw_faults w' = []
    \<and> ((\<exists>e. r = Inl e \<and> (sw_files w' = sw_files w
            \<or> sw_files w' = with_archive (ah_buffer h) now (trigger_input_of i (combined_of h i (sw_files w))) (sw_files w)))
     \<or> r = Inr AddOk \<and> stays_below h i (sw_files w)
         \<and> sw_files w' = with_buffer h (session_of i) (combined_of h i (sw_files w))
             (meta_after (session_of i) (next_tools h i (sw_files w)) (next_bytes h i (sw_files w)) (Some now')
                (sm_last_archived (counted h (session_of i) (sw_files w)))) (sw_files w)
     \<or> (\<exists>d. r = Inr (AddArchived d) \<and> \<not> stays_below h i (sw_files w)
         \<and> ad_archive_key d = archive_key (ah_buffer h) (session_of i) now
         \<and> sw_files w' = archived_files h now now' uuid i (sw_files w)))"
proof (cases "validate i")
  case (Inl e)
  then show ?thesis using w run by (auto simp: handle_def io_throw_def)
next
  case (Inr u)
  note hr = handle_reads [OF w Inr, of "local_queue_if c" h now now' uuid]
  show ?thesis
  proof (cases "stays_below h i (sw_files w)")
    case True
    then show ?thesis using run w unfolding hr handle_read_append [OF True w] by auto
  next
    case False
    obtain reason where ra: "handle_read (local_queue_if c) h now now' uuid i
        (buffered h (session_of i) (sw_files w), counted h (session_of i) (sw_files w)) w
      = handle_archive (local_queue_if c) h now now' uuid i (combined_of h i (sw_files w)) reason w"
      using handle_read_archive [OF False] by blast
    from handle_archive_run [OF w, of c h now now' uuid i reason] run False show ?thesis
      unfolding hr ra by (elim disjE exE conjE) auto
  qed
qed

section \<open>Runs\<close>

record add_event =
  ev_caller :: caller
  ev_now :: ms
  ev_done :: ms
  ev_uuid :: string
  ev_input :: add_input

fun add_run ::
  "add_handler \<Rightarrow> add_event list \<Rightarrow> (local_agent_queue, 'c) skill_world
     \<Rightarrow> (string + add_result) list \<times> (local_agent_queue, 'c) skill_world" where
  "add_run h [] w = ([], w)"
| "add_run h (e # es) w =
     (let (r, w1) = handle (local_queue_if (ev_caller e)) h (ev_now e) (ev_done e) (ev_uuid e) (ev_input e) w;
          (rs, w2) = add_run h es w1
      in (r # rs, w2))"

definition fresh_world :: "(local_agent_queue, 'c) skill_world" where
  "fresh_world = \<lparr>sw_files = Map.empty, sw_faults = [], sw_queue = aq_empty, sw_applied = []\<rparr>"

definition small_request :: "add_handler \<Rightarrow> add_event \<Rightarrow> bool" where
  "small_request h e \<longleftrightarrow> total_bytes (ai_messages (ev_input e)) < ht_request_compress (ah_thresholds h)"

text \<open>Requests to the session of the given one (two sessions are the same when their directories are).\<close>

definition same_session :: "add_handler \<Rightarrow> skill_session_key \<Rightarrow> add_event \<Rightarrow> bool" where
  "same_session h s e \<longleftrightarrow> session_dir (ah_buffer h) (session_of (ev_input e)) = session_dir (ah_buffer h) s"

fun accepted_messages :: "add_handler \<Rightarrow> skill_session_key \<Rightarrow> add_event list \<Rightarrow> (string + add_result) list \<Rightarrow> message list" where
  "accepted_messages h s (e # es) (r # rs) =
     (if same_session h s e \<and> (\<exists>x. r = Inr x) then ai_messages (ev_input e) else []) @ accepted_messages h s es rs"
| "accepted_messages h s es rs = []"

fun archive_keys :: "add_handler \<Rightarrow> skill_session_key \<Rightarrow> add_event list \<Rightarrow> (string + add_result) list \<Rightarrow> string list" where
  "archive_keys h s (e # es) (r # rs) =
     (case r of Inr (AddArchived d) \<Rightarrow> if same_session h s e then [ad_archive_key d] else [] | _ \<Rightarrow> [])
       @ archive_keys h s es rs"
| "archive_keys h s es rs = []"

definition archived_messages :: "string list \<Rightarrow> files \<Rightarrow> message list" where
  "archived_messages ks fs = concat (map (\<lambda>k. messages_in (fs k)) ks)"

text \<open>The counters describe the buffer, and the buffer is below both thresholds.\<close>

definition buffer_ok :: "add_handler \<Rightarrow> skill_session_key \<Rightarrow> files \<Rightarrow> bool" where
  "buffer_ok h s fs \<longleftrightarrow>
     sm_byte_count (counted h s fs) = total_bytes (buffered h s fs)
     \<and> sm_tool_call_count (counted h s fs) = count_roles (buffered h s fs) tool_call_roles
     \<and> total_bytes (buffered h s fs) < ht_bytes (ah_thresholds h)
     \<and> count_roles (buffered h s fs) tool_call_roles < ht_tool_call (ah_thresholds h)"

lemma count_roles_append [simp]: "count_roles (xs @ ys) r = count_roles xs r + count_roles ys r"
  by (simp add: count_roles_def)

lemma session_keys_eq:
  "current_key b s = current_key b s' \<longleftrightarrow> session_dir b s = session_dir b s'"
  "meta_key b s = meta_key b s' \<longleftrightarrow> session_dir b s = session_dir b s'"
  "archive_key b s t = archive_key b s' t' \<longleftrightarrow> session_dir b s = session_dir b s' \<and> t = t'"
  by (simp_all add: key_forms sep_append_eq_last archive_name_slash)

lemma same_dir_views:
  assumes "session_dir (ah_buffer h) s = session_dir (ah_buffer h) s'"
  shows "buffered h s fs = buffered h s' fs"
    and "sm_byte_count (counted h s fs) = sm_byte_count (counted h s' fs)"
    and "sm_tool_call_count (counted h s fs) = sm_tool_call_count (counted h s' fs)"
proof -
  have k: "current_key (ah_buffer h) s = current_key (ah_buffer h) s'" "meta_key (ah_buffer h) s = meta_key (ah_buffer h) s'"
    using assms by (simp_all add: session_keys_eq)
  show "buffered h s fs = buffered h s' fs" by (simp add: buffered_def k)
  show "sm_byte_count (counted h s fs) = sm_byte_count (counted h s' fs)"
    "sm_tool_call_count (counted h s fs) = sm_tool_call_count (counted h s' fs)"
    by (auto simp: counted_def k meta_in_def default_meta_def split: option.split doc.split)
qed

lemma combined_append: "\<not> use_compress h (ai_messages i) \<Longrightarrow> combined_of h i fs = buffered h (session_of i) fs @ ai_messages i"
  by (simp add: combined_of_def prepare_archive_payload_def Let_def)

lemma with_archive_views [simp]:
  "buffered h s (with_archive b' now inp fs) = buffered h s fs"
  "counted h s (with_archive b' now inp fs) = counted h s fs"
  by (auto simp: buffered_def counted_def with_archive_def Let_def key_forms sep_append_eq_last archive_name_slash
      archive_name_kinds [symmetric])

lemma with_buffer_views:
  "buffered h s (with_buffer h s' ms m fs)
     = (if session_dir (ah_buffer h) s = session_dir (ah_buffer h) s' then ms else buffered h s fs)"
  "sm_byte_count (counted h s (with_buffer h s' ms m fs))
     = (if session_dir (ah_buffer h) s = session_dir (ah_buffer h) s' then sm_byte_count m else sm_byte_count (counted h s fs))"
  "sm_tool_call_count (counted h s (with_buffer h s' ms m fs))
     = (if session_dir (ah_buffer h) s = session_dir (ah_buffer h) s' then sm_tool_call_count m
        else sm_tool_call_count (counted h s fs))"
  by (auto simp: with_buffer_def buffered_def counted_def messages_in_def meta_in_def session_keys_eq)

lemma archived_files_views:
  "buffered h s (archived_files h now now' uuid i fs)
     = (if session_dir (ah_buffer h) s = session_dir (ah_buffer h) (session_of i) then [] else buffered h s fs)"
  "sm_byte_count (counted h s (archived_files h now now' uuid i fs))
     = (if session_dir (ah_buffer h) s = session_dir (ah_buffer h) (session_of i) then 0 else sm_byte_count (counted h s fs))"
  "sm_tool_call_count (counted h s (archived_files h now now' uuid i fs))
     = (if session_dir (ah_buffer h) s = session_dir (ah_buffer h) (session_of i) then 0
        else sm_tool_call_count (counted h s fs))"
proof -
  let ?b = "ah_buffer h" and ?a = "agent_of (session_of i)"
  have t: "buffered h s (fs'(tasks_key ?b ?a \<mapsto> d)) = buffered h s fs'"
    "counted h s (fs'(tasks_key ?b ?a \<mapsto> d)) = counted h s fs'" for fs' d
    by (simp_all add: buffered_def counted_def)
  show "buffered h s (archived_files h now now' uuid i fs)
     = (if session_dir (ah_buffer h) s = session_dir (ah_buffer h) (session_of i) then [] else buffered h s fs)"
    "sm_byte_count (counted h s (archived_files h now now' uuid i fs))
     = (if session_dir (ah_buffer h) s = session_dir (ah_buffer h) (session_of i) then 0 else sm_byte_count (counted h s fs))"
    "sm_tool_call_count (counted h s (archived_files h now now' uuid i fs))
     = (if session_dir (ah_buffer h) s = session_dir (ah_buffer h) (session_of i) then 0
        else sm_tool_call_count (counted h s fs))"
    by (simp_all add: archived_files_def Let_def with_buffer_views t meta_after_def)
qed

lemma handle_buffer_ok:
  fixes w :: "(local_agent_queue, 'c) skill_world"
  assumes "0 < ht_bytes (ah_thresholds h)" "0 < ht_tool_call (ah_thresholds h)"
    and w: "sw_faults w = []" and run: "handle (local_queue_if c) h now now' uuid i w = (r, w')"
    and ok: "\<And>s. buffer_ok h s (sw_files w)"
  shows "buffer_ok h s (sw_files w')"
proof -
  let ?fs = "sw_files w"
  have arch: "buffer_ok h s (archived_files h now now' uuid i ?fs)"
    using ok [of s] assms(1,2) by (auto simp: buffer_ok_def archived_files_views count_roles_def)
  have kept: "buffer_ok h s (with_archive b now inp ?fs)" for b inp
    using ok [of s] by (simp add: buffer_ok_def)
  have app: "buffer_ok h s (with_buffer h (session_of i) (combined_of h i ?fs)
      (meta_after (session_of i) (next_tools h i ?fs) (next_bytes h i ?fs) x y) ?fs)" if "stays_below h i ?fs" for x y
  proof -
    from that have n: "\<not> use_compress h (ai_messages i)" by (simp add: stays_below_def)
    show ?thesis
      using that ok [of s] ok [of "session_of i"]
      by (auto simp: buffer_ok_def with_buffer_views combined_append [OF n] meta_after_def next_bytes_def next_tools_def
          stays_below_def)
  qed
  from handle_outcome [OF w run] show ?thesis
    using arch kept app ok [of s] by (elim conjE disjE exE) auto
qed

lemma add_run_buffer_ok:
  assumes "0 < ht_bytes (ah_thresholds h)" "0 < ht_tool_call (ah_thresholds h)"
    and "sw_faults w = []" "\<And>s. buffer_ok h s (sw_files w)"
  shows "sw_faults (snd (add_run h es w)) = [] \<and> buffer_ok h s (sw_files (snd (add_run h es w)))"
  using assms(3,4)
proof (induction es arbitrary: w)
  case (Cons e es)
  obtain r w1 where st: "handle (local_queue_if (ev_caller e)) h (ev_now e) (ev_done e) (ev_uuid e) (ev_input e) w = (r, w1)"
    by (cases "handle (local_queue_if (ev_caller e)) h (ev_now e) (ev_done e) (ev_uuid e) (ev_input e) w")
  have "sw_faults w1 = []" using handle_outcome [OF Cons.prems(1) st] by blast
  moreover have "buffer_ok h s (sw_files w1)" for s
    by (rule handle_buffer_ok [OF assms(1,2) Cons.prems(1) st Cons.prems(2)])
  ultimately show ?case using Cons.IH [of w1] st by (simp add: split_beta)
qed simp

text \<open>One small request, seen from a session's files.\<close>

lemma handle_step_session:
  fixes w :: "(local_agent_queue, 'c) skill_world" and h :: add_handler and s :: skill_session_key
  assumes w: "sw_faults w = []"
    and run: "handle (local_queue_if (ev_caller e)) h (ev_now e) (ev_done e) (ev_uuid e) (ev_input e) w = (r, w1)"
    and small: "small_request h e"
    and new: "sw_files w (archive_key (ah_buffer h) s (ev_now e)) = None"
  defines "ak \<equiv> archive_key (ah_buffer h) s" and "ms \<equiv> ai_messages (ev_input e)"
  shows "(\<forall>t. sw_files w (ak t) \<noteq> None \<longrightarrow> sw_files w1 (ak t) = sw_files w (ak t))
    \<and> (\<forall>t. sw_files w1 (ak t) \<noteq> None \<longrightarrow> sw_files w (ak t) \<noteq> None \<or> t = ev_now e)
    \<and> (if \<not> same_session h s e then buffered h s (sw_files w1) = buffered h s (sw_files w)
       else case r of
              Inl x \<Rightarrow> buffered h s (sw_files w1) = buffered h s (sw_files w)
            | Inr AddOk \<Rightarrow> buffered h s (sw_files w1) = buffered h s (sw_files w) @ ms
            | Inr (AddArchived d) \<Rightarrow> ad_archive_key d = ak (ev_now e)
                \<and> sw_files w1 (ak (ev_now e)) = Some (DMessages (buffered h s (sw_files w) @ ms))
                \<and> buffered h s (sw_files w1) = [])"
proof -
  let ?i = "ev_input e" and ?fs = "sw_files w"
  let ?inp = "trigger_input_of ?i (combined_of h ?i ?fs)"
  have n: "\<not> use_compress h ms" using small by (simp add: small_request_def use_compress_def ms_def)
  have comb: "same_session h s e \<Longrightarrow> combined_of h ?i ?fs = buffered h s ?fs @ ms"
    using combined_append [of h ?i ?fs] n same_dir_views(1) [of h "session_of ?i" s ?fs]
    by (simp add: same_session_def ms_def)
  have si: "ti_session (trigger_input_of j x) = session_of j" "ti_buffer (trigger_input_of j x) = x" for j x
    by (simp_all add: trigger_input_of_def)
  have sd: "same_session h s e \<longleftrightarrow> session_dir (ah_buffer h) s = session_dir (ah_buffer h) (session_of ?i)"
    by (auto simp: same_session_def)
  have key: "archive_key (ah_buffer h) (session_of ?i) t' = ak t \<longleftrightarrow> same_session h s e \<and> t' = t" for t t'
    by (auto simp: sd ak_def session_keys_eq)
  have wa: "with_archive (ah_buffer h) (ev_now e) ?inp ?fs (ak t) =
      (if same_session h s e \<and> t = ev_now e then Some (DMessages (buffered h s ?fs @ ms)) else ?fs (ak t))" for t
  proof (cases "same_session h s e")
    case True
    then have "archive_key (ah_buffer h) (session_of ?i) (ev_now e) = ak (ev_now e)" by (simp add: key)
    then show ?thesis using True new comb
      by (simp add: with_archive_def Let_def si ak_def [symmetric]) (simp add: ak_def)
  next
    case False
    then have "ak t \<noteq> archive_key (ah_buffer h) (session_of ?i) (ev_now e)" using key by metis
    then show ?thesis using False by (simp add: with_archive_def Let_def si)
  qed
  have wb: "with_buffer h s' x m fs (ak t) = fs (ak t)" for s' x m fs t
    by (auto simp: with_buffer_def ak_def key_forms sep_append_eq_last archive_name_slash)
  have af: "archived_files h (ev_now e) d (ev_uuid e) ?i ?fs (ak t) = with_archive (ah_buffer h) (ev_now e) ?inp ?fs (ak t)"
    for d t by (simp only: archived_files_def Let_def wb) (simp add: ak_def)
  from handle_outcome [OF w run] consider
      (same) x where "r = Inl x" "sw_files w1 = ?fs"
    | (orphan) x where "r = Inl x" "sw_files w1 = with_archive (ah_buffer h) (ev_now e) ?inp ?fs"
    | (ok) m where "r = Inr AddOk" "sw_files w1 = with_buffer h (session_of ?i) (combined_of h ?i ?fs) m ?fs"
    | (archived) d where "r = Inr (AddArchived d)" "ad_archive_key d = archive_key (ah_buffer h) (session_of ?i) (ev_now e)"
        "sw_files w1 = archived_files h (ev_now e) (ev_done e) (ev_uuid e) ?i ?fs"
    by blast
  then show ?thesis
  proof cases
    case orphan
    then show ?thesis using new [folded ak_def] by (auto simp: wa)
  next
    case ok
    then show ?thesis using comb sd by (auto simp: wb with_buffer_views)
  next
    case archived
    then show ?thesis using new [folded ak_def] key sd by (auto simp: af wa archived_files_views)
  qed simp_all
qed

lemma add_run_conserves:
  fixes w :: "(local_agent_queue, 'c) skill_world" and h :: add_handler and s :: skill_session_key
  defines "ak \<equiv> archive_key (ah_buffer h) s"
  assumes "sw_faults w = []" "sorted_wrt (<) (map ev_now es)" "list_all (small_request h) es"
    and "\<forall>t. sw_files w (ak t) \<noteq> None \<longrightarrow> (\<forall>e \<in> set es. t < ev_now e)"
    and "add_run h es w = (rs, w')"
  shows "archived_messages (archive_keys h s es rs) (sw_files w') @ buffered h s (sw_files w')
      = buffered h s (sw_files w) @ accepted_messages h s es rs
    \<and> (\<forall>t. sw_files w (ak t) \<noteq> None \<longrightarrow> sw_files w' (ak t) = sw_files w (ak t))"
  using assms(2-)
proof (induction es arbitrary: w rs)
  case Nil
  then show ?case by (simp add: archived_messages_def)
next
  case (Cons e es)
  obtain r w1 where st: "handle (local_queue_if (ev_caller e)) h (ev_now e) (ev_done e) (ev_uuid e) (ev_input e) w = (r, w1)"
    by (cases "handle (local_queue_if (ev_caller e)) h (ev_now e) (ev_done e) (ev_uuid e) (ev_input e) w")
  obtain rs1 where rr: "add_run h es w1 = (rs1, w')" "rs = r # rs1"
    using Cons.prems(5) st by (cases "add_run h es w1") simp
  have new: "sw_files w (ak (ev_now e)) = None"
    using Cons.prems(4) by (metis less_irrefl list.set_intros(1))
  have small: "small_request h e" "list_all (small_request h) es" using Cons.prems(3) by simp_all
  note step = handle_step_session [OF Cons.prems(1) st small(1) new [unfolded ak_def]]
  have clear: "sw_faults w1 = []" using handle_outcome [OF Cons.prems(1) st] by blast
  have kept: "\<forall>t. sw_files w (ak t) \<noteq> None \<longrightarrow> sw_files w1 (ak t) = sw_files w (ak t)"
    and made: "\<forall>t. sw_files w1 (ak t) \<noteq> None \<longrightarrow> sw_files w (ak t) \<noteq> None \<or> t = ev_now e"
    using step unfolding ak_def by (blast, blast)
  have older: "\<forall>t. sw_files w1 (ak t) \<noteq> None \<longrightarrow> (\<forall>e' \<in> set es. t < ev_now e')"
  proof (intro allI impI ballI)
    fix t e'
    assume "sw_files w1 (ak t) \<noteq> None" and e': "e' \<in> set es"
    then consider "sw_files w (ak t) \<noteq> None" | "t = ev_now e" using made by blast
    then show "t < ev_now e'"
      using Cons.prems(2,4) e' by cases auto
  qed
  from Cons.IH [OF clear _ small(2) older rr(1)] Cons.prems(2) have ih:
    "archived_messages (archive_keys h s es rs1) (sw_files w') @ buffered h s (sw_files w')
      = buffered h s (sw_files w1) @ accepted_messages h s es rs1"
    "\<forall>t. sw_files w1 (ak t) \<noteq> None \<longrightarrow> sw_files w' (ak t) = sw_files w1 (ak t)" by simp_all
  have frame: "\<forall>t. sw_files w (ak t) \<noteq> None \<longrightarrow> sw_files w' (ak t) = sw_files w (ak t)"
    using ih(2) kept by simp
  show ?case
  proof (cases "same_session h s e \<and> (\<exists>d. r = Inr (AddArchived d))")
    case True
    then obtain d where d: "r = Inr (AddArchived d)" "same_session h s e" by blast
    with step have a: "ad_archive_key d = ak (ev_now e)" "buffered h s (sw_files w1) = []"
      "sw_files w1 (ak (ev_now e)) = Some (DMessages (buffered h s (sw_files w) @ ai_messages (ev_input e)))"
      unfolding ak_def by simp_all
    then have "sw_files w' (ak (ev_now e)) = Some (DMessages (buffered h s (sw_files w) @ ai_messages (ev_input e)))"
      using ih(2) by simp
    then show ?thesis
      using frame ih(1) d a rr(2) by (simp add: archived_messages_def messages_in_def)
  next
    case False
    then show ?thesis
      using frame ih(1) step rr(2)
      by (auto simp: archived_messages_def split: sum.splits add_result.splits if_splits)
  qed
qed

lemma fresh_world_faults: "sw_faults fresh_world = []"
  by (simp add: fresh_world_def)

lemma fresh_buffer_ok:
  assumes "0 < ht_bytes (ah_thresholds h)" "0 < ht_tool_call (ah_thresholds h)"
  shows "buffer_ok h s (sw_files fresh_world)"
  using assms
  by (simp add: buffer_ok_def buffered_def counted_def fresh_world_def messages_in_def meta_in_def default_meta_def
      count_roles_def)

section \<open>Properties\<close>

text \<open>
  C36: with working storage and positive thresholds, after any run of requests the counters of
  every session are exactly the bytes and tool calls of the messages it has buffered, both stay
  below their thresholds, and the next request below the compression threshold is archived or
  appended with fewer bytes than the two thresholds together (the default chunk size).
\<close>

theorem session_buffer_bounded:
  assumes "0 < ht_bytes (ah_thresholds h)" "0 < ht_tool_call (ah_thresholds h)"
  shows "let fs = sw_files (snd (add_run h es (fresh_world :: (local_agent_queue, 'c) skill_world))) in
    sm_byte_count (counted h s fs) = total_bytes (buffered h s fs)
    \<and> sm_tool_call_count (counted h s fs) = count_roles (buffered h s fs) tool_call_roles
    \<and> total_bytes (buffered h s fs) < ht_bytes (ah_thresholds h)
    \<and> count_roles (buffered h s fs) tool_call_roles < ht_tool_call (ah_thresholds h)
    \<and> (use_compress h (ai_messages i)
       \<or> total_bytes (combined_of h i fs) < ht_bytes (ah_thresholds h) + ht_request_compress (ah_thresholds h))"
proof -
  have ok: "buffer_ok h s' (sw_files (snd (add_run h es (fresh_world :: (local_agent_queue, 'c) skill_world))))" for s'
    by (rule add_run_buffer_ok [OF assms fresh_world_faults fresh_buffer_ok [OF assms], THEN conjunct2])
  have fits: "use_compress h (ai_messages i) \<or>
      total_bytes (combined_of h i (sw_files (snd (add_run h es (fresh_world :: (local_agent_queue, 'c) skill_world)))))
        < ht_bytes (ah_thresholds h) + ht_request_compress (ah_thresholds h)"
  proof (cases "use_compress h (ai_messages i)")
    case False
    with ok [of "session_of i"] show ?thesis
      unfolding combined_append [OF False] by (simp add: buffer_ok_def use_compress_def)
  qed simp
  show ?thesis
    using ok [of s] fits unfolding buffer_ok_def Let_def by (intro conjI) simp_all
qed

definition demo_handler :: "nat \<Rightarrow> add_handler" where
  "demo_handler tools = \<lparr>ah_buffer = new_buffer None,
     ah_thresholds = \<lparr>ht_tool_call = tools, ht_bytes = 150, ht_request_compress = 80\<rparr>,
     ah_compress = \<lparr>co_threshold = 40, co_head = 10, co_tail = 10, co_placeholder = ''...''\<rparr>,
     ah_oversize = \<lparr>oo_chunk_max = 230, oo_head_keep = 90, oo_tail_keep = 90, oo_template = ''{n}/{bytes}''\<rparr>\<rparr>"

definition demo_call :: "string \<Rightarrow> message" where
  "demo_call text = \<lparr>m_role = ''tool_call'', m_content = text, m_tool_name = None,
     m_tool_call_id = Some ''c'', m_timestamp = None, m_metadata = None\<rparr>"

definition demo_event :: "ms \<Rightarrow> string \<Rightarrow> add_event" where
  "demo_event t text = \<lparr>ev_caller = \<lparr>cl_now = t, cl_mutex_ttl = 10000, cl_deadline = t + 30000,
       cl_mutex_token = ''m'', cl_lock_token = ''l''\<rparr>,
     ev_now = t, ev_done = t, ev_uuid = ''01234567'',
     ev_input = \<lparr>ai_instance = ''i'', ai_session = ''s'', ai_space = ''p'', ai_user = ''u'', ai_team = ''t'',
       ai_agent = ''a'', ai_task_id = None, ai_messages = [demo_call text]\<rparr>\<rparr>"

theorem session_buffer_bounded_witness:
  "sm_tool_call_count (counted (demo_handler 2) demo_session
      (sw_files (snd (add_run (demo_handler 2) [demo_event 1 ''x''] (fresh_world :: (_, nat) skill_world)))))
    = count_roles (buffered (demo_handler 2) demo_session
      (sw_files (snd (add_run (demo_handler 2) [demo_event 1 ''x''] (fresh_world :: (_, nat) skill_world))))) tool_call_roles"
proof -
  have p: "0 < ht_bytes (ah_thresholds (demo_handler 2))" "0 < ht_tool_call (ah_thresholds (demo_handler 2))"
    by (simp_all add: demo_handler_def)
  show ?thesis
    using session_buffer_bounded [OF p, of "[demo_event 1 ''x'']" demo_session] unfolding Let_def by blast
qed

text \<open>
  C30: no accepted message is lost, duplicated or reordered. In a run of requests (of any
  sessions, interleaved) below the compression threshold, with working storage and strictly
  increasing archive times, the archives written for a session followed by its buffer are
  exactly the messages of the requests that were accepted for it, in order; rejected requests
  (validation, a mutex timeout, a left-over archive) leave no trace in them.
\<close>

theorem accepted_messages_archived:
  assumes "sorted_wrt (<) (map ev_now es)" "list_all (small_request h) es"
  shows "case add_run h es (fresh_world :: (local_agent_queue, 'c) skill_world) of (rs, w) \<Rightarrow>
     archived_messages (archive_keys h s es rs) (sw_files w) @ buffered h s (sw_files w) = accepted_messages h s es rs"
proof -
  obtain rs w where r: "add_run h es (fresh_world :: (local_agent_queue, 'c) skill_world) = (rs, w)" by (cases "add_run h es (fresh_world :: (local_agent_queue, 'c) skill_world)")
  have "archived_messages (archive_keys h s es rs) (sw_files w) @ buffered h s (sw_files w)
      = buffered h s (sw_files (fresh_world :: (local_agent_queue, 'c) skill_world)) @ accepted_messages h s es rs"
    using add_run_conserves [OF fresh_world_faults assms _ r, of s] by (simp add: fresh_world_def)
  then show ?thesis by (simp add: r) (simp add: buffered_def fresh_world_def messages_in_def)
qed

theorem accepted_messages_archived_witness:
  "case add_run (demo_handler 2) [demo_event 1 ''x'', demo_event 2 ''y'', demo_event 3 ''z''] (fresh_world :: (_, nat) skill_world) of
     (rs, w) \<Rightarrow>
       archived_messages (archive_keys (demo_handler 2) demo_session [demo_event 1 ''x'', demo_event 2 ''y'', demo_event 3 ''z''] rs) (sw_files w)
         @ buffered (demo_handler 2) demo_session (sw_files w)
       = accepted_messages (demo_handler 2) demo_session [demo_event 1 ''x'', demo_event 2 ''y'', demo_event 3 ''z''] rs"
  by (rule accepted_messages_archived) code_simp+

text \<open>
  archives are named by the millisecond. Two requests of one session archived in the same
  millisecond both resolve, but the second archive is taken for the first: its messages are in
  no file, while two tasks point to the same archive.
\<close>

theorem same_millisecond_archive_lost:
  "case add_run (demo_handler 1) [demo_event 5 ''first'', demo_event 5 ''second''] (fresh_world :: (_, nat) skill_world) of
     (rs, w) \<Rightarrow>
       list_all (\<lambda>r. case r of Inr (AddArchived d) \<Rightarrow> True | _ \<Rightarrow> False) rs
       \<and> map te_archive_key (td_tasks (tasks_in (agent_of demo_session)
             (sw_files w (tasks_key (new_buffer None) (agent_of demo_session)))))
           = [archive_key (new_buffer None) demo_session 5, archive_key (new_buffer None) demo_session 5]
       \<and> messages_in (sw_files w (archive_key (new_buffer None) demo_session 5)) = [demo_call ''first'']
       \<and> buffered (demo_handler 1) demo_session (sw_files w) = []"
  by code_simp

end
