(* ===== verification/Skill_System.thy ===== *)
theory Skill_System
  imports Worker_Pool Skill_Add
begin

text \<open>
  The skill pipeline as a whole: requests, triggers, workers and the pool act on one storage and
  one queue, their critical sections and single calls interleaved in any order, any storage call
  failing, any worker stopping between two of its sections. The invariant is that a task file
  with tasks always has a queued agent; the contract of the queue carries it through every
  section, and it is then instantiated for the in-process queue.
\<close>

section \<open>Sections keep pending tasks served\<close>

definition servable :: "agent_tuple \<Rightarrow> bool" where
  "servable a \<longleftrightarrow> tuple_ok a \<and> at_instance a \<noteq> legacy_instance_id"

lemma servable_raw_key: "servable a \<Longrightarrow> servable_raw (tuple_key a)"
  by (simp add: servable_def servable_raw_def parse_tuple_key)

text \<open>Files in which every task list belongs to an agent of the given set.\<close>

definition covered :: "buffer_storage \<Rightarrow> string set \<Rightarrow> files \<Rightarrow> bool" where
  "covered b known fs \<longleftrightarrow>
     (\<forall>k d. fs k = Some (DTasks d) \<longrightarrow> td_tasks d \<noteq> [] \<longrightarrow>
        (\<exists>a. servable a \<and> tasks_key b a = k \<and> tuple_key a \<in> known))
     \<and> (\<forall>a t. fs (tasks_key b a) \<noteq> Some (DDead t))"

lemma covered_mono: "covered b K fs \<Longrightarrow> K \<subseteq> K' \<Longrightarrow> covered b K' fs"
  by (fastforce simp: covered_def)

lemma covered_other_doc:
  assumes "covered b K fs" "\<And>d. x \<noteq> DTasks d" "(\<forall>d. x \<noteq> DDead d) \<or> (\<exists>a. k = dlq_key b a)"
  shows "covered b K (fs(k \<mapsto> x))"
  using assms by (auto simp: covered_def)

lemma covered_tasks:
  assumes "covered b K fs"
    and "td_tasks d \<noteq> [] \<Longrightarrow> \<exists>a'. servable a' \<and> tasks_key b a' = tasks_key b a \<and> tuple_key a' \<in> K"
  shows "covered b K (fs(tasks_key b a \<mapsto> DTasks d))"
  using assms by (auto simp: covered_def)

lemma covered_pending:
  assumes "covered b K fs" "pending_tasks b a fs \<noteq> []"
  shows "\<exists>a'. servable a' \<and> tasks_key b a' = tasks_key b a \<and> tuple_key a' \<in> K"
proof -
  obtain d where "fs (tasks_key b a) = Some (DTasks d)" "td_tasks d \<noteq> []"
    using assms
    by (auto simp: pending_tasks_def tasks_in_def covered_def default_tasks_def split: option.splits doc.splits)
  with assms(1) show ?thesis by (auto simp: covered_def)
qed

lemma covered_drop:
  assumes "covered b K fs" "pending_tasks b a fs = []" "tuple_ok a"
  shows "covered b (K - {tuple_key a}) fs"
  unfolding covered_def
proof (intro conjI allI impI)
  fix k d
  assume d: "fs k = Some (DTasks d)" "td_tasks d \<noteq> []"
  with assms(1) obtain a' where a': "servable a'" "tasks_key b a' = k" "tuple_key a' \<in> K"
    by (auto simp: covered_def)
  have "a' \<noteq> a" using d a'(2) assms(2) by (auto simp: pending_tasks_def)
  then have "tuple_key a' \<noteq> tuple_key a" using a'(1) assms(3) by (simp add: tuple_key_inj servable_def)
  with a' show "\<exists>a'. servable a' \<and> tasks_key b a' = k \<and> tuple_key a' \<in> K - {tuple_key a}"
    by blast
next
  fix a' t
  show "fs (tasks_key b a') \<noteq> Some (DDead t)" using assms(1) by (simp add: covered_def)
qed

context extract_queue
begin

text \<open>The invariant of a world.\<close>

definition served :: "buffer_storage \<Rightarrow> ('q, 'c) skill_world \<Rightarrow> bool" where
  "served b w \<longleftrightarrow> sound (sw_queue w) \<and> covered b (known (sw_queue w)) (sw_files w)"

lemma served_queue:
  assumes "served b w" "sound q'" "known (sw_queue w) \<subseteq> known q'" "sw_files w' = sw_files w" "sw_queue w' = q'"
  shows "served b w'"
  using assms by (auto simp: served_def intro: covered_mono)

lemma served_files:
  assumes "served b w" "sw_queue w' = sw_queue w" "covered b (known (sw_queue w)) (sw_files w')"
  shows "served b w'"
  using assms by (simp add: served_def)

text \<open>Under the mutex a body that keeps the invariant does so with the mutex around it, and the
  body only runs for a tuple that can be serialised.\<close>

lemma served_mutex:
  assumes "served b w"
    and body: "\<And>w1. tuple_ok a \<Longrightarrow> served b w1 \<Longrightarrow> served b (snd (body w1))"
  shows "served b (snd (with_tasks_mutex Q a body w))"
proof -
  let ?q = "sw_queue w"
  obtain r q1 where en: "qi_mutex_enter Q a ?q = (r, q1)" by (cases "qi_mutex_enter Q a ?q")
  have i: "invar ?q" using assms(1) by (simp add: served_def sound_def)
  have q1: "sound q1" "known q1 = known ?q"
    using sound_mutex(1) [of ?q a] q_enter [OF i, of a] en assms(1) by (simp_all add: served_def)
  have on: "on_queue (qi_mutex_enter Q a) w = (r, w\<lparr>sw_queue := q1\<rparr>)" using en by (simp add: on_queue_def)
  have w1: "served b (w\<lparr>sw_queue := q1\<rparr>)" by (rule served_queue [OF assms(1) q1(1)]) (simp_all add: q1(2))
  show ?thesis
  proof (cases r)
    case (Inl e)
    then show ?thesis using on w1 by (simp add: with_tasks_mutex_def)
  next
    case (Inr u)
    have ok: "tuple_ok a" using q_enter_bad [of a ?q] en Inr by auto
    obtain x w2 where bo: "body (w\<lparr>sw_queue := q1\<rparr>) = (x, w2)" by (cases "body (w\<lparr>sw_queue := q1\<rparr>)")
    have w2: "served b w2" using body [OF ok w1] bo by simp
    have s2: "sound (sw_queue w2)" using w2 by (simp add: served_def)
    then have i2: "invar (sw_queue w2)" by (simp add: sound_def)
    have "served b (w2\<lparr>sw_queue := qi_mutex_leave Q a (sw_queue w2)\<rparr>)"
      by (rule served_queue [OF w2 sound_mutex(2) [OF s2, of a]]) (simp_all add: q_leave [OF i2])
    then show ?thesis using on Inr bo by (simp add: with_tasks_mutex_def)
  qed
qed

lemma served_spent: "served b w \<Longrightarrow> served b (spent w)"
  by (simp add: served_def)

lemma served_write:
  assumes "served b w" "\<And>d. x \<noteq> DTasks d" "(\<forall>d. x \<noteq> DDead d) \<or> (\<exists>a. k = dlq_key b a)"
  shows "served b (snd (write_file k x w))"
  using assms covered_other_doc [OF _ assms(2,3)] by (auto simp: storage_ops served_def)

lemma served_write_archive:
  assumes "served b w"
  shows "served b (snd (write_archive b s t ms w))"
  using assms covered_other_doc [of b _ "sw_files w" "DMessages ms" "archive_key b s t"]
  by (auto simp: write_archive_run served_def)

lemma served_register:
  assumes "served b w" "servable a"
  shows "served b (snd (register_section Q b a entry now w))"
proof -
  let ?d = "tasks_in a (sw_files w (tasks_key b a))"
  let ?w = "(spent (spent w))\<lparr>sw_files := (sw_files w)(tasks_key b a \<mapsto> DTasks (?d\<lparr>td_tasks := td_tasks ?d @ [entry], td_updated := now\<rparr>))\<rparr>"
  have s: "sound (sw_queue w)" using assms(1) by (simp add: served_def)
  then have i: "invar (sw_queue w)" by (simp add: sound_def)
  obtain r where e: "qi_enqueue_agent Q a (sw_queue w) = (Inr r, enq (tuple_key a) (sw_queue w))"
    using q_enqueue [OF i] assms(2) by (auto simp: servable_def)
  have c: "covered b (known (enq (tuple_key a) (sw_queue w)))
      ((sw_files w)(tasks_key b a \<mapsto> DTasks (?d\<lparr>td_tasks := td_tasks ?d @ [entry], td_updated := now\<rparr>)))"
    by (rule covered_tasks [OF covered_mono]) (use assms in \<open>auto simp: served_def enq_view [OF i]\<close>)
  have fin: "served b (?w\<lparr>sw_queue := enq (tuple_key a) (sw_queue w)\<rparr>)"
    using c sound_ops(1) [OF s] by (simp add: served_def)
  have on: "on_queue (qi_enqueue_agent Q a) ?w = (Inr r, ?w\<lparr>sw_queue := enq (tuple_key a) (sw_queue w)\<rparr>)"
    using e by (simp add: on_queue_def)
  consider "fault_next w" | "\<not> fault_next w" "fault_next (spent w)" | "\<not> fault_next w" "\<not> fault_next (spent w)" by blast
  then show ?thesis
  proof cases
    case 3
    then show ?thesis using fin on by (simp add: register_section_def io_bind_def buffer_reads write_tasks_def storage_ops io_return_def)
  qed (use assms(1) in \<open>simp_all add: register_section_def io_bind_def buffer_reads write_tasks_def storage_ops served_def\<close>)
qed

lemma served_head:
  assumes "served b w" "tuple_ok a"
  shows "served b (snd (head_section Q b a w))"
proof (cases "fault_next w \<or> pending_tasks b a (sw_files w) \<noteq> []")
  case True
  then show ?thesis
    using assms(1)
    by (auto simp: head_section_def io_bind_def buffer_reads pending_tasks_def served_def io_return_def split: list.split)
next
  case False
  have s: "sound (sw_queue w)" using assms(1) by (simp add: served_def)
  then have i: "invar (sw_queue w)" by (simp add: sound_def)
  have "covered b (known (remove (tuple_key a) (sw_queue w))) (sw_files w)"
    unfolding remove_view(1) [OF i]
    by (rule covered_drop) (use assms False in \<open>auto simp: served_def\<close>)
  with False show ?thesis
    using sound_ops(3) [OF s, of "tuple_key a"]
    by (simp add: head_section_def io_bind_def buffer_reads pending_tasks_def on_queue_def q_remove [OF i assms(2)]
        io_return_def served_def)
qed

lemma served_rewrites:
  assumes "served b w" "rewrites_tasks b a ts w w'" "sw_queue w' = sw_queue w" "pending_tasks b a (sw_files w) \<noteq> [] \<or> ts = []"
  shows "served b w'"
proof (rule served_files [OF assms(1,3)])
  obtain d where d: "sw_files w' = (sw_files w)(tasks_key b a \<mapsto> DTasks d)" "td_tasks d = ts"
    using assms(2) by (auto simp: rewrites_tasks_def)
  show "covered b (known (sw_queue w)) (sw_files w')"
    unfolding d(1) using assms(1,4) d(2) covered_pending [of b "known (sw_queue w)" "sw_files w" a]
    by (auto simp: served_def intro!: covered_tasks)
qed

lemma no_requeue: "requeue_or_remove Q False a ts = io_return ()"
  by (simp add: requeue_or_remove_def fun_eq_iff)

lemma served_put_tasks:
  assumes "served b w" "td_tasks d \<noteq> [] \<Longrightarrow> pending_tasks b a (sw_files w) \<noteq> []"
  shows "served b (snd (write_tasks b a d w))"
proof (cases "fault_next w")
  case False
  have "covered b (known (sw_queue w)) ((sw_files w)(tasks_key b a \<mapsto> DTasks d))"
    by (rule covered_tasks) (use assms covered_pending in \<open>auto simp: served_def\<close>)
  with False assms(1) show ?thesis by (simp add: write_tasks_def storage_ops served_def)
qed (use assms(1) in \<open>simp add: write_tasks_def storage_ops served_spent\<close>)

lemma served_then_return:
  assumes "served b (snd (m w))"
  shows "served b (snd (io_bind m (\<lambda>u. io_return x) w))"
  using assms by (cases "m w") (auto simp: io_bind_def io_return_def split: sum.splits)

lemma served_delete:
  assumes "served b w"
  shows "served b (snd (delete_section Q b False a head now w))"
proof (cases "fault_next w")
  case False
  let ?d = "tasks_in a (sw_files w (tasks_key b a))"
  let ?ts = "filter (\<lambda>t. te_task_id t \<noteq> te_task_id head) (td_tasks ?d)"
  let ?m = "if length ?ts \<noteq> length (td_tasks ?d) then write_tasks b a (?d\<lparr>td_tasks := ?ts, td_updated := now\<rparr>) else io_return ()"
  have p: "?ts \<noteq> [] \<Longrightarrow> pending_tasks b a (sw_files (spent w)) \<noteq> []" by (auto simp: pending_tasks_def)
  have "served b (snd (?m (spent w)))"
    using served_put_tasks [OF served_spent [OF assms], of "?d\<lparr>td_tasks := ?ts, td_updated := now\<rparr>" a] p served_spent [OF assms]
    by (auto simp: io_return_def)
  then have "served b (snd (io_bind ?m (\<lambda>u. io_return ()) (spent w)))" by (rule served_then_return)
  moreover have "delete_section Q b False a head now w = io_bind ?m (\<lambda>u. io_return ()) (spent w)"
    using False unfolding delete_section_def io_bind_def [of "read_tasks b a"] buffer_reads no_requeue Let_def by simp
  ultimately show ?thesis by simp
qed (use assms in \<open>simp add: delete_section_def io_bind_def buffer_reads served_spent\<close>)

lemma served_permanent:
  assumes "served (ew_buffer ew) w"
  shows "served (ew_buffer ew) (snd (permanent_section Q ew False a head err now w))"
proof (cases "fault_next w")
  case False
  let ?b = "ew_buffer ew"
  let ?d = "tasks_in a (sw_files w (tasks_key ?b a))"
  show ?thesis
  proof (cases "find_index (\<lambda>t. te_task_id t = te_task_id head) (td_tasks ?d)")
    case None
    then show ?thesis
      using False assms by (simp add: permanent_section_def io_bind_def buffer_reads no_requeue io_return_def served_spent)
  next
    case (Some n)
    let ?cur = "failed_once_more err (td_tasks ?d ! n)"
    let ?dead = "ew_max_retries ew \<le> the (te_retry_count ?cur)"
    let ?ts = "if ?dead then take n (td_tasks ?d) @ drop (Suc n) (td_tasks ?d) else (td_tasks ?d)[n := ?cur]"
    have p: "td_tasks (?d\<lparr>td_tasks := ?ts, td_updated := now\<rparr>) \<noteq> [] \<Longrightarrow> pending_tasks ?b a (sw_files (spent w)) \<noteq> []"
      by (auto simp: pending_tasks_def split: if_splits)
    have "served ?b (snd (write_tasks ?b a (?d\<lparr>td_tasks := ?ts, td_updated := now\<rparr>) (spent w)))"
      by (rule served_put_tasks [OF served_spent [OF assms] p])
    then have "served ?b (snd (io_bind (write_tasks ?b a (?d\<lparr>td_tasks := ?ts, td_updated := now\<rparr>))
        (\<lambda>u. io_return (if ?dead then Some ?cur else None)) (spent w)))"
      by (rule served_then_return)
    moreover have "permanent_section Q ew False a head err now w = io_bind (write_tasks ?b a (?d\<lparr>td_tasks := ?ts, td_updated := now\<rparr>))
        (\<lambda>u. io_return (if ?dead then Some ?cur else None)) (spent w)"
      using False Some unfolding permanent_section_def io_bind_def [of "read_tasks ?b a"] buffer_reads no_requeue Let_def
      by (simp add: Let_def)
    ultimately show ?thesis by simp
  qed
qed (use assms in \<open>simp add: permanent_section_def io_bind_def buffer_reads served_spent\<close>)

lemma served_dead:
  assumes "served b w"
  shows "served b (snd (write_file (dlq_key b a) (DDead x) w))"
  by (rule served_write [OF assms]) auto

lemma served_bury:
  assumes "served b w"
  shows "served b (snd (bury b a t now w))"
  using assms served_dead [OF served_spent [OF assms], of a]
  by (simp add: bury_def append_dlq_def io_bind_def [of "read_dlq b a"] buffer_reads served_spent)

lemma served_extract:
  assumes "served b w"
  shows "served b (snd (extract_section ew t w))"
  using assms by (auto simp: extract_section_def buffer_reads served_def split: option.split sum.split)

lemma served_on_queue:
  assumes "served b w" "sound (snd (m (sw_queue w)))" "known (snd (m (sw_queue w))) = known (sw_queue w)"
  shows "served b (snd (on_queue m w))"
  using assms by (simp add: served_def on_queue_frame)

lemma served_peek:
  assumes "served b w"
  shows "served b (snd (on_queue (qi_peek_once Q) w))"
proof -
  have s: "sound (sw_queue w)" using assms by (simp add: served_def)
  then have i: "invar (sw_queue w)" by (simp add: sound_def)
  show ?thesis
    by (rule served_on_queue [where m = "qi_peek_once Q", OF assms])
      (simp_all add: q_peek [OF i] sound_ops(5) [OF s] peek_known [OF i])
qed

lemma served_locks:
  assumes "served b w"
  shows "served b (snd (on_queue (qi_acquire_lock Q a ttl) w))" "served b (snd (on_queue (qi_release_lock Q a tok) w))"
proof -
  have s: "sound (sw_queue w)" using assms by (simp add: served_def)
  then have i: "invar (sw_queue w)" by (simp add: sound_def)
  show "served b (snd (on_queue (qi_acquire_lock Q a ttl) w))"
    by (rule served_on_queue [where m = "qi_acquire_lock Q a ttl", OF assms])
      (simp_all add: sound_mutex(3) [OF s] q_acquire [OF i])
  show "served b (snd (on_queue (qi_release_lock Q a tok) w))"
    by (rule served_on_queue [where m = "qi_release_lock Q a tok", OF assms])
      (simp_all add: sound_mutex(4) [OF s] q_release [OF i])
qed

lemma served_heal:
  assumes "served b w"
  shows "served b (snd (on_queue (self_heal_scan Q) w))"
proof -
  have i: "invar (sw_queue w)" using assms by (simp add: served_def sound_def)
  obtain res q' where h: "self_heal_scan Q (sw_queue w) = (Inr res, q')" "invar q'"
    "known q' = {r \<in> known (sw_queue w). servable_raw r}" "known q' \<subseteq> set (listed q')"
    using self_heal_effect [OF i] by blast
  have "covered b (known q') (sw_files w)"
    using assms servable_raw_key unfolding served_def covered_def h(3) by fastforce
  then show ?thesis using h by (simp add: served_def on_queue_frame sound_def)
qed

text \<open>A legacy entry, or one that does not parse, can be taken off the queue at any time.\<close>

lemma served_purge:
  assumes "served b w" "\<not> servable_raw raw"
  shows "served b (snd (on_queue (qi_purge_raw Q raw) w))"
proof -
  have s: "sound (sw_queue w)" using assms(1) by (simp add: served_def)
  then have i: "invar (sw_queue w)" by (simp add: sound_def)
  have "covered b (known (sw_queue w) - {raw}) (sw_files w)"
    using assms servable_raw_key unfolding served_def covered_def by fastforce
  then show ?thesis
    using sound_ops(3) [OF s, of raw] by (simp add: served_def on_queue_frame q_purge [OF i] remove_view [OF i])
qed

text \<open>Every pending task is found by the next round of peeks.\<close>

lemma served_peeked:
  assumes "served b w" "sw_files w k = Some (DTasks d)" "td_tasks d \<noteq> []"
  shows "\<exists>a. servable a \<and> tasks_key b a = k
    \<and> Some (tuple_key a) \<in> set (fst (peeks (length (listed (sw_queue w))) (sw_queue w)))"
proof -
  from assms obtain a where "servable a" "tasks_key b a = k" "tuple_key a \<in> known (sw_queue w)"
    by (auto simp: served_def covered_def)
  then show ?thesis
    using assms(1) peeks_all(1) [of "sw_queue w"] by (auto simp: served_def sound_def)
qed

end

section \<open>Steps of the system\<close>

text \<open>One step is one critical section or one call that is atomic by itself, each by a caller of
  its own; or storage calls start or stop failing. A participant that stops between two steps
  simply takes no further step. Files other than the task files are read and written freely.\<close>

inductive sys_step ::
  "buffer_storage \<Rightarrow> (local_agent_queue, 'c) skill_world \<Rightarrow> (local_agent_queue, 'c) skill_world \<Rightarrow> bool"
  for b where
  sys_read: "sys_step b w (spent w)"
| sys_write: "(\<forall>d. x \<noteq> DTasks d) \<Longrightarrow> (\<forall>d. x \<noteq> DDead d) \<or> (\<exists>a. k = dlq_key b a) \<Longrightarrow>
    sys_step b w (snd (write_file k x w))"
| sys_register: "servable a \<Longrightarrow>
    sys_step b w (snd (with_tasks_mutex (local_queue_if c) a (register_section (local_queue_if c) b a entry now) w))"
| sys_peek: "sys_step b w (snd (on_queue (qi_peek_once (local_queue_if c)) w))"
| sys_acquire: "sys_step b w (snd (on_queue (qi_acquire_lock (local_queue_if c) a ttl) w))"
| sys_release: "sys_step b w (snd (on_queue (qi_release_lock (local_queue_if c) a tok) w))"
| sys_head: "sys_step b w (snd (with_tasks_mutex (local_queue_if c) a (head_section (local_queue_if c) b a) w))"
| sys_extract: "sys_step b w (snd (extract_section ew t w))"
| sys_delete: "sys_step b w
    (snd (with_tasks_mutex (local_queue_if c) a (delete_section (local_queue_if c) b False a head now) w))"
| sys_permanent: "ew_buffer ew = b \<Longrightarrow> sys_step b w
    (snd (with_tasks_mutex (local_queue_if c) a (permanent_section (local_queue_if c) ew False a head err now) w))"
| sys_purge: "\<not> servable_raw raw \<Longrightarrow> sys_step b w (snd (on_queue (qi_purge_raw (local_queue_if c) raw) w))"
| sys_heal: "sys_step b w (snd (on_queue (self_heal_scan (local_queue_if c)) w))"
| sys_faults: "sys_step b w (w\<lparr>sw_faults := fs\<rparr>)"

lemma sys_step_served:
  assumes "sys_step b w w'" "lq.served b w"
  shows "lq.served b w'"
  using assms
proof (cases rule: sys_step.cases)
  case (sys_write x k)
  then show ?thesis using lq.served_write [OF assms(2)] by auto
next
  case (sys_faults fs)
  then show ?thesis using assms(2) by (simp add: lq.served_def)
next
  case (sys_permanent ew c a head err now)
  then show ?thesis using lq.served_mutex [OF assms(2)] lq.served_permanent [of ew] by blast
qed (use assms(2) in \<open>auto intro: lq.served_spent lq.served_peek lq.served_locks
      lq.served_extract lq.served_purge lq.served_heal
      lq.served_mutex [OF _ lq.served_register] lq.served_mutex [OF _ lq.served_head] lq.served_mutex [OF _ lq.served_delete]\<close>)

lemma fresh_served: "lq.served b fresh_world"
  by (simp add: lq.served_def lq.sound_def fresh_world_def aq_empty_def aq_no_waiters_def covered_def)

lemma sys_steps_served: "(sys_step b)\<^sup>*\<^sup>* w w' \<Longrightarrow> lq.served b w \<Longrightarrow> lq.served b w'"
  by (induction rule: rtranclp_induct) (auto intro: sys_step_served)

section \<open>The operations as runs of steps\<close>

text \<open>A computation is a run when it takes the world of any state to one that steps reach; the
  state may hold more than the world.\<close>

definition runs :: "buffer_storage \<Rightarrow> ('s \<Rightarrow> (local_agent_queue, 'c) skill_world) \<Rightarrow> ('s, 'a) io \<Rightarrow> bool" where
  "runs b pr m \<longleftrightarrow> (\<forall>s. (sys_step b)\<^sup>*\<^sup>* (pr s) (pr (snd (m s))))"

named_theorems run_intros "computations that are runs of system steps"

lemma runs_step: "(\<And>s. sys_step b (pr s) (pr (snd (m s)))) \<Longrightarrow> runs b pr m"
  by (auto simp: runs_def)

lemma runs_return [run_intros]: "runs b pr (io_return x)" "runs b pr (io_throw e)"
  by (simp_all add: runs_def io_return_def io_throw_def)

lemma runs_bind [run_intros]:
  assumes "runs b pr m" "\<And>x. runs b pr (f x)"
  shows "runs b pr (io_bind m f)"
  unfolding runs_def
proof
  fix w
  obtain r w1 where m: "m w = (r, w1)" by (cases "m w")
  have "(sys_step b)\<^sup>*\<^sup>* (pr w) (pr w1)" using assms(1) m by (metis runs_def snd_conv)
  moreover have "(sys_step b)\<^sup>*\<^sup>* (pr w1) (pr (snd (f x w1)))" for x using assms(2) by (simp add: runs_def)
  ultimately show "(sys_step b)\<^sup>*\<^sup>* (pr w) (pr (snd (io_bind m f w)))"
    by (cases r) (auto simp: io_bind_def m intro: rtranclp_trans)
qed

lemma runs_both [run_intros]:
  assumes "runs b pr m" "runs b pr n"
  shows "runs b pr (io_both m n)"
  unfolding runs_def
proof
  fix w
  obtain r w1 where m: "m w = (r, w1)" by (cases "m w")
  have "(sys_step b)\<^sup>*\<^sup>* (pr w) (pr w1)" using assms(1) m by (metis runs_def snd_conv)
  moreover have "(sys_step b)\<^sup>*\<^sup>* (pr w1) (pr (snd (n w1)))" using assms(2) by (simp add: runs_def)
  ultimately have "(sys_step b)\<^sup>*\<^sup>* (pr w) (pr (snd (n w1)))" by (rule rtranclp_trans)
  then show "(sys_step b)\<^sup>*\<^sup>* (pr w) (pr (snd (io_both m n w)))"
    by (auto simp: io_both_def m split: sum.split prod.split)
qed

lemma runs_catch [run_intros]:
  assumes "runs b pr m" "\<And>e. runs b pr (h e)"
  shows "runs b pr (io_catch m h)"
  unfolding runs_def
proof
  fix w
  obtain r w1 where m: "m w = (r, w1)" by (cases "m w")
  have "(sys_step b)\<^sup>*\<^sup>* (pr w) (pr w1)" using assms(1) m by (metis runs_def snd_conv)
  moreover have "(sys_step b)\<^sup>*\<^sup>* (pr w1) (pr (snd (h e w1)))" for e using assms(2) by (simp add: runs_def)
  ultimately show "(sys_step b)\<^sup>*\<^sup>* (pr w) (pr (snd (io_catch m h w)))"
    by (cases r) (auto simp: io_catch_def m intro: rtranclp_trans)
qed


lemma runs_lift [run_intros]: "runs b (\<lambda>w. w) m \<Longrightarrow> runs b fst (io_lift m)"
  by (simp add: runs_def io_lift_def split_beta)

lemma runs_streaks [run_intros]: "runs b fst (on_streaks f)"
  by (simp add: runs_def on_streaks_def)

lemma runs_reads [run_intros]:
  "runs b (\<lambda>w. w) (file_exists k)" "runs b (\<lambda>w. w) (read_current b s)"
  "runs b (\<lambda>w. w) (read_meta b s)" "runs b (\<lambda>w. w) (read_dlq b a)"
  by (rule runs_step, simp add: storage_ops buffer_reads sys_read)+

lemma runs_write_file:
  "(\<forall>d. x \<noteq> DTasks d) \<Longrightarrow> (\<forall>d. x \<noteq> DDead d) \<or> (\<exists>a. k = dlq_key b a) \<Longrightarrow> runs b (\<lambda>w. w) (write_file k x)"
  by (rule runs_step, rule sys_write)

lemma runs_writes [run_intros]:
  "runs b (\<lambda>w. w) (write_current b s ms)" "runs b (\<lambda>w. w) (write_meta b s m)"
  "runs b (\<lambda>w. w) (write_archive b s now ms)" "runs b (\<lambda>w. w) (bury b a t now)"
  unfolding write_current_def write_meta_def write_archive_def bury_def append_dlq_def
  by (auto intro!: run_intros runs_write_file)

lemma runs_queue [run_intros]:
  "runs b (\<lambda>w. w) (on_queue (qi_peek_once (local_queue_if c)))"
  "runs b (\<lambda>w. w) (on_queue (qi_acquire_lock (local_queue_if c) a ttl))"
  "runs b (\<lambda>w. w) (on_queue (qi_release_lock (local_queue_if c) a tok))"
  by (rule runs_step, auto intro: sys_step.intros)+

text \<open>A section for a tuple that cannot be serialised is refused with no effect.\<close>

lemma runs_mutex_refused: "\<not> tuple_ok a \<Longrightarrow> runs b (\<lambda>w. w) (with_tasks_mutex (local_queue_if c) a body)"
proof -
  assume "\<not> tuple_ok a"
  then obtain e where "\<And>q. qi_mutex_enter (local_queue_if c) a q = (Inl e, q)"
    using bad_tuple_serialize by (fastforce simp: local_queue_if_def local_mutex_enter_def)
  then show ?thesis by (simp add: runs_def with_tasks_mutex_def on_queue_def)
qed

lemma runs_sections [run_intros]:
  "runs b (\<lambda>w. w) (with_tasks_mutex (local_queue_if c) a (head_section (local_queue_if c) b a))"
  "runs b (\<lambda>w. w) (extract_section ew t)"
  "runs b (\<lambda>w. w) (with_tasks_mutex (local_queue_if c) a (delete_section (local_queue_if c) b False a head now))"
  by (rule runs_step, rule sys_step.intros)+

lemma runs_register [run_intros]:
  assumes "at_instance a \<noteq> legacy_instance_id"
  shows "runs b (\<lambda>w. w) (with_tasks_mutex (local_queue_if c) a (register_section (local_queue_if c) b a entry now))"
proof (cases "tuple_ok a")
  case True
  with assms show ?thesis by (intro runs_step sys_register) (simp add: servable_def)
qed (rule runs_mutex_refused)

lemma runs_permanent [run_intros]:
  "ew_buffer ew = b \<Longrightarrow> runs b (\<lambda>w. w) (handle_permanent_failure (local_queue_if c) ew False a head err now)"
  unfolding handle_permanent_failure_def
  by (intro run_intros, rule runs_step, erule sys_permanent) (auto intro!: run_intros split: option.split)

lemma runs_consume_round [run_intros]:
  "ew_buffer ew = b \<Longrightarrow> runs b fst (consume_round (local_queue_if c) ew False a now)"
  unfolding consume_round_def
  by (auto intro!: run_intros split: option.split sum.split error_class.split)

lemma runs_consume_rounds [run_intros]:
  "ew_buffer ew = b \<Longrightarrow> runs b fst (consume_rounds (local_queue_if c) ew False a now n acc)"
  by (induction n arbitrary: acc) (auto intro!: run_intros split: round_result.split)

lemma runs_release_after [run_intros]:
  assumes "runs b fst m"
  shows "runs b fst (release_after (local_queue_if c) a tok m)"
  unfolding runs_def
proof
  fix st
  have "(sys_step b)\<^sup>*\<^sup>* (fst st) (fst (snd (m st)))" using assms unfolding runs_def by blast
  then show "(sys_step b)\<^sup>*\<^sup>* (fst st) (fst (snd (release_after (local_queue_if c) a tok m st)))"
    by (auto simp: release_after_def io_lift_def split_beta intro: rtranclp.rtrancl_into_rtrancl sys_release)
qed

lemma runs_consume_agent:
  assumes "ew_buffer ew = b"
  shows "runs b fst (consume_agent (local_queue_if c) ew a now)"
proof -
  have "qi_peek_strategy (local_queue_if c) q \<noteq> RpopDowngrade" for q
    by (simp add: local_queue_if_def aq_get_peek_strategy_def)
  then show ?thesis
    using assms unfolding consume_agent_def [abs_def] by (auto simp: Let_def intro!: run_intros split: option.split)
qed

lemma runs_trigger [run_intros]:
  "sk_instance (ti_session inp) \<noteq> legacy_instance_id \<Longrightarrow>
     runs b (\<lambda>w. w) (trigger_archive (local_queue_if c) b now uuid inp)"
  unfolding trigger_archive_def Let_def by (intro run_intros) (simp add: agent_of_def)

lemma runs_handle:
  assumes "ai_instance i \<noteq> legacy_instance_id"
  shows "runs (ah_buffer h) (\<lambda>w. w) (handle (local_queue_if c) h now now' uuid i)"
  using assms unfolding handle_def handle_read_def handle_archive_def handle_append_def Let_def
  by (auto intro!: run_intros simp: session_of_def split: sum.split)

lemma legacy_raw_unservable: "parse_agent_tuple raw = Some a \<Longrightarrow> \<not> servable_raw (legacy_raw a)"
proof -
  assume p: "parse_agent_tuple raw = Some a"
  have "set [at_space a, at_user a, at_team a, at_agent a] \<subseteq> set (split_on (CHR ''|'') raw)"
    using p by (auto simp: parse_agent_tuple_def split: if_splits list.splits)
  then have f: "\<forall>v \<in> set [at_space a, at_user a, at_team a, at_agent a]. CHR ''|'' \<notin> set v"
    using split_on_sep_free by blast
  have "split_on (CHR ''|'') (legacy_raw a) = [at_space a, at_user a, at_team a, at_agent a]"
    unfolding legacy_raw_def by (rule split_on_join) (use f in auto)
  then show ?thesis by (auto simp: servable_raw_def parse_agent_tuple_def)
qed

lemma pool_agent_steps:
  assumes "parse_agent_tuple raw = Some a" "\<And>i ew. resolve i = Inr ew \<Longrightarrow> ew_buffer ew = b"
  shows "(sys_step b)\<^sup>*\<^sup>* w (snd (snd (pool_agent (local_queue_if c) resolve ttl now later a m w)))"
proof -
  have c: "(sys_step b)\<^sup>*\<^sup>* w (snd (pool_consume (local_queue_if c) resolve a now w))"
  proof (cases "resolve (at_instance a)")
    case (Inr ew)
    have "(sys_step b)\<^sup>*\<^sup>* w (fst (snd (consume_agent (local_queue_if c) ew a now (w, []))))"
      using runs_consume_agent [OF assms(2) [OF Inr], of c a now] unfolding runs_def by (metis fst_conv)
    then show ?thesis using Inr by (auto simp: pool_consume_def split: sum.split prod.split)
  qed (simp add: pool_consume_def)
  have "sys_step b w (snd (on_queue (qi_purge_raw (local_queue_if c) (legacy_raw a)) w))"
    by (rule sys_purge) (rule legacy_raw_unservable [OF assms(1)])
  with c show ?thesis
    by (auto simp: pool_agent_def split: prod.split sum.split)
qed

lemma pool_round_steps:
  assumes "\<And>i ew. resolve i = Inr ew \<Longrightarrow> ew_buffer ew = b"
  shows "(sys_step b)\<^sup>*\<^sup>* w (snd (snd (pool_round (local_queue_if c) resolve ttl now later m w)))"
proof -
  obtain r w1 where p: "on_queue (qi_peek_once (local_queue_if c)) w = (r, w1)"
    by (cases "on_queue (qi_peek_once (local_queue_if c)) w")
  have s: "(sys_step b)\<^sup>*\<^sup>* w w1" using sys_peek [of b w c] p by simp
  have parsed: "\<exists>raw. parse_agent_tuple raw = Some a" if "r = Inr (Some (Some a))" for a
    using p that by (auto simp: on_queue_def local_queue_if_def aq_peek_once_def split: prod.splits)
  show ?thesis
    using s parsed pool_agent_steps [where w = w1 and resolve = resolve and b = b and later = later] assms
    by (auto simp: pool_round_def p split: sum.split option.split) (meson rtranclp_trans)
qed

section \<open>Properties\<close>


definition demo_after_add :: "(local_agent_queue, nat) skill_world" where
  "demo_after_add = snd (add_run (demo_handler 1) [demo_event 5 ''first''] fresh_world)"

lemma demo_after_add_reached: "(sys_step (new_buffer None))\<^sup>*\<^sup>* fresh_world demo_after_add"
proof -
  have l: "ai_instance (ev_input (demo_event 5 ''first'')) \<noteq> legacy_instance_id"
    by (simp add: demo_event_def legacy_instance_id_def)
  have b: "ah_buffer (demo_handler n) = new_buffer None" for n by (simp add: demo_handler_def)
  show ?thesis
    by (simp add: demo_after_add_def split_beta) (rule runs_handle [OF l, unfolded runs_def, rule_format, where h = "demo_handler 1", unfolded b, simplified])
qed




end
