(* ===== verification/Uri_Text.thy ===== *)
theory Uri_Text
  imports Json_Text
begin

text \<open>
  \<^verbatim>\<open>encodeURIComponent\<close> and \<^verbatim>\<open>decodeURIComponent\<close> on UTF-8 byte strings. Decoding fails
  (JavaScript throws a \<^verbatim>\<open>URIError\<close>) on a malformed escape and on escapes that are not UTF-8.
\<close>

section \<open>Encoding\<close>

definition hex_upper :: "nat \<Rightarrow> char" where
  "hex_upper n = (if n < 10 then char_of (48 + n) else char_of (55 + n))"

definition hex_value :: "char \<Rightarrow> nat option" where
  "hex_value c =
     (let n = (of_char c :: nat) in
      if 48 \<le> n \<and> n \<le> 57 then Some (n - 48)
      else if 65 \<le> n \<and> n \<le> 70 then Some (n - 55)
      else if 97 \<le> n \<and> n \<le> 102 then Some (n - 87)
      else None)"

definition uri_unreserved :: "char \<Rightarrow> bool" where
  "uri_unreserved c \<longleftrightarrow>
     (let n = (of_char c :: nat) in
      48 \<le> n \<and> n \<le> 57 \<or> 65 \<le> n \<and> n \<le> 90 \<or> 97 \<le> n \<and> n \<le> 122) \<or> c \<in> set ''-_.!~*'' \<or> c \<in> {CHR 0x27, CHR ''('', CHR '')''}"

definition percent_encode :: "char \<Rightarrow> string" where
  "percent_encode c =
     (let n = (of_char c :: nat) in [CHR ''%'', hex_upper (n div 16), hex_upper (n mod 16)])"

definition encode_uri_component :: "string \<Rightarrow> string" where
  "encode_uri_component s = concat (map (\<lambda>c. if uri_unreserved c then [c] else percent_encode c) s)"

section \<open>Decoding\<close>

fun percent_byte :: "string \<Rightarrow> (nat \<times> string) option" where
  "percent_byte (p # a # b # rest) =
     (if p = CHR ''%'' then
        (case hex_value a of
           None \<Rightarrow> None
         | Some x \<Rightarrow> (case hex_value b of None \<Rightarrow> None | Some y \<Rightarrow> Some (16 * x + y, rest)))
      else None)"
| "percent_byte _ = None"

text \<open>The continuation bytes of a multi-byte sequence, each escaped and in its range.\<close>

fun percent_follow :: "(nat \<times> nat) list \<Rightarrow> string \<Rightarrow> (string \<times> string) option" where
  "percent_follow [] s = Some ([], s)"
| "percent_follow (r # rs) s =
     (case percent_byte s of
        None \<Rightarrow> None
      | Some (b, rest) \<Rightarrow>
          if fst r \<le> b \<and> b \<le> snd r
          then map_option (\<lambda>(m, s'). (char_of b # m, s')) (percent_follow rs rest) else None)"

lemma percent_byte_length: "percent_byte s = Some (b, rest) \<Longrightarrow> length rest < length s"
  by (cases s rule: percent_byte.cases) (auto split: if_splits option.splits)

lemma percent_follow_length: "percent_follow rs s = Some (m, s') \<Longrightarrow> length s' \<le> length s"
  by (induction rs s arbitrary: m s' rule: percent_follow.induct)
    (fastforce split: if_splits option.splits dest: percent_byte_length)+

function decode_uri_component :: "string \<Rightarrow> string option" where
  "decode_uri_component [] = Some []"
| "decode_uri_component (c # cs) =
     (if c \<noteq> CHR ''%'' then map_option ((#) c) (decode_uri_component cs)
      else case percent_byte (c # cs) of
        None \<Rightarrow> None
      | Some (b, rest) \<Rightarrow>
          if b < 0x80 then map_option ((#) (char_of b)) (decode_uri_component rest)
          else (case utf8_follow b of
                  None \<Rightarrow> None
                | Some rs \<Rightarrow>
                    (case percent_follow rs rest of
                       None \<Rightarrow> None
                     | Some (m, s') \<Rightarrow> map_option (\<lambda>t. char_of b # m @ t) (decode_uri_component s'))))"
  by pat_completeness auto
termination
  by (relation "measure length")
    (auto dest!: percent_byte_length percent_follow_length [OF sym] percent_follow_length)

section \<open>Round trip\<close>

text \<open>Well-formed UTF-8.\<close>

fun in_ranges :: "(nat \<times> nat) list \<Rightarrow> string \<Rightarrow> bool" where
  "in_ranges [] s = True"
| "in_ranges (r # rs) [] = False"
| "in_ranges (r # rs) (c # cs) \<longleftrightarrow> fst r \<le> (of_char c :: nat) \<and> (of_char c :: nat) \<le> snd r \<and> in_ranges rs cs"

function utf8_ok :: "string \<Rightarrow> bool" where
  "utf8_ok [] = True"
| "utf8_ok (c # cs) \<longleftrightarrow>
     (if (of_char c :: nat) < 0x80 then utf8_ok cs
      else case utf8_follow (of_char c) of
        None \<Rightarrow> False
      | Some rs \<Rightarrow> in_ranges rs cs \<and> utf8_ok (drop (length rs) cs))"
  by pat_completeness auto
termination by (relation "measure length") auto

lemma hex_value_upper: "n < 16 \<Longrightarrow> hex_value (hex_upper n) = Some n"
  by (auto simp: hex_value_def hex_upper_def Let_def)

lemma percent_byte_encode [simp]: "percent_byte (percent_encode c @ s) = Some (of_char c, s)"
proof -
  have "(of_char c :: nat) < 256" by simp
  then have "(of_char c :: nat) div 16 < 16" by (simp add: less_mult_imp_div_less)
  then show ?thesis by (simp add: percent_encode_def Let_def hex_value_upper)
qed

lemma unreserved_ascii: "uri_unreserved c \<Longrightarrow> (of_char c :: nat) < 0x80 \<and> c \<noteq> CHR ''%''"
  by (auto simp: uri_unreserved_def Let_def)

lemma encode_Nil [simp]: "encode_uri_component [] = []"
  by (simp add: encode_uri_component_def)

lemma encode_Cons [simp]:
  "encode_uri_component (c # s) =
     (if uri_unreserved c then c # encode_uri_component s else percent_encode c @ encode_uri_component s)"
  by (simp add: encode_uri_component_def)

lemma follow_lower: "utf8_follow b = Some rs \<Longrightarrow> \<forall>r \<in> set rs. 0x80 \<le> fst r"
  by (auto simp: utf8_follow_def split: if_splits)

lemma percent_follow_encode:
  "in_ranges rs s \<Longrightarrow> \<forall>r \<in> set rs. 0x80 \<le> fst r \<Longrightarrow>
     percent_follow rs (encode_uri_component s)
       = Some (take (length rs) s, encode_uri_component (drop (length rs) s))"
proof (induction rs s rule: in_ranges.induct)
  case (3 r rs c cs)
  have "\<not> uri_unreserved c" using 3(2,3) unreserved_ascii [of c] by auto
  with 3 show ?case by simp
qed simp_all

lemma percent_encode_Cons: "\<exists>t. percent_encode c @ s = CHR ''%'' # t"
  by (simp add: percent_encode_def Let_def)

lemma decode_percent:
  "decode_uri_component (percent_encode c @ s) =
     (if (of_char c :: nat) < 0x80 then map_option ((#) c) (decode_uri_component s)
      else (case utf8_follow (of_char c) of
              None \<Rightarrow> None
            | Some rs \<Rightarrow> (case percent_follow rs s of
                  None \<Rightarrow> None
                | Some (m, s') \<Rightarrow> map_option (\<lambda>t. c # m @ t) (decode_uri_component s'))))"
proof -
  obtain t where t: "percent_encode c @ s = CHR ''%'' # t" using percent_encode_Cons by blast
  have b: "percent_byte (CHR ''%'' # t) = Some (of_char c, s)" using percent_byte_encode [of c s] t by simp
  show ?thesis unfolding t by (simp add: b split: option.split)
qed

lemma uri_roundtrip: "utf8_ok s \<Longrightarrow> decode_uri_component (encode_uri_component s) = Some s"
proof (induction s rule: utf8_ok.induct)
  case (2 c cs)
  show ?case
  proof (cases "uri_unreserved c")
    case True
    then show ?thesis using 2(1,3) unreserved_ascii [OF True] by simp
  next
    case un: False
    show ?thesis
    proof (cases "(of_char c :: nat) < 0x80")
      case True
      with un 2(1,3) show ?thesis by (simp add: decode_percent)
    next
      case False
      with 2(3) obtain rs where rs: "utf8_follow (of_char c) = Some rs" "in_ranges rs cs" "utf8_ok (drop (length rs) cs)"
        by (auto split: option.splits)
      have "decode_uri_component (encode_uri_component (drop (length rs) cs)) = Some (drop (length rs) cs)"
        using 2(2) [OF False rs(1)] rs(3) by blast
      then show ?thesis
        using un False rs percent_follow_encode [OF rs(2) follow_lower [OF rs(1)]] by (simp add: decode_percent)
    qed
  qed
qed simp

lemma encode_set: "c \<in> set (encode_uri_component s) \<Longrightarrow> uri_unreserved c \<or> c = CHR ''%''"
proof (induction s)
  case (Cons x s)
  have h: "uri_unreserved (hex_upper n)" if "n < 16" for n
    using that by (auto simp: hex_upper_def uri_unreserved_def Let_def)
  have "(of_char x :: nat) div 16 < 16" by (simp add: less_mult_imp_div_less)
  with Cons h show ?case by (auto simp: percent_encode_def Let_def split: if_splits)
qed simp

lemma encode_no_separator: "CHR ''|'' \<notin> set (encode_uri_component s)" "CHR '':'' \<notin> set (encode_uri_component s)"
  using encode_set [of "CHR ''|''" s] encode_set [of "CHR '':''" s] by (auto simp: uri_unreserved_def)

lemma encode_nonempty [simp]: "encode_uri_component s = [] \<longleftrightarrow> s = []"
  by (cases s) (auto simp: percent_encode_def Let_def)

end
