(* ===== verification/Timer_Member.thy ===== *)
theory Timer_Member
  imports Uri_Text State_Backend
begin

text \<open>
  \<^verbatim>\<open>MemoryCore/src/core/state/timer-member.ts\<close>: the names of pipeline timers. A timer of a team's
  agent carries its scope with the identifiers URI-encoded; any other timer is the session and the
  timer type. The name is all that a timer scanner gets back, so it has to determine the task.
\<close>

section \<open>Building a name\<close>

record timer_context =
  tc_team :: "string option"
  tc_agent :: "string option"

record parsed_timer =
  pt_session :: string
  pt_timer_type :: string
  pt_task_type :: task_type
  pt_priority :: int
  pt_team :: "string option"
  pt_agent :: "string option"

text \<open>A string that is neither \<^verbatim>\<open>undefined\<close> nor empty.\<close>

definition truthy :: "string option \<Rightarrow> bool" where
  "truthy x \<longleftrightarrow> (case x of None \<Rightarrow> False | Some s \<Rightarrow> s \<noteq> [])"

definition scoped_timer_prefix :: string where
  "scoped_timer_prefix = ''scope:''"

definition safe_decode_uri_component :: "string \<Rightarrow> string" where
  "safe_decode_uri_component v = (case decode_uri_component v of None \<Rightarrow> v | Some s \<Rightarrow> s)"

definition classify_timer_type :: "string \<Rightarrow> task_type \<times> int" where
  "classify_timer_type t =
     (if prefix ''L1'' t then (T_L1, 0)
      else if prefix ''L2'' t then (T_L2, 1)
      else if prefix ''L3'' t then (T_L3, 2)
      else (T_flush, 0))"

definition build_pipeline_timer_member :: "string \<Rightarrow> string \<Rightarrow> timer_context \<Rightarrow> string" where
  "build_pipeline_timer_member session timer_type ctx =
     (if truthy (tc_team ctx) \<and> truthy (tc_agent ctx)
      then scoped_timer_prefix @ ''team:'' @ encode_uri_component (the (tc_team ctx))
             @ ''|agent:'' @ encode_uri_component (the (tc_agent ctx))
             @ ''|session:'' @ encode_uri_component session @ '':'' @ timer_type
      else session @ '':'' @ timer_type)"

section \<open>Parsing a name\<close>

text \<open>The regular expression \<^verbatim>\<open>/^profile:team:([^|]+)\|agent:([^|]+)(?:\|session:.+)?$/\<close>; a dot
  does not match the four line terminators.\<close>

definition has_line_terminator :: "string \<Rightarrow> bool" where
  "has_line_terminator s \<longleftrightarrow> CHR 0x0A \<in> set s \<or> CHR 0x0D \<in> set s
     \<or> str_includes [CHR 0xE2, CHR 0x80, CHR 0xA8] s \<or> str_includes [CHR 0xE2, CHR 0x80, CHR 0xA9] s"

definition strip_prefix :: "string \<Rightarrow> string \<Rightarrow> string option" where
  "strip_prefix p s = (if prefix p s then Some (drop (length p) s) else None)"

definition upto_bar :: "string \<Rightarrow> string \<times> string" where
  "upto_bar s = (takeWhile (\<lambda>c. c \<noteq> CHR ''|'') s, dropWhile (\<lambda>c. c \<noteq> CHR ''|'') s)"

definition parse_profile_session_tenant :: "string \<Rightarrow> timer_context option" where
  "parse_profile_session_tenant session =
     (case strip_prefix ''profile:team:'' session of
        None \<Rightarrow> None
      | Some r \<Rightarrow> (let (team, r1) = upto_bar r in
          if team = [] then None
          else case strip_prefix ''|agent:'' r1 of
            None \<Rightarrow> None
          | Some r2 \<Rightarrow> (let (agent, r3) = upto_bar r2 in
              if agent = [] then None
              else if r3 = [] then Some \<lparr>tc_team = Some team, tc_agent = Some agent\<rparr>
              else case strip_prefix ''|session:'' r3 of
                None \<Rightarrow> None
              | Some s \<Rightarrow> if s = [] \<or> has_line_terminator s then None
                          else Some \<lparr>tc_team = Some team, tc_agent = Some agent\<rparr>)))"

text \<open>The key-value pairs of a scope.\<close>

definition scope_part :: "string \<Rightarrow> (string, string) jsmap \<Rightarrow> (string, string) jsmap" where
  "scope_part part values =
     (case index_of (CHR '':'') part of
        None \<Rightarrow> values
      | Some i \<Rightarrow> if 0 < i then AList.update (take i part) (drop (Suc i) part) values else values)"

definition scope_values :: "string \<Rightarrow> (string, string) jsmap" where
  "scope_values scope = fold scope_part (split_on (CHR ''|'') scope) []"

definition decoded_value :: "(string, string) jsmap \<Rightarrow> string \<Rightarrow> string option" where
  "decoded_value values k =
     (if truthy (map_of values k) then map_option safe_decode_uri_component (map_of values k) else None)"

definition parse_scoped_member :: "string \<Rightarrow> parsed_timer option" where
  "parse_scoped_member member =
     (if prefix scoped_timer_prefix member then
        (case last_index_of (CHR '':'') member of
           None \<Rightarrow> None
         | Some lc \<Rightarrow>
             if length scoped_timer_prefix < lc then
               (let timer_type = drop (Suc lc) member;
                    scope = drop (length scoped_timer_prefix) (take lc member);
                    values = scope_values scope;
                    session = decoded_value values ''session''
                in if truthy session
                   then Some \<lparr>pt_session = the session, pt_timer_type = timer_type,
                              pt_task_type = fst (classify_timer_type timer_type),
                              pt_priority = snd (classify_timer_type timer_type),
                              pt_team = decoded_value values ''team'', pt_agent = decoded_value values ''agent''\<rparr>
                   else None)
             else None)
      else None)"

definition parse_plain_member :: "string \<Rightarrow> parsed_timer" where
  "parse_plain_member member =
     (case last_index_of (CHR '':'') member of
        None \<Rightarrow> \<lparr>pt_session = member, pt_timer_type = ''L1_idle'', pt_task_type = T_L1, pt_priority = 0,
                 pt_team = None, pt_agent = None\<rparr>
      | Some lc \<Rightarrow>
          if lc = 0
          then \<lparr>pt_session = member, pt_timer_type = ''L1_idle'', pt_task_type = T_L1, pt_priority = 0,
                 pt_team = None, pt_agent = None\<rparr>
          else (let session = take lc member; timer_type = drop (Suc lc) member;
                    tenant = parse_profile_session_tenant session
                in \<lparr>pt_session = session, pt_timer_type = timer_type,
                    pt_task_type = fst (classify_timer_type timer_type),
                    pt_priority = snd (classify_timer_type timer_type),
                    pt_team = Option.bind tenant tc_team, pt_agent = Option.bind tenant tc_agent\<rparr>))"

definition parse_pipeline_timer_member :: "string \<Rightarrow> parsed_timer" where
  "parse_pipeline_timer_member member =
     (case parse_scoped_member member of
        Some p \<Rightarrow> p
      | None \<Rightarrow> parse_plain_member member)"

section \<open>Round trip\<close>

lemma drop_take_middle: "drop (length p) (take (length (p @ q)) ((p @ q) @ r)) = q"
  by simp

lemma drop_after_sep: "drop (Suc (length p)) (p @ [c] @ r) = r"
  by simp

lemma scope_part_key:
  "CHR '':'' \<notin> set k \<Longrightarrow> k \<noteq> [] \<Longrightarrow> scope_part (k @ '':'' @ v) m = AList.update k v m"
  using index_of_append_sep [of "CHR '':''" k v] by (simp add: scope_part_def)

lemma safe_decode_encode: "utf8_ok s \<Longrightarrow> safe_decode_uri_component (encode_uri_component s) = s"
  by (simp add: safe_decode_uri_component_def uri_roundtrip)

lemma last_colon: "CHR '':'' \<notin> set t \<Longrightarrow> last_index_of (CHR '':'') (s @ '':'' @ t) = Some (length s)"
  using last_index_of_append_sep [of "CHR '':''" t s] by simp

lemma scope_values_of_parts:
  "scope_values (''team:'' @ encode_uri_component t @ ''|agent:'' @ encode_uri_component a
      @ ''|session:'' @ encode_uri_component s)
   = [(''team'', encode_uri_component t), (''agent'', encode_uri_component a), (''session'', encode_uri_component s)]"
proof -
  define et ea es where d: "et = encode_uri_component t" "ea = encode_uri_component a" "es = encode_uri_component s"
  let ?ps = "[''team'' @ '':'' @ et, ''agent'' @ '':'' @ ea, ''session'' @ '':'' @ es]"
  have "split_on (CHR ''|'') (join_with (CHR ''|'') ?ps) = ?ps"
    by (rule split_on_join) (auto simp: encode_no_separator d)
  moreover have "join_with (CHR ''|'') ?ps = ''team:'' @ et @ ''|agent:'' @ ea @ ''|session:'' @ es"
    by simp
  moreover have "fold scope_part ?ps [] = [(''team'', et), (''agent'', ea), (''session'', es)]"
    by (simp only: fold_simps comp_def id_def scope_part_key) (simp add: scope_part_key [of "''team''", simplified]
        scope_part_key [of "''agent''", simplified] scope_part_key [of "''session''", simplified])
  ultimately show ?thesis unfolding scope_values_def d by metis
qed

lemma parse_scoped_build:
  assumes "utf8_ok s" "utf8_ok t" "utf8_ok a" "s \<noteq> []" "t \<noteq> []" "a \<noteq> []" "CHR '':'' \<notin> set ty"
  shows "parse_scoped_member (build_pipeline_timer_member s ty \<lparr>tc_team = Some t, tc_agent = Some a\<rparr>)
    = Some \<lparr>pt_session = s, pt_timer_type = ty, pt_task_type = fst (classify_timer_type ty),
            pt_priority = snd (classify_timer_type ty), pt_team = Some t, pt_agent = Some a\<rparr>"
proof -
  let ?sc = "''team:'' @ encode_uri_component t @ ''|agent:'' @ encode_uri_component a
      @ ''|session:'' @ encode_uri_component s"
  have b: "build_pipeline_timer_member s ty \<lparr>tc_team = Some t, tc_agent = Some a\<rparr> = (scoped_timer_prefix @ ?sc) @ '':'' @ ty"
    using assms by (simp add: build_pipeline_timer_member_def truthy_def)
  have lc: "last_index_of (CHR '':'') ((scoped_timer_prefix @ ?sc) @ '':'' @ ty) = Some (length (scoped_timer_prefix @ ?sc))"
    by (rule last_colon [OF assms(7)])
  have pr: "prefix scoped_timer_prefix ((scoped_timer_prefix @ ?sc) @ '':'' @ ty)" by simp
  have sc: "drop (length scoped_timer_prefix) (take (length (scoped_timer_prefix @ ?sc)) ((scoped_timer_prefix @ ?sc) @ '':'' @ ty)) = ?sc"
    by (rule drop_take_middle)
  have ty: "drop (Suc (length (scoped_timer_prefix @ ?sc))) ((scoped_timer_prefix @ ?sc) @ '':'' @ ty) = ty"
    by (rule drop_after_sep)
  have v: "decoded_value (scope_values ?sc) ''session'' = Some s" "decoded_value (scope_values ?sc) ''team'' = Some t"
    "decoded_value (scope_values ?sc) ''agent'' = Some a"
    unfolding scope_values_of_parts using assms by (simp_all add: decoded_value_def truthy_def safe_decode_encode)
  show ?thesis
    unfolding b parse_scoped_member_def lc sc ty Let_def option.case v
    using pr assms(4) by (simp add: truthy_def)
qed

lemma parse_plain_build:
  assumes "s \<noteq> []" "CHR '':'' \<notin> set ty" "\<not> prefix scoped_timer_prefix (s @ '':'' @ ty)"
  shows "parse_pipeline_timer_member (s @ '':'' @ ty)
    = \<lparr>pt_session = s, pt_timer_type = ty, pt_task_type = fst (classify_timer_type ty),
       pt_priority = snd (classify_timer_type ty),
       pt_team = Option.bind (parse_profile_session_tenant s) tc_team,
       pt_agent = Option.bind (parse_profile_session_tenant s) tc_agent\<rparr>"
  using assms by (simp add: parse_pipeline_timer_member_def parse_scoped_member_def parse_plain_member_def
      last_colon [simplified] Let_def)

section \<open>Properties\<close>

text \<open>
  C38: the name of a scoped timer determines the timer. For a session, a team and an agent with
  arbitrary characters in their names, parsing the built name gives back all three, the timer
  type, and the task and priority that belong to it; so two scoped timers with the same name are
  the same timer.
\<close>

theorem scoped_timer_roundtrip:
  assumes "utf8_ok s" "utf8_ok t" "utf8_ok a" "s \<noteq> []" "t \<noteq> []" "a \<noteq> []" "CHR '':'' \<notin> set ty"
  shows "parse_pipeline_timer_member (build_pipeline_timer_member s ty \<lparr>tc_team = Some t, tc_agent = Some a\<rparr>)
    = \<lparr>pt_session = s, pt_timer_type = ty, pt_task_type = fst (classify_timer_type ty),
       pt_priority = snd (classify_timer_type ty), pt_team = Some t, pt_agent = Some a\<rparr>"
  using parse_scoped_build [OF assms] by (simp add: parse_pipeline_timer_member_def)

theorem scoped_timer_roundtrip_witness:
  "pt_session (parse_pipeline_timer_member
     (build_pipeline_timer_member ''a:b|c%'' ''L2_schedule'' \<lparr>tc_team = Some ''t|x:y'', tc_agent = Some ''z''\<rparr>)) = ''a:b|c%''"
proof -
  have "utf8_ok ''a:b|c%''" "utf8_ok ''t|x:y''" "utf8_ok ''z''" by code_simp+
  from scoped_timer_roundtrip [OF this, of "''L2_schedule''"] show ?thesis by simp
qed

end
