(* ===== verification/Iso_Time.thy ===== *)
theory Iso_Time
  imports Prelude
begin

text \<open>
  \<^verbatim>\<open>date.toISOString()\<close> and \<^verbatim>\<open>new Date(s).getTime()\<close> on the strings that the former writes for
  the years 0 to 9999: calendar arithmetic on the proleptic Gregorian calendar, counting from
  the first of March so that the leap day ends the year.
\<close>

section \<open>Calendar\<close>

definition days_from_civil :: "int \<Rightarrow> int \<Rightarrow> int \<Rightarrow> int" where
  "days_from_civil y m d =
     (let y' = (if m \<le> 2 then y - 1 else y);
          era = y' div 400;
          yoe = y' mod 400;
          doy = (153 * (if 2 < m then m - 3 else m + 9) + 2) div 5 + d - 1;
          doe = yoe * 365 + yoe div 4 - yoe div 100 + doy
      in era * 146097 + doe - 719468)"

definition year_of_era :: "int \<Rightarrow> int" where
  "year_of_era doe = (doe - doe div 1460 + doe div 36524 - doe div 146096) div 365"

definition civil_from_days :: "int \<Rightarrow> int \<times> int \<times> int" where
  "civil_from_days z =
     (let era = (z + 719468) div 146097;
          doe = (z + 719468) mod 146097;
          yoe = year_of_era doe;
          doy = doe - (365 * yoe + yoe div 4 - yoe div 100);
          mp = (5 * doy + 2) div 153;
          d = doy - (153 * mp + 2) div 5 + 1;
          m = (if mp < 10 then mp + 3 else mp - 9)
      in (yoe + era * 400 + (if m \<le> 2 then 1 else 0), m, d))"

text \<open>The year is the right one: the day of the year is not negative and below 366. The argument
  runs within a century \<open>c\<close> of the era, where leap days come every four years; the last day of
  the era is a case of its own.\<close>

lemma div_bounds:
  fixes x n :: int
  assumes "0 < n"
  shows "n * (x div n) \<le> x" "x < n * (x div n) + n"
  using assms pos_mod_bound [of n x] pos_mod_sign [of n x] mult_div_mod_eq [of n x] by linarith+

lemma century_year:
  fixes c r A u :: int
  assumes c: "0 \<le> c" "c \<le> 3" and r: "0 \<le> r" "r < 36524"
    and A: "1460 * A \<le> 24 * c + r" "24 * c + r < 1460 * A + 1460"
    and u: "365 * u \<le> r - A" "r - A < 365 * u + 365"
  shows "0 \<le> u \<and> u < 100 \<and> 0 \<le> r - 365 * u - u div 4 \<and> r - 365 * u - u div 4 < 366"
proof -
  have a: "0 \<le> A" "A \<le> 25" using c r A by linarith+
  define v where "v = u div 4"
  have v: "4 * v \<le> u" "u < 4 * v + 4" unfolding v_def by (rule div_bounds, simp)+
  have "-1 < u" using u(2) r a A(1) c by linarith
  moreover have "u < 100"
  proof (rule ccontr)
    assume "\<not> u < 100"
    then have g: "36500 + A \<le> r" using u(1) by linarith
    then have "24 < A" using A(2) c by linarith
    then show False using g r by linarith
  qed
  moreover have "v \<le> A" using v u A r c by linarith
  moreover have "A - 1 \<le> v" using v u A a c by linarith
  ultimately show ?thesis using u unfolding v_def [symmetric] by linarith
qed

lemma year_of_era_bounds:
  assumes "0 \<le> doe" "doe < 146097"
  defines "y \<equiv> year_of_era doe"
  shows "0 \<le> y \<and> y < 400 \<and> 0 \<le> doe - (365 * y + y div 4 - y div 100) \<and> doe - (365 * y + y div 4 - y div 100) < 366"
proof (cases "doe = 146096")
  case True
  then show ?thesis by (simp add: y_def year_of_era_def)
next
  case False
  define c where "c = doe div 36524"
  define r where "r = doe mod 36524"
  define A where "A = doe div 1460 - 25 * c"
  define u where "u = y - 100 * c"
  have d: "doe = 36524 * c + r" by (simp add: c_def r_def)
  have r: "0 \<le> r" "r < 36524" by (simp_all add: r_def)
  have c: "0 \<le> c" "c \<le> 3" using d r assms(1,2) False by linarith+
  define q where "q = doe div 1460"
  have "1460 * q \<le> doe" "doe < 1460 * q + 1460" unfolding q_def by (rule div_bounds, simp)+
  moreover have "q = A + 25 * c" by (simp add: A_def q_def)
  ultimately have A: "1460 * A \<le> 24 * c + r" "24 * c + r < 1460 * A + 1460" using d by linarith+
  have "doe div 146096 = 0" using assms(1,2) False by auto
  then have y: "y = (36500 * c + r - A) div 365"
    using d unfolding y_def year_of_era_def A_def c_def by (simp add: algebra_simps)
  have "365 * y \<le> 36500 * c + r - A" "36500 * c + r - A < 365 * y + 365" unfolding y by (rule div_bounds, simp)+
  moreover have "y = u + 100 * c" by (simp add: u_def)
  ultimately have u: "365 * u \<le> r - A" "r - A < 365 * u + 365" by linarith+
  note b = century_year [OF c r A u]
  have yu: "y = u + 100 * c" by (simp add: u_def)
  have "y div 4 = 25 * c + u div 4" unfolding yu by (simp add: div_add1_eq [of u])
  moreover have "y div 100 = c" using b unfolding yu by (simp add: div_mult_self1)
  ultimately show ?thesis using b c d yu by linarith
qed

lemma days_of_civil:
  "civil_from_days z = (y, m, d) \<Longrightarrow> days_from_civil y m d = z"
proof -
  assume civ: "civil_from_days z = (y, m, d)"
  define era where "era = (z + 719468) div 146097"
  define doe where "doe = (z + 719468) mod 146097"
  define yoe where "yoe = year_of_era doe"
  define doy where "doy = doe - (365 * yoe + yoe div 4 - yoe div 100)"
  define mp where "mp = (5 * doy + 2) div 153"
  have z: "z + 719468 = 146097 * era + doe" by (simp add: era_def doe_def)
  have "0 \<le> doe" "doe < 146097" by (simp_all add: doe_def)
  note b = year_of_era_bounds [OF this, folded yoe_def, folded doy_def]
  have "153 * mp \<le> 5 * doy + 2" "5 * doy + 2 < 153 * mp + 153" unfolding mp_def by (rule div_bounds, simp)+
  then have mp: "0 \<le> mp" "mp \<le> 11" using b by linarith+
  have "civil_from_days z = (yoe + era * 400 + (if (if mp < 10 then mp + 3 else mp - 9) \<le> 2 then 1 else 0),
      (if mp < 10 then mp + 3 else mp - 9), doy - (153 * mp + 2) div 5 + 1)"
    unfolding civil_from_days_def Let_def mp_def doy_def yoe_def doe_def era_def by (rule refl)
  then have eqs: "m = (if mp < 10 then mp + 3 else mp - 9)" "d = doy - (153 * mp + 2) div 5 + 1"
    "y = yoe + era * 400 + (if m \<le> 2 then 1 else 0)"
    using civ by auto
  have m: "m \<le> 2 \<longleftrightarrow> 10 \<le> mp" "(if 2 < m then m - 3 else m + 9) = mp" using eqs(1) mp by auto
  have yy: "(if m \<le> 2 then y - 1 else y) = yoe + era * 400" using eqs(3) by simp
  have "(yoe + era * 400) div 400 = era" "(yoe + era * 400) mod 400 = yoe" using b by simp_all
  then show ?thesis
    unfolding days_from_civil_def Let_def yy m(2) eqs(2) using z unfolding doy_def by simp
qed

section \<open>Text\<close>

fun pad :: "nat \<Rightarrow> int \<Rightarrow> string" where
  "pad 0 v = []"
| "pad (Suc n) v = pad n (v div 10) @ [char_of (nat (48 + v mod 10))]"

definition read_digits :: "string \<Rightarrow> int" where
  "read_digits s = foldl (\<lambda>n c. 10 * n + (int (of_char c) - 48)) 0 s"

definition to_iso_string :: "ms \<Rightarrow> string" where
  "to_iso_string t =
     (let (y, m, d) = civil_from_days (t div 86400000); r = t mod 86400000
      in pad 4 y @ ''-'' @ pad 2 m @ ''-'' @ pad 2 d @ ''T'' @ pad 2 (r div 3600000) @ '':'' @ pad 2 (r div 60000 mod 60)
           @ '':'' @ pad 2 (r div 1000 mod 60) @ ''.'' @ pad 3 (r mod 1000) @ ''Z'')"

text \<open>None is the invalid date, whose time is \<^verbatim>\<open>NaN\<close>; the field at position \<open>i\<close> has \<open>n\<close> digits.\<close>

definition digits_at :: "nat \<Rightarrow> nat \<Rightarrow> string \<Rightarrow> int" where
  "digits_at i n s = read_digits (take n (drop i s))"

definition time_of_iso :: "string \<Rightarrow> ms option" where
  "time_of_iso s =
     (if length s = 24 \<and> last s = CHR ''Z'' \<and> s ! 10 = CHR ''T''
      then Some (days_from_civil (digits_at 0 4 s) (digits_at 5 2 s) (digits_at 8 2 s) * 86400000
             + digits_at 11 2 s * 3600000 + digits_at 14 2 s * 60000 + digits_at 17 2 s * 1000 + digits_at 20 3 s)
      else None)"

lemma length_pad [simp]: "length (pad n v) = n"
  by (induction n arbitrary: v) auto

lemma read_pad: "read_digits (pad n v) = v mod 10 ^ n"
proof (induction n arbitrary: v)
  case 0
  then show ?case by (simp add: read_digits_def)
next
  case (Suc n)
  have "(of_char (char_of (nat (48 + v mod 10)) :: char) :: nat) = nat (48 + v mod 10)"
    by (subst of_char_of) (simp add: nat_less_iff)
  then have "read_digits (pad (Suc n) v) = 10 * (v div 10 mod 10 ^ n) + v mod 10"
    using Suc [of "v div 10"] by (simp add: read_digits_def)
  also have "\<dots> = v mod 10 ^ Suc n" by (simp add: zmod_zmult2_eq)
  finally show ?case .
qed

text \<open>Month and day have two digits, and the year has four for times of this and many centuries.\<close>

lemma civil_fields:
  assumes "civil_from_days z = (y, m, d)"
  shows "1 \<le> m" "m \<le> 12" "1 \<le> d" "d \<le> 31" "0 \<le> z \<Longrightarrow> 0 \<le> y" "z < 2777778 \<Longrightarrow> y < 10000"
proof -
  define era where "era = (z + 719468) div 146097"
  define doe where "doe = (z + 719468) mod 146097"
  define yoe where "yoe = year_of_era doe"
  define doy where "doy = doe - (365 * yoe + yoe div 4 - yoe div 100)"
  define mp where "mp = (5 * doy + 2) div 153"
  define k where "k = (153 * mp + 2) div 5"
  have "0 \<le> doe" "doe < 146097" by (simp_all add: doe_def)
  note b = year_of_era_bounds [OF this, folded yoe_def, folded doy_def]
  have mp: "153 * mp \<le> 5 * doy + 2" "5 * doy + 2 < 153 * mp + 153" unfolding mp_def by (rule div_bounds, simp)+
  have k: "5 * k \<le> 153 * mp + 2" "153 * mp + 2 < 5 * k + 5" unfolding k_def by (rule div_bounds, simp)+
  have mpb: "0 \<le> mp" "mp \<le> 11" using b mp by linarith+
  have "civil_from_days z = (yoe + era * 400 + (if (if mp < 10 then mp + 3 else mp - 9) \<le> 2 then 1 else 0),
      (if mp < 10 then mp + 3 else mp - 9), doy - k + 1)"
    unfolding civil_from_days_def Let_def k_def mp_def doy_def yoe_def doe_def era_def by (rule refl)
  then have eqs: "m = (if mp < 10 then mp + 3 else mp - 9)" "d = doy - k + 1"
    "y = yoe + era * 400 + (if m \<le> 2 then 1 else 0)"
    using assms by auto
  show "1 \<le> m" "m \<le> 12" using eqs(1) mpb by auto
  show "1 \<le> d" "d \<le> 31" using eqs(2) mp k by linarith+
  have e: "146097 * era \<le> z + 719468" "z + 719468 < 146097 * era + 146097" unfolding era_def by (rule div_bounds, simp)+
  show "0 \<le> y" if "0 \<le> z" proof -
    have "0 \<le> era" using e that by linarith
    then show ?thesis using eqs(3) b by simp
  qed
  show "y < 10000" if "z < 2777778" proof -
    have "era \<le> 23" using e that by linarith
    then show ?thesis using eqs(3) b by simp
  qed
qed

lemma read_pad_small: "0 \<le> v \<Longrightarrow> v < 10 ^ n \<Longrightarrow> read_digits (pad n v) = v"
  by (simp add: read_pad)

text \<open>The time that \<^verbatim>\<open>toISOString\<close> writes is the time that \<^verbatim>\<open>new Date\<close> reads, from 1970 to
  the year 9575.\<close>

lemma iso_roundtrip:
  assumes "0 \<le> t" "t < 240000000000000"
  shows "time_of_iso (to_iso_string t) = Some t"
proof -
  define D where "D = t div 86400000"
  define r where "r = t mod 86400000"
  obtain y m d where c: "civil_from_days D = (y, m, d)" by (cases "civil_from_days D") auto
  have t: "t = 86400000 * D + r" by (simp add: D_def r_def)
  have r: "0 \<le> r" "r < 86400000" by (simp_all add: r_def)
  have "0 \<le> D" "D < 2777778" using assms t r by linarith+
  note f = civil_fields [OF c] this
  define h where "h = r div 3600000"
  define q where "q = r div 60000"
  define s where "s = r div 1000"
  define mi where "mi = q mod 60"
  define sc where "sc = s mod 60"
  define ml where "ml = r mod 1000"
  have b: "3600000 * h \<le> r" "r < 3600000 * h + 3600000" unfolding h_def by (rule div_bounds, simp)+
  have q: "q div 60 = h" unfolding q_def h_def by (simp add: zdiv_zmult2_eq [symmetric])
  have s: "s div 60 = q" unfolding s_def q_def by (simp add: zdiv_zmult2_eq [symmetric])
  have parts: "h * 3600000 + mi * 60000 + sc * 1000 + ml = r"
  proof -
    have "q = 60 * h + mi" unfolding mi_def q [symmetric] by simp
    moreover have "s = 60 * q + sc" unfolding sc_def s [symmetric] by simp
    moreover have "r = 1000 * s + ml" unfolding s_def ml_def by simp
    ultimately show ?thesis by linarith
  qed
  have fb: "0 \<le> h" "h < 100" "0 \<le> mi" "mi < 100" "0 \<le> sc" "sc < 100" "0 \<le> ml" "ml < 1000"
    using b r by (simp_all add: mi_def sc_def ml_def)
  have str: "to_iso_string t = pad 4 y @ ''-'' @ pad 2 m @ ''-'' @ pad 2 d @ ''T'' @ pad 2 h @ '':''
      @ pad 2 mi @ '':'' @ pad 2 sc @ ''.'' @ pad 3 ml @ ''Z''"
    unfolding to_iso_string_def using c by (simp add: Let_def D_def r_def h_def mi_def q_def sc_def s_def ml_def)
  have dg: "digits_at 0 4 (to_iso_string t) = y" "digits_at 5 2 (to_iso_string t) = m"
    "digits_at 8 2 (to_iso_string t) = d" "digits_at 11 2 (to_iso_string t) = h"
    "digits_at 14 2 (to_iso_string t) = mi" "digits_at 17 2 (to_iso_string t) = sc"
    "digits_at 20 3 (to_iso_string t) = ml"
    unfolding str digits_at_def using f fb by (simp_all add: read_pad_small)
  have sh: "length (to_iso_string t) = 24" "last (to_iso_string t) = CHR ''Z''" "to_iso_string t ! 10 = CHR ''T''"
    unfolding str by (simp_all add: nth_append)
  show ?thesis
    unfolding time_of_iso_def dg using sh days_of_civil [OF c] parts t by simp
qed

end
