(* ===== verification/Stateful_Pipeline.thy ===== *)
theory Stateful_Pipeline
  imports Timer_Member Iso_Time Pipeline_Manager
begin

text \<open>
  \<^verbatim>\<open>MemoryCore/src/utils/stateful-pipeline-manager.ts\<close>: the scheduler whose sessions, timers and
  tasks live in a state backend. The operations act on the manager's own fields and on a local
  backend. With that backend an \<^verbatim>\<open>await\<close> only yields to other microtasks: \<open>notify_read\<close>,
  \<open>notify_capture\<close> and \<open>notify_finish\<close> are the pieces of \<^verbatim>\<open>notifyConversation\<close>,
  \<open>notify_conversation\<close> is the uninterrupted call; the shorter operations are one piece. An
  operation that enqueues a task also returns the blocked consumer that the task wakes.
\<close>

section \<open>State\<close>

record stateful_manager =
  sp_cfg :: manager_config
  sp_default :: string
  sp_has_persister :: bool
  sp_destroyed :: bool
  sp_active :: "string list"

definition new_stateful_manager :: "pipeline_config \<Rightarrow> string \<Rightarrow> session_filter \<Rightarrow> stateful_manager" where
  "new_stateful_manager config instance_id sf =
     \<lparr>sp_cfg = manager_config_of config sf, sp_default = instance_id,
      sp_has_persister = False, sp_destroyed = False, sp_active = []\<rparr>"

type_synonym wake = "(nat \<times> task_payload option) option"

definition no_patch :: session_patch where
  "no_patch = \<lparr>pa_conversation_count = None, pa_last_extraction_time = None,
     pa_last_extraction_updated_time = None, pa_last_active_time = None,
     pa_l2_pending_l1_count = None, pa_warmup_threshold = None, pa_l2_last_extraction_time = None\<rparr>"

definition full_patch :: "session_state \<Rightarrow> session_patch" where
  "full_patch s = \<lparr>pa_conversation_count = Some (conversation_count s),
     pa_last_extraction_time = Some (last_extraction_time s),
     pa_last_extraction_updated_time = Some (last_extraction_updated_time s),
     pa_last_active_time = Some (last_active_time s),
     pa_l2_pending_l1_count = Some (l2_pending_l1_count s),
     pa_warmup_threshold = Some (warmup_threshold s),
     pa_l2_last_extraction_time = Some (l2_last_extraction_time s)\<rparr>"

definition unset_instance :: string where
  "unset_instance = ''__unset__''"

definition effective_instance :: "stateful_manager \<Rightarrow> string option \<Rightarrow> string" where
  "effective_instance m inst = (case inst of None \<Rightarrow> sp_default m | Some i \<Rightarrow> i)"

definition scope_data :: "string \<Rightarrow> string option \<Rightarrow> string option \<Rightarrow> task_data" where
  "scope_data inst team agent = \<lparr>dt_instance = Some inst, dt_team = team, dt_agent = agent,
     dt_triggered_by = None, dt_timer_member = None, dt_mmd_file = None, dt_retry_count = None,
     dt_lock_retry_count = None\<rparr>"

definition session_task ::
  "string \<Rightarrow> task_type \<Rightarrow> ms \<Rightarrow> string \<Rightarrow> string \<Rightarrow> string option \<Rightarrow> string option \<Rightarrow> task_payload" where
  "session_task name type now inst session team agent =
     \<lparr>tp_id = name @ ''-'' @ session @ ''-'' @ dec_int now, tp_type = type, tp_instance = inst,
      tp_session = session, tp_team = team, tp_agent = agent, tp_priority = 0,
      tp_data = Some (scope_data inst team agent), tp_created_at = now\<rparr>"

definition timer_name :: "string \<Rightarrow> string \<Rightarrow> string option \<Rightarrow> string option \<Rightarrow> string" where
  "timer_name session timer_type team agent =
     build_pipeline_timer_member session timer_type \<lparr>tc_team = team, tc_agent = agent\<rparr>"

section \<open>Start\<close>

definition sp_start ::
  "ms \<Rightarrow> (string, session_state \<times> int option) jsmap option \<Rightarrow> stateful_manager \<Rightarrow> local_backend \<Rightarrow> local_backend" where
  "sp_start now restored m b =
     (if sp_destroyed m then b
      else case restored of
        None \<Rightarrow> b
      | Some states \<Rightarrow>
          fold (\<lambda>(k, sw) b. if should_skip (mc_filter (sp_cfg m)) k then b
                  else lb_update_session now (session_key (sp_default m) k None None)
                         (full_patch (restore_state sw)) b) states b)"

section \<open>Notification\<close>

definition sp_effective_threshold :: "manager_config \<Rightarrow> int \<Rightarrow> int" where
  "sp_effective_threshold cfg w =
     (if \<not> mc_warmup cfg then mc_every_n cfg
      else if w \<le> 0 then mc_every_n cfg
      else min w (mc_every_n cfg))"

definition advance_warmup_in_backend ::
  "ms \<Rightarrow> string \<Rightarrow> int \<Rightarrow> string option \<Rightarrow> string option \<Rightarrow> stateful_manager \<Rightarrow> local_backend \<Rightarrow> local_backend" where
  "advance_warmup_in_backend now session current team agent m b =
     (if \<not> mc_warmup (sp_cfg m) \<or> current \<le> 0 then b
      else (let next = current * 2;
                new_threshold = (if mc_every_n (sp_cfg m) \<le> next then 0 else next)
            in lb_update_session now (session_key (sp_default m) session team agent)
                 (no_patch\<lparr>pa_warmup_threshold := Some new_threshold, pa_conversation_count := Some 0\<rparr>) b))"

text \<open>What a notification keeps across its \<^verbatim>\<open>await\<close>s: the parameters of the capture and the warm-up
  threshold it read.\<close>

record notify_plan =
  np_capture :: capture_params
  np_current :: int

definition unset_error :: "string \<Rightarrow> string \<Rightarrow> string" where
  "unset_error session inst =
     ''[pipeline-v2] notifyConversation called without explicit instanceId (session='' @ session
       @ '', got=\"'' @ inst @ ''\"). In service mode, instanceId must be provided.''"

definition plan_of ::
  "ms \<Rightarrow> string \<Rightarrow> string \<Rightarrow> int option \<Rightarrow> string option \<Rightarrow> string option \<Rightarrow> manager_config
   \<Rightarrow> session_state option \<Rightarrow> notify_plan" where
  "plan_of now session i rounds team agent cfg state =
     (let warmup = (case state of None \<Rightarrow> if mc_warmup cfg then 1 else 0 | Some s \<Rightarrow> warmup_threshold s)
      in \<lparr>np_capture = \<lparr>cp_instance = i, cp_session = session, cp_team = team,
              cp_agent = agent, cp_message = None,
              cp_threshold = sp_effective_threshold cfg warmup,
              cp_fire_at = now + mc_l1_idle_timeout cfg,
              cp_timer_member = timer_name session ''L1_idle'' team agent,
              cp_task = session_task ''L1'' T_L1 now i session team agent,
              cp_now = now, cp_rounds = patch_or rounds 1\<rparr>,
          np_current = (case state of None \<Rightarrow> 1 | Some s \<Rightarrow> warmup_threshold s)\<rparr>)"

definition notify_read ::
  "ms \<Rightarrow> string \<Rightarrow> string option \<Rightarrow> int option \<Rightarrow> string option \<Rightarrow> string option
   \<Rightarrow> stateful_manager \<Rightarrow> local_backend \<Rightarrow> (string + notify_plan option) \<times> stateful_manager" where
  "notify_read now session inst rounds team agent m b =
     (if sp_destroyed m then (Inr None, m)
      else if should_skip (mc_filter (sp_cfg m)) session then (Inr None, m)
      else (let i = effective_instance m inst in
        if i = unset_instance then (Inl (unset_error session i), m)
        else (Inr (Some (plan_of now session i rounds team agent (sp_cfg m)
                (lb_get_session (session_key i session team agent) b))),
              m\<lparr>sp_active := (if i \<in> set (sp_active m) then sp_active m else sp_active m @ [i])\<rparr>)))"

definition notify_capture ::
  "ms \<Rightarrow> notify_plan \<Rightarrow> local_backend \<Rightarrow> bool \<times> wake \<times> local_backend" where
  "notify_capture now plan b =
     (let (result, b') = capture_atomic now (np_capture plan) b
      in (fst result,
          if fst result then fst (lb_enqueue_task (cp_task (np_capture plan)) b) else None, b'))"

definition notify_finish :: "ms \<Rightarrow> bool \<Rightarrow> notify_plan \<Rightarrow> stateful_manager \<Rightarrow> local_backend \<Rightarrow> local_backend" where
  "notify_finish now triggered plan m b =
     (if triggered
      then advance_warmup_in_backend now (cp_session (np_capture plan)) (np_current plan)
             (cp_team (np_capture plan)) (cp_agent (np_capture plan)) m b
      else b)"

text \<open>The outcome: rejected with an error, ignored (None), or captured, with the L1 task triggered or not.\<close>

definition notify_conversation ::
  "ms \<Rightarrow> string \<Rightarrow> string option \<Rightarrow> int option \<Rightarrow> string option \<Rightarrow> string option
   \<Rightarrow> stateful_manager \<Rightarrow> local_backend
   \<Rightarrow> (string + bool option) \<times> wake \<times> stateful_manager \<times> local_backend" where
  "notify_conversation now session inst rounds team agent m b =
     (case notify_read now session inst rounds team agent m b of
        (Inl e, m') \<Rightarrow> (Inl e, None, m', b)
      | (Inr None, m') \<Rightarrow> (Inr None, None, m', b)
      | (Inr (Some plan), m') \<Rightarrow>
          (case notify_capture now plan b of
             (triggered, wake, b') \<Rightarrow>
               (Inr (Some triggered), wake, m', notify_finish now triggered plan m' b')))"

section \<open>Session end\<close>

definition sp_flush_session ::
  "ms \<Rightarrow> string \<Rightarrow> string option \<Rightarrow> string option \<Rightarrow> string option
   \<Rightarrow> stateful_manager \<Rightarrow> local_backend \<Rightarrow> wake \<times> local_backend" where
  "sp_flush_session now session inst team agent m b =
     (if sp_destroyed m then (None, b)
      else if should_skip (mc_filter (sp_cfg m)) session then (None, b)
      else (let i = effective_instance m inst in
        if i = unset_instance then (None, b)
        else (case lb_get_session (session_key i session team agent) b of
                None \<Rightarrow> (None, b)
              | Some state \<Rightarrow>
                  if conversation_count state = 0 then (None, b)
                  else lb_enqueue_task (session_task ''flush'' T_flush now i session team agent)
                         (lb_remove_timer i (timer_name session ''L1_idle'' team agent) b))))"

section \<open>Timers of the second stage\<close>

text \<open>\<^verbatim>\<open>state?.l2_last_extraction_time ? new Date(...).getTime() : 0\<close>; an invalid date is not
  greater than 0.\<close>

definition last_l2_time :: "session_state option \<Rightarrow> ms" where
  "last_l2_time state =
     (case state of None \<Rightarrow> 0
      | Some s \<Rightarrow> if l2_last_extraction_time s = [] then 0
                  else patch_or (time_of_iso (l2_last_extraction_time s)) 0)"

definition desired_l2_time :: "manager_config \<Rightarrow> ms \<Rightarrow> session_state option \<Rightarrow> ms" where
  "desired_l2_time cfg now state =
     (let last_l2 = last_l2_time state;
          min_interval_floor = (if 0 < last_l2 then last_l2 + mc_l2_min cfg else 0)
      in max (now + mc_l2_delay cfg) min_interval_floor)"

definition advance_l2_timer_after_l1 ::
  "ms \<Rightarrow> string \<Rightarrow> string option \<Rightarrow> string option \<Rightarrow> string option
   \<Rightarrow> stateful_manager \<Rightarrow> local_backend \<Rightarrow> local_backend" where
  "advance_l2_timer_after_l1 now session inst team agent m b =
     (if sp_destroyed m then b
      else (let i = effective_instance m inst in
        if i = unset_instance then b
        else snd (lb_set_timer_if_earlier now i (timer_name session ''L2_schedule'' team agent)
                    (desired_l2_time (sp_cfg m) now (lb_get_session (session_key i session team agent) b)) b)))"

definition sp_arm_l2_max_interval ::
  "ms \<Rightarrow> string \<Rightarrow> string option \<Rightarrow> string option \<Rightarrow> string option
   \<Rightarrow> stateful_manager \<Rightarrow> local_backend \<Rightarrow> local_backend" where
  "sp_arm_l2_max_interval now session inst team agent m b =
     (if sp_destroyed m then b
      else (let i = effective_instance m inst in
        if i = unset_instance then b
        else lb_set_timer now i (session @ '':L2_schedule'') (now + mc_l2_max (sp_cfg m)) b))"

section \<open>Backlog\<close>

definition enqueue_l1_drain ::
  "ms \<Rightarrow> string \<Rightarrow> string option \<Rightarrow> string option \<Rightarrow> string option
   \<Rightarrow> stateful_manager \<Rightarrow> local_backend \<Rightarrow> wake \<times> local_backend" where
  "enqueue_l1_drain now session inst team agent m b =
     (if sp_destroyed m then (None, b)
      else (let i = effective_instance m inst in
        if i = unset_instance then (None, b)
        else lb_enqueue_task (session_task ''L1-drain'' T_L1 now i session team agent) b))"

definition arm_l1_idle_after_drain ::
  "ms \<Rightarrow> string \<Rightarrow> string option \<Rightarrow> string option \<Rightarrow> string option
   \<Rightarrow> stateful_manager \<Rightarrow> local_backend \<Rightarrow> local_backend" where
  "arm_l1_idle_after_drain now session inst team agent m b =
     (if sp_destroyed m then b
      else (let i = effective_instance m inst in
        if i = unset_instance then b
        else snd (lb_set_timer_if_earlier now i (timer_name session ''L1_idle'' team agent)
                    (now + mc_l1_idle_timeout (sp_cfg m)) b)))"

section \<open>Shutdown and accessors\<close>

text \<open>The states that the persister is given, if there is one.\<close>

definition persist_current_states ::
  "stateful_manager \<Rightarrow> local_backend \<Rightarrow> (string, session_state) jsmap option" where
  "persist_current_states m b =
     (if \<not> sp_has_persister m then None
      else Some (fold (\<lambda>s states. case lb_get_session (session_key (sp_default m) s None None) b of
                          None \<Rightarrow> states
                        | Some state \<Rightarrow> AList.update s state states)
                   (lb_list_active_sessions (sp_default m) b) []))"

definition sp_destroy ::
  "stateful_manager \<Rightarrow> local_backend \<Rightarrow> (string, session_state) jsmap option \<times> stateful_manager" where
  "sp_destroy m b =
     (if sp_destroyed m then (None, m)
      else (persist_current_states (m\<lparr>sp_destroyed := True\<rparr>) b, m\<lparr>sp_destroyed := True\<rparr>))"

definition get_active_instances :: "stateful_manager \<Rightarrow> string list" where
  "get_active_instances m = sp_active m"

definition sp_get_session_state :: "string \<Rightarrow> stateful_manager \<Rightarrow> local_backend \<Rightarrow> session_state option" where
  "sp_get_session_state session m b = lb_get_session (session_key (sp_default m) session None None) b"

section \<open>Lemmas\<close>

lemma lb_get_update [simp]:
  "lb_get_session k (lb_update_session now k' p b)
   = (if k = k' then Some (apply_patch p (jget_or (default_pipeline_state\<lparr>last_active_time := now\<rparr>) (lb_sessions b) k'))
      else lb_get_session k b)"
  by (simp add: lb_get_session_def lb_update_session_def Let_def)

lemma timers_update_session [simp]: "lb_timers (lb_update_session now k p b) = lb_timers b"
  by (simp add: lb_update_session_def Let_def)

lemma sessions_remove_timer [simp]: "lb_sessions (lb_remove_timer i t b) = lb_sessions b"
  by (simp add: lb_remove_timer_def)

lemma session_key_instance_inject [simp]:
  "session_key i s t a = session_key j s t a \<longleftrightarrow> i = j"
  by (simp add: session_key_def)

lemma timer_key_member_inject [simp]: "timer_key i x = timer_key i y \<longleftrightarrow> x = y"
  by (simp add: timer_key_def)

lemma apply_warmup_patch:
  "apply_patch (no_patch\<lparr>pa_warmup_threshold := Some w, pa_conversation_count := Some n\<rparr>) s
   = s\<lparr>conversation_count := n, warmup_threshold := w\<rparr>"
  by (cases s) (simp add: apply_patch_def no_patch_def patch_or_def)

text \<open>What a capture does to the session's own state, and to the others.\<close>

lemma capture_atomic_session:
  assumes "capture_atomic now c b = ((trig, n), b')"
  defines "s \<equiv> jget_or (default_pipeline_state\<lparr>last_active_time := cp_now c\<rparr>) (lb_sessions b) (cp_key c)"
  shows "trig \<longleftrightarrow> cp_threshold c \<le> conversation_count s + cp_rounds c"
    and "lb_get_session (cp_key c) b' = Some (s\<lparr>conversation_count := (if trig then 0 else conversation_count s + cp_rounds c),
           last_active_time := cp_now c\<rparr>)"
    and "k \<noteq> cp_key c \<Longrightarrow> lb_get_session k b' = lb_get_session k b"
  using assms
  by (auto simp: capture_atomic_def capture_count_def capture_reset_def capture_message_frame Let_def
      lb_get_session_def split: if_splits option.splits)

lemma fire_time_set_if_earlier:
  "map_option it_fire_at (map_of (lb_timers (snd (lb_set_timer_if_earlier now i x f b))) (timer_key i x))
   = Some (case map_of (lb_timers b) (timer_key i x) of None \<Rightarrow> f | Some t \<Rightarrow> min (it_fire_at t) f)"
  by (auto simp: lb_set_timer_if_earlier_def lb_set_timer_def Let_def split: option.splits)

lemma set_if_earlier_other:
  "k \<noteq> timer_key i x \<Longrightarrow> map_of (lb_timers (snd (lb_set_timer_if_earlier now i x f b))) k = map_of (lb_timers b) k"
  by (auto simp: lb_set_timer_if_earlier_def lb_set_timer_def Let_def split: option.splits)

lemma timer_set_timer:
  "map_of (lb_timers (lb_set_timer now i x f b)) k
   = (if k = timer_key i x then Some \<lparr>it_member = x, it_fire_at = f,
        it_handle = (if lb_has_callback b then Some (now + max 0 (f - now),
           \<lparr>te_instance = Some i, te_member = x, te_fire_at = f\<rparr>) else None)\<rparr>
      else map_of (lb_timers b) k)"
  by (simp add: lb_set_timer_def Let_def)

section \<open>The warm-up of the standalone scheduler\<close>

text \<open>
  One session of \<^verbatim>\<open>MemoryPipelineManager\<close> (\<open>Pipeline_Manager\<close>), seen only through its counter and
  its warm-up threshold: a notification counts, and at the effective threshold an extraction
  resets the counter and advances the warm-up.
\<close>

definition standalone_notify :: "manager_config \<Rightarrow> session_state \<Rightarrow> bool \<times> session_state" where
  "standalone_notify cfg s =
     (let s = s\<lparr>conversation_count := conversation_count s + 1\<rparr>
      in if get_effective_threshold cfg s \<le> conversation_count s
         then (True, advance_warmup_threshold cfg (s\<lparr>conversation_count := 0\<rparr>))
         else (False, s))"

fun standalone_run :: "manager_config \<Rightarrow> ms list \<Rightarrow> session_state \<Rightarrow> bool list" where
  "standalone_run cfg [] s = []"
| "standalone_run cfg (t # ts) s = (case standalone_notify cfg s of (trig, s') \<Rightarrow> trig # standalone_run cfg ts s')"

fun notify_run ::
  "ms list \<Rightarrow> string \<Rightarrow> string option \<Rightarrow> string option \<Rightarrow> string option
   \<Rightarrow> stateful_manager \<Rightarrow> local_backend \<Rightarrow> bool list" where
  "notify_run [] session inst team agent m b = []"
| "notify_run (t # ts) session inst team agent m b =
     (case notify_conversation t session inst None team agent m b of
        (Inr (Some trig), wake, m', b') \<Rightarrow> trig # notify_run ts session inst team agent m' b'
      | _ \<Rightarrow> [])"

text \<open>A manager that accepts the notification, and its instance.\<close>

definition sp_accepts :: "stateful_manager \<Rightarrow> string \<Rightarrow> string option \<Rightarrow> bool" where
  "sp_accepts m session inst \<longleftrightarrow> \<not> sp_destroyed m \<and> \<not> should_skip (mc_filter (sp_cfg m)) session
     \<and> effective_instance m inst \<noteq> unset_instance"

text \<open>The warm-up threshold a notification reads.\<close>

definition read_warmup :: "manager_config \<Rightarrow> session_state option \<Rightarrow> int" where
  "read_warmup cfg st = (case st of None \<Rightarrow> if mc_warmup cfg then 1 else 0 | Some s \<Rightarrow> warmup_threshold s)"

definition read_count :: "session_state option \<Rightarrow> int" where
  "read_count st = (case st of None \<Rightarrow> 0 | Some s \<Rightarrow> conversation_count s)"

definition next_warmup :: "manager_config \<Rightarrow> int \<Rightarrow> int" where
  "next_warmup cfg w =
     (if \<not> mc_warmup cfg \<or> w \<le> 0 then w else if mc_every_n cfg \<le> w * 2 then 0 else w * 2)"

lemma notify_conversation_effect:
  fixes team agent :: "string option" and rounds :: "int option" and b :: local_backend
  assumes "sp_accepts m session inst"
  defines "i \<equiv> effective_instance m inst"
  defines "k \<equiv> session_key i session team agent"
  defines "st \<equiv> lb_get_session k b"
  defines "trig \<equiv> sp_effective_threshold (sp_cfg m) (read_warmup (sp_cfg m) st) \<le> read_count st + patch_or rounds 1"
  shows "\<exists>wake act b'. notify_conversation now session inst rounds team agent m b
      = (Inr (Some trig), wake, m\<lparr>sp_active := act\<rparr>, b')
    \<and> read_count (lb_get_session k b') = (if trig then 0 else read_count st + patch_or rounds 1)
    \<and> (i = sp_default m \<longrightarrow> read_warmup (sp_cfg m) (lb_get_session k b')
          = (if trig then next_warmup (sp_cfg m) (read_warmup (sp_cfg m) st)
             else case st of None \<Rightarrow> 0 | Some s \<Rightarrow> warmup_threshold s))
    \<and> (i \<noteq> sp_default m \<longrightarrow> read_warmup (sp_cfg m) (lb_get_session k b')
          = (case st of None \<Rightarrow> 0 | Some s \<Rightarrow> warmup_threshold s))"
proof -
  define plan where "plan = plan_of now session i rounds team agent (sp_cfg m) st"
  obtain act where p: "notify_read now session inst rounds team agent m b = (Inr (Some plan), m\<lparr>sp_active := act\<rparr>)"
    using assms(1) by (simp add: notify_read_def sp_accepts_def Let_def plan_def i_def k_def st_def)
  have plan: "cp_key (np_capture plan) = k" "cp_session (np_capture plan) = session"
      "cp_team (np_capture plan) = team" "cp_agent (np_capture plan) = agent"
      "cp_threshold (np_capture plan) = sp_effective_threshold (sp_cfg m) (read_warmup (sp_cfg m) st)"
      "cp_rounds (np_capture plan) = patch_or rounds 1" "cp_now (np_capture plan) = now"
      "np_current plan = (case st of None \<Rightarrow> 1 | Some s \<Rightarrow> warmup_threshold s)"
    by (simp_all add: plan_def plan_of_def Let_def cp_key_def k_def read_warmup_def)
  obtain r n b1 where c: "capture_atomic now (np_capture plan) b = ((r, n), b1)" by (metis prod.exhaust)
  define s0 where "s0 = jget_or (default_pipeline_state\<lparr>last_active_time := now\<rparr>) (lb_sessions b) k"
  have s0: "conversation_count s0 = read_count st" "warmup_threshold s0 = (case st of None \<Rightarrow> 0 | Some s \<Rightarrow> warmup_threshold s)"
    by (auto simp: s0_def st_def read_count_def lb_get_session_def jget_or_def default_pipeline_state_def split: option.split)
  note cs = capture_atomic_session [OF c, unfolded plan, folded s0_def]
  have r: "r = trig" using cs(1) s0 by (simp add: trig_def)
  have g: "lb_get_session k b1 = Some (s0\<lparr>conversation_count := (if trig then 0 else read_count st + patch_or rounds 1),
      last_active_time := now\<rparr>)" using cs(2) s0 r by simp
  have j: "jget_or d (lb_sessions b1) k = the (lb_get_session k b1)" for d
    using g by (simp add: jget_or_def lb_get_session_def)
  have nc: "notify_conversation now session inst rounds team agent m b
      = (Inr (Some r), (if r then fst (lb_enqueue_task (cp_task (np_capture plan)) b) else None),
         m\<lparr>sp_active := act\<rparr>, notify_finish now r plan (m\<lparr>sp_active := act\<rparr>) b1)"
    by (simp add: notify_conversation_def p notify_capture_def c)
  let ?s1 = "s0\<lparr>conversation_count := (if trig then 0 else read_count st + patch_or rounds 1), last_active_time := now\<rparr>"
  define cur where "cur = np_current plan"
  let ?adv = "trig \<and> mc_warmup (sp_cfg m) \<and> 0 < cur \<and> i = sp_default m"
  have f: "lb_get_session k (notify_finish now trig plan (m\<lparr>sp_active := act\<rparr>) b1)
      = Some (if ?adv then ?s1\<lparr>warmup_threshold := (if mc_every_n (sp_cfg m) \<le> cur * 2 then 0 else cur * 2)\<rparr> else ?s1)"
    using g j by (cases "i = sp_default m") (auto simp: notify_finish_def advance_warmup_in_backend_def plan(2-4)
        cur_def [symmetric] k_def Let_def apply_warmup_patch)
  have cur: "cur = (case st of None \<Rightarrow> 1 | Some s \<Rightarrow> warmup_threshold s)" by (simp add: cur_def plan)
  let ?b = "notify_finish now trig plan (m\<lparr>sp_active := act\<rparr>) b1"
  have "read_count (lb_get_session k ?b) = (if trig then 0 else read_count st + patch_or rounds 1)"
    unfolding f by (simp add: read_count_def)
  moreover have "read_warmup (sp_cfg m) (lb_get_session k ?b)
      = (if trig \<and> i = sp_default m then next_warmup (sp_cfg m) (read_warmup (sp_cfg m) st)
         else case st of None \<Rightarrow> 0 | Some s \<Rightarrow> warmup_threshold s)"
    unfolding f by (cases st) (auto simp: read_warmup_def s0 cur next_warmup_def)
  ultimately show ?thesis unfolding nc r by auto
qed

lemma sp_accepts_active [simp]: "sp_accepts (m\<lparr>sp_active := act\<rparr>) session inst = sp_accepts m session inst"
  by (simp add: sp_accepts_def effective_instance_def split: option.split)

lemma sp_cfg_active [simp]: "sp_cfg (m\<lparr>sp_active := act\<rparr>) = sp_cfg m" "sp_default (m\<lparr>sp_active := act\<rparr>) = sp_default m"
  by simp_all

lemma effective_instance_active [simp]: "effective_instance (m\<lparr>sp_active := act\<rparr>) inst = effective_instance m inst"
  by (simp add: effective_instance_def split: option.split)

lemma threshold_standalone:
  "get_effective_threshold cfg s = sp_effective_threshold cfg (warmup_threshold s)"
  by (simp add: get_effective_threshold_def sp_effective_threshold_def)

lemma advance_standalone:
  "warmup_threshold (advance_warmup_threshold cfg s) = next_warmup cfg (warmup_threshold s)"
  "conversation_count (advance_warmup_threshold cfg s) = conversation_count s"
  by (simp_all add: advance_warmup_threshold_def next_warmup_def Let_def)

lemma standalone_notify_effect:
  assumes "standalone_notify cfg s = (r, s')"
  shows "r = (sp_effective_threshold cfg (warmup_threshold s) \<le> conversation_count s + 1)
    \<and> conversation_count s' = (if sp_effective_threshold cfg (warmup_threshold s) \<le> conversation_count s + 1
          then 0 else conversation_count s + 1)
    \<and> warmup_threshold s' = (if sp_effective_threshold cfg (warmup_threshold s) \<le> conversation_count s + 1
          then next_warmup cfg (warmup_threshold s) else warmup_threshold s)"
  using assms by (auto simp: standalone_notify_def Let_def threshold_standalone advance_standalone split: if_splits)

text \<open>A session that the backend does not know yet triggers at its first conversation in warm-up,
  so that afterwards its state holds the warm-up threshold.\<close>

lemma notify_run_standalone:
  assumes "sp_accepts m session inst" "effective_instance m inst = sp_default m" "0 < mc_every_n (sp_cfg m)"
    and "conversation_count s = read_count (lb_get_session (session_key (sp_default m) session team agent) b)"
    and "warmup_threshold s = read_warmup (sp_cfg m) (lb_get_session (session_key (sp_default m) session team agent) b)"
  shows "notify_run ts session inst team agent m b = standalone_run (sp_cfg m) ts s"
  using assms
proof (induction ts arbitrary: m b s)
  case Nil
  then show ?case by simp
next
  case (Cons t ts)
  define k where "k = session_key (sp_default m) session team agent"
  define st where "st = lb_get_session k b"
  define trig where "trig = (sp_effective_threshold (sp_cfg m) (read_warmup (sp_cfg m) st) \<le> read_count st + 1)"
  obtain wake act b' where n: "notify_conversation t session inst None team agent m b
      = (Inr (Some trig), wake, m\<lparr>sp_active := act\<rparr>, b')"
    and c: "read_count (lb_get_session k b') = (if trig then 0 else read_count st + 1)"
    and w: "read_warmup (sp_cfg m) (lb_get_session k b')
      = (if trig then next_warmup (sp_cfg m) (read_warmup (sp_cfg m) st) else case st of None \<Rightarrow> 0 | Some s \<Rightarrow> warmup_threshold s)"
    using notify_conversation_effect [OF Cons.prems(1), where team = team and agent = agent and b = b and rounds = None and now = t] Cons.prems(2)
    unfolding k_def st_def trig_def by (auto simp: patch_or_def)
  obtain r s' where s': "standalone_notify (sp_cfg m) s = (r, s')" by fastforce
  note e = standalone_notify_effect [OF s', unfolded Cons.prems(4,5), folded k_def, folded st_def, folded trig_def]
  have "\<not> trig \<Longrightarrow> read_warmup (sp_cfg m) st = (case st of None \<Rightarrow> 0 | Some s \<Rightarrow> warmup_threshold s)"
    using Cons.prems(3) by (auto simp: trig_def read_warmup_def read_count_def sp_effective_threshold_def split: option.splits)
  then have "notify_run ts session inst team agent (m\<lparr>sp_active := act\<rparr>) b' = standalone_run (sp_cfg m) ts s'"
    using Cons.IH [of "m\<lparr>sp_active := act\<rparr>" s' b'] Cons.prems(1-3) c w e by (simp add: k_def)
  then show ?case using n s' e by simp
qed

section \<open>Properties\<close>


definition demo_stateful :: "string \<Rightarrow> stateful_manager" where
  "demo_stateful inst = new_stateful_manager \<lparr>every_n_conversations = 5, enable_warmup = True,
     l1_idle_timeout_seconds = 60, l2_delay_after_l1_seconds = 10, l2_min_interval_seconds = 30,
     l2_max_interval_seconds = 90, l2_session_active_window_hours = 1\<rparr> inst []"


text \<open>
  for any other instance the warm-up is lost. \<^verbatim>\<open>advanceWarmupInBackend\<close> writes the next
  threshold to the session of the default instance, so after its first extraction a session of an
  explicit instance has warm-up threshold 0: its second extraction waits for the full
  \<^verbatim>\<open>everyNConversations\<close> conversations, and the same session of the default instance, which may
  not exist, is created.
\<close>

theorem warmup_lost_for_explicit_instance:
  assumes "sp_accepts m session (Some i)" "i \<noteq> sp_default m" "mc_warmup (sp_cfg m)" "0 < mc_every_n (sp_cfg m)"
    and "lb_get_session (session_key i session team agent) b = None"
    and "notify_conversation now session (Some i) None team agent m b = (r, wake, m', b')"
  shows "r = Inr (Some True)
    \<and> map_option warmup_threshold (lb_get_session (session_key i session team agent) b') = Some 0
    \<and> map_option warmup_threshold (lb_get_session (session_key (sp_default m) session team agent) b')
        = Some (if mc_every_n (sp_cfg m) \<le> 2 then 0 else 2)
    \<and> (\<forall>now'. fst (notify_conversation now' session (Some i) None team agent m' b')
          = Inr (Some (mc_every_n (sp_cfg m) \<le> 1)))"
proof -
  define k where "k = session_key i session team agent"
  have i: "effective_instance m (Some i) = i" by (simp add: effective_instance_def)
  have n: "lb_get_session k b = None" using assms(5) by (simp add: k_def)
  have "sp_effective_threshold (sp_cfg m) (read_warmup (sp_cfg m) None) \<le> read_count None + patch_or None 1"
    using assms(3) by (simp add: read_warmup_def read_count_def sp_effective_threshold_def patch_or_def)
  then obtain act where r: "r = Inr (Some True)" "m' = m\<lparr>sp_active := act\<rparr>"
    and c: "read_count (lb_get_session k b') = 0" and w: "read_warmup (sp_cfg m) (lb_get_session k b') = 0"
    using notify_conversation_effect [OF assms(1), where team = team and agent = agent and b = b and rounds = None and now = now] assms(2,6) n
    unfolding i k_def by auto
  have s: "map_option warmup_threshold (lb_get_session k b') = Some 0"
    using w assms(3) by (auto simp: read_warmup_def split: option.splits)
  have d: "map_option warmup_threshold (lb_get_session (session_key (sp_default m) session team agent) b')
        = Some (if mc_every_n (sp_cfg m) \<le> 2 then 0 else 2)"
    using assms(6,1,3) r n
    by (auto simp: notify_conversation_def notify_read_def sp_accepts_def i Let_def notify_capture_def notify_finish_def
        advance_warmup_in_backend_def apply_warmup_patch plan_of_def k_def split: prod.splits if_splits)
  have a: "sp_accepts m' session (Some i)" using assms(1) r by simp
  have m': "sp_cfg m' = sp_cfg m" "effective_instance m' (Some i) = i" "sp_effective_threshold (sp_cfg m) 0 = mc_every_n (sp_cfg m)"
    by (simp_all add: r(2) effective_instance_def sp_effective_threshold_def)
  have "fst (notify_conversation now' session (Some i) None team agent m' b') = Inr (Some (mc_every_n (sp_cfg m) \<le> 1))" for now'
    using notify_conversation_effect [OF a, where team = team and agent = agent and b = b' and rounds = None and now = now',
        unfolded m', folded k_def, unfolded c w m'] by (auto simp: patch_or_def)
  with r s d show ?thesis by (simp add: k_def)
qed

lemma advance_l2_fire_time:
  assumes "\<not> sp_destroyed m" "effective_instance m inst = i" "i \<noteq> unset_instance"
  shows "map_option it_fire_at (map_of (lb_timers (advance_l2_timer_after_l1 now session inst team agent m b))
           (timer_key i (timer_name session ''L2_schedule'' team agent)))
    = Some (case map_of (lb_timers b) (timer_key i (timer_name session ''L2_schedule'' team agent)) of
        None \<Rightarrow> desired_l2_time (sp_cfg m) now (lb_get_session (session_key i session team agent) b)
      | Some t \<Rightarrow> min (it_fire_at t)
          (desired_l2_time (sp_cfg m) now (lb_get_session (session_key i session team agent) b)))"
  using assms by (simp add: advance_l2_timer_after_l1_def fire_time_set_if_earlier)

lemma desired_l2_time_after:
  assumes "0 < t" "t < 240000000000000" "l2_last_extraction_time s = to_iso_string t"
  shows "desired_l2_time cfg now (Some s) = max (now + mc_l2_delay cfg) (t + mc_l2_min cfg)"
proof -
  have "to_iso_string t \<noteq> []" by (simp add: to_iso_string_def Let_def split: prod.split)
  then show ?thesis
    using assms iso_roundtrip [of t] by (simp add: desired_l2_time_def last_l2_time_def patch_or_def Let_def)
qed

lemma length_encode: "length s \<le> length (encode_uri_component s)"
  by (induction s) (auto simp: percent_encode_def Let_def)

lemma scoped_name_not_plain:
  assumes "truthy team" "truthy agent"
  shows "timer_name session ty team agent \<noteq> session @ '':'' @ ty"
proof
  assume "timer_name session ty team agent = session @ '':'' @ ty"
  then have "length (timer_name session ty team agent) = length session + 1 + length ty" by simp
  then show False
    using assms length_encode [of session]
    by (simp add: timer_name_def build_pipeline_timer_member_def scoped_timer_prefix_def)
qed

text \<open>
  the maximum-interval timer of the second stage is not the timer that the next L1 completion
  moves. \<^verbatim>\<open>armL2MaxInterval\<close> names it without the scope, \<^verbatim>\<open>advanceL2TimerAfterL1\<close> with it, so
  for a session of a team's agent both are pending: the second stage runs again at the maximum
  interval although the other timer has fired before. The name without scope also loses the team
  and the agent, so that the second run reads and writes the state of another session.
\<close>

theorem max_interval_timer_duplicated:
  assumes "\<not> sp_destroyed m" "i \<noteq> unset_instance" "truthy team" "truthy agent" "session \<noteq> []"
    and "\<not> prefix scoped_timer_prefix (session @ '':L2_schedule'')" "parse_profile_session_tenant session = None"
    and "b1 = sp_arm_l2_max_interval t0 session (Some i) team agent m b"
    and "b2 = advance_l2_timer_after_l1 now session (Some i) team agent m b1"
  shows "map_option it_fire_at (map_of (lb_timers b2) (timer_key i (session @ '':L2_schedule'')))
           = Some (t0 + mc_l2_max (sp_cfg m))
    \<and> map_of (lb_timers b2) (timer_key i (timer_name session ''L2_schedule'' team agent)) \<noteq> None
    \<and> timer_name session ''L2_schedule'' team agent \<noteq> session @ '':L2_schedule''
    \<and> pt_session (parse_pipeline_timer_member (session @ '':L2_schedule'')) = session
    \<and> pt_task_type (parse_pipeline_timer_member (session @ '':L2_schedule'')) = T_L2
    \<and> pt_team (parse_pipeline_timer_member (session @ '':L2_schedule'')) = None
    \<and> pt_agent (parse_pipeline_timer_member (session @ '':L2_schedule'')) = None"
proof -
  have n: "timer_name session ''L2_schedule'' team agent \<noteq> session @ '':L2_schedule''"
    using scoped_name_not_plain [OF assms(3,4), of session "''L2_schedule''"] by simp
  have i: "effective_instance m (Some i) = i" by (simp add: effective_instance_def)
  have p: "map_option it_fire_at (map_of (lb_timers b2) (timer_key i (session @ '':L2_schedule''))) = Some (t0 + mc_l2_max (sp_cfg m))"
    using assms(1,2,8,9) i n not_sym [OF n]
    by (simp add: advance_l2_timer_after_l1_def sp_arm_l2_max_interval_def Let_def set_if_earlier_other timer_set_timer)
  have "map_of (lb_timers b2) (timer_key i (timer_name session ''L2_schedule'' team agent)) \<noteq> None"
    using advance_l2_fire_time [OF assms(1) i assms(2), of now session team agent b1] assms(9) by auto
  moreover have "CHR '':'' \<notin> set ''L2_schedule''" by simp
  note pp = parse_plain_build [OF assms(5) this, simplified, OF assms(6)]
  ultimately show ?thesis using p n assms(7) pp by (simp add: classify_timer_type_def)
qed

theorem max_interval_timer_duplicated_witness:
  "map_option it_fire_at (map_of (lb_timers
      (advance_l2_timer_after_l1 9 ''s'' (Some ''i'') (Some ''t'') (Some ''a'') (demo_stateful ''d'')
        (sp_arm_l2_max_interval 7 ''s'' (Some ''i'') (Some ''t'') (Some ''a'') (demo_stateful ''d'') (new_backend False))))
      (timer_key ''i'' ''s:L2_schedule'')) = Some 90007"
proof -
  have a: "\<not> sp_destroyed (demo_stateful ''d'')" "''i'' \<noteq> unset_instance" "truthy (Some ''t'')" "truthy (Some ''a'')"
    "''s'' \<noteq> []" "\<not> prefix scoped_timer_prefix (''s'' @ '':L2_schedule'')" "parse_profile_session_tenant ''s'' = None"
    by code_simp+
  have "mc_l2_max (sp_cfg (demo_stateful ''d'')) = 90000"
    by (simp add: demo_stateful_def new_stateful_manager_def manager_config_of_def)
  with max_interval_timer_duplicated [OF a refl refl, of 9 7 "new_backend False"] show ?thesis by simp
qed

theorem warmup_lost_for_explicit_instance_witness:
  "fst (notify_conversation 2 ''s'' (Some ''i'') None None None
      (fst (snd (snd (notify_conversation 1 ''s'' (Some ''i'') None None None (demo_stateful ''d'') (new_backend False)))))
      (snd (snd (snd (notify_conversation 1 ''s'' (Some ''i'') None None None (demo_stateful ''d'') (new_backend False))))))
   = Inr (Some False)"
proof -
  obtain r wake m' b' where n: "notify_conversation 1 ''s'' (Some ''i'') None None None (demo_stateful ''d'') (new_backend False)
      = (r, wake, m', b')" by (metis prod.exhaust)
  have a: "sp_accepts (demo_stateful ''d'') ''s'' (Some ''i'')" "''i'' \<noteq> sp_default (demo_stateful ''d'')"
    "mc_warmup (sp_cfg (demo_stateful ''d''))" "0 < mc_every_n (sp_cfg (demo_stateful ''d''))"
    "lb_get_session (session_key ''i'' ''s'' None None) (new_backend False) = None"
    by code_simp+
  have "mc_every_n (sp_cfg (demo_stateful ''d'')) = 5"
    by (simp add: demo_stateful_def new_stateful_manager_def manager_config_of_def)
  with warmup_lost_for_explicit_instance [OF a n] show ?thesis by (simp add: n)
qed

end
