(* ===== verification/Pipeline_Worker.thy ===== *)
theory Pipeline_Worker
  imports Stateful_Pipeline Permit_Pool
begin

text \<open>
  \<^verbatim>\<open>MemoryCore/src/services/pipeline-worker.ts\<close>: the worker that consumes the tasks of the memory
  pipeline from a local backend. Each of its \<^verbatim>\<open>concurrency\<close> consumers is a coroutine, named by a
  number; a coroutine stops where it waits for a task, a permit, a sleep or the executor, and its
  phase says where. What it does between two such points is one definition: with the local
  backend the other \<^verbatim>\<open>await\<close>s of \<^verbatim>\<open>processTask\<close> only yield to microtasks. The executor comes
  from outside: how it ends is an argument.
\<close>

section \<open>Configuration and state\<close>

type_synonym l_hook =
  "ms \<Rightarrow> string \<Rightarrow> string option \<Rightarrow> string option \<Rightarrow> string option \<Rightarrow> local_backend \<Rightarrow> local_backend"

record worker_config =
  wk_id :: string
  wk_concurrency :: nat
  wk_poll :: ms
  wk_lock_ttl :: ms
  wk_max_retries :: nat
  wk_retry_base :: ms
  wk_instance_locks :: bool
  wk_on_l1_complete :: "l_hook option"
  wk_on_l2_complete :: "l_hook option"

text \<open>How an execution ends: the error it rejects with, and the notes the executor leaves on the task.\<close>

record exec_result =
  ex_error :: "string option"
  ex_l2_scopes :: "string list option"
  ex_l2_skipped :: bool
  ex_deferred :: "task_payload list"

record dead_letter =
  dl_task :: task_payload
  dl_error :: string
  dl_retry_count :: nat
  dl_dead_at :: ms

record worker_metrics =
  wm_consumed :: nat
  wm_completed :: nat
  wm_failed :: nat
  wm_retried :: nat
  wm_dead_lettered :: nat
  wm_lock_conflicts :: nat
  wm_renew_failed :: nat
  wm_lock_lost :: nat
  wm_aborted :: nat

text \<open>\<open>Backoff\<close> holds the key, the deadline and the delay it sleeps; \<open>Executing\<close> and \<open>RetrySleep\<close> hold the lock
  key (None on the lock-free path) and \<^verbatim>\<open>lockLost\<close>.\<close>

datatype phase =
    Looping
  | Waiting
  | Woken "task_payload option"
  | AwaitPermit task_payload
  | Permitted task_payload
  | Backoff task_payload string ms ms
  | Executing task_payload "string option" bool
  | RetrySleep task_payload "string option" bool "task_payload list" ms
  | Paused ms
  | Ended

record pipeline_worker =
  pw_cfg :: worker_config
  pw_phases :: "phase list"
  pw_running :: bool
  pw_destroyed :: bool
  pw_active_locks :: "string list"
  pw_running_tasks :: "(string, task_payload) jsmap"
  pw_dead_letters :: "dead_letter list"
  pw_metrics :: worker_metrics
  pw_pool :: "permit_pool option"
  pw_backend :: local_backend

definition no_metrics :: worker_metrics where
  "no_metrics = \<lparr>wm_consumed = 0, wm_completed = 0, wm_failed = 0, wm_retried = 0, wm_dead_lettered = 0,
     wm_lock_conflicts = 0, wm_renew_failed = 0, wm_lock_lost = 0, wm_aborted = 0\<rparr>"

definition new_worker :: "worker_config \<Rightarrow> permit_pool option \<Rightarrow> local_backend \<Rightarrow> pipeline_worker" where
  "new_worker cfg pool b = \<lparr>pw_cfg = cfg, pw_phases = [], pw_running = False, pw_destroyed = False,
     pw_active_locks = [], pw_running_tasks = [], pw_dead_letters = [], pw_metrics = no_metrics,
     pw_pool = pool, pw_backend = b\<rparr>"

definition max_lock_requeue :: nat where
  "max_lock_requeue = 15"

definition phase_of :: "pipeline_worker \<Rightarrow> nat \<Rightarrow> phase" where
  "phase_of w c = (if c < length (pw_phases w) then pw_phases w ! c else Ended)"

definition set_phase :: "nat \<Rightarrow> phase \<Rightarrow> pipeline_worker \<Rightarrow> pipeline_worker" where
  "set_phase c ph w = w\<lparr>pw_phases := (pw_phases w)[c := ph]\<rparr>"

definition bump :: "(worker_metrics \<Rightarrow> worker_metrics) \<Rightarrow> pipeline_worker \<Rightarrow> pipeline_worker" where
  "bump f w = w\<lparr>pw_metrics := f (pw_metrics w)\<rparr>"

text \<open>Resolving the promise of a blocked consumer, if \<^verbatim>\<open>enqueueTask\<close> woke one; a promise that is no
  longer awaited has no effect.\<close>

definition deliver :: "wake \<Rightarrow> pipeline_worker \<Rightarrow> pipeline_worker" where
  "deliver wk w =
     (case wk of
        None \<Rightarrow> w
      | Some (v, x) \<Rightarrow> (case phase_of w v of Waiting \<Rightarrow> set_phase v (Woken x) w | _ \<Rightarrow> w))"

definition enqueue :: "task_payload \<Rightarrow> pipeline_worker \<Rightarrow> pipeline_worker" where
  "enqueue t w = (case lb_enqueue_task t (pw_backend w) of (wk, b) \<Rightarrow> deliver wk (w\<lparr>pw_backend := b\<rparr>))"

section \<open>Lifecycle\<close>

definition worker_start :: "pipeline_worker \<Rightarrow> pipeline_worker" where
  "worker_start w =
     (if pw_destroyed w \<or> pw_running w then w
      else w\<lparr>pw_running := True, pw_phases := replicate (wk_concurrency (pw_cfg w)) Looping\<rparr>)"

definition worker_stop :: "pipeline_worker \<Rightarrow> pipeline_worker" where
  "worker_stop w =
     (if pw_destroyed w then w
      else w\<lparr>pw_destroyed := True, pw_running := False,
             pw_backend := fold (\<lambda>k b. lb_release_lock k (wk_id (pw_cfg w)) b) (pw_active_locks w) (pw_backend w),
             pw_active_locks := []\<rparr>)"

definition get_metrics :: "pipeline_worker \<Rightarrow> worker_metrics \<times> string \<times> nat" where
  "get_metrics w = (pw_metrics w, wk_id (pw_cfg w), length (pw_dead_letters w))"

definition get_running_tasks :: "pipeline_worker \<Rightarrow> task_payload list" where
  "get_running_tasks w = map snd (pw_running_tasks w)"

definition get_dead_letter_queue :: "pipeline_worker \<Rightarrow> dead_letter list" where
  "get_dead_letter_queue w = pw_dead_letters w"

section \<open>Lock keys\<close>

definition data_field :: "(task_data \<Rightarrow> 'a option) \<Rightarrow> task_payload \<Rightarrow> 'a option" where
  "data_field f t = Option.bind (tp_data t) f"

text \<open>\<^verbatim>\<open>x || y\<close> and \<^verbatim>\<open>x ?? y\<close> on optional strings.\<close>

definition or_truthy :: "string option \<Rightarrow> string option \<Rightarrow> string option" where
  "or_truthy x y = (if truthy x then x else y)"

definition or_defined :: "'a option \<Rightarrow> 'a option \<Rightarrow> 'a option" where
  "or_defined x y = (case x of None \<Rightarrow> y | Some v \<Rightarrow> Some v)"

definition lock_scope :: "task_payload \<Rightarrow> string \<times> string" where
  "lock_scope t =
     (let tid = or_truthy (tp_team t) (data_field dt_team t);
          aid = or_truthy (tp_agent t) (data_field dt_agent t);
          m = (if \<not> truthy tid \<or> \<not> truthy aid then parse_profile_session_tenant (tp_session t) else None);
          tid = (case m of None \<Rightarrow> tid | Some c \<Rightarrow> or_truthy tid (tc_team c));
          aid = (case m of None \<Rightarrow> aid | Some c \<Rightarrow> or_truthy aid (tc_agent c))
      in (or_underscore tid, or_underscore aid))"

definition get_lock_key :: "worker_config \<Rightarrow> task_payload \<Rightarrow> string option" where
  "get_lock_key cfg t =
     (if tp_type t = T_offload_l1 then None
      else if tp_type t = T_offload_l2
      then Some (''pipeline:{'' @ tp_instance t @ ''}:offload-l2:''
                 @ patch_or (data_field dt_mmd_file t) ''default'')
      else if tp_type t = T_offload_l15 then None
      else if wk_instance_locks cfg then Some (''pipeline:{'' @ tp_instance t @ ''}'')
      else (let (tid, aid) = lock_scope t;
                ns = ''{'' @ tp_instance t @ '':'' @ tid @ '':'' @ aid @ ''}''
            in if tp_type t = T_L2 \<or> tp_type t = T_L3 then Some (''pipeline:'' @ ns)
               else Some (''pipeline:'' @ ns @ '':s:'' @ tp_session t)))"

section \<open>Cascade\<close>

definition scope_team :: "task_payload \<Rightarrow> string option" where
  "scope_team t = or_defined (tp_team t) (data_field dt_team t)"

definition scope_agent :: "task_payload \<Rightarrow> string option" where
  "scope_agent t = or_defined (tp_agent t) (data_field dt_agent t)"

definition task_key :: "task_payload \<Rightarrow> string \<Rightarrow> string" where
  "task_key t session = session_key (tp_instance t) session (scope_team t) (scope_agent t)"

text \<open>The sessions whose second stage an L1 task advances.\<close>

definition cascade_l2_keys :: "task_payload \<Rightarrow> exec_result \<Rightarrow> string list" where
  "cascade_l2_keys t r =
     (let scopes = (case ex_l2_scopes r of None \<Rightarrow> [] | Some ss \<Rightarrow> filter (\<lambda>s. s \<noteq> []) ss)
      in if scopes \<noteq> [] then scopes else [tp_session t])"

definition on_backend :: "(local_backend \<Rightarrow> local_backend) \<Rightarrow> pipeline_worker \<Rightarrow> pipeline_worker" where
  "on_backend f w = w\<lparr>pw_backend := f (pw_backend w)\<rparr>"

definition cascade_l1 :: "ms \<Rightarrow> worker_config \<Rightarrow> task_payload \<Rightarrow> exec_result \<Rightarrow> local_backend \<Rightarrow> local_backend" where
  "cascade_l1 now cfg t r b =
     (let b = lb_update_session now (task_key t (tp_session t)) (no_patch\<lparr>pa_conversation_count := Some 0\<rparr>) b
      in case wk_on_l1_complete cfg of
           None \<Rightarrow> b
         | Some hook \<Rightarrow>
             fold (\<lambda>k b. hook now k (Some (tp_instance t)) (scope_team t) (scope_agent t)
                           (lb_update_session now (task_key t k) (no_patch\<lparr>pa_l2_pending_l1_count := Some 1\<rparr>) b))
               (cascade_l2_keys t r) b)"

definition l3_task :: "ms \<Rightarrow> task_payload \<Rightarrow> task_payload" where
  "l3_task now t =
     \<lparr>tp_id = ''L3-'' @ tp_instance t @ ''-'' @ dec_int now, tp_type = T_L3, tp_instance = tp_instance t,
      tp_session = tp_session t, tp_team = scope_team t, tp_agent = scope_agent t, tp_priority = 2,
      tp_data = (case tp_data t of
          Some d \<Rightarrow> Some d
        | None \<Rightarrow> Some \<lparr>dt_instance = None, dt_team = scope_team t, dt_agent = scope_agent t,
             dt_triggered_by = None, dt_timer_member = None, dt_mmd_file = None, dt_retry_count = None,
             dt_lock_retry_count = None\<rparr>),
      tp_created_at = now\<rparr>"

definition cascade_l2 :: "ms \<Rightarrow> worker_config \<Rightarrow> task_payload \<Rightarrow> local_backend \<Rightarrow> local_backend" where
  "cascade_l2 now cfg t b =
     (let b = lb_update_session now (task_key t (tp_session t))
                (no_patch\<lparr>pa_l2_pending_l1_count := Some 0, pa_l2_last_extraction_time := Some (to_iso_string now)\<rparr>) b
      in case wk_on_l2_complete cfg of
           None \<Rightarrow> b
         | Some hook \<Rightarrow> hook now (tp_session t) (Some (tp_instance t)) (scope_team t) (scope_agent t) b)"

definition cascade_schedule :: "ms \<Rightarrow> task_payload \<Rightarrow> exec_result \<Rightarrow> pipeline_worker \<Rightarrow> pipeline_worker" where
  "cascade_schedule now t r w =
     (if tp_type t = T_L1 \<or> tp_type t = T_flush then on_backend (cascade_l1 now (pw_cfg w) t r) w
      else if tp_type t = T_L2 \<and> \<not> ex_l2_skipped r
      then on_backend (cascade_l2 now (pw_cfg w) t) (enqueue (l3_task now t) w)
      else w)"

section \<open>Settling a task\<close>

definition data_with :: "(task_data \<Rightarrow> task_data) \<Rightarrow> task_payload \<Rightarrow> task_data option" where
  "data_with f t = Some (f (case tp_data t of Some d \<Rightarrow> d
     | None \<Rightarrow> \<lparr>dt_instance = None, dt_team = None, dt_agent = None, dt_triggered_by = None, dt_timer_member = None,
               dt_mmd_file = None, dt_retry_count = None, dt_lock_retry_count = None\<rparr>))"

definition task_type_name :: "task_type \<Rightarrow> string" where
  "task_type_name ty = (case ty of T_L1 \<Rightarrow> ''L1'' | T_L2 \<Rightarrow> ''L2'' | T_L3 \<Rightarrow> ''L3'' | T_flush \<Rightarrow> ''flush''
     | T_offload_l1 \<Rightarrow> ''offload-l1'' | T_offload_l15 \<Rightarrow> ''offload-l15'' | T_offload_l2 \<Rightarrow> ''offload-l2'')"

definition retry_count :: "task_payload \<Rightarrow> nat" where
  "retry_count t = patch_or (data_field dt_retry_count t) 0"

definition lock_retry_count :: "task_payload \<Rightarrow> nat" where
  "lock_retry_count t = patch_or (data_field dt_lock_retry_count t) 0"

definition retried_task :: "ms \<Rightarrow> nat \<Rightarrow> task_payload \<Rightarrow> task_payload" where
  "retried_task now n t =
     t\<lparr>tp_id := task_type_name (tp_type t) @ ''-'' @ tp_session t @ ''-retry'' @ dec_int (int n) @ ''-'' @ dec_int now,
       tp_data := data_with (\<lambda>d. d\<lparr>dt_retry_count := Some n\<rparr>) t, tp_created_at := now\<rparr>"

definition re_enqueue :: "ms \<Rightarrow> task_payload \<Rightarrow> nat \<Rightarrow> pipeline_worker \<Rightarrow> pipeline_worker" where
  "re_enqueue now t n w = enqueue (retried_task now n t) w"

definition requeued_task :: "ms \<Rightarrow> task_payload \<Rightarrow> task_payload" where
  "requeued_task now t =
     t\<lparr>tp_id := tp_id t @ ''-lr'' @ dec_int (int (lock_retry_count t + 1)), tp_created_at := now,
       tp_data := data_with (\<lambda>d. d\<lparr>dt_lock_retry_count := Some (lock_retry_count t + 1)\<rparr>) t\<rparr>"

text \<open>The removal of the session's timers calls \<^verbatim>\<open>buildPipelineTimerMember\<close>, which the file does not
  import: the \<^verbatim>\<open>ReferenceError\<close> is caught, and the timers stay.\<close>

definition move_to_dead_letter :: "ms \<Rightarrow> task_payload \<Rightarrow> string \<Rightarrow> nat \<Rightarrow> pipeline_worker \<Rightarrow> pipeline_worker" where
  "move_to_dead_letter now t err n w =
     bump (\<lambda>m. m\<lparr>wm_dead_lettered := wm_dead_lettered m + 1\<rparr>)
       (w\<lparr>pw_dead_letters := pw_dead_letters w @
            [\<lparr>dl_task = t, dl_error = err, dl_retry_count = n, dl_dead_at = now\<rparr>]\<rparr>)"

definition release_permit :: "pipeline_worker \<Rightarrow> pipeline_worker" where
  "release_permit w =
     (case pw_pool w of
        None \<Rightarrow> w
      | Some p \<Rightarrow>
          (case pp_release p of
             (Inl e, p') \<Rightarrow> w
           | (Inr None, p') \<Rightarrow> w\<lparr>pw_pool := Some p'\<rparr>
           | (Inr (Some v), p') \<Rightarrow>
               (case phase_of w v of
                  AwaitPermit t \<Rightarrow> set_phase v (Permitted t) (w\<lparr>pw_pool := Some p'\<rparr>)
                | _ \<Rightarrow> w\<lparr>pw_pool := Some p'\<rparr>)))"

text \<open>The two \<^verbatim>\<open>finally\<close> blocks, and the end of \<^verbatim>\<open>processTask\<close>.\<close>

definition finally_task ::
  "nat \<Rightarrow> task_payload \<Rightarrow> string option \<Rightarrow> task_payload list \<Rightarrow> pipeline_worker \<Rightarrow> pipeline_worker" where
  "finally_task c t key deferred w =
     (let w = (case key of
                 None \<Rightarrow> w\<lparr>pw_running_tasks := AList.delete (tp_id t) (pw_running_tasks w)\<rparr>
               | Some k \<Rightarrow> w\<lparr>pw_active_locks := removeAll k (pw_active_locks w),
                              pw_running_tasks := AList.delete (tp_id t) (pw_running_tasks w),
                              pw_backend := lb_release_lock k (wk_id (pw_cfg w)) (pw_backend w)\<rparr>)
      in set_phase c Looping (fold enqueue deferred (release_permit w)))"

section \<open>Processing a task\<close>

definition start_execution :: "nat \<Rightarrow> task_payload \<Rightarrow> string option \<Rightarrow> pipeline_worker \<Rightarrow> pipeline_worker" where
  "start_execution c t key w =
     set_phase c (Executing t key False)
       (w\<lparr>pw_active_locks := (case key of None \<Rightarrow> pw_active_locks w
             | Some k \<Rightarrow> if k \<in> set (pw_active_locks w) then pw_active_locks w else pw_active_locks w @ [k]),
          pw_running_tasks := AList.update (tp_id t) t (pw_running_tasks w)\<rparr>)"

text \<open>The lock was not obtained before the deadline, or the worker is stopping.\<close>

definition lock_give_up :: "ms \<Rightarrow> nat \<Rightarrow> task_payload \<Rightarrow> pipeline_worker \<Rightarrow> pipeline_worker" where
  "lock_give_up now c t w =
     set_phase c Looping (release_permit
       (if lock_retry_count t < max_lock_requeue then enqueue (requeued_task now t) w else w))"

definition backoff_round ::
  "ms \<Rightarrow> nat \<Rightarrow> task_payload \<Rightarrow> string \<Rightarrow> ms \<Rightarrow> ms \<Rightarrow> pipeline_worker \<Rightarrow> pipeline_worker" where
  "backoff_round now c t k deadline delay w =
     (if now < deadline \<and> pw_running w then set_phase c (Backoff t k deadline delay) w
      else lock_give_up now c t w)"

text \<open>\<^verbatim>\<open>processTask\<close> from the permit on.\<close>

definition process_permitted :: "ms \<Rightarrow> nat \<Rightarrow> task_payload \<Rightarrow> pipeline_worker \<Rightarrow> pipeline_worker" where
  "process_permitted now c t w =
     (case get_lock_key (pw_cfg w) t of
        None \<Rightarrow> start_execution c t None w
      | Some k \<Rightarrow>
          (case lb_acquire_lock k (wk_id (pw_cfg w)) now (wk_lock_ttl (pw_cfg w)) (pw_backend w) of
             (True, b) \<Rightarrow> start_execution c t (Some k) (w\<lparr>pw_backend := b\<rparr>)
           | (False, b) \<Rightarrow>
               (let w = bump (\<lambda>m. m\<lparr>wm_lock_conflicts := wm_lock_conflicts m + 1\<rparr>) (w\<lparr>pw_backend := b\<rparr>)
                in if tp_type t = T_offload_l2 then set_phase c Looping (release_permit w)
                   else backoff_round now c t k (now + wk_lock_ttl (pw_cfg w)) 200 w)))"

definition process_task :: "ms \<Rightarrow> nat \<Rightarrow> task_payload \<Rightarrow> pipeline_worker \<Rightarrow> pipeline_worker" where
  "process_task now c t w =
     (case pw_pool w of
        None \<Rightarrow> process_permitted now c t w
      | Some p \<Rightarrow>
          (case pp_acquire c p of
             (Granted, p') \<Rightarrow> process_permitted now c t (w\<lparr>pw_pool := Some p'\<rparr>)
           | (Queued, p') \<Rightarrow> set_phase c (AwaitPermit t) (w\<lparr>pw_pool := Some p'\<rparr>)
           | (Rejected e, p') \<Rightarrow> set_phase c (if pw_destroyed w then Looping else Paused (now + 1000)) w))"

section \<open>Coroutine steps\<close>

text \<open>The top of \<^verbatim>\<open>consumeLoop\<close>.\<close>

definition loop_step :: "ms \<Rightarrow> nat \<Rightarrow> pipeline_worker \<Rightarrow> pipeline_worker" where
  "loop_step now c w =
     (case phase_of w c of
        Looping \<Rightarrow>
          if \<not> pw_running w \<or> pw_destroyed w then set_phase c Ended w
          else (case lb_consume_task now c (Some (wk_poll (pw_cfg w))) (pw_backend w) of
             (Consumed t, b) \<Rightarrow>
               process_task now c t (bump (\<lambda>m. m\<lparr>wm_consumed := wm_consumed m + 1\<rparr>) (w\<lparr>pw_backend := b\<rparr>))
           | (NoTask, b) \<Rightarrow> w\<lparr>pw_backend := b\<rparr>
           | (Blocked, b) \<Rightarrow> set_phase c Waiting (w\<lparr>pw_backend := b\<rparr>))
      | _ \<Rightarrow> w)"

text \<open>The promise of a blocked consumer is resolved: by its timeout, by a task, or by the backend's end.\<close>

definition wait_timeout_step :: "nat \<Rightarrow> pipeline_worker \<Rightarrow> pipeline_worker" where
  "wait_timeout_step c w =
     (case phase_of w c of
        Waiting \<Rightarrow> set_phase c (Woken None) (on_backend (lb_waiter_timeout c) w)
      | _ \<Rightarrow> w)"

definition woken_step :: "ms \<Rightarrow> nat \<Rightarrow> pipeline_worker \<Rightarrow> pipeline_worker" where
  "woken_step now c w =
     (case phase_of w c of
        Woken None \<Rightarrow> set_phase c Looping w
      | Woken (Some t) \<Rightarrow> process_task now c t (bump (\<lambda>m. m\<lparr>wm_consumed := wm_consumed m + 1\<rparr>) w)
      | _ \<Rightarrow> w)"

definition permitted_step :: "ms \<Rightarrow> nat \<Rightarrow> pipeline_worker \<Rightarrow> pipeline_worker" where
  "permitted_step now c w =
     (case phase_of w c of
        Permitted t \<Rightarrow> process_permitted now c t w
      | _ \<Rightarrow> w)"

definition backoff_step :: "ms \<Rightarrow> nat \<Rightarrow> pipeline_worker \<Rightarrow> pipeline_worker" where
  "backoff_step now c w =
     (case phase_of w c of
        Backoff t k deadline delay \<Rightarrow>
          (case lb_acquire_lock k (wk_id (pw_cfg w)) now (wk_lock_ttl (pw_cfg w)) (pw_backend w) of
             (True, b) \<Rightarrow> start_execution c t (Some k) (w\<lparr>pw_backend := b\<rparr>)
           | (False, b) \<Rightarrow> backoff_round now c t k deadline (min (delay * 3) 5000) (w\<lparr>pw_backend := b\<rparr>))
      | _ \<Rightarrow> w)"

text \<open>One tick of the renewal interval of a coroutine that holds a lock; the interval is cleared when
  the lock is lost.\<close>

definition lose_lock :: "nat \<Rightarrow> phase \<Rightarrow> pipeline_worker \<Rightarrow> pipeline_worker" where
  "lose_lock c ph w =
     set_phase c ph (bump (\<lambda>m. m\<lparr>wm_renew_failed := wm_renew_failed m + 1, wm_aborted := wm_aborted m + 1\<rparr>) w)"

definition renew_step :: "ms \<Rightarrow> nat \<Rightarrow> pipeline_worker \<Rightarrow> pipeline_worker" where
  "renew_step now c w =
     (let renew = (\<lambda>k lost_phase.
            case lb_renew_lock k (wk_id (pw_cfg w)) now (wk_lock_ttl (pw_cfg w)) (pw_backend w) of
              (True, b) \<Rightarrow> w\<lparr>pw_backend := b\<rparr>
            | (False, b) \<Rightarrow> lose_lock c lost_phase (w\<lparr>pw_backend := b\<rparr>))
      in case phase_of w c of
           Executing t (Some k) False \<Rightarrow> renew k (Executing t (Some k) True)
         | RetrySleep t (Some k) False ds due \<Rightarrow> renew k (RetrySleep t (Some k) True ds due)
         | _ \<Rightarrow> w)"

text \<open>The executor ends.\<close>

definition retry_delay :: "worker_config \<Rightarrow> nat \<Rightarrow> ms" where
  "retry_delay cfg n = wk_retry_base cfg * 3 ^ n"

definition execution_failed ::
  "ms \<Rightarrow> nat \<Rightarrow> task_payload \<Rightarrow> string option \<Rightarrow> bool \<Rightarrow> string \<Rightarrow> task_payload list \<Rightarrow> pipeline_worker \<Rightarrow> pipeline_worker" where
  "execution_failed now c t key lost err ds w =
     (let w = bump (\<lambda>m. m\<lparr>wm_failed := wm_failed m + 1\<rparr>) w
      in if lost then finally_task c t key ds w
         else if retry_count t < wk_max_retries (pw_cfg w)
         then set_phase c (RetrySleep t key False ds (now + retry_delay (pw_cfg w) (retry_count t))) w
         else finally_task c t key ds (move_to_dead_letter now t err (retry_count t) w))"

definition execution_done :: "ms \<Rightarrow> nat \<Rightarrow> exec_result \<Rightarrow> pipeline_worker \<Rightarrow> pipeline_worker" where
  "execution_done now c r w =
     (case phase_of w c of
        Executing t key lost \<Rightarrow>
          (case ex_error r of
             Some err \<Rightarrow> execution_failed now c t key lost err (ex_deferred r) w
           | None \<Rightarrow>
               if lost then finally_task c t key (ex_deferred r)
                              (bump (\<lambda>m. m\<lparr>wm_lock_lost := wm_lock_lost m + 1\<rparr>) w)
               else (let w = bump (\<lambda>m. m\<lparr>wm_completed := wm_completed m + 1\<rparr>) w
                     in finally_task c t key (ex_deferred r)
                          (if key = None then w else cascade_schedule now t r w)))
      | _ \<Rightarrow> w)"

text \<open>The delay before a retry is over; it does not look at \<^verbatim>\<open>lockLost\<close> again.\<close>

definition retry_step :: "ms \<Rightarrow> nat \<Rightarrow> pipeline_worker \<Rightarrow> pipeline_worker" where
  "retry_step now c w =
     (case phase_of w c of
        RetrySleep t key lost ds due \<Rightarrow>
          finally_task c t key ds (bump (\<lambda>m. m\<lparr>wm_retried := wm_retried m + 1\<rparr>)
            (re_enqueue now t (retry_count t + 1) w))
      | _ \<Rightarrow> w)"

definition resume_step :: "nat \<Rightarrow> pipeline_worker \<Rightarrow> pipeline_worker" where
  "resume_step c w = (case phase_of w c of Paused due \<Rightarrow> set_phase c Looping w | _ \<Rightarrow> w)"

section \<open>Runs\<close>

text \<open>\<open>OutsideLock\<close> and \<open>OutsideUnlock\<close> are other users of the backend's locks; \<open>OutsideTask\<close> is any
  producer of tasks.\<close>

datatype worker_event =
    Start
  | Stop
  | LoopTop ms nat
  | WaitTimeout nat
  | WokenUp ms nat
  | PermitGranted ms nat
  | BackoffOver ms nat
  | RenewTick ms nat
  | ExecutionDone ms nat exec_result
  | RetryDue ms nat
  | ResumeLoop nat
  | OutsideTask task_payload
  | OutsideLock ms string string ms
  | OutsideUnlock string string

fun worker_step :: "worker_event \<Rightarrow> pipeline_worker \<Rightarrow> pipeline_worker" where
  "worker_step Start w = worker_start w"
| "worker_step Stop w = worker_stop w"
| "worker_step (LoopTop now c) w = loop_step now c w"
| "worker_step (WaitTimeout c) w = wait_timeout_step c w"
| "worker_step (WokenUp now c) w = woken_step now c w"
| "worker_step (PermitGranted now c) w = permitted_step now c w"
| "worker_step (BackoffOver now c) w = backoff_step now c w"
| "worker_step (RenewTick now c) w = renew_step now c w"
| "worker_step (ExecutionDone now c r) w = execution_done now c r w"
| "worker_step (RetryDue now c) w = retry_step now c w"
| "worker_step (ResumeLoop c) w = resume_step c w"
| "worker_step (OutsideTask t) w = enqueue t w"
| "worker_step (OutsideLock now k ow ttl) w = on_backend (snd \<circ> lb_acquire_lock k ow now ttl) w"
| "worker_step (OutsideUnlock k ow) w = on_backend (lb_release_lock k ow) w"

definition worker_run :: "worker_event list \<Rightarrow> pipeline_worker \<Rightarrow> pipeline_worker" where
  "worker_run evs w = fold worker_step evs w"

section \<open>The callbacks\<close>

lemma update_session_frame [simp]:
  "lb_locks (lb_update_session now k p b) = lb_locks b" "lb_queue (lb_update_session now k p b) = lb_queue b"
  "lb_waiters (lb_update_session now k p b) = lb_waiters b"
  by (simp_all add: lb_update_session_def Let_def)

text \<open>The callbacks after a stage update sessions and timers; they leave locks and tasks alone.\<close>

locale stage_hook =
  fixes hook :: l_hook
  assumes hook_locks: "lb_locks (hook now k i t a b) = lb_locks b"
    and hook_queue: "lb_queue (hook now k i t a b) = lb_queue b"
    and hook_waiters: "lb_waiters (hook now k i t a b) = lb_waiters b"
begin

lemma fold_hook_frame:
  "lb_locks (fold (\<lambda>k b. hook now k i t a (lb_update_session now (f k) p b)) ks b) = lb_locks b"
  "lb_queue (fold (\<lambda>k b. hook now k i t a (lb_update_session now (f k) p b)) ks b) = lb_queue b"
  "lb_waiters (fold (\<lambda>k b. hook now k i t a (lb_update_session now (f k) p b)) ks b) = lb_waiters b"
  by (induction ks arbitrary: b) (simp_all add: hook_locks hook_queue hook_waiters)

end

lemma set_timer_frame [simp]:
  "lb_locks (lb_set_timer now i x f b) = lb_locks b" "lb_queue (lb_set_timer now i x f b) = lb_queue b"
  "lb_waiters (lb_set_timer now i x f b) = lb_waiters b"
  by (simp_all add: lb_set_timer_def Let_def)

interpretation advance_hook: stage_hook "\<lambda>now k i t a b. advance_l2_timer_after_l1 now k i t a m b" for m
  by unfold_locales (auto simp: advance_l2_timer_after_l1_def lb_set_timer_if_earlier_def Let_def split: option.split)

interpretation max_interval_hook: stage_hook "\<lambda>now k i t a b. sp_arm_l2_max_interval now k i t a m b" for m
  by unfold_locales (auto simp: sp_arm_l2_max_interval_def Let_def)

definition hooks_ok :: "worker_config \<Rightarrow> bool" where
  "hooks_ok cfg \<longleftrightarrow> pred_option stage_hook (wk_on_l1_complete cfg) \<and> pred_option stage_hook (wk_on_l2_complete cfg)"

lemma cascade_frame:
  assumes "hooks_ok cfg"
  shows "lb_locks (cascade_l1 now cfg t r b) = lb_locks b" "lb_queue (cascade_l1 now cfg t r b) = lb_queue b"
    "lb_waiters (cascade_l1 now cfg t r b) = lb_waiters b"
    "lb_locks (cascade_l2 now cfg t b) = lb_locks b" "lb_queue (cascade_l2 now cfg t b) = lb_queue b"
    "lb_waiters (cascade_l2 now cfg t b) = lb_waiters b"
  using assms
  by (auto simp: hooks_ok_def cascade_l1_def cascade_l2_def Let_def stage_hook.fold_hook_frame
      stage_hook.hook_locks stage_hook.hook_queue stage_hook.hook_waiters split: option.split)

end
