(* ===== verification/Worker_Exclusion.thy ===== *)
theory Worker_Exclusion
  imports Pipeline_Worker
begin

text \<open>
  The locks of the pipeline worker: in every run in which the locks are renewed in time, two
  coroutines never hold the lock of the same session, agent or file. The argument is an
  invariant of the keys held by the coroutines and the lock table of the backend.
\<close>

section \<open>Mutual exclusion\<close>

fun held_key :: "phase \<Rightarrow> string option" where
  "held_key (Executing t key lost) = key"
| "held_key (RetrySleep t key lost ds due) = key"
| "held_key ph = None"

definition held :: "pipeline_worker \<Rightarrow> string option list" where
  "held w = map held_key (pw_phases w)"

abbreviation locks_of :: "pipeline_worker \<Rightarrow> (string, string) lock_table" where
  "locks_of w \<equiv> lb_locks (pw_backend w)"

text \<open>Every held key has a lock of this worker, and no key is held twice.\<close>

definition exclusive :: "string \<Rightarrow> string option list \<Rightarrow> (string, string) lock_table \<Rightarrow> bool" where
  "exclusive me hs lt \<longleftrightarrow> distinct (jkeys lt)
     \<and> (\<forall>c < length hs. \<forall>k. hs ! c = Some k \<longrightarrow> (\<exists>e. map_of lt k = Some (me, e)))
     \<and> (\<forall>c < length hs. \<forall>d < length hs. hs ! c \<noteq> None \<longrightarrow> hs ! c = hs ! d \<longrightarrow> c = d)"

text \<open>No lock of a held key has expired.\<close>

definition alive :: "ms \<Rightarrow> string option list \<Rightarrow> (string, string) lock_table \<Rightarrow> bool" where
  "alive now hs lt \<longleftrightarrow> list_all (\<lambda>h. case h of None \<Rightarrow> True | Some k \<Rightarrow>
     (case map_of lt k of None \<Rightarrow> True | Some (ow, e) \<Rightarrow> now < e)) hs"

lemma aliveD: "alive now hs lt \<Longrightarrow> c < length hs \<Longrightarrow> hs ! c = Some k \<Longrightarrow> map_of lt k = Some (ow, e) \<Longrightarrow> now < e"
  by (fastforce simp: alive_def list_all_length)

lemma nth_update_if: "xs[i := x] ! j = (if i = j \<and> j < length xs then x else xs ! j)"
  by (cases "i < length xs") (auto simp: nth_list_update list_update_beyond)

lemma exclusive_lock:
  "exclusive me hs lt \<Longrightarrow> c < length hs \<Longrightarrow> hs ! c = Some k \<Longrightarrow> \<exists>e. map_of lt k = Some (me, e)"
  unfolding exclusive_def by blast

lemma exclusive_unique:
  "exclusive me hs lt \<Longrightarrow> c < length hs \<Longrightarrow> d < length hs \<Longrightarrow> hs ! c = Some k \<Longrightarrow> hs ! d = Some k \<Longrightarrow> c = d"
  unfolding exclusive_def by (metis option.distinct(1))

lemma exclusiveI:
  assumes "distinct (jkeys lt)"
    and "\<And>c k. c < length hs \<Longrightarrow> hs ! c = Some k \<Longrightarrow> \<exists>e. map_of lt k = Some (me, e)"
    and "\<And>c d k. c < length hs \<Longrightarrow> d < length hs \<Longrightarrow> hs ! c = Some k \<Longrightarrow> hs ! d = Some k \<Longrightarrow> c = d"
  shows "exclusive me hs lt"
  unfolding exclusive_def using assms by (metis not_None_eq)

lemma exclusive_distinct: "exclusive me hs lt \<Longrightarrow> distinct (jkeys lt)"
  by (simp add: exclusive_def)

lemma exclusive_drop: "exclusive me hs lt \<Longrightarrow> exclusive me (hs[c := None]) lt"
  by (auto simp: exclusive_def nth_update_if split: if_splits)

lemma exclusive_clean:
  assumes "exclusive me hs lt" "alive now hs lt"
  shows "exclusive me hs (lt_clean now lt)"
proof (rule exclusiveI)
  note d = exclusive_distinct [OF assms(1)]
  show "distinct (jkeys (lt_clean now lt))" by (rule distinct_lt_clean [OF d])
  fix c k assume c: "c < length hs" "hs ! c = Some k"
  from exclusive_lock [OF assms(1) this] obtain e where e: "map_of lt k = Some (me, e)" ..
  with aliveD [OF assms(2) c e] show "\<exists>e. map_of (lt_clean now lt) k = Some (me, e)" by (simp add: lt_clean_get [OF d])
qed (rule exclusive_unique [OF assms(1)])

lemma not_held: "\<forall>h \<in> set hs. h \<noteq> Some k \<Longrightarrow> c < length hs \<Longrightarrow> hs ! c = Some k' \<Longrightarrow> k' \<noteq> k"
  using nth_mem by fastforce

lemma exclusive_other_lock:
  assumes "exclusive me hs lt" "\<forall>h \<in> set hs. h \<noteq> Some k"
  shows "exclusive me hs (AList.update k v lt)" "exclusive me hs (AList.delete k lt)"
  by (rule exclusiveI; use exclusive_distinct [OF assms(1)] exclusive_lock [OF assms(1)]
      exclusive_unique [OF assms(1)] not_held [OF assms(2)] in \<open>auto simp: distinct_update distinct_delete simp del: map_of_eq_Some_iff\<close>)+

lemma exclusive_take:
  assumes "exclusive me hs lt" "\<forall>h \<in> set hs. h \<noteq> Some k"
  shows "exclusive me (hs[c := Some k]) (AList.update k (me, e) lt)"
proof (rule exclusiveI)
  show "distinct (jkeys (AList.update k (me, e) lt))" using exclusive_distinct [OF assms(1)] by (rule distinct_update)
next
  fix d k' assume "d < length (hs[c := Some k])" "hs[c := Some k] ! d = Some k'"
  then show "\<exists>e'. map_of (AList.update k (me, e) lt) k' = Some (me, e')"
    using exclusive_lock [OF assms(1)] by (auto simp: nth_update_if simp del: map_of_eq_Some_iff split: if_splits)
next
  fix d d' k' assume "d < length (hs[c := Some k])" "d' < length (hs[c := Some k])"
    "hs[c := Some k] ! d = Some k'" "hs[c := Some k] ! d' = Some k'"
  then show "d = d'"
    using exclusive_unique [OF assms(1)] not_held [OF assms(2)] by (auto simp: nth_update_if split: if_splits) blast+
qed

lemma exclusive_renew:
  "exclusive me hs lt \<Longrightarrow> exclusive me hs (AList.update k (me, e) lt)"
  by (auto simp: exclusive_def distinct_update simp del: map_of_eq_Some_iff)

lemma exclusive_release:
  assumes "exclusive me hs lt" "c < length hs" "hs ! c = Some k"
  shows "exclusive me (hs[c := None]) (AList.delete k lt)"
proof (rule exclusive_other_lock(2) [OF exclusive_drop [OF assms(1)]])
  show "\<forall>h \<in> set (hs[c := None]). h \<noteq> Some k"
    using exclusive_unique [OF assms(1,2) _ assms(3)] by (auto simp: in_set_conv_nth nth_update_if split: if_splits)
qed

text \<open>A lock that is held and alive is not obtained by anyone.\<close>

lemma acquired_not_held:
  assumes "exclusive me hs (lb_locks b)" "alive now hs (lb_locks b)"
    and "lb_acquire_lock k ow now ttl b = (True, b')"
  shows "\<forall>h \<in> set hs. h \<noteq> Some k"
proof (rule ballI, rule notI)
  fix h assume "h \<in> set hs" "h = Some k"
  then obtain c where c: "c < length hs" "hs ! c = Some k" by (auto simp: in_set_conv_nth)
  from exclusive_lock [OF assms(1) c] obtain e where e: "map_of (lb_locks b) k = Some (me, e)" ..
  have "now < e" by (rule aliveD [OF assms(2) c e])
  moreover have "distinct (jkeys (lb_locks b))" using assms(1) by (simp add: exclusive_def)
  ultimately show False using assms(3) e by (simp add: lb_acquire_lock_def Let_def lt_clean_get)
qed

lemma acquire_locks:
  "lb_locks (snd (lb_acquire_lock k ow now ttl b))
   = (if fst (lb_acquire_lock k ow now ttl b) then AList.update k (ow, now + ttl) (lt_clean now (lb_locks b))
      else lt_clean now (lb_locks b))"
  by (auto simp: lb_acquire_lock_def Let_def split: option.splits)

text \<open>How the helpers change what is held, the locks and the configuration.\<close>

lemma held_set_phase [simp]: "held (set_phase c ph w) = (held w)[c := held_key ph]"
  by (simp add: held_def set_phase_def map_update)

lemma set_phase_frame [simp]:
  "pw_backend (set_phase c ph w) = pw_backend w" "pw_cfg (set_phase c ph w) = pw_cfg w"
  "pw_running (set_phase c ph w) = pw_running w" "pw_pool (set_phase c ph w) = pw_pool w"
  "pw_dead_letters (set_phase c ph w) = pw_dead_letters w" "pw_metrics (set_phase c ph w) = pw_metrics w"
  by (simp_all add: set_phase_def)

lemma count_frame [simp]:
  "held (bump f w) = held w" "pw_backend (bump f w) = pw_backend w" "pw_cfg (bump f w) = pw_cfg w"
  "pw_phases (bump f w) = pw_phases w" "pw_running (bump f w) = pw_running w" "pw_pool (bump f w) = pw_pool w"
  "pw_dead_letters (bump f w) = pw_dead_letters w" "pw_metrics (bump f w) = f (pw_metrics w)"
  by (simp_all add: bump_def held_def)

lemma phase_of_held: "c < length (pw_phases w) \<Longrightarrow> held w ! c = held_key (phase_of w c)"
  by (simp add: held_def phase_of_def)

lemma length_held [simp]: "length (held w) = length (pw_phases w)"
  by (simp add: held_def)

lemma held_unheld_update: "held_key (phase_of w c) = None \<Longrightarrow> (held w)[c := None] = held w"
  by (cases "c < length (pw_phases w)") (auto simp: phase_of_held list_update_beyond list_update_same_conv)

lemma deliver_frame [simp]:
  "held (deliver wk w) = held w" "pw_backend (deliver wk w) = pw_backend w" "pw_cfg (deliver wk w) = pw_cfg w"
  "pw_running (deliver wk w) = pw_running w" "pw_pool (deliver wk w) = pw_pool w"
  "pw_dead_letters (deliver wk w) = pw_dead_letters w" "pw_metrics (deliver wk w) = pw_metrics w"
  by (auto simp: deliver_def held_unheld_update split: option.split phase.split prod.split)

lemma held_backend [simp]: "held (w\<lparr>pw_backend := b\<rparr>) = held w" "held (w\<lparr>pw_pool := p\<rparr>) = held w"
  "held (w\<lparr>pw_active_locks := a\<rparr>) = held w" "held (w\<lparr>pw_running_tasks := rt\<rparr>) = held w"
  "held (w\<lparr>pw_dead_letters := ds\<rparr>) = held w"
  by (simp_all add: held_def)

lemma enqueue_frame [simp]:
  "held (enqueue t w) = held w" "locks_of (enqueue t w) = locks_of w" "pw_cfg (enqueue t w) = pw_cfg w"
  "pw_running (enqueue t w) = pw_running w" "pw_pool (enqueue t w) = pw_pool w"
  "pw_dead_letters (enqueue t w) = pw_dead_letters w" "pw_metrics (enqueue t w) = pw_metrics w"
  by (auto simp: enqueue_def lb_enqueue_task_def Let_def split: prod.split list.split)

lemma fold_enqueue_frame [simp]:
  "held (fold enqueue ts w) = held w" "locks_of (fold enqueue ts w) = locks_of w"
  "pw_cfg (fold enqueue ts w) = pw_cfg w"
  by (induction ts arbitrary: w) simp_all

lemma release_permit_frame [simp]:
  "held (release_permit w) = held w" "pw_backend (release_permit w) = pw_backend w"
  "pw_cfg (release_permit w) = pw_cfg w"
  by (auto simp: release_permit_def held_unheld_update split: option.split sum.split phase.split prod.split)

lemma on_backend_frame [simp]:
  "held (on_backend f w) = held w" "pw_backend (on_backend f w) = f (pw_backend w)" "pw_cfg (on_backend f w) = pw_cfg w"
  by (simp_all add: on_backend_def)

lemma cascade_schedule_frame:
  assumes "hooks_ok (pw_cfg w)"
  shows "held (cascade_schedule now t r w) = held w \<and> locks_of (cascade_schedule now t r w) = locks_of w
    \<and> pw_cfg (cascade_schedule now t r w) = pw_cfg w"
  using assms by (simp add: cascade_schedule_def cascade_frame)

lemma move_to_dead_letter_frame [simp]:
  "held (move_to_dead_letter now t e n w) = held w" "pw_backend (move_to_dead_letter now t e n w) = pw_backend w"
  "pw_cfg (move_to_dead_letter now t e n w) = pw_cfg w"
  by (simp_all add: move_to_dead_letter_def)

lemma finally_task_frame:
  "held (finally_task c t key ds w) = (held w)[c := None]"
  "locks_of (finally_task c t key ds w) = (case key of None \<Rightarrow> locks_of w
     | Some k \<Rightarrow> lb_locks (lb_release_lock k (wk_id (pw_cfg w)) (pw_backend w)))"
  "pw_cfg (finally_task c t key ds w) = pw_cfg w"
  by (simp_all add: finally_task_def Let_def split: option.split)

lemma start_execution_frame [simp]:
  "held (start_execution c t key w) = (held w)[c := key]"
  "pw_backend (start_execution c t key w) = pw_backend w" "pw_cfg (start_execution c t key w) = pw_cfg w"
  by (simp_all add: start_execution_def)

text \<open>The lock that a coroutine waits for or holds is the lock of its task.\<close>

fun phase_key_ok :: "worker_config \<Rightarrow> phase \<Rightarrow> bool" where
  "phase_key_ok cfg (Executing t key lost) \<longleftrightarrow> key = get_lock_key cfg t"
| "phase_key_ok cfg (RetrySleep t key lost ds due) \<longleftrightarrow> key = get_lock_key cfg t"
| "phase_key_ok cfg (Backoff t k deadline delay) \<longleftrightarrow> get_lock_key cfg t = Some k"
| "phase_key_ok cfg ph \<longleftrightarrow> True"

definition keys_ok :: "pipeline_worker \<Rightarrow> bool" where
  "keys_ok w \<longleftrightarrow> (\<forall>ph \<in> set (pw_phases w). phase_key_ok (pw_cfg w) ph)"

named_theorems keys_keep "operations keep keys_ok"

lemma keys_set_phase [keys_keep]:
  "keys_ok w \<Longrightarrow> phase_key_ok (pw_cfg w) ph \<Longrightarrow> keys_ok (set_phase c ph w)"
  using set_update_subset_insert [of "pw_phases w" c ph] by (auto simp: keys_ok_def set_phase_def)

lemma keys_frame [simp]:
  "keys_ok (bump f w) = keys_ok w" "keys_ok (on_backend g w) = keys_ok w" "keys_ok (w\<lparr>pw_backend := b\<rparr>) = keys_ok w"
  "keys_ok (w\<lparr>pw_pool := p\<rparr>) = keys_ok w" "keys_ok (w\<lparr>pw_dead_letters := ds\<rparr>) = keys_ok w"
  "keys_ok (w\<lparr>pw_active_locks := a\<rparr>) = keys_ok w" "keys_ok (w\<lparr>pw_running_tasks := rt\<rparr>) = keys_ok w"
  by (simp_all add: keys_ok_def bump_def on_backend_def)

lemma keys_deliver [keys_keep]: "keys_ok w \<Longrightarrow> keys_ok (deliver wk w)"
  by (auto simp: deliver_def intro: keys_keep split: option.split prod.split phase.split)

lemma keys_enqueue [keys_keep]: "keys_ok w \<Longrightarrow> keys_ok (enqueue t w)"
  by (auto simp: enqueue_def intro: keys_keep split: prod.split)

lemma keys_fold_enqueue [keys_keep]: "keys_ok w \<Longrightarrow> keys_ok (fold enqueue ts w)"
  by (induction ts arbitrary: w) (auto intro: keys_keep)

lemma keys_release_permit [keys_keep]: "keys_ok w \<Longrightarrow> keys_ok (release_permit w)"
  by (auto simp: release_permit_def intro: keys_keep split: option.split sum.split prod.split phase.split)

lemma keys_cascade [keys_keep]: "keys_ok w \<Longrightarrow> keys_ok (cascade_schedule now t r w)"
  by (auto simp: cascade_schedule_def intro: keys_keep)

lemma keys_dead_letter [keys_keep]: "keys_ok w \<Longrightarrow> keys_ok (move_to_dead_letter now t e n w)"
  by (simp add: move_to_dead_letter_def)

lemma keys_finally [keys_keep]: "keys_ok w \<Longrightarrow> keys_ok (finally_task c t key ds w)"
  by (auto simp: finally_task_def Let_def intro!: keys_keep split: option.split)

lemma keys_start_execution [keys_keep]:
  "keys_ok w \<Longrightarrow> key = get_lock_key (pw_cfg w) t \<Longrightarrow> keys_ok (start_execution c t key w)"
  by (auto simp: start_execution_def intro!: keys_keep)

lemma keys_give_up [keys_keep]: "keys_ok w \<Longrightarrow> keys_ok (lock_give_up now c t w)"
  by (auto simp: lock_give_up_def intro!: keys_keep)

lemma keys_backoff_round [keys_keep]:
  "keys_ok w \<Longrightarrow> get_lock_key (pw_cfg w) t = Some k \<Longrightarrow> keys_ok (backoff_round now c t k deadline delay w)"
  by (auto simp: backoff_round_def intro!: keys_keep)

lemma keys_process_permitted [keys_keep]: "keys_ok w \<Longrightarrow> keys_ok (process_permitted now c t w)"
  by (auto simp: process_permitted_def Let_def intro!: keys_keep split: option.split prod.split bool.split)

lemma keys_process_task [keys_keep]: "keys_ok w \<Longrightarrow> keys_ok (process_task now c t w)"
  by (auto simp: process_task_def intro!: keys_keep split: option.split prod.split acquire_result.split)

lemma keys_phase: "keys_ok w \<Longrightarrow> phase_key_ok (pw_cfg w) (phase_of w c)"
  by (auto simp: keys_ok_def phase_of_def)

lemma keys_step: "keys_ok w \<Longrightarrow> keys_ok (worker_step ev w)"
proof (cases ev)
  case (BackoffOver now c)
  assume "keys_ok w"
  with keys_phase [OF this, of c] show ?thesis unfolding BackoffOver
    by (auto simp: backoff_step_def intro!: keys_keep split: phase.split prod.split bool.split)
next
  case (RenewTick now c)
  assume "keys_ok w"
  with keys_phase [OF this, of c] show ?thesis unfolding RenewTick
    by (auto simp: renew_step_def lose_lock_def Let_def intro!: keys_keep split: phase.split prod.split bool.split option.split)
next
  case (ExecutionDone now c r)
  assume "keys_ok w"
  with keys_phase [OF this, of c] show ?thesis unfolding ExecutionDone
    by (auto simp: execution_done_def execution_failed_def Let_def intro!: keys_keep split: phase.split option.split)
qed (auto simp: worker_start_def worker_stop_def loop_step_def wait_timeout_step_def woken_step_def permitted_step_def
    retry_step_def re_enqueue_def resume_step_def keys_ok_def [of "worker_start _"] intro!: keys_keep
    split: phase.split prod.split consume_result.split option.split; simp add: keys_ok_def)+

definition excl :: "pipeline_worker \<Rightarrow> bool" where
  "excl w \<longleftrightarrow> exclusive (wk_id (pw_cfg w)) (held w) (locks_of w)"

definition all_alive :: "ms \<Rightarrow> pipeline_worker \<Rightarrow> bool" where
  "all_alive now w \<longleftrightarrow> alive now (held w) (locks_of w)"

lemma excl_finally:
  assumes "excl w" "c < length (pw_phases w)" "held_key (phase_of w c) = key"
  shows "excl (finally_task c t key ds w)"
proof (cases key)
  case None
  then show ?thesis using assms(1) exclusive_drop by (simp add: excl_def finally_task_frame)
next
  case (Some k)
  have h: "held w ! c = Some k" using assms(2,3) Some by (simp add: phase_of_held)
  have c: "c < length (held w)" using assms(2) by simp
  from exclusive_lock [OF assms(1) [unfolded excl_def] c h]
  obtain e where "map_of (locks_of w) k = Some (wk_id (pw_cfg w), e)" ..
  then show ?thesis
    using exclusive_release [OF assms(1) [unfolded excl_def] c h] Some
    by (simp add: excl_def finally_task_frame lb_release_lock_def)
qed

lemma excl_drop: "exclusive me (held w) lt \<Longrightarrow> exclusive me ((held w)[c := None]) lt"
  by (rule exclusive_drop)

lemma excl_give_up: "excl w \<Longrightarrow> excl (lock_give_up now c t w)"
  by (auto simp: excl_def lock_give_up_def intro: exclusive_drop)

lemma excl_backoff_round: "excl w \<Longrightarrow> excl (backoff_round now c t k deadline delay w)"
  using excl_give_up [of w now c t] by (auto simp: backoff_round_def excl_def intro: exclusive_drop)

text \<open>A new attempt to take a lock: success is for a key that nobody holds.\<close>

lemma excl_acquire:
  assumes "excl w" "all_alive now w" "lb_acquire_lock k (wk_id (pw_cfg w)) now ttl (pw_backend w) = (got, b)"
  shows "got \<Longrightarrow> excl (start_execution c t (Some k) (w\<lparr>pw_backend := b\<rparr>))"
    and "excl (w\<lparr>pw_backend := b\<rparr>)"
proof -
  note e = assms(1) [unfolded excl_def] and a = assms(2) [unfolded all_alive_def]
  note cl = exclusive_clean [OF e a]
  have lt: "lb_locks b = (if got then AList.update k (wk_id (pw_cfg w), now + ttl) (lt_clean now (locks_of w))
      else lt_clean now (locks_of w))"
    using acquire_locks [of k "wk_id (pw_cfg w)" now ttl "pw_backend w"] assms(3) by simp
  {
    assume g: got
    have "lb_acquire_lock k (wk_id (pw_cfg w)) now ttl (pw_backend w) = (True, b)" using assms(3) g by simp
    note n = acquired_not_held [OF e a this]
    have "exclusive (wk_id (pw_cfg w)) (held w) (lb_locks b)" using exclusive_other_lock(1) [OF cl n] lt g by simp
    moreover have "exclusive (wk_id (pw_cfg w)) ((held w)[c := Some k]) (lb_locks b)"
      using exclusive_take [OF cl n] lt g by simp
    ultimately have "excl (start_execution c t (Some k) (w\<lparr>pw_backend := b\<rparr>)) \<and> excl (w\<lparr>pw_backend := b\<rparr>)"
      by (simp add: excl_def)
  } note yes = this
  show "excl (w\<lparr>pw_backend := b\<rparr>)" using yes cl lt by (cases got) (simp_all add: excl_def)
  show "got \<Longrightarrow> excl (start_execution c t (Some k) (w\<lparr>pw_backend := b\<rparr>))" using yes by simp
qed

lemma excl_process_permitted:
  assumes "excl w" "all_alive now w"
  shows "excl (process_permitted now c t w)"
proof (cases "get_lock_key (pw_cfg w) t")
  case None
  then show ?thesis using assms(1) by (simp add: process_permitted_def excl_def exclusive_drop)
next
  case (Some k)
  obtain got b where g: "lb_acquire_lock k (wk_id (pw_cfg w)) now (wk_lock_ttl (pw_cfg w)) (pw_backend w) = (got, b)"
    by fastforce
  note x = excl_acquire [OF assms g]
  let ?w = "bump (\<lambda>m. m\<lparr>wm_lock_conflicts := wm_lock_conflicts m + 1\<rparr>) (w\<lparr>pw_backend := b\<rparr>)"
  have "excl ?w" using x(2) by (simp add: excl_def)
  then have "excl (set_phase c Looping (release_permit ?w))" "excl (backoff_round now c t k d e ?w)" for d e
    by (simp_all add: excl_backoff_round) (simp add: excl_def exclusive_drop)
  then show ?thesis using Some g x(1) by (cases got) (auto simp: process_permitted_def Let_def)
qed

lemma excl_process_task:
  assumes "excl w" "all_alive now w"
  shows "excl (process_task now c t w)"
proof -
  have "excl (process_permitted now c t (w\<lparr>pw_pool := p\<rparr>))" for p
    using assms by (intro excl_process_permitted) (simp_all add: excl_def all_alive_def)
  then show ?thesis
    using excl_process_permitted [OF assms] assms(1)
    by (auto simp: process_task_def excl_def exclusive_drop split: option.split prod.split acquire_result.split)
qed

lemma consume_locks [simp]: "lb_locks (snd (lb_consume_task now c d b)) = lb_locks b"
  by (auto simp: lb_consume_task_def split: list.split option.split)

lemma timeout_locks [simp]: "lb_locks (lb_waiter_timeout c b) = lb_locks b"
  by (auto simp: lb_waiter_timeout_def split: option.split)

lemma excl_loop_step: "excl w \<Longrightarrow> all_alive now w \<Longrightarrow> excl (loop_step now c w)"
proof -
  assume a: "excl w" "all_alive now w"
  obtain res b where c: "lb_consume_task now c (Some (wk_poll (pw_cfg w))) (pw_backend w) = (res, b)" by fastforce
  have l: "lb_locks b = locks_of w" using consume_locks [of now c "Some (wk_poll (pw_cfg w))" "pw_backend w"] c by simp
  have "excl (bump f (w\<lparr>pw_backend := b\<rparr>))" "all_alive now (bump f (w\<lparr>pw_backend := b\<rparr>))" for f
    using a l by (simp_all add: excl_def all_alive_def)
  note p = excl_process_task [OF this]
  show ?thesis using a p l c
    by (auto simp: loop_step_def excl_def exclusive_drop split: phase.split consume_result.split)
qed

lemma excl_woken_step: "excl w \<Longrightarrow> all_alive now w \<Longrightarrow> excl (woken_step now c w)"
proof -
  assume a: "excl w" "all_alive now w"
  then have "excl (bump f w)" "all_alive now (bump f w)" for f by (simp_all add: excl_def all_alive_def)
  note p = excl_process_task [OF this]
  show ?thesis using a p by (auto simp: woken_step_def excl_def exclusive_drop split: phase.split option.split)
qed

lemma excl_backoff_step: "excl w \<Longrightarrow> all_alive now w \<Longrightarrow> excl (backoff_step now c w)"
proof (cases "phase_of w c")
  case (Backoff t k deadline delay)
  assume a: "excl w" "all_alive now w"
  obtain got b where g: "lb_acquire_lock k (wk_id (pw_cfg w)) now (wk_lock_ttl (pw_cfg w)) (pw_backend w) = (got, b)"
    by fastforce
  show ?thesis
    using excl_acquire [OF a g] excl_backoff_round [of "w\<lparr>pw_backend := b\<rparr>"] Backoff g
    by (cases got) (simp_all add: backoff_step_def)
qed (simp_all add: backoff_step_def)

lemma held_same: "held_key (phase_of w c) = key \<Longrightarrow> (held w)[c := key] = held w"
  using phase_of_held [of c w] list_update_id [of "held w" c]
  by (cases "c < length (pw_phases w)") (auto simp: list_update_beyond)

lemma excl_renew_step: "excl w \<Longrightarrow> excl (renew_step now c w)"
proof -
  assume e: "excl w"
  have r: "excl (case lb_renew_lock k (wk_id (pw_cfg w)) now ttl (pw_backend w) of
              (True, b) \<Rightarrow> w\<lparr>pw_backend := b\<rparr> | (False, b) \<Rightarrow> lose_lock c ph (w\<lparr>pw_backend := b\<rparr>))"
    if "held_key (phase_of w c) = Some k" "held_key ph = Some k" for k ph ttl
    using e held_same [OF that(1)] that(2)
    by (auto simp: excl_def lb_renew_lock_def lose_lock_def exclusive_renew split: option.split prod.split)
  show ?thesis using e r by (auto simp: renew_step_def Let_def split: phase.split option.split bool.split)
qed

lemma pw_cfg_dead [simp]: "phase_of (move_to_dead_letter now t e n w) c = phase_of w c"
  "pw_phases (move_to_dead_letter now t e n w) = pw_phases w"
  by (simp_all add: move_to_dead_letter_def phase_of_def)

lemma held_at: "held w ! c = held_key (phase_of w c) \<or> length (pw_phases w) \<le> c"
  using phase_of_held by (meson not_le)

text \<open>The end of a task gives up what its coroutine holds.\<close>

lemma excl_settle:
  assumes "excl w" "held_key (phase_of w c) = key" "c < length (pw_phases w)"
    and "held w' = held w" "locks_of w' = locks_of w" "pw_cfg w' = pw_cfg w"
  shows "excl (finally_task c t key ds w')"
proof (rule excl_finally)
  show "excl w'" using assms(1,4-6) by (simp add: excl_def)
  show l: "c < length (pw_phases w')" using assms(3,4) length_held by metis
  show "held_key (phase_of w' c) = key" using phase_of_held [OF l] phase_of_held [OF assms(3)] assms(2,4) by simp
qed

lemma in_range: "phase_of w c \<noteq> Ended \<Longrightarrow> c < length (pw_phases w)"
  by (auto simp: phase_of_def split: if_splits)

lemma excl_execution_done:
  assumes "excl w" "hooks_ok (pw_cfg w)"
  shows "excl (execution_done now c r w)"
proof (cases "phase_of w c")
  case (Executing t key lost)
  then have c: "c < length (pw_phases w)" "held_key (phase_of w c) = key" by (auto intro: in_range)
  note s = excl_settle [OF assms(1) c(2) c(1)]
  have "held_key (phase_of w c) = held_key (RetrySleep t key False ds due)" for ds due using Executing by simp
  then have "excl (set_phase c (RetrySleep t key False ds due) (bump f w))" for ds due f
    using assms(1) held_same [OF c(2)] by (simp add: excl_def)
  moreover have "excl (finally_task c t key ds (bump f w))" for ds f by (rule s) simp_all
  moreover have "excl (finally_task c t key ds (move_to_dead_letter now t e n (bump f w)))" for ds e n f by (rule s) simp_all
  moreover have "excl (finally_task c t key ds (cascade_schedule now t r (bump f w)))" for ds f
    using assms(2) cascade_schedule_frame [of "bump f w" now t r] by (intro s) simp_all
  ultimately show ?thesis using Executing
    by (auto simp: execution_done_def execution_failed_def Let_def split: option.split)
qed (use assms(1) in \<open>simp_all add: execution_done_def\<close>)

lemma excl_retry_step: "excl w \<Longrightarrow> excl (retry_step now c w)"
proof (cases "phase_of w c")
  case (RetrySleep t key lost ds due)
  assume e: "excl w"
  have c: "c < length (pw_phases w)" "held_key (phase_of w c) = key" using RetrySleep by (auto intro: in_range)
  show ?thesis using RetrySleep excl_settle [OF e c(2) c(1)] by (simp add: retry_step_def re_enqueue_def)
qed (simp_all add: retry_step_def)

text \<open>When the event happens, and whether it respects the locks: no held lock has expired when a lock
  is asked for, nobody else uses this worker's name, and the worker is not stopped.\<close>

fun event_time :: "worker_event \<Rightarrow> ms option" where
  "event_time (LoopTop now c) = Some now"
| "event_time (WokenUp now c) = Some now"
| "event_time (PermitGranted now c) = Some now"
| "event_time (BackoffOver now c) = Some now"
| "event_time (OutsideLock now k ow ttl) = Some now"
| "event_time ev = None"

fun well_behaved :: "string \<Rightarrow> worker_event \<Rightarrow> bool" where
  "well_behaved me Stop \<longleftrightarrow> False"
| "well_behaved me (OutsideUnlock k ow) \<longleftrightarrow> ow \<noteq> me"
| "well_behaved me ev \<longleftrightarrow> True"

definition timely :: "worker_event \<Rightarrow> pipeline_worker \<Rightarrow> bool" where
  "timely ev w \<longleftrightarrow> well_behaved (wk_id (pw_cfg w)) ev
     \<and> (case event_time ev of None \<Rightarrow> True | Some now \<Rightarrow> all_alive now w)"

fun timely_run :: "worker_event list \<Rightarrow> pipeline_worker \<Rightarrow> bool" where
  "timely_run [] w \<longleftrightarrow> True"
| "timely_run (ev # evs) w \<longleftrightarrow> timely ev w \<and> timely_run evs (worker_step ev w)"

lemma excl_step:
  assumes "excl w" "hooks_ok (pw_cfg w)" "timely ev w"
  shows "excl (worker_step ev w)"
proof (cases ev)
  case Start
  have "exclusive me (replicate n None) (locks_of w)" for me n
    using assms(1) by (intro exclusiveI) (auto simp: excl_def dest: exclusive_distinct)
  then have "excl (w\<lparr>pw_running := True, pw_phases := replicate n Looping\<rparr>)" for n
    by (simp add: excl_def held_def)
  then show ?thesis using assms(1) Start by (simp add: worker_start_def)
next
  case (LoopTop now c)
  with assms show ?thesis by (simp add: timely_def excl_loop_step)
next
  case (WaitTimeout c)
  with assms show ?thesis
    by (auto simp: wait_timeout_step_def excl_def exclusive_drop split: phase.split)
next
  case (WokenUp now c)
  with assms show ?thesis by (simp add: timely_def excl_woken_step)
next
  case (PermitGranted now c)
  with assms show ?thesis by (auto simp: timely_def permitted_step_def excl_process_permitted split: phase.split)
next
  case (BackoffOver now c)
  with assms show ?thesis by (simp add: timely_def excl_backoff_step)
next
  case (OutsideLock now k ow ttl)
  obtain got b where g: "lb_acquire_lock k ow now ttl (pw_backend w) = (got, b)" by fastforce
  have e: "exclusive (wk_id (pw_cfg w)) (held w) (locks_of w)" and a: "alive now (held w) (locks_of w)"
    using assms(1,3) OutsideLock by (simp_all add: excl_def timely_def all_alive_def)
  have "exclusive (wk_id (pw_cfg w)) (held w) (lb_locks b)"
    using exclusive_other_lock(1) [OF exclusive_clean [OF e a]] acquired_not_held [OF e a] exclusive_clean [OF e a]
      acquire_locks [of k ow now ttl "pw_backend w"] g by (cases got) auto
  with g OutsideLock show ?thesis by (simp add: excl_def)
next
  case (OutsideUnlock k ow)
  have e: "exclusive (wk_id (pw_cfg w)) (held w) (locks_of w)" and n: "ow \<noteq> wk_id (pw_cfg w)"
    using assms(1,3) OutsideUnlock by (simp_all add: excl_def timely_def)
  have "\<forall>h \<in> set (held w). h \<noteq> Some k" if "map_of (locks_of w) k = Some (ow, x)" for x
    using exclusive_lock [OF e] that n by (fastforce simp: in_set_conv_nth simp del: map_of_eq_Some_iff)
  then show ?thesis using e exclusive_other_lock(2) [OF e] OutsideUnlock
    by (auto simp: excl_def lb_release_lock_def simp del: map_of_eq_Some_iff split: option.split)
next
  case (ResumeLoop c)
  with assms show ?thesis by (auto simp: resume_step_def excl_def exclusive_drop split: phase.split)
next
  case (OutsideTask t)
  with assms show ?thesis by (simp add: excl_def)
qed (use assms in \<open>simp_all add: timely_def excl_renew_step excl_execution_done excl_retry_step\<close>)

lemma pw_cfg_process_permitted [simp]: "pw_cfg (process_permitted now c t w) = pw_cfg w"
  by (auto simp: process_permitted_def backoff_round_def lock_give_up_def Let_def split: option.split prod.split bool.split)

lemma pw_cfg_process_task [simp]: "pw_cfg (process_task now c t w) = pw_cfg w"
  by (auto simp: process_task_def split: option.split prod.split acquire_result.split)

lemma pw_cfg_step [simp]: "pw_cfg (worker_step ev w) = pw_cfg w"
  by (cases ev) (auto simp: worker_start_def worker_stop_def loop_step_def wait_timeout_step_def woken_step_def
      permitted_step_def backoff_step_def backoff_round_def lock_give_up_def renew_step_def lose_lock_def Let_def
      execution_done_def execution_failed_def finally_task_frame cascade_schedule_def retry_step_def re_enqueue_def resume_step_def
      split: phase.split prod.split consume_result.split option.split bool.split)

lemma excl_run:
  "excl w \<Longrightarrow> hooks_ok (pw_cfg w) \<Longrightarrow> timely_run evs w \<Longrightarrow> excl (worker_run evs w)"
  by (induction evs arbitrary: w) (simp_all add: worker_run_def excl_step)

lemma keys_run: "keys_ok w \<Longrightarrow> keys_ok (worker_run evs w)"
  by (induction evs arbitrary: w) (simp_all add: worker_run_def keys_step)

lemma pw_cfg_run [simp]: "pw_cfg (worker_run evs w) = pw_cfg w"
  by (induction evs arbitrary: w) (simp_all add: worker_run_def)

end
