(* ===== verification/Worker_Tasks.thy ===== *)
theory Worker_Tasks
  imports Worker_Exclusion
begin

text \<open>
  What becomes of the tasks of the pipeline worker: a task that is queued or in the hands of a
  coroutine stays so until it is settled, and the ways in which it is settled.
\<close>

section \<open>Tasks in the hands of the worker\<close>

fun carried :: "phase \<Rightarrow> task_payload option" where
  "carried (Woken x) = x"
| "carried (AwaitPermit t) = Some t"
| "carried (Permitted t) = Some t"
| "carried (Backoff t k deadline delay) = Some t"
| "carried (Executing t key lost) = Some t"
| "carried (RetrySleep t key lost ds due) = Some t"
| "carried ph = None"

abbreviation queue_of :: "pipeline_worker \<Rightarrow> task_payload list" where
  "queue_of w \<equiv> lb_queue (pw_backend w)"

abbreviation waiters_of :: "pipeline_worker \<Rightarrow> (nat \<times> ms) list" where
  "waiters_of w \<equiv> lb_waiters (pw_backend w)"

definition present :: "task_payload \<Rightarrow> pipeline_worker \<Rightarrow> bool" where
  "present t w \<longleftrightarrow> t \<in> set (queue_of w) \<or> (\<exists>ph \<in> set (pw_phases w). carried ph = Some t)"

text \<open>Queued, or in the hands of another coroutine than \<open>c\<close>.\<close>

definition elsewhere :: "nat \<Rightarrow> task_payload \<Rightarrow> pipeline_worker \<Rightarrow> bool" where
  "elsewhere c t w \<longleftrightarrow> t \<in> set (queue_of w) \<or> (\<exists>d. d \<noteq> c \<and> carried (phase_of w d) = Some t)"

text \<open>The blocked consumers of the backend are coroutines that wait.\<close>

definition waiters_ok :: "pipeline_worker \<Rightarrow> bool" where
  "waiters_ok w \<longleftrightarrow> distinct (map fst (waiters_of w)) \<and> (\<forall>v \<in> fst ` set (waiters_of w). phase_of w v = Waiting)"

text \<open>Coroutine \<open>c\<close> is at work.\<close>

definition working :: "nat \<Rightarrow> pipeline_worker \<Rightarrow> bool" where
  "working c w \<longleftrightarrow> waiters_ok w \<and> phase_of w c \<noteq> Waiting"

lemma carried_Ended: "carried (phase_of w d) = Some t \<Longrightarrow> d < length (pw_phases w)"
  by (auto simp: phase_of_def split: if_splits)

lemma present_iff: "present t w \<longleftrightarrow> t \<in> set (queue_of w) \<or> (\<exists>d. carried (phase_of w d) = Some t)"
proof -
  have "(\<exists>ph \<in> set (pw_phases w). carried ph = Some t) \<longleftrightarrow> (\<exists>d. carried (phase_of w d) = Some t)"
    using carried_Ended [of w _ t] by (metis in_set_conv_nth phase_of_def)
  then show ?thesis by (simp add: present_def)
qed

lemma present_elsewhere: "present t w \<longleftrightarrow> elsewhere c t w \<or> carried (phase_of w c) = Some t"
  unfolding present_iff elsewhere_def by auto

lemma phase_of_set_phase: "phase_of (set_phase c ph w) d = (if d = c \<and> c < length (pw_phases w) then ph else phase_of w d)"
  by (auto simp: phase_of_def set_phase_def nth_list_update)

lemma phase_of_frame [simp]:
  "phase_of (bump f w) c = phase_of w c" "phase_of (on_backend g w) c = phase_of w c"
  "phase_of (w\<lparr>pw_backend := b\<rparr>) c = phase_of w c" "phase_of (w\<lparr>pw_pool := p\<rparr>) c = phase_of w c"
  "phase_of (w\<lparr>pw_active_locks := a\<rparr>) c = phase_of w c" "phase_of (w\<lparr>pw_running_tasks := rt\<rparr>) c = phase_of w c"
  by (simp_all add: phase_of_def on_backend_def)

lemma elsewhere_set_phase [simp]: "elsewhere c t (set_phase c ph w) = elsewhere c t w"
  by (auto simp: elsewhere_def phase_of_set_phase)

lemma elsewhere_frame [simp]:
  "elsewhere c t (bump f w) = elsewhere c t w" "elsewhere c t (w\<lparr>pw_pool := p\<rparr>) = elsewhere c t w"
  "elsewhere c t (w\<lparr>pw_active_locks := a\<rparr>) = elsewhere c t w" "elsewhere c t (w\<lparr>pw_running_tasks := rt\<rparr>) = elsewhere c t w"
  "elsewhere c t (move_to_dead_letter now u e n w) = elsewhere c t w"
  by (simp_all add: elsewhere_def)

lemma elsewhere_backend: "lb_queue b = queue_of w \<Longrightarrow> elsewhere c t (w\<lparr>pw_backend := b\<rparr>) = elsewhere c t w"
  by (simp add: elsewhere_def)

lemma working_frame [simp]:
  "working c (bump f w) = working c w" "working c (w\<lparr>pw_pool := p\<rparr>) = working c w"
  "working c (w\<lparr>pw_active_locks := a\<rparr>) = working c w" "working c (w\<lparr>pw_running_tasks := rt\<rparr>) = working c w"
  "working c (move_to_dead_letter now u e n w) = working c w"
  by (simp_all add: working_def waiters_ok_def)

lemma working_backend: "lb_waiters b = waiters_of w \<Longrightarrow> working c (w\<lparr>pw_backend := b\<rparr>) = working c w"
  by (simp add: working_def waiters_ok_def)

lemma waiters_set_phase: "working c w \<Longrightarrow> waiters_ok (set_phase c ph w)"
  by (auto simp: working_def waiters_ok_def phase_of_set_phase)

lemma working_set_phase: "working c w \<Longrightarrow> ph \<noteq> Waiting \<Longrightarrow> working c (set_phase c ph w)"
  using waiters_set_phase [of c w ph] by (auto simp: working_def phase_of_set_phase)

text \<open>A new task goes to the queue, or its first task to the first waiting coroutine.\<close>

lemma enqueue_keeps:
  assumes "working c w"
  shows "working c (enqueue x w)" "elsewhere c t w \<or> t = x \<Longrightarrow> elsewhere c t (enqueue x w)"
proof -
  let ?b = "pw_backend w"
  obtain q where q: "insert_task x (lb_queue ?b) = q" by simp
  have sq: "set q = insert x (set (lb_queue ?b))" using q by auto
  have ne: "q \<noteq> []" using q by auto
  have "working c (enqueue x w) \<and> (elsewhere c t w \<or> t = x \<longrightarrow> elsewhere c t (enqueue x w))"
  proof (cases "lb_waiters ?b")
    case Nil
    then have e: "enqueue x w = w\<lparr>pw_backend := ?b\<lparr>lb_queue := q\<rparr>\<rparr>"
      by (simp add: enqueue_def lb_enqueue_task_def q deliver_def)
    show ?thesis using assms sq unfolding e by (auto simp: working_def waiters_ok_def elsewhere_def)
  next
    case (Cons vd ws)
    obtain v d where vd: "vd = (v, d)" by fastforce
    obtain y q' where y: "q = y # q'" using ne by (cases q) auto
    have v: "phase_of w v = Waiting" "v \<notin> fst ` set ws" "distinct (map fst ws)" "v \<noteq> c"
      "\<And>u. u \<in> fst ` set ws \<Longrightarrow> phase_of w u = Waiting"
      using assms Cons vd by (auto simp: working_def waiters_ok_def)
    have vl: "v < length (pw_phases w)" using v(1) by (auto simp: phase_of_def split: if_splits)
    let ?w = "w\<lparr>pw_backend := ?b\<lparr>lb_queue := q', lb_waiters := ws\<rparr>\<rparr>"
    have e: "enqueue x w = set_phase v (Woken (Some y)) ?w"
      using v(1) by (simp add: enqueue_def lb_enqueue_task_def q y Cons vd deliver_def)
    have "working c (enqueue x w)"
      using v vl assms unfolding e by (auto simp: working_def waiters_ok_def phase_of_set_phase)
    moreover have "elsewhere c t (enqueue x w)" if "elsewhere c t w \<or> t = x"
    proof -
      have "t \<in> set q \<or> (\<exists>d. d \<noteq> c \<and> carried (phase_of w d) = Some t)"
        using that sq by (auto simp: elsewhere_def)
      then consider "t = y" | "t \<in> set q'" | d where "d \<noteq> c" "d \<noteq> v" "carried (phase_of w d) = Some t"
        using y v(1) by (metis carried.simps(8) option.distinct(1) set_ConsD)
      then show ?thesis
        unfolding e elsewhere_def using v(4) vl by cases (auto simp: phase_of_set_phase)
    qed
    ultimately show ?thesis by blast
  qed
  then show "working c (enqueue x w)" "elsewhere c t w \<or> t = x \<Longrightarrow> elsewhere c t (enqueue x w)" by blast+
qed

lemma fold_enqueue_keeps:
  "working c w \<Longrightarrow> working c (fold enqueue xs w) \<and> (elsewhere c t w \<longrightarrow> elsewhere c t (fold enqueue xs w))"
  by (induction xs arbitrary: w) (simp_all add: enqueue_keeps)

lemma release_permit_phases: "carried (phase_of (release_permit w) d) = carried (phase_of w d)"
  "phase_of (release_permit w) d = Waiting \<longleftrightarrow> phase_of w d = Waiting"
  by (auto simp: release_permit_def phase_of_set_phase split: option.split sum.split phase.split prod.split)

lemma release_permit_keeps:
  "working c (release_permit w) = working c w" "elsewhere c t (release_permit w) = elsewhere c t w"
  by (auto simp: working_def waiters_ok_def elsewhere_def release_permit_phases)

lemma lock_ops_frame [simp]:
  "lb_queue (snd (lb_acquire_lock k ow now ttl b)) = lb_queue b" "lb_waiters (snd (lb_acquire_lock k ow now ttl b)) = lb_waiters b"
  "lb_queue (snd (lb_renew_lock k ow now ttl b)) = lb_queue b" "lb_waiters (snd (lb_renew_lock k ow now ttl b)) = lb_waiters b"
  "lb_queue (lb_release_lock k ow b) = lb_queue b" "lb_waiters (lb_release_lock k ow b) = lb_waiters b"
  by (auto simp: lb_acquire_lock_def lb_renew_lock_def lb_release_lock_def Let_def split: option.split)

lemma acquire_frame:
  "lb_acquire_lock k ow now ttl b = (got, b') \<Longrightarrow> lb_queue b' = lb_queue b \<and> lb_waiters b' = lb_waiters b"
  using lock_ops_frame(1,2) by (metis snd_conv)

section \<open>Each operation keeps the other tasks\<close>

text \<open>\<open>settled_by c w w'\<close>: coroutine \<open>c\<close> is back at its loop or has moved on, and nothing else is lost.\<close>

definition keeps :: "nat \<Rightarrow> pipeline_worker \<Rightarrow> pipeline_worker \<Rightarrow> bool" where
  "keeps c w w' \<longleftrightarrow> waiters_ok w' \<and> (\<forall>t. elsewhere c t w \<longrightarrow> elsewhere c t w')"

lemma keeps_set_phase: "working c w' \<Longrightarrow> (\<And>t. elsewhere c t w \<Longrightarrow> elsewhere c t w') \<Longrightarrow> keeps c w (set_phase c ph w')"
  by (auto simp: keeps_def intro: waiters_set_phase)

lemma keeps_finally: "working c w \<Longrightarrow> keeps c w (finally_task c t key ds w)"
proof -
  assume w: "working c w"
  let ?w1 = "case key of None \<Rightarrow> w\<lparr>pw_running_tasks := AList.delete (tp_id t) (pw_running_tasks w)\<rparr>
     | Some k \<Rightarrow> w\<lparr>pw_active_locks := removeAll k (pw_active_locks w),
          pw_running_tasks := AList.delete (tp_id t) (pw_running_tasks w),
          pw_backend := lb_release_lock k (wk_id (pw_cfg w)) (pw_backend w)\<rparr>"
  have 1: "working c ?w1" "elsewhere c u ?w1 = elsewhere c u w" for u
    using w by (auto simp: working_def waiters_ok_def elsewhere_def split: option.split)
  then have "working c (fold enqueue ds (release_permit ?w1))"
    "elsewhere c u w \<Longrightarrow> elsewhere c u (fold enqueue ds (release_permit ?w1))" for u
    using fold_enqueue_keeps [of c "release_permit ?w1" ds u] release_permit_keeps by auto
  from keeps_set_phase [OF this] show ?thesis unfolding finally_task_def Let_def .
qed

lemma elsewhere_finally:
  assumes "working c w" "elsewhere c u w"
  shows "elsewhere c u (finally_task c t key ds w)"
  using keeps_finally [OF assms(1)] assms(2) by (simp add: keeps_def)

lemma keeps_give_up:
  assumes "working c w"
  shows "keeps c w (lock_give_up now c t w)"
    and "lock_retry_count t < max_lock_requeue \<Longrightarrow> elsewhere c (requeued_task now t) (lock_give_up now c t w)"
proof -
  let ?w = "if lock_retry_count t < max_lock_requeue then enqueue (requeued_task now t) w else w"
  have "working c ?w" "elsewhere c u w \<Longrightarrow> elsewhere c u ?w" for u using assms enqueue_keeps by simp_all
  then have "working c (release_permit ?w)" "elsewhere c u w \<Longrightarrow> elsewhere c u (release_permit ?w)" for u
    by (simp_all add: release_permit_keeps)
  from keeps_set_phase [OF this] show "keeps c w (lock_give_up now c t w)" unfolding lock_give_up_def .
  show "lock_retry_count t < max_lock_requeue \<Longrightarrow> elsewhere c (requeued_task now t) (lock_give_up now c t w)"
    using enqueue_keeps(2) [OF assms] by (simp add: lock_give_up_def release_permit_keeps)
qed

text \<open>The task is still in the hands of \<open>c\<close>, or was requeued, or was dropped after all its requeues.\<close>

definition kept_or_requeued :: "ms \<Rightarrow> nat \<Rightarrow> task_payload \<Rightarrow> pipeline_worker \<Rightarrow> bool" where
  "kept_or_requeued now c t w \<longleftrightarrow> carried (phase_of w c) = Some t \<or> elsewhere c (requeued_task now t) w
     \<or> max_lock_requeue \<le> lock_retry_count t"

lemma keeps_backoff_round:
  assumes "working c w" "c < length (pw_phases w)"
  shows "keeps c w (backoff_round now c t k deadline delay w)"
    and "kept_or_requeued now c t (backoff_round now c t k deadline delay w)"
  using assms keeps_give_up [OF assms(1), where now = now and t = t]
  by (auto simp: backoff_round_def kept_or_requeued_def phase_of_set_phase intro!: keeps_set_phase)

lemma length_start [simp]: "length (pw_phases (set_phase c ph w)) = length (pw_phases w)"
  by (simp add: set_phase_def)

lemma keeps_start_execution:
  assumes "working c w" "c < length (pw_phases w)"
  shows "keeps c w (start_execution c t key w)" "carried (phase_of (start_execution c t key w) c) = Some t"
  using assms by (auto simp: start_execution_def phase_of_set_phase intro!: keeps_set_phase)

definition lock_refused :: "ms \<Rightarrow> task_payload \<Rightarrow> pipeline_worker \<Rightarrow> bool" where
  "lock_refused now t w \<longleftrightarrow> (\<exists>k. get_lock_key (pw_cfg w) t = Some k
     \<and> \<not> fst (lb_acquire_lock k (wk_id (pw_cfg w)) now (wk_lock_ttl (pw_cfg w)) (pw_backend w)))"

lemma keeps_process_permitted:
  fixes now :: ms and t :: task_payload
  assumes "working c w" "c < length (pw_phases w)"
  defines "w' \<equiv> process_permitted now c t w"
  shows "keeps c w w'"
    and "carried (phase_of w' c) = Some t \<or> lock_refused now t w
       \<and> (tp_type t = T_offload_l2 \<or> kept_or_requeued now c t w')"
proof -
  have "keeps c w w' \<and> (carried (phase_of w' c) = Some t \<or> lock_refused now t w
       \<and> (tp_type t = T_offload_l2 \<or> kept_or_requeued now c t w'))"
  proof (cases "get_lock_key (pw_cfg w) t")
    case None
    then show ?thesis using keeps_start_execution [OF assms(1,2)] by (simp add: w'_def process_permitted_def)
  next
    case (Some k)
    obtain got b where g: "lb_acquire_lock k (wk_id (pw_cfg w)) now (wk_lock_ttl (pw_cfg w)) (pw_backend w) = (got, b)"
      by fastforce
    let ?w = "bump (\<lambda>m. m\<lparr>wm_lock_conflicts := wm_lock_conflicts m + 1\<rparr>) (w\<lparr>pw_backend := b\<rparr>)"
    have b: "working c (w\<lparr>pw_backend := b\<rparr>)" "elsewhere c u (w\<lparr>pw_backend := b\<rparr>) = elsewhere c u w" for u
      using acquire_frame [OF g] assms(1) by (simp_all add: working_backend elsewhere_backend)
    have k: "keeps c w x" if "keeps c (w\<lparr>pw_backend := b\<rparr>) x \<or> keeps c ?w x" for x
      using that b(2) by (auto simp: keeps_def)
    show ?thesis
    proof (cases got)
      case True
      then show ?thesis
        using Some g keeps_start_execution [OF b(1), where t = t and key = "Some k"] assms(2) k by (simp add: w'_def process_permitted_def)
    next
      case False
      have r: "lock_refused now t w" using Some g False by (simp add: lock_refused_def)
      have "keeps c ?w (set_phase c Looping (release_permit ?w))"
        using b(1) by (intro keeps_set_phase) (simp_all add: release_permit_keeps)
      moreover have "working c ?w" "c < length (pw_phases ?w)" using b(1) assms(2) by simp_all
      note keeps_backoff_round [OF this, where now = now and t = t and k = k and deadline = "now + wk_lock_ttl (pw_cfg w)"
          and delay = 200]
      ultimately show ?thesis using Some g False r k
        by (auto simp: w'_def process_permitted_def Let_def)
    qed
  qed
  then show "keeps c w w'" "carried (phase_of w' c) = Some t \<or> lock_refused now t w
       \<and> (tp_type t = T_offload_l2 \<or> kept_or_requeued now c t w')" by auto
qed

section \<open>Every step\<close>

definition settles :: "worker_event \<Rightarrow> task_payload \<Rightarrow> pipeline_worker \<Rightarrow> pipeline_worker \<Rightarrow> bool" where
  "settles ev t w w' \<longleftrightarrow>
     (\<exists>now c r key lost. ev = ExecutionDone now c r \<and> phase_of w c = Executing t key lost
        \<and> (ex_error r = None \<or> lost
           \<or> wk_max_retries (pw_cfg w) \<le> retry_count t
             \<and> (\<exists>e. \<lparr>dl_task = t, dl_error = e, dl_retry_count = retry_count t, dl_dead_at = now\<rparr> \<in> set (pw_dead_letters w'))))
   \<or> (\<exists>now c key lost ds due. ev = RetryDue now c \<and> phase_of w c = RetrySleep t key lost ds due
        \<and> present (retried_task now (retry_count t + 1) t) w')
   \<or> (\<exists>now. event_time ev = Some now
        \<and> (lock_refused now t w \<and> (tp_type t = T_offload_l2 \<or> present (requeued_task now t) w'
              \<or> max_lock_requeue \<le> lock_retry_count t)
           \<or> (\<exists>p. pw_pool w = Some p \<and> pp_destroyed p)))"

text \<open>An attempt to process \<open>t\<close> that starts in \<open>w\<close>.\<close>

definition attempted :: "ms \<Rightarrow> task_payload \<Rightarrow> pipeline_worker \<Rightarrow> pipeline_worker \<Rightarrow> bool" where
  "attempted now t w w' \<longleftrightarrow> present t w'
     \<or> lock_refused now t w \<and> (tp_type t = T_offload_l2 \<or> present (requeued_task now t) w'
          \<or> max_lock_requeue \<le> lock_retry_count t)
     \<or> (\<exists>p. pw_pool w = Some p \<and> pp_destroyed p)"

lemma lock_refused_frame [simp]:
  "lock_refused now t (bump f w) = lock_refused now t w" "lock_refused now t (w\<lparr>pw_pool := p\<rparr>) = lock_refused now t w"
  by (simp_all add: lock_refused_def)

lemma acquire_by_locks:
  "lb_locks b = lb_locks b' \<Longrightarrow> fst (lb_acquire_lock k ow now ttl b) = fst (lb_acquire_lock k ow now ttl b')"
  by (auto simp: lb_acquire_lock_def Let_def split: option.split)

lemma lock_refused_backend:
  "lb_locks b = locks_of w \<Longrightarrow> lock_refused now t (w\<lparr>pw_backend := b\<rparr>) = lock_refused now t w"
  using acquire_by_locks [of b "pw_backend w"] by (simp add: lock_refused_def)

lemma keeps_process_task:
  assumes "working c w" "c < length (pw_phases w)"
  shows "keeps c w (process_task now c t w) \<and> attempted now t w (process_task now c t w)"
proof -
  have p: "keeps c w (process_permitted now c t v) \<and> attempted now t w (process_permitted now c t v)"
    if "v = w \<or> v = w\<lparr>pw_pool := p\<rparr>" for v p
  proof -
    have v: "working c v" "c < length (pw_phases v)" "lock_refused now t v = lock_refused now t w"
      "\<And>u. elsewhere c u v = elsewhere c u w" using that assms by auto
    show ?thesis
      using keeps_process_permitted [OF v(1,2), where now = now and t = t] v(3,4)
      by (auto simp: keeps_def attempted_def kept_or_requeued_def present_elsewhere [of _ _ c])
  qed
  show ?thesis
  proof (cases "pw_pool w")
    case None
    then show ?thesis using p [of w] by (simp add: process_task_def)
  next
    case (Some pool)
    obtain res pool' where a: "pp_acquire c pool = (res, pool')" by fastforce
    show ?thesis
    proof (cases res)
      case (Rejected e)
      then have "pp_destroyed pool" using a by (auto simp: pp_acquire_def split: if_splits)
      then show ?thesis using Rejected Some a assms
        by (auto simp: process_task_def attempted_def intro!: keeps_set_phase)
    next
      case Granted
      then show ?thesis using p [of "w\<lparr>pw_pool := Some pool'\<rparr>" "Some pool'"] Some a by (simp add: process_task_def)
    next
      case Queued
      let ?w = "set_phase c (AwaitPermit t) (w\<lparr>pw_pool := Some pool'\<rparr>)"
      have "carried (phase_of ?w c) = Some t" using assms(2) by (simp add: phase_of_set_phase)
      then have "attempted now t w ?w" by (auto simp: attempted_def present_elsewhere [of _ _ c])
      moreover have "keeps c w ?w" using assms by (auto intro!: keeps_set_phase)
      ultimately show ?thesis using Queued Some a by (simp add: process_task_def)
    qed
  qed
qed

definition tasks_inv :: "pipeline_worker \<Rightarrow> bool" where
  "tasks_inv w \<longleftrightarrow> waiters_ok w \<and> (pw_running w \<or> pw_destroyed w \<or> pw_phases w = [] \<and> waiters_of w = [])"

text \<open>From what happens to the other tasks and to the one that \<open>c\<close> has, to all tasks.\<close>

lemma keeps_present:
  assumes "keeps c w w'" "present t w"
    and "carried (phase_of w c) = Some t \<Longrightarrow> present t w' \<or> settles ev t w w'"
  shows "present t w' \<or> settles ev t w w'"
  using assms by (auto simp: keeps_def present_elsewhere [of _ _ c])

lemma attempted_settles:
  "event_time ev = Some now \<Longrightarrow> attempted now t w w' \<Longrightarrow> present t w' \<or> settles ev t w w'"
  by (auto simp: attempted_def settles_def)

lemma working_at: "waiters_ok w \<Longrightarrow> phase_of w c \<noteq> Waiting \<Longrightarrow> working c w"
  by (simp add: working_def)

text \<open>The flags of the worker are changed by nothing but its start and its end.\<close>

definition flags :: "pipeline_worker \<Rightarrow> bool \<times> bool" where
  "flags w = (pw_running w, pw_destroyed w)"

lemma flags_frame [simp]:
  "flags (set_phase c ph w) = flags w" "flags (bump f w) = flags w" "flags (deliver wk w) = flags w"
  "flags (on_backend g w) = flags w" "flags (w\<lparr>pw_backend := b\<rparr>) = flags w" "flags (w\<lparr>pw_pool := p\<rparr>) = flags w"
  "flags (w\<lparr>pw_active_locks := a\<rparr>) = flags w" "flags (w\<lparr>pw_running_tasks := rt\<rparr>) = flags w"
  "flags (move_to_dead_letter now t e n w) = flags w"
  by (auto simp: flags_def set_phase_def bump_def deliver_def on_backend_def move_to_dead_letter_def
      split: option.split prod.split phase.split)

lemma flags_enqueue [simp]: "flags (enqueue t w) = flags w"
  by (simp add: enqueue_def split: prod.split)

lemma flags_fold_enqueue [simp]: "flags (fold enqueue ts w) = flags w"
  by (induction ts arbitrary: w) simp_all

lemma flags_release [simp]: "flags (release_permit w) = flags w"
  by (simp add: release_permit_def split: option.split sum.split prod.split phase.split)

lemma flags_finally [simp]: "flags (finally_task c t key ds w) = flags w"
  by (simp add: finally_task_def Let_def split: option.split)

lemma flags_cascade [simp]: "flags (cascade_schedule now t r w) = flags w"
  by (simp add: cascade_schedule_def)

lemma flags_process_permitted [simp]: "flags (process_permitted now c t w) = flags w"
  by (simp add: process_permitted_def backoff_round_def lock_give_up_def start_execution_def Let_def
      split: option.split prod.split bool.split)

lemma flags_process_task [simp]: "flags (process_task now c t w) = flags w"
  by (simp add: process_task_def split: option.split prod.split acquire_result.split)

lemma flags_step: "ev \<noteq> Start \<Longrightarrow> ev \<noteq> Stop \<Longrightarrow> flags (worker_step ev w) = flags w"
  by (cases ev) (auto simp: loop_step_def wait_timeout_step_def woken_step_def permitted_step_def backoff_step_def
      backoff_round_def lock_give_up_def start_execution_def renew_step_def lose_lock_def Let_def execution_done_def
      execution_failed_def retry_step_def re_enqueue_def resume_step_def
      split: phase.split prod.split consume_result.split option.split bool.split)

lemma idle_step:
  assumes "pw_phases w = []" "waiters_of w = []" "ev \<noteq> Start" "ev \<noteq> Stop"
  shows "pw_phases (worker_step ev w) = [] \<and> waiters_of (worker_step ev w) = []"
proof -
  have "phase_of w c = Ended" for c using assms(1) by (simp add: phase_of_def)
  then show ?thesis using assms
    by (cases ev) (simp_all add: loop_step_def wait_timeout_step_def woken_step_def permitted_step_def backoff_step_def
        renew_step_def execution_done_def retry_step_def resume_step_def enqueue_def lb_enqueue_task_def deliver_def on_backend_def)
qed

lemma waiter_timeout_removes:
  assumes "distinct (map fst (lb_waiters b))"
  shows "distinct (map fst (lb_waiters (lb_waiter_timeout c b)))
    \<and> fst ` set (lb_waiters (lb_waiter_timeout c b)) \<subseteq> fst ` set (lb_waiters b) - {c}"
proof (cases "find_index (\<lambda>(v, d). v = c) (lb_waiters b)")
  case None
  then have "\<forall>vd \<in> set (lb_waiters b). fst vd \<noteq> c" by (simp add: find_index_None case_prod_beta)
  then show ?thesis using assms None by (auto simp: lb_waiter_timeout_def)
next
  case (Some i)
  let ?ws = "lb_waiters b"
  have i: "i < length ?ws" "fst (?ws ! i) = c" using find_index_Some [OF Some] by (auto simp: case_prod_beta)
  have s: "map fst ?ws = map fst (take i ?ws) @ c # map fst (drop (Suc i) ?ws)"
    using id_take_nth_drop [OF i(1)] i(2) by (metis list.simps(9) map_append)
  have "distinct (map fst (take i ?ws) @ c # map fst (drop (Suc i) ?ws))" using assms s by simp
  moreover have "fst ` set ?ws = set (map fst ?ws)" by simp
  ultimately show ?thesis using Some unfolding s by (auto simp: lb_waiter_timeout_def)
qed

text \<open>The steps of a coroutine, one by one.\<close>

definition conserves :: "worker_event \<Rightarrow> pipeline_worker \<Rightarrow> pipeline_worker \<Rightarrow> bool" where
  "conserves ev w w' \<longleftrightarrow> waiters_ok w' \<and> (\<forall>t. present t w \<longrightarrow> present t w' \<or> settles ev t w w')"

lemma conserves_refl: "waiters_ok w \<Longrightarrow> conserves ev w w"
  by (simp add: conserves_def)

lemma conserves_loop:
  assumes "waiters_ok w"
  shows "conserves (LoopTop now c) w (loop_step now c w)"
proof (cases "phase_of w c = Looping")
  case True
  have k: "working c w" "c < length (pw_phases w)" using assms True by (auto intro: working_at in_range)
  obtain res b where r: "lb_consume_task now c (Some (wk_poll (pw_cfg w))) (pw_backend w) = (res, b)" by fastforce
  have pe: "present t w \<longleftrightarrow> elsewhere c t w" for t using True by (simp add: present_elsewhere [of _ _ c])
  show ?thesis
  proof (cases "\<not> pw_running w \<or> pw_destroyed w")
    case True
    with \<open>phase_of w c = Looping\<close> k show ?thesis
      by (auto simp: conserves_def loop_step_def pe present_elsewhere [of _ "set_phase c Ended w" c] intro: waiters_set_phase)
  next
    case False
    show ?thesis
    proof (cases res)
      case (Consumed x)
      have b: "lb_waiters b = waiters_of w" "queue_of w = x # lb_queue b" "lb_locks b = locks_of w"
        using r Consumed by (auto simp: lb_consume_task_def split: list.splits option.splits if_splits)
      let ?v = "bump (\<lambda>m. m\<lparr>wm_consumed := wm_consumed m + 1\<rparr>) (w\<lparr>pw_backend := b\<rparr>)"
      have v: "working c ?v" "c < length (pw_phases ?v)" using k b(1) by (simp_all add: working_backend)
      note p = keeps_process_task [OF v, of now x]
      have a: "attempted now x w (process_task now c x ?v)"
        using p b(3) by (simp add: attempted_def lock_refused_backend)
      have "present t (process_task now c x ?v) \<or> settles (LoopTop now c) t w (process_task now c x ?v)" if "present t w" for t
      proof (cases "t = x")
        case True
        then show ?thesis using attempted_settles [OF _ a, of "LoopTop now c"] by simp
      next
        case False
        then have "elsewhere c t ?v" using that b(2) unfolding pe by (auto simp: elsewhere_def)
        then show ?thesis using p by (auto simp: keeps_def present_elsewhere [of _ _ c])
      qed
      then show ?thesis using p False \<open>phase_of w c = Looping\<close> r Consumed by (simp add: conserves_def loop_step_def keeps_def)
    next
      case NoTask
      have "b = pw_backend w" using r NoTask by (auto simp: lb_consume_task_def split: list.splits option.splits if_splits)
      then show ?thesis using False \<open>phase_of w c = Looping\<close> r NoTask assms(1) by (simp add: loop_step_def conserves_refl)
    next
      case Blocked
      have b: "lb_queue b = queue_of w" "\<exists>d. lb_waiters b = waiters_of w @ [(c, d)]"
        using r Blocked by (auto simp: lb_consume_task_def split: list.splits option.splits if_splits)
      have "c \<notin> fst ` set (waiters_of w)" using k(1) by (auto simp: working_def waiters_ok_def)
      then have "waiters_ok (set_phase c Waiting (w\<lparr>pw_backend := b\<rparr>))"
        using assms(1) b(2) k(2) by (auto simp: waiters_ok_def phase_of_set_phase)
      then show ?thesis using False \<open>phase_of w c = Looping\<close> r Blocked b(1)
        by (auto simp: conserves_def loop_step_def pe present_elsewhere [of _ "set_phase c Waiting _" c] elsewhere_backend)
    qed
  qed
next
  case False
  then have "loop_step now c w = w" by (simp add: loop_step_def split: phase.split)
  then show ?thesis using assms(1) by (simp add: conserves_refl)
qed

lemma conserves_task:
  assumes "working c v" "c < length (pw_phases v)" "event_time ev = Some now" "carried (phase_of w c) = Some t"
    and "\<And>u. elsewhere c u v = elsewhere c u w" "lock_refused now t v = lock_refused now t w" "pw_pool v = pw_pool w"
  shows "conserves ev w (process_task now c t v)"
proof -
  let ?w = "process_task now c t v"
  note p = keeps_process_task [OF assms(1,2), of now t]
  have "attempted now t w ?w" using p assms(6,7) by (simp add: attempted_def)
  note a = attempted_settles [OF assms(3) this]
  have "keeps c w ?w" using p assms(5) by (simp add: keeps_def)
  note k = keeps_present [OF this, of _ ev]
  have "present u ?w \<or> settles ev u w ?w" if "present u w" for u
    using k [OF that] a assms(4) by auto
  then show ?thesis using p by (auto simp: conserves_def keeps_def)
qed

lemma conserves_set_phase:
  assumes "working c w" "carried ph = carried (phase_of w c)" "c < length (pw_phases w)"
    and "\<And>t. elsewhere c t w \<Longrightarrow> elsewhere c t w'" "working c w'" "length (pw_phases w') = length (pw_phases w)"
  shows "conserves ev w (set_phase c ph w')"
  using assms waiters_set_phase [OF assms(5)]
  by (auto simp: conserves_def present_elsewhere [of _ _ c] phase_of_set_phase)

lemma conserves_wait_timeout:
  assumes "waiters_ok w"
  shows "conserves (WaitTimeout c) w (wait_timeout_step c w)"
proof (cases "phase_of w c = Waiting")
  case True
  let ?b = "lb_waiter_timeout c (pw_backend w)"
  have q: "lb_queue ?b = queue_of w" by (simp add: lb_waiter_timeout_def split: option.split)
  have ws: "distinct (map fst (lb_waiters ?b)) \<and> fst ` set (lb_waiters ?b) \<subseteq> fst ` set (waiters_of w) - {c}"
    using assms waiter_timeout_removes [of "pw_backend w" c] by (simp add: waiters_ok_def)
  moreover have "\<forall>v \<in> fst ` set (lb_waiters ?b). phase_of w v = Waiting \<and> v \<noteq> c"
    using assms ws unfolding waiters_ok_def by blast
  ultimately have "waiters_ok (set_phase c (Woken None) (on_backend (lb_waiter_timeout c) w))"
    by (simp add: waiters_ok_def phase_of_set_phase)
  moreover have "present t w \<longleftrightarrow> present t (set_phase c (Woken None) (on_backend (lb_waiter_timeout c) w))" for t
    using True q by (auto simp: present_elsewhere [of _ _ c] phase_of_set_phase elsewhere_def)
  ultimately show ?thesis using True by (simp add: wait_timeout_step_def conserves_def)
next
  case False
  then have "wait_timeout_step c w = w" by (simp add: wait_timeout_step_def split: phase.split)
  then show ?thesis using assms by (simp add: conserves_refl)
qed

lemma conserves_woken:
  assumes "waiters_ok w"
  shows "conserves (WokenUp now c) w (woken_step now c w)"
proof (cases "phase_of w c")
  case (Woken x)
  have k: "working c w" "c < length (pw_phases w)" using assms Woken by (auto intro: working_at in_range)
  show ?thesis
  proof (cases x)
    case None
    then show ?thesis using Woken k by (simp add: woken_step_def conserves_set_phase)
  next
    case (Some t)
    then show ?thesis using Woken k by (simp add: woken_step_def) (rule conserves_task, simp_all)
  qed
qed (use assms in \<open>simp_all add: woken_step_def conserves_refl\<close>)

lemma conserves_permitted:
  assumes "waiters_ok w"
  shows "conserves (PermitGranted now c) w (permitted_step now c w)"
proof (cases "phase_of w c")
  case (Permitted t)
  have k: "working c w" "c < length (pw_phases w)" using assms Permitted by (auto intro: working_at in_range)
  note p = keeps_process_permitted [OF k, where now = now and t = t]
  let ?w = "process_permitted now c t w"
  have "attempted now t w ?w" using p(2)
    by (auto simp: attempted_def kept_or_requeued_def present_elsewhere [of _ _ c])
  from attempted_settles [OF _ this, of "PermitGranted now c"]
  have "present u ?w \<or> settles (PermitGranted now c) u w ?w" if "present u w" for u
    using keeps_present [OF p(1) that] Permitted by auto
  then show ?thesis using p(1) Permitted by (simp add: conserves_def keeps_def permitted_step_def)
qed (use assms in \<open>simp_all add: permitted_step_def conserves_refl\<close>)

lemma conserves_backoff:
  assumes "waiters_ok w" "keys_ok w"
  shows "conserves (BackoffOver now c) w (backoff_step now c w)"
proof (cases "phase_of w c")
  case (Backoff t k deadline delay)
  have k: "working c w" "c < length (pw_phases w)" using assms Backoff by (auto intro: working_at in_range)
  have key: "get_lock_key (pw_cfg w) t = Some k" using keys_phase [OF assms(2), of c] Backoff by simp
  obtain got b where g: "lb_acquire_lock k (wk_id (pw_cfg w)) now (wk_lock_ttl (pw_cfg w)) (pw_backend w) = (got, b)"
    by fastforce
  let ?v = "w\<lparr>pw_backend := b\<rparr>"
  have v: "working c ?v" "c < length (pw_phases ?v)" "elsewhere c u ?v = elsewhere c u w" for u
    using acquire_frame [OF g] k by (simp_all add: working_backend elsewhere_backend)
  show ?thesis
  proof (cases got)
    case True
    note e = keeps_start_execution [OF v(1,2), of t "Some k"]
    have "keeps c w (start_execution c t (Some k) ?v)" using e(1) v(3) by (simp add: keeps_def)
    from keeps_present [OF this] e show ?thesis using Backoff g True
      by (auto simp: conserves_def backoff_step_def keeps_def present_elsewhere [of _ _ c])
  next
    case False
    note r = keeps_backoff_round [OF v(1,2), where now = now and t = t and k = k and deadline = deadline
        and delay = "min (delay * 3) 5000"]
    let ?w = "backoff_round now c t k deadline (min (delay * 3) 5000) ?v"
    have kw: "keeps c w ?w" using r(1) v(3) by (simp add: keeps_def)
    have "lock_refused now t w" using key g False by (simp add: lock_refused_def)
    then have "attempted now t w ?w" using r(2)
      by (auto simp: attempted_def kept_or_requeued_def present_elsewhere [of _ _ c])
    from attempted_settles [OF _ this, of "BackoffOver now c"]
    have "present u ?w \<or> settles (BackoffOver now c) u w ?w" if "present u w" for u
      using keeps_present [OF kw that] Backoff by auto
    then show ?thesis using kw Backoff g False by (simp add: conserves_def keeps_def backoff_step_def)
  qed
qed (use assms in \<open>simp_all add: backoff_step_def conserves_refl\<close>)

lemma conserves_renew:
  assumes "waiters_ok w"
  shows "conserves (RenewTick now c) w (renew_step now c w)"
proof -
  have r: "conserves ev w (case lb_renew_lock k (wk_id (pw_cfg w)) now ttl (pw_backend w) of
              (True, b) \<Rightarrow> w\<lparr>pw_backend := b\<rparr> | (False, b) \<Rightarrow> lose_lock c ph (w\<lparr>pw_backend := b\<rparr>))"
    if "phase_of w c \<noteq> Waiting" "phase_of w c \<noteq> Ended" "carried ph = carried (phase_of w c)" for ev k ph ttl
  proof -
    obtain got b where g: "lb_renew_lock k (wk_id (pw_cfg w)) now ttl (pw_backend w) = (got, b)" by fastforce
    have b: "lb_queue b = queue_of w" "lb_waiters b = waiters_of w"
      using lock_ops_frame(3,4) [of k "wk_id (pw_cfg w)" now ttl "pw_backend w"] g by simp_all
    have c: "working c w" "c < length (pw_phases w)" using that assms by (auto intro: working_at in_range)
    have "conserves ev w (w\<lparr>pw_backend := b\<rparr>)"
      using assms b by (simp add: conserves_def waiters_ok_def present_def)
    moreover have "conserves ev w (lose_lock c ph (w\<lparr>pw_backend := b\<rparr>))"
      unfolding lose_lock_def using c that(3) b
      by (intro conserves_set_phase) (simp_all add: working_backend elsewhere_backend)
    ultimately show ?thesis using g by (cases got) simp_all
  qed
  show ?thesis using r conserves_refl [OF assms]
    by (auto simp: renew_step_def Let_def split: phase.split option.split bool.split)
qed

lemma dead_letters_finally [simp]: "pw_dead_letters (finally_task c t key ds w) = pw_dead_letters w"
proof -
  have "pw_dead_letters (fold enqueue ds v) = pw_dead_letters v" for v by (induction ds arbitrary: v) simp_all
  moreover have "pw_dead_letters (release_permit v) = pw_dead_letters v" for v
    by (simp add: release_permit_def split: option.split sum.split prod.split phase.split)
  ultimately show ?thesis by (simp add: finally_task_def Let_def split: option.split)
qed

lemma dead_letters_move [simp]:
  "pw_dead_letters (move_to_dead_letter now t e n w)
   = pw_dead_letters w @ [\<lparr>dl_task = t, dl_error = e, dl_retry_count = n, dl_dead_at = now\<rparr>]"
  by (simp add: move_to_dead_letter_def)

lemma cascade_keeps:
  assumes "working c w" "hooks_ok (pw_cfg w)"
  shows "working c (cascade_schedule now t r w)" "elsewhere c u w \<Longrightarrow> elsewhere c u (cascade_schedule now t r w)"
proof -
  have b: "working c (on_backend f v) = working c v" "elsewhere c u (on_backend f v) = elsewhere c u v"
    if "lb_queue (f (pw_backend v)) = queue_of v" "lb_waiters (f (pw_backend v)) = waiters_of v" for f v u
    using that by (simp_all add: on_backend_def working_backend elsewhere_backend)
  show "working c (cascade_schedule now t r w)" "elsewhere c u w \<Longrightarrow> elsewhere c u (cascade_schedule now t r w)"
    using assms enqueue_keeps [OF assms(1)] by (simp_all add: cascade_schedule_def b cascade_frame)
qed

lemma conserves_finally:
  assumes "working c w" "carried (phase_of w c) = Some t" "working c v"
    and "\<And>u. elsewhere c u w \<Longrightarrow> elsewhere c u v" "settles ev t w (finally_task c t key ds v)"
  shows "conserves ev w (finally_task c t key ds v)"
proof -
  note k = keeps_finally [OF assms(3), of t key ds]
  then have kw: "keeps c w (finally_task c t key ds v)" using assms(4) by (simp add: keeps_def)
  have "present u (finally_task c t key ds v) \<or> settles ev u w (finally_task c t key ds v)" if "present u w" for u
    using keeps_present [OF kw that] assms(2,5) by auto
  then show ?thesis using kw by (simp add: conserves_def keeps_def)
qed

lemma conserves_execution_done:
  assumes "waiters_ok w" "hooks_ok (pw_cfg w)"
  shows "conserves (ExecutionDone now c r) w (execution_done now c r w)"
proof (cases "phase_of w c")
  case (Executing t key lost)
  have k: "working c w" "c < length (pw_phases w)" using assms Executing by (auto intro: working_at in_range)
  have c: "carried (phase_of w c) = Some t" using Executing by simp
  let ?ev = "ExecutionDone now c r"
  show ?thesis
  proof (cases "ex_error r")
    case None
    have "settles ?ev t w w'" for w' using Executing None by (auto simp: settles_def)
    note f = conserves_finally [OF k(1) c _ _ this]
    have "conserves ?ev w (finally_task c t key ds (bump g w))" for ds g using k by (intro f) simp_all
    moreover have "conserves ?ev w (finally_task c t key ds (cascade_schedule now t r (bump g w)))" for ds g
      using k assms(2) cascade_keeps [of c "bump g w"] by (intro f) simp_all
    ultimately show ?thesis using Executing None by (auto simp: execution_done_def Let_def)
  next
    case (Some err)
    let ?v = "bump (\<lambda>m. m\<lparr>wm_failed := wm_failed m + 1\<rparr>) w"
    have "conserves ?ev w (finally_task c t key ds ?v)" if lost for ds
      using that Executing k by (intro conserves_finally [OF k(1) c]) (auto simp: settles_def)
    moreover have "conserves ?ev w (set_phase c (RetrySleep t key False ds due) ?v)" for ds due
      using k c by (intro conserves_set_phase) simp_all
    moreover have "conserves ?ev w (finally_task c t key ds (move_to_dead_letter now t err (retry_count t) ?v))"
      if "wk_max_retries (pw_cfg w) \<le> retry_count t" for ds
      using that Executing Some k by (intro conserves_finally [OF k(1) c]) (auto simp: settles_def)
    ultimately show ?thesis using Executing Some by (auto simp: execution_done_def execution_failed_def Let_def)
  qed
qed (use assms in \<open>simp_all add: execution_done_def conserves_refl\<close>)

lemma conserves_retry:
  assumes "waiters_ok w"
  shows "conserves (RetryDue now c) w (retry_step now c w)"
proof (cases "phase_of w c")
  case (RetrySleep t key lost ds due)
  have k: "working c w" "c < length (pw_phases w)" using assms RetrySleep by (auto intro: working_at in_range)
  have c: "carried (phase_of w c) = Some t" using RetrySleep by simp
  let ?u = "retried_task now (retry_count t + 1) t"
  let ?v = "bump (\<lambda>m. m\<lparr>wm_retried := wm_retried m + 1\<rparr>) (re_enqueue now t (retry_count t + 1) w)"
  have v: "working c ?v" "elsewhere c u w \<or> u = ?u \<Longrightarrow> elsewhere c u ?v" for u
    using enqueue_keeps [OF k(1)] by (simp_all add: re_enqueue_def)
  have "elsewhere c ?u (finally_task c t key ds ?v)" by (rule elsewhere_finally [OF v(1)], rule v(2)) (rule disjI2, rule refl)
  then have "present ?u (finally_task c t key ds ?v)" by (simp add: present_elsewhere [of _ _ c])
  then have "settles (RetryDue now c) t w (finally_task c t key ds ?v)" using RetrySleep by (auto simp: settles_def)
  then have "conserves (RetryDue now c) w (finally_task c t key ds ?v)"
    using v by (intro conserves_finally [OF k(1) c]) auto
  then show ?thesis using RetrySleep by (simp add: retry_step_def)
qed (use assms in \<open>simp_all add: retry_step_def conserves_refl\<close>)

lemma conserves_step:
  assumes "tasks_inv w" "keys_ok w" "hooks_ok (pw_cfg w)"
  shows "conserves ev w (worker_step ev w)"
proof (cases ev)
  case Start
  have "waiters_of w = [] \<and> pw_phases w = []" if "\<not> (pw_destroyed w \<or> pw_running w)"
    using assms(1) that by (auto simp: tasks_inv_def)
  then show ?thesis using assms(1) Start conserves_refl [of w]
    by (auto simp: worker_start_def tasks_inv_def conserves_def waiters_ok_def present_def)
next
  case Stop
  have "lb_queue (fold (\<lambda>k b. lb_release_lock k x b) ks b) = lb_queue b \<and>
        lb_waiters (fold (\<lambda>k b. lb_release_lock k x b) ks b) = lb_waiters b" for ks x b
    by (induction ks arbitrary: b) simp_all
  then have "queue_of (worker_stop w) = queue_of w" "waiters_of (worker_stop w) = waiters_of w"
    "pw_phases (worker_stop w) = pw_phases w" "phase_of (worker_stop w) c = phase_of w c" for c
    by (simp_all add: worker_stop_def phase_of_def)
  then show ?thesis using assms(1) Stop by (simp add: tasks_inv_def conserves_def waiters_ok_def present_def)
next
  case (OutsideTask t)
  let ?c = "length (pw_phases w)"
  have c: "phase_of w ?c = Ended" by (simp add: phase_of_def)
  then have "working ?c w" using assms(1) by (simp add: working_def tasks_inv_def)
  note e = enqueue_keeps [OF this]
  have "present u (enqueue t w)" if "present u w" for u
    using that e(2) [of u t] c by (simp add: present_elsewhere [of _ _ ?c])
  then show ?thesis using e(1) [of t] OutsideTask by (simp add: conserves_def working_def)
next
  case (ResumeLoop c)
  have "waiters_ok w" using assms(1) by (simp add: tasks_inv_def)
  then show ?thesis unfolding ResumeLoop
    by (auto simp: resume_step_def conserves_refl intro!: conserves_set_phase working_at in_range split: phase.split)
next
  case (OutsideLock now k ow ttl)
  show ?thesis using assms(1) unfolding OutsideLock
    by (simp add: tasks_inv_def conserves_def waiters_ok_def present_iff)
next
  case (OutsideUnlock k ow)
  show ?thesis using assms(1) unfolding OutsideUnlock
    by (simp add: tasks_inv_def conserves_def waiters_ok_def present_iff)
qed (use assms in \<open>simp_all add: tasks_inv_def conserves_loop conserves_wait_timeout conserves_woken conserves_permitted
    conserves_backoff conserves_renew conserves_execution_done conserves_retry\<close>)

lemma tasks_inv_step:
  assumes "tasks_inv w" "keys_ok w" "hooks_ok (pw_cfg w)"
  shows "tasks_inv (worker_step ev w)"
proof -
  have "waiters_ok (worker_step ev w)" using conserves_step [OF assms] by (simp add: conserves_def)
  moreover consider "ev = Start" | "ev = Stop" | "ev \<noteq> Start" "ev \<noteq> Stop" by blast
  then have "pw_running (worker_step ev w) \<or> pw_destroyed (worker_step ev w)
      \<or> pw_phases (worker_step ev w) = [] \<and> waiters_of (worker_step ev w) = []"
  proof cases
    case 3
    then show ?thesis
      using assms(1) flags_step [OF 3, of w] idle_step [OF _ _ 3, of w] by (auto simp: tasks_inv_def flags_def)
  qed (auto simp: worker_start_def worker_stop_def)
  ultimately show ?thesis by (simp add: tasks_inv_def)
qed

lemma tasks_inv_run:
  "tasks_inv w \<Longrightarrow> keys_ok w \<Longrightarrow> hooks_ok (pw_cfg w) \<Longrightarrow> tasks_inv (worker_run evs w)"
  by (induction evs arbitrary: w) (simp_all add: worker_run_def tasks_inv_step keys_step)

lemma new_worker_ok [simp]:
  "tasks_inv (new_worker cfg pool (new_backend cb))" "keys_ok (new_worker cfg pool (new_backend cb))"
  "pw_cfg (new_worker cfg pool b) = cfg" "excl (new_worker cfg pool (new_backend cb))"
  by (simp_all add: tasks_inv_def keys_ok_def new_worker_def waiters_ok_def new_backend_def excl_def exclusive_def held_def)

end
