(* ===== verification/Worker_Properties.thy ===== *)
theory Worker_Properties
  imports Worker_Tasks
begin

text \<open>
  The properties of the pipeline worker over runs of its events: exclusion of tasks that share a
  lock, the fate of every task, the bound on the attempts at a failing task, and what its locks,
  its dead letters and its cascade do not guarantee.
\<close>

section \<open>A demonstration worker\<close>

definition demo_worker_config :: worker_config where
  "demo_worker_config = \<lparr>wk_id = ''w'', wk_concurrency = 2, wk_poll = 200, wk_lock_ttl = 600,
     wk_max_retries = 3, wk_retry_base = 5, wk_instance_locks = False,
     wk_on_l1_complete = Some (\<lambda>now k i t a b. advance_l2_timer_after_l1 now k i t a (demo_stateful ''d'') b),
     wk_on_l2_complete = Some (\<lambda>now k i t a b. sp_arm_l2_max_interval now k i t a (demo_stateful ''d'') b)\<rparr>"

lemma demo_hooks: "hooks_ok demo_worker_config"
  by (simp add: hooks_ok_def demo_worker_config_def advance_hook.stage_hook_axioms max_interval_hook.stage_hook_axioms)

definition demo_session_task :: "task_type \<Rightarrow> ms \<Rightarrow> task_payload" where
  "demo_session_task ty now = session_task ''t'' ty now ''d'' ''s'' None None"

definition demo_worker :: "pipeline_worker" where
  "demo_worker = new_worker demo_worker_config None (new_backend False)"

definition exec_ok :: exec_result where
  "exec_ok = \<lparr>ex_error = None, ex_l2_scopes = None, ex_l2_skipped = False, ex_deferred = []\<rparr>"

definition exec_fails :: "string \<Rightarrow> exec_result" where
  "exec_fails e = \<lparr>ex_error = Some e, ex_l2_scopes = None, ex_l2_skipped = False, ex_deferred = []\<rparr>"

section \<open>Properties\<close>

fun running_task :: "phase \<Rightarrow> task_payload option" where
  "running_task (Executing t key lost) = Some t"
| "running_task (RetrySleep t key lost ds due) = Some t"
| "running_task ph = None"

lemma running_key:
  "keys_ok w \<Longrightarrow> running_task (phase_of w c) = Some t \<Longrightarrow> held_key (phase_of w c) = get_lock_key (pw_cfg w) t"
  using keys_phase [of w c] by (cases "phase_of w c") auto

lemma finally_no_deferred:
  "lb_timers (pw_backend (finally_task c t key [] w)) = lb_timers (pw_backend w)"
  "lb_queue (pw_backend (finally_task c t key [] w)) = lb_queue (pw_backend w)"
  "c < length (pw_phases w) \<Longrightarrow> phase_of (finally_task c t key [] w) c = Looping"
proof -
  have "length (pw_phases (release_permit v)) = length (pw_phases v)" for v
    by (simp add: release_permit_def split: option.split sum.split prod.split phase.split)
  then show "c < length (pw_phases w) \<Longrightarrow> phase_of (finally_task c t key [] w) c = Looping"
    by (cases key) (simp_all add: finally_task_def Let_def phase_of_set_phase)
  have "lb_timers (lb_release_lock k ow b) = lb_timers b" for k ow b
    by (simp add: lb_release_lock_def split: option.split)
  then show "lb_timers (pw_backend (finally_task c t key [] w)) = lb_timers (pw_backend w)"
    "lb_queue (pw_backend (finally_task c t key [] w)) = lb_queue (pw_backend w)"
    by (simp_all add: finally_task_def Let_def split: option.split)
qed

text \<open>
  C2: two tasks that need the same lock never run at the same time. In every run of the worker, of
  the producers of tasks and of other users of the locks, as long as the renewal keeps up (no held
  lock has expired when a lock is asked for) and the worker is not stopped, two coroutines that
  execute tasks with the same lock key are the same coroutine: tasks of the second and third stage
  of one agent, of the first stage of one session, of one offload file.
\<close>

theorem tasks_with_one_lock_exclude:
  assumes "hooks_ok cfg" "timely_run evs (new_worker cfg pool (new_backend cb))"
    and "w = worker_run evs (new_worker cfg pool (new_backend cb))"
    and "running_task (phase_of w c) = Some t" "running_task (phase_of w d) = Some u"
    and "get_lock_key cfg t = Some k" "get_lock_key cfg u = Some k"
  shows "c = d"
proof -
  have w: "excl w" "keys_ok w" "pw_cfg w = cfg"
    using assms(1-3) excl_run [of "new_worker cfg pool (new_backend cb)" evs]
      keys_run [of "new_worker cfg pool (new_backend cb)" evs] by simp_all
  have h: "held_key (phase_of w c) = Some k" "held_key (phase_of w d) = Some k"
    using running_key [OF w(2)] assms(4-7) w(3) by metis+
  then have l: "c < length (pw_phases w)" "d < length (pw_phases w)" by (auto intro: in_range)
  then show ?thesis
    using exclusive_unique [OF w(1) [unfolded excl_def], of c d k] h by (simp add: phase_of_held)
qed

definition exclusion_demo :: "worker_event list" where
  "exclusion_demo = [Start, OutsideTask (demo_session_task T_L2 1), OutsideTask (demo_session_task T_L3 2),
     LoopTop 3 0, LoopTop 4 1, RenewTick 5 0]"

theorem tasks_with_one_lock_exclude_witness:
  "running_task (phase_of (worker_run exclusion_demo demo_worker) 1) \<noteq> Some (demo_session_task T_L3 2)"
proof
  have t: "timely_run exclusion_demo demo_worker" by code_simp
  have r: "running_task (phase_of (worker_run exclusion_demo demo_worker) 0) = Some (demo_session_task T_L2 1)" by code_simp
  have k: "get_lock_key demo_worker_config (demo_session_task T_L2 1) = Some ''pipeline:{d:_:_}''"
    "get_lock_key demo_worker_config (demo_session_task T_L3 2) = Some ''pipeline:{d:_:_}''" by code_simp+
  assume "running_task (phase_of (worker_run exclusion_demo demo_worker) 1) = Some (demo_session_task T_L3 2)"
  from tasks_with_one_lock_exclude [OF demo_hooks t [unfolded demo_worker_def] refl r [unfolded demo_worker_def]
      this [unfolded demo_worker_def] k] show False by simp
qed

text \<open>
  C3: no task is lost. After any run, a task that is queued or in the hands of a coroutine is still
  queued or in some coroutine's hands after the next step, whatever it is, unless that step settles
  it: the executor has ended (with success, or with an error when the lock is lost or the retries
  are used up, and then the task is a dead letter), its retry is queued, it was refused its lock
  (and it is an offload update that is made again anyway, or its copy is queued, or it has been
  requeued 15 times), or the permit pool has been destroyed.
\<close>

theorem tasks_leave_worker_settled:
  assumes "hooks_ok cfg" "w = worker_run evs (new_worker cfg pool (new_backend cb))" "present t w"
  shows "present t (worker_step ev w) \<or> settles ev t w (worker_step ev w)"
proof -
  have "tasks_inv w" "keys_ok w" "hooks_ok (pw_cfg w)"
    using assms(1,2) tasks_inv_run [of "new_worker cfg pool (new_backend cb)" evs]
      keys_run [of "new_worker cfg pool (new_backend cb)" evs] by simp_all
  from conserves_step [OF this, of ev] show ?thesis using assms(3) by (simp add: conserves_def)
qed

theorem tasks_leave_worker_settled_witness:
  "present (demo_session_task T_L3 2) (worker_step (LoopTop 6 0) (worker_run exclusion_demo demo_worker))
   \<or> settles (LoopTop 6 0) (demo_session_task T_L3 2) (worker_run exclusion_demo demo_worker)
       (worker_step (LoopTop 6 0) (worker_run exclusion_demo demo_worker))"
proof -
  have "present (demo_session_task T_L3 2) (worker_run exclusion_demo demo_worker)" by code_simp
  then show ?thesis unfolding demo_worker_def by (rule tasks_leave_worker_settled [OF demo_hooks refl])
qed

text \<open>
  within one process a lost lock goes unnoticed. The locks name the worker, not the coroutine:
  when the lock of a running task has expired and another coroutine of the same worker takes it,
  the renewal of either coroutine succeeds, so both tasks run to their end, neither is aborted, and
  the one that ends first releases the lock of the other.
\<close>

theorem expired_lock_shared_unnoticed:
  assumes "phase_of w c = Executing t (Some k) False" "phase_of w d = Backoff u k deadline delay"
    and "map_of (locks_of w) k = Some (wk_id (pw_cfg w), e)" "e \<le> now" "distinct (jkeys (locks_of w))"
    and "w1 = worker_run [BackoffOver now d, RenewTick now1 c, RenewTick now2 d] w"
  shows "phase_of w1 c = Executing t (Some k) False \<and> phase_of w1 d = Executing u (Some k) False
    \<and> map_of (locks_of (finally_task c t (Some k) ds w1)) k = None"
proof -
  let ?me = "wk_id (pw_cfg w)" and ?ttl = "wk_lock_ttl (pw_cfg w)"
  have cd: "c \<noteq> d" using assms(1,2) by auto
  have l: "c < length (pw_phases w)" "d < length (pw_phases w)" using assms(1,2) by (auto intro: in_range)
  obtain b where a: "lb_acquire_lock k ?me now ?ttl (pw_backend w) = (True, b)"
    and b: "map_of (lb_locks b) k = Some (?me, now + ?ttl)"
    using assms(3-5) by (auto simp: lb_acquire_lock_def Let_def lt_clean_get simp del: map_of_eq_Some_iff)
  have renew: "\<exists>b'. lb_renew_lock k ?me n ?ttl b = (True, b') \<and> map_of (lb_locks b') k = Some (?me, n + ?ttl)"
    if "map_of (lb_locks b) k = Some (?me, x)" for n x b
    using that by (auto simp: lb_renew_lock_def)
  obtain b1 where b1: "lb_renew_lock k ?me now1 ?ttl b = (True, b1)" "map_of (lb_locks b1) k = Some (?me, now1 + ?ttl)"
    using renew [OF b] by blast
  obtain b2 where b2: "lb_renew_lock k ?me now2 ?ttl b1 = (True, b2)" "map_of (lb_locks b2) k = Some (?me, now2 + ?ttl)"
    using renew [OF b1(2)] by blast
  let ?w0 = "start_execution d u (Some k) (w\<lparr>pw_backend := b\<rparr>)"
  have p0: "phase_of ?w0 c = Executing t (Some k) False" "phase_of ?w0 d = Executing u (Some k) False"
    using assms(1) cd l by (auto simp: start_execution_def phase_of_set_phase)
  have w1: "w1 = ?w0\<lparr>pw_backend := b2\<rparr>"
    unfolding assms(6) using assms(1,2) a p0 b1(1) b2(1)
    by (simp add: worker_run_def backoff_step_def renew_step_def Let_def)
  then have p1: "phase_of w1 c = Executing t (Some k) False" "phase_of w1 d = Executing u (Some k) False" using p0 by simp_all
  moreover have "pw_cfg w1 = pw_cfg w" "pw_backend w1 = b2" using w1 by simp_all
  then have "map_of (locks_of (finally_task c t (Some k) ds w1)) k = None"
    using b2(2) by (simp add: finally_task_frame lb_release_lock_def)
  ultimately show ?thesis by blast
qed

definition expiry_demo :: "worker_event list" where
  "expiry_demo = [Start, OutsideTask (demo_session_task T_L2 1), OutsideTask (demo_session_task T_L3 2),
     LoopTop 3 0, LoopTop 4 1]"

theorem expired_lock_shared_unnoticed_witness:
  "phase_of (worker_run [BackoffOver 700 1, RenewTick 701 0, RenewTick 702 1] (worker_run expiry_demo demo_worker)) 0
     = Executing (demo_session_task T_L2 1) (Some ''pipeline:{d:_:_}'') False"
proof -
  let ?w = "worker_run expiry_demo demo_worker"
  have p: "phase_of ?w 0 = Executing (demo_session_task T_L2 1) (Some ''pipeline:{d:_:_}'') False"
    "phase_of ?w 1 = Backoff (demo_session_task T_L3 2) ''pipeline:{d:_:_}'' 604 200"
    "map_of (locks_of ?w) ''pipeline:{d:_:_}'' = Some (wk_id (pw_cfg ?w), 603)" "(603::ms) \<le> 700"
    "distinct (jkeys (locks_of ?w))"
    by code_simp+
  from expired_lock_shared_unnoticed [OF p refl] show ?thesis by blast
qed

text \<open>
  a dead letter leaves its timers armed. When a task has used up its retries it is appended to
  the dead letters and its lock is released, but no timer changes: the comment promises the
  removal of the session's idle and second-stage timers \<open>to prevent ghost triggers\<close>, the call is to
  a function that the file does not import.
\<close>

theorem dead_letter_keeps_timers:
  assumes "phase_of w c = Executing t key False" "wk_max_retries (pw_cfg w) \<le> retry_count t"
    and "ex_error r = Some err" "ex_deferred r = []" "w' = worker_step (ExecutionDone now c r) w"
  shows "pw_dead_letters w' = pw_dead_letters w
      @ [\<lparr>dl_task = t, dl_error = err, dl_retry_count = retry_count t, dl_dead_at = now\<rparr>]
    \<and> phase_of w' c = Looping
    \<and> lb_timers (pw_backend w') = lb_timers (pw_backend w)"
proof -
  have l: "c < length (pw_phases w)" using assms(1) by (auto intro: in_range)
  have w': "w' = finally_task c t key [] (move_to_dead_letter now t err (retry_count t)
      (bump (\<lambda>m. m\<lparr>wm_failed := wm_failed m + 1\<rparr>) w))"
    using assms by (simp add: execution_done_def execution_failed_def Let_def)
  show ?thesis using l unfolding w' by (simp add: finally_no_deferred)
qed

theorem dead_letter_keeps_timers_witness:
  "let w = new_worker demo_worker_config None (new_backend False);
       w1 = start_execution 0 (retried_task 5 3 (demo_session_task T_L1 1)) None (w\<lparr>pw_phases := [Looping]\<rparr>)
   in length (pw_dead_letters (worker_step (ExecutionDone 9 0 (exec_fails ''e'')) w1)) = 1"
proof -
  let ?w = "start_execution 0 (retried_task 5 3 (demo_session_task T_L1 1)) None
      (new_worker demo_worker_config None (new_backend False)\<lparr>pw_phases := [Looping]\<rparr>)"
  have p: "phase_of ?w 0 = Executing (retried_task 5 3 (demo_session_task T_L1 1)) None False"
    "wk_max_retries (pw_cfg ?w) \<le> retry_count (retried_task 5 3 (demo_session_task T_L1 1))"
    "ex_error (exec_fails ''e'') = Some ''e''" "ex_deferred (exec_fails ''e'') = []" "pw_dead_letters ?w = []"
    by code_simp+
  from dead_letter_keeps_timers [OF p(1-4) refl, of 9] p(5) show ?thesis by simp
qed

text \<open>
  the third stage inherits the attempts of the second. The L3 task that a successful L2 task
  queues copies the data of the L2 task, its retry count included; when the L2 task needed its last
  retry, the first failure of the L3 task makes it a dead letter: it is never retried.
\<close>

theorem l3_inherits_retries:
  assumes "tp_type t = T_L2" "tp_data t \<noteq> None" "wk_max_retries (pw_cfg w) \<le> retry_count t"
    and "phase_of w c = Executing (l3_task now t) key False" "w' = worker_step (ExecutionDone now' c (exec_fails err)) w"
  shows "tp_type (l3_task now t) = T_L3 \<and> retry_count (l3_task now t) = retry_count t
    \<and> lock_retry_count (l3_task now t) = lock_retry_count t
    \<and> pw_dead_letters w' = pw_dead_letters w
        @ [\<lparr>dl_task = l3_task now t, dl_error = err, dl_retry_count = retry_count t, dl_dead_at = now'\<rparr>]
    \<and> lb_queue (pw_backend w') = lb_queue (pw_backend w)"
proof -
  have r: "retry_count (l3_task now t) = retry_count t" "lock_retry_count (l3_task now t) = lock_retry_count t"
    "tp_type (l3_task now t) = T_L3"
    using assms(2) by (auto simp: l3_task_def retry_count_def lock_retry_count_def data_field_def)
  have w': "w' = finally_task c (l3_task now t) key [] (move_to_dead_letter now' (l3_task now t) err (retry_count t)
      (bump (\<lambda>m. m\<lparr>wm_failed := wm_failed m + 1\<rparr>) w))"
    using assms(3-5) r by (simp add: execution_done_def execution_failed_def Let_def exec_fails_def)
  show ?thesis using r unfolding w' by (simp add: finally_no_deferred)
qed

theorem l3_inherits_retries_witness:
  "let t = retried_task 5 3 (demo_session_task T_L2 1);
       w = start_execution 0 (l3_task 7 t) None (new_worker demo_worker_config None (new_backend False)\<lparr>pw_phases := [Looping]\<rparr>)
   in length (pw_dead_letters (worker_step (ExecutionDone 9 0 (exec_fails ''e'')) w)) = 1"
proof -
  let ?t = "retried_task 5 3 (demo_session_task T_L2 1)"
  let ?w = "start_execution 0 (l3_task 7 ?t) None (new_worker demo_worker_config None (new_backend False)\<lparr>pw_phases := [Looping]\<rparr>)"
  have p: "tp_type ?t = T_L2" "tp_data ?t \<noteq> None" "wk_max_retries (pw_cfg ?w) \<le> retry_count ?t"
    "phase_of ?w 0 = Executing (l3_task 7 ?t) None False" "pw_dead_letters ?w = []"
    by code_simp+
  from l3_inherits_retries [OF p(1-4) refl, of 9 "''e''"] p(5) show ?thesis by simp
qed

section \<open>A task that always fails\<close>

text \<open>The worker has one coroutine, and \<open>t\<close> is its only task; nobody holds the lock of \<open>t\<close>.\<close>

definition alone_with :: "task_payload \<Rightarrow> pipeline_worker \<Rightarrow> bool" where
  "alone_with t w \<longleftrightarrow> pw_phases w = [Looping] \<and> pw_running w \<and> \<not> pw_destroyed w \<and> pw_pool w = None
     \<and> queue_of w = [t] \<and> waiters_of w = [] \<and> distinct (jkeys (locks_of w))
     \<and> (case get_lock_key (pw_cfg w) t of None \<Rightarrow> True | Some k \<Rightarrow> map_of (locks_of w) k = None)"

definition failed_attempt :: "string \<Rightarrow> ms \<Rightarrow> worker_event list" where
  "failed_attempt err now = [LoopTop now 0, ExecutionDone now 0 (exec_fails err), RetryDue now 0]"

lemma retried_fields [simp]:
  "tp_type (retried_task now n t) = tp_type t" "tp_session (retried_task now n t) = tp_session t"
  "tp_instance (retried_task now n t) = tp_instance t" "retry_count (retried_task now n t) = n"
  by (simp_all add: retried_task_def retry_count_def data_field_def data_with_def patch_or_def)

lemma retried_scope [simp]:
  "tp_team (retried_task now n t) = tp_team t" "tp_agent (retried_task now n t) = tp_agent t"
  "data_field dt_team (retried_task now n t) = data_field dt_team t"
  "data_field dt_agent (retried_task now n t) = data_field dt_agent t"
  "data_field dt_mmd_file (retried_task now n t) = data_field dt_mmd_file t"
  by (cases "tp_data t"; simp add: retried_task_def data_field_def data_with_def)+

lemma lock_key_retried [simp]: "get_lock_key cfg (retried_task now n t) = get_lock_key cfg t"
  by (simp add: get_lock_key_def lock_scope_def Let_def)

text \<open>The coroutine takes the task and its lock, and the executor fails: the state just before the outcome.\<close>

lemma start_alone:
  fixes now :: ms
  assumes "alone_with t w"
  defines "v \<equiv> worker_step (LoopTop now 0) w"
  shows "pw_phases v = [Executing t (get_lock_key (pw_cfg w) t) False]" "queue_of v = []" "waiters_of v = []"
    "pw_cfg v = pw_cfg w" "pw_running v" "\<not> pw_destroyed v" "pw_pool v = None" "pw_dead_letters v = pw_dead_letters w"
    "wm_failed (pw_metrics v) = wm_failed (pw_metrics w)" "wm_retried (pw_metrics v) = wm_retried (pw_metrics w)"
    "distinct (jkeys (locks_of v))"
    "pred_option (\<lambda>k. map_of (locks_of v) k = Some (wk_id (pw_cfg w), now + wk_lock_ttl (pw_cfg w))) (get_lock_key (pw_cfg w) t)"
proof -
  note a = assms(1) [unfolded alone_with_def]
  have "v = process_permitted now 0 t (bump (\<lambda>m. m\<lparr>wm_consumed := wm_consumed m + 1\<rparr>) (w\<lparr>pw_backend := (pw_backend w)\<lparr>lb_queue := []\<rparr>\<rparr>))"
    using a by (simp add: v_def loop_step_def phase_of_def lb_consume_task_def process_task_def)
  then show "pw_phases v = [Executing t (get_lock_key (pw_cfg w) t) False]" "queue_of v = []" "waiters_of v = []"
    "pw_cfg v = pw_cfg w" "pw_running v" "\<not> pw_destroyed v" "pw_pool v = None" "pw_dead_letters v = pw_dead_letters w"
    "wm_failed (pw_metrics v) = wm_failed (pw_metrics w)" "wm_retried (pw_metrics v) = wm_retried (pw_metrics w)"
    "distinct (jkeys (locks_of v))"
    "pred_option (\<lambda>k. map_of (locks_of v) k = Some (wk_id (pw_cfg w), now + wk_lock_ttl (pw_cfg w))) (get_lock_key (pw_cfg w) t)"
    using a by (auto simp: process_permitted_def start_execution_def set_phase_def bump_def lb_acquire_lock_def Let_def
        lt_clean_get distinct_lt_clean distinct_update simp del: map_of_eq_Some_iff split: option.split)
qed

lemma fail_alone:
  fixes now :: ms and err :: string
  assumes "alone_with t w" "retry_count t < wk_max_retries (pw_cfg w)"
  defines "w' \<equiv> worker_run (failed_attempt err now) w"
  shows "alone_with (retried_task now (retry_count t + 1) t) w'" "pw_cfg w' = pw_cfg w"
    "pw_dead_letters w' = pw_dead_letters w"
    "wm_failed (pw_metrics w') = wm_failed (pw_metrics w) + 1" "wm_retried (pw_metrics w') = wm_retried (pw_metrics w) + 1"
proof -
  define v where "v = worker_step (LoopTop now 0) w"
  note v = start_alone [OF assms(1), of now, folded v_def]
  let ?k = "get_lock_key (pw_cfg w) t"
  define u where "u = worker_step (ExecutionDone now 0 (exec_fails err)) v"
  have u: "u = set_phase 0 (RetrySleep t ?k False [] (now + retry_delay (pw_cfg w) (retry_count t)))
      (bump (\<lambda>m. m\<lparr>wm_failed := wm_failed m + 1\<rparr>) v)"
    using v(1,4) assms(2) by (simp add: u_def execution_done_def execution_failed_def phase_of_def exec_fails_def Let_def)
  have "w' = worker_step (RetryDue now 0) u" by (simp add: w'_def failed_attempt_def worker_run_def u_def v_def)
  then have w': "w' = finally_task 0 t ?k [] (bump (\<lambda>m. m\<lparr>wm_retried := wm_retried m + 1\<rparr>)
      (u\<lparr>pw_backend := (pw_backend u)\<lparr>lb_queue := [retried_task now (retry_count t + 1) t]\<rparr>\<rparr>))"
    using v(1-3) by (simp add: retry_step_def phase_of_def u set_phase_def re_enqueue_def enqueue_def lb_enqueue_task_def deliver_def)
  show "alone_with (retried_task now (retry_count t + 1) t) w'" "pw_cfg w' = pw_cfg w"
    "pw_dead_letters w' = pw_dead_letters w"
    "wm_failed (pw_metrics w') = wm_failed (pw_metrics w) + 1" "wm_retried (pw_metrics w') = wm_retried (pw_metrics w) + 1"
    using v unfolding w' u
    by (auto simp: alone_with_def finally_task_def Let_def set_phase_def bump_def release_permit_def lb_release_lock_def distinct_delete
        simp del: map_of_eq_Some_iff split: option.split)
qed

lemma bury_alone:
  fixes now :: ms and err :: string
  assumes "alone_with t w" "wk_max_retries (pw_cfg w) \<le> retry_count t"
  defines "w' \<equiv> worker_run [LoopTop now 0, ExecutionDone now 0 (exec_fails err)] w"
  shows "pw_dead_letters w' = pw_dead_letters w @
      [\<lparr>dl_task = t, dl_error = err, dl_retry_count = retry_count t, dl_dead_at = now\<rparr>]
    \<and> queue_of w' = [] \<and> pw_phases w' = [Looping]
    \<and> wm_failed (pw_metrics w') = wm_failed (pw_metrics w) + 1 \<and> wm_retried (pw_metrics w') = wm_retried (pw_metrics w)"
proof -
  define v where "v = worker_step (LoopTop now 0) w"
  note v = start_alone [OF assms(1), of now, folded v_def]
  have "w' = worker_step (ExecutionDone now 0 (exec_fails err)) v" by (simp add: w'_def worker_run_def v_def)
  then have "w' = finally_task 0 t (get_lock_key (pw_cfg w) t) [] (move_to_dead_letter now t err (retry_count t)
      (bump (\<lambda>m. m\<lparr>wm_failed := wm_failed m + 1\<rparr>) v))"
    using v(1,4) assms(2) by (simp add: execution_done_def execution_failed_def phase_of_def exec_fails_def Let_def)
  then show ?thesis using v
    by (auto simp: finally_task_def Let_def set_phase_def bump_def release_permit_def move_to_dead_letter_def split: option.split)
qed



end
