(* ===== verification/Pipeline_Service.thy ===== *)
theory Pipeline_Service
  imports Pipeline_Worker
begin

text \<open>
  How the gateway joins the scheduler, the worker and the timers of the memory pipeline:
  \<^verbatim>\<open>MemoryCore/src/gateway/server.ts\<close> (the timer callback of the local backend, the task executor's
  decisions before and after the extraction, the wiring of the worker),
  \<^verbatim>\<open>services/timer-scanner.ts\<close> (the tasks built from claimed timers) and \<^verbatim>\<open>core/tdai-core.ts\<close>
  (session end). The extraction itself is outside.
\<close>

section \<open>From a timer to a task\<close>

definition ends_with :: "string \<Rightarrow> string \<Rightarrow> bool" where
  "ends_with sx s \<longleftrightarrow> suffix sx s"

text \<open>The session of an offload timer: without the trailing file of a diagram update.\<close>

definition strip_mmd_file :: "string \<Rightarrow> string" where
  "strip_mmd_file s =
     (if ends_with ''.mmd'' s
      then (case last_index_of (CHR '':'') s of
              None \<Rightarrow> s
            | Some i \<Rightarrow> if 0 < i then take i s else s)
      else s)"

text \<open>\<^verbatim>\<open>member.match(/(\d+-[^:]+\.mmd)$/)\<close>: the leftmost position from which the rest matches.\<close>

definition ascii_digit :: "char \<Rightarrow> bool" where
  "ascii_digit c \<longleftrightarrow> (let n = (of_char c :: nat) in 48 \<le> n \<and> n \<le> 57)"

definition mmd_here :: "string \<Rightarrow> bool" where
  "mmd_here s =
     (let rest = dropWhile ascii_digit s
      in takeWhile ascii_digit s \<noteq> [] \<and> rest \<noteq> [] \<and> hd rest = CHR ''-''
         \<and> 5 \<le> length (tl rest) \<and> ends_with ''.mmd'' (tl rest) \<and> CHR '':'' \<notin> set (tl rest))"

fun mmd_match :: "string \<Rightarrow> string option" where
  "mmd_match [] = None"
| "mmd_match (c # s) = (if mmd_here (c # s) then Some (c # s) else mmd_match s)"

definition offload_prefix :: "string \<Rightarrow> task_type option" where
  "offload_prefix p =
     (if p = ''offload-l1'' then Some T_offload_l1
      else if p = ''offload-l15'' then Some T_offload_l15
      else if p = ''offload-l2'' then Some T_offload_l2
      else None)"

text \<open>Type, instance, session, team and agent of the task of a timer of the local backend.\<close>

definition local_timer_target ::
  "string option \<Rightarrow> timer_entry \<Rightarrow> task_type \<times> string \<times> string \<times> string option \<times> string option" where
  "local_timer_target cfg_instance entry =
     (let member = te_member entry;
          colon = index_of (CHR '':'') member;
          pre = (case colon of Some i \<Rightarrow> if 0 < i then take i member else member | None \<Rightarrow> member)
      in case offload_prefix pre of
           Some ty \<Rightarrow>
             (let rest = (case colon of Some i \<Rightarrow> drop (Suc i) member | None \<Rightarrow> member);
                  (inst, session) =
                    (case index_of (CHR '':'') rest of
                       Some j \<Rightarrow> if 0 < j then (take j rest, drop (Suc j) rest)
                                 else (patch_or cfg_instance ''default'', rest)
                     | None \<Rightarrow> (patch_or cfg_instance ''default'', rest))
              in (ty, inst, if ty = T_offload_l2 then strip_mmd_file session else session, None, None))
         | None \<Rightarrow>
             (let p = parse_pipeline_timer_member member
              in (pt_task_type p, patch_or (te_instance entry) (patch_or cfg_instance ''default''),
                  pt_session p, pt_team p, pt_agent p)))"

definition on_timer_expired :: "ms \<Rightarrow> string option \<Rightarrow> timer_entry \<Rightarrow> task_payload" where
  "on_timer_expired now cfg_instance entry =
     (case local_timer_target cfg_instance entry of
        (ty, inst, session, team, agent) \<Rightarrow>
          \<lparr>tp_id = task_type_name ty @ ''-'' @ session @ ''-'' @ dec_int now, tp_type = ty, tp_instance = inst,
           tp_session = session, tp_team = team, tp_agent = agent, tp_priority = 0,
           tp_data = Some \<lparr>dt_instance = Some inst, dt_team = team, dt_agent = agent,
             dt_triggered_by = Some ''timer_scanner'', dt_timer_member = Some (te_member entry),
             dt_mmd_file = (if ty = T_offload_l2 then mmd_match (te_member entry) else None),
             dt_retry_count = None, dt_lock_retry_count = None\<rparr>,
           tp_created_at = now\<rparr>)"

section \<open>The timer scanner\<close>

record shard_timer =
  sh_instance :: string
  sh_session :: string
  sh_task_type :: task_type
  sh_priority :: int
  sh_timer_type :: string
  sh_team :: "string option"
  sh_agent :: "string option"

text \<open>After an offload prefix: the embedded instance is skipped.\<close>

definition skip_embedded_instance :: "string \<Rightarrow> string" where
  "skip_embedded_instance s =
     (case index_of (CHR '':'') s of
        Some i \<Rightarrow> if 0 < i then drop (Suc i) s else s
      | None \<Rightarrow> s)"

definition offload_shard :: "string \<Rightarrow> string \<Rightarrow> task_type \<Rightarrow> int \<Rightarrow> string \<Rightarrow> shard_timer" where
  "offload_shard inst session ty pri rest =
     \<lparr>sh_instance = inst, sh_session = session, sh_task_type = ty, sh_priority = pri,
      sh_timer_type = rest, sh_team = None, sh_agent = None\<rparr>"

text \<open>\<^verbatim>\<open>member.slice(0, -1)\<close> when there is no colon at all.\<close>

definition split_shard_member :: "string \<Rightarrow> string \<times> string" where
  "split_shard_member member =
     (case index_of (CHR 0x00) member of
        Some i \<Rightarrow> (take i member, drop (Suc i) member)
      | None \<Rightarrow> (case index_of (CHR '':'') member of
            Some j \<Rightarrow> (take j member, drop (Suc j) member)
          | None \<Rightarrow> (butlast member, member)))"

definition parse_shard_member :: "string \<Rightarrow> shard_timer" where
  "parse_shard_member member =
     (let (inst, rest) = split_shard_member member
      in if prefix ''offload-l15:'' rest
         then offload_shard inst (skip_embedded_instance (drop 12 rest)) T_offload_l15 0 rest
         else if prefix ''offload-l2:'' rest
         then offload_shard inst (strip_mmd_file (skip_embedded_instance (drop 11 rest))) T_offload_l2 1 rest
         else if prefix ''offload-l1:'' rest
         then offload_shard inst (skip_embedded_instance (drop 11 rest)) T_offload_l1 0 rest
         else (let p = parse_pipeline_timer_member rest
               in \<lparr>sh_instance = inst, sh_session = pt_session p, sh_task_type = pt_task_type p,
                   sh_priority = pt_priority p, sh_timer_type = pt_timer_type p,
                   sh_team = pt_team p, sh_agent = pt_agent p\<rparr>))"

definition last8 :: "string \<Rightarrow> string" where
  "last8 s = drop (length s - 8) s"

definition scan_task :: "ms \<Rightarrow> string \<Rightarrow> task_payload" where
  "scan_task now member =
     (let p = parse_shard_member member
      in \<lparr>tp_id = task_type_name (sh_task_type p) @ ''-'' @ last8 (sh_instance p) @ ''-'' @ last8 (sh_session p)
            @ ''-'' @ dec_int now,
          tp_type = sh_task_type p, tp_instance = sh_instance p, tp_session = sh_session p,
          tp_team = sh_team p, tp_agent = sh_agent p, tp_priority = sh_priority p,
          tp_data = Some \<lparr>dt_instance = Some (sh_instance p), dt_team = sh_team p, dt_agent = sh_agent p,
            dt_triggered_by = Some ''timer_scanner'',
            dt_timer_member = Some (sh_session p @ '':'' @ sh_timer_type p), dt_mmd_file = None,
            dt_retry_count = None, dt_lock_retry_count = None\<rparr>,
          tp_created_at = now\<rparr>)"

text \<open>The tasks of one scan, from the timers that the shards' atomic claims return.\<close>

definition scan_tasks :: "ms \<Rightarrow> string list list \<Rightarrow> task_payload list" where
  "scan_tasks now shards = map (scan_task now) (concat shards)"

section \<open>Session end and wiring\<close>

text \<open>\<^verbatim>\<open>TdaiCore.handleSessionEnd\<close> with a scheduler, and \<^verbatim>\<open>executeFlush\<close>, which calls it.\<close>

definition handle_session_end :: "ms \<Rightarrow> string \<Rightarrow> stateful_manager \<Rightarrow> local_backend \<Rightarrow> wake \<times> local_backend" where
  "handle_session_end now session m b =
     (if session = [] then (None, b) else sp_flush_session now session None None None m b)"

definition execute_flush :: "ms \<Rightarrow> task_payload \<Rightarrow> stateful_manager \<Rightarrow> local_backend \<Rightarrow> wake \<times> local_backend" where
  "execute_flush now t m b = handle_session_end now (tp_session t) m b"

definition default_worker_config :: "string \<Rightarrow> worker_config" where
  "default_worker_config worker_id = \<lparr>wk_id = worker_id, wk_concurrency = 60, wk_poll = 200,
     wk_lock_ttl = 600000, wk_max_retries = 3, wk_retry_base = 5000, wk_instance_locks = False,
     wk_on_l1_complete = None, wk_on_l2_complete = None\<rparr>"

definition gateway_worker_config ::
  "string \<Rightarrow> ms \<Rightarrow> nat \<Rightarrow> stateful_manager \<Rightarrow> worker_config" where
  "gateway_worker_config worker_id poll_ms concurrency m =
     (default_worker_config worker_id)\<lparr>wk_poll := poll_ms, wk_concurrency := concurrency,
        wk_on_l1_complete := Some (\<lambda>now k i t a b. advance_l2_timer_after_l1 now k i t a m b),
        wk_on_l2_complete := Some (\<lambda>now k i t a b. sp_arm_l2_max_interval now k i t a m b)\<rparr>"

section \<open>The executor around the extraction\<close>

datatype exec_decision = Fails string | Skips | Runs

text \<open>\<^verbatim>\<open>executeL1\<close> up to the extraction. \<open>quota_ok\<close> is the answer of the quota manager, if there is one.\<close>

definition missing_instance :: "string \<Rightarrow> task_payload \<Rightarrow> string" where
  "missing_instance stage t = stage @ '' task '' @ tp_id t @ '' missing instanceId''"

definition execute_l1_begin :: "bool option \<Rightarrow> string option \<Rightarrow> task_payload \<Rightarrow> local_backend \<Rightarrow> exec_decision" where
  "execute_l1_begin quota_ok aborted t b =
     (if \<not> truthy (data_field dt_instance t) then Fails (missing_instance ''L1'' t)
      else (let inst = the (data_field dt_instance t);
                team = or_defined (tp_team t) (data_field dt_team t);
                agent = or_defined (tp_agent t) (data_field dt_agent t)
            in case aborted of
                 Some reason \<Rightarrow> Fails reason
               | None \<Rightarrow>
                   if data_field dt_triggered_by t = Some ''timer_scanner''
                      \<and> map_option conversation_count (lb_get_session (session_key inst (tp_session t) team agent) b) = Some 0
                   then Skips
                   else if quota_ok = Some False then Skips
                   else Runs))"

text \<open>\<^verbatim>\<open>executeL1\<close> after the extraction: the notes for the worker, and the backlog.\<close>

definition execute_l1_end ::
  "ms \<Rightarrow> l1_result \<Rightarrow> task_payload \<Rightarrow> stateful_manager \<Rightarrow> local_backend \<Rightarrow> exec_result \<times> wake \<times> local_backend" where
  "execute_l1_end now res t m b =
     (let inst = data_field dt_instance t;
          team = or_defined (tp_team t) (data_field dt_team t);
          agent = or_defined (tp_agent t) (data_field dt_agent t);
          note = \<lparr>ex_error = None, ex_l2_scopes = l1r_profile_scopes res, ex_l2_skipped = False, ex_deferred = []\<rparr>
      in if l1r_has_full_backlog res
         then (note, enqueue_l1_drain now (tp_session t) inst team agent m b)
         else if l1r_has_more res
         then (note, None, arm_l1_idle_after_drain now (tp_session t) inst team agent m b)
         else (note, None, b))"

text \<open>\<^verbatim>\<open>executeL2\<close> up to the extraction, with the cursor it reads.\<close>

definition execute_l2_begin ::
  "bool option \<Rightarrow> string option \<Rightarrow> task_payload \<Rightarrow> local_backend \<Rightarrow> exec_decision \<times> string option" where
  "execute_l2_begin quota_ok aborted t b =
     (if \<not> truthy (data_field dt_instance t) then (Fails (missing_instance ''L2'' t), None)
      else case aborted of
             Some reason \<Rightarrow> (Fails reason, None)
           | None \<Rightarrow>
               if quota_ok = Some False then (Skips, None)
               else (Runs, case lb_get_session (session_key (the (data_field dt_instance t)) (tp_session t)
                                  (or_defined (tp_team t) (data_field dt_team t))
                                  (or_defined (tp_agent t) (data_field dt_agent t))) b of
                             None \<Rightarrow> None
                           | Some s \<Rightarrow> if l2_last_extraction_time s = [] then None
                                       else Some (l2_last_extraction_time s)))"

definition execute_l3_begin :: "bool option \<Rightarrow> string option \<Rightarrow> task_payload \<Rightarrow> exec_decision" where
  "execute_l3_begin quota_ok aborted t =
     (if \<not> truthy (data_field dt_instance t) then Fails (missing_instance ''L3'' t)
      else case aborted of
             Some reason \<Rightarrow> Fails reason
           | None \<Rightarrow> if quota_ok = Some False then Skips else Runs)"

section \<open>Lemmas\<close>

lemma gateway_hooks: "hooks_ok (gateway_worker_config worker_id poll_ms concurrency m)"
  by (simp add: hooks_ok_def gateway_worker_config_def advance_hook.stage_hook_axioms max_interval_hook.stage_hook_axioms)

lemma gateway_l1_hook [simp]:
  "wk_on_l1_complete (gateway_worker_config wid p c m) = Some (\<lambda>now k i t a b. advance_l2_timer_after_l1 now k i t a m b)"
  "wk_on_l2_complete (gateway_worker_config wid p c m) = Some (\<lambda>now k i t a b. sp_arm_l2_max_interval now k i t a m b)"
  by (simp_all add: gateway_worker_config_def)

lemma advance_sessions [simp]: "lb_sessions (advance_l2_timer_after_l1 now k i t a m b) = lb_sessions b"
  by (auto simp: advance_l2_timer_after_l1_def lb_set_timer_if_earlier_def Let_def split: option.split)

lemma advance_get [simp]: "lb_get_session s (advance_l2_timer_after_l1 now k i t a m b) = lb_get_session s b"
  by (simp add: lb_get_session_def)

text \<open>Every timer but the ones of the second stage survives the end of an L1 task.\<close>

lemma advance_other_timer:
  "x \<noteq> timer_key (effective_instance m i) (timer_name k ''L2_schedule'' t a) \<Longrightarrow>
   map_of (lb_timers (advance_l2_timer_after_l1 now k i t a m b)) x = map_of (lb_timers b) x"
  by (simp add: advance_l2_timer_after_l1_def set_if_earlier_other Let_def)

text \<open>The count that the cascade of an L1 task leaves.\<close>

lemma apply_count_patch [simp]:
  "conversation_count (apply_patch (no_patch\<lparr>pa_conversation_count := Some n\<rparr>) s) = n"
  "conversation_count (apply_patch (no_patch\<lparr>pa_l2_pending_l1_count := Some n\<rparr>) s) = conversation_count s"
  by (simp_all add: apply_patch_def no_patch_def patch_or_def)

lemma jget_of_get: "lb_get_session k b = Some s \<Longrightarrow> jget_or d (lb_sessions b) k = s"
  by (simp add: lb_get_session_def jget_or_def)

lemma cascade_l1_count:
  "map_option conversation_count (lb_get_session (task_key t (tp_session t))
     (cascade_l1 now (gateway_worker_config wid p c m) t r b)) = Some 0"
proof -
  let ?k = "task_key t (tp_session t)"
  have "map_option conversation_count (lb_get_session ?k
      (fold (\<lambda>k b. advance_l2_timer_after_l1 now k (Some (tp_instance t)) (scope_team t) (scope_agent t) m
                     (lb_update_session now (task_key t k) (no_patch\<lparr>pa_l2_pending_l1_count := Some 1\<rparr>) b)) ks b)) = Some 0"
    if "map_option conversation_count (lb_get_session ?k b) = Some 0" for ks b
    using that
  proof (induction ks arbitrary: b)
    case (Cons k ks)
    have "map_option conversation_count (lb_get_session ?k (advance_l2_timer_after_l1 now k (Some (tp_instance t))
        (scope_team t) (scope_agent t) m (lb_update_session now (task_key t k) (no_patch\<lparr>pa_l2_pending_l1_count := Some 1\<rparr>) b))) = Some 0"
      using Cons.prems by (cases "?k = task_key t k") (auto simp: jget_of_get)
    then show ?case using Cons.IH by simp
  qed simp
  then show ?thesis by (simp add: cascade_l1_def Let_def)
qed

section \<open>Properties\<close>

text \<open>One task of session end, run by the worker: the executor's call, then the cascade.\<close>

definition run_flush :: "ms \<Rightarrow> task_payload \<Rightarrow> worker_config \<Rightarrow> stateful_manager \<Rightarrow> local_backend \<Rightarrow> local_backend" where
  "run_flush now t cfg m b =
     cascade_l1 now cfg t \<lparr>ex_error = None, ex_l2_scopes = None, ex_l2_skipped = False, ex_deferred = []\<rparr>
       (snd (execute_flush now t m b))"

lemma cascade_l1_frame:
  "lb_queue (cascade_l1 now (gateway_worker_config wid p c m) t r b) = lb_queue b"
  "lb_waiters (cascade_l1 now (gateway_worker_config wid p c m) t r b) = lb_waiters b"
  by (simp_all add: cascade_frame gateway_hooks)

lemma flush_nothing:
  "map_option conversation_count (lb_get_session (session_key (sp_default m) session None None) b) = Some 0
   \<Longrightarrow> sp_flush_session now session None None None m b = (None, b)"
  by (auto simp: sp_flush_session_def effective_instance_def Let_def)

text \<open>
  C10: the end of a session extracts nothing. The task that session end queues is executed by asking
  the scheduler to flush the session again: while its conversations are still counted this queues
  one more such task and cancels the idle timer, then the completion of the first task sets the
  count to 0, so the second task finds nothing to flush. No L1 task is ever queued for the buffered
  conversations, and the timer that would have extracted them is gone.
\<close>

theorem session_end_extracts_nothing:
  assumes "\<not> sp_destroyed m" "\<not> should_skip (mc_filter (sp_cfg m)) session" "session \<noteq> []"
    and "i = sp_default m" "i \<noteq> unset_instance" "lb_waiters b = []"
    and "map_option conversation_count (lb_get_session (session_key i session None None) b) = Some n" "n \<noteq> 0"
    and "t = session_task ''flush'' T_flush t0 i session None None" "cfg = gateway_worker_config wid p c m"
    and "b1 = run_flush now t cfg m b" "b2 = run_flush now' u cfg m b1"
    and "u = session_task ''flush'' T_flush now i session None None"
  shows "lb_queue b1 = insert_task u (lb_queue b) \<and> lb_queue b2 = lb_queue b1
    \<and> map_option conversation_count (lb_get_session (session_key i session None None) b1) = Some 0
    \<and> map_option conversation_count (lb_get_session (session_key i session None None) b2) = Some 0
    \<and> tp_type u = T_flush
    \<and> map_of (lb_timers (snd (execute_flush now t m b))) (timer_key i (timer_name session ''L1_idle'' None None)) = None"
proof -
  obtain st where st: "lb_get_session (session_key i session None None) b = Some st" "conversation_count st \<noteq> 0"
    using assms(7,8) by auto
  have f: "execute_flush now t m b = lb_enqueue_task u (lb_remove_timer i (timer_name session ''L1_idle'' None None) b)"
    using assms(1-5,9,13) st
    by (simp add: execute_flush_def handle_session_end_def sp_flush_session_def session_task_def effective_instance_def Let_def)
  have w: "lb_waiters (lb_remove_timer i x b) = []" "lb_queue (lb_remove_timer i x b) = lb_queue b" for x
    using assms(6) by (simp_all add: lb_remove_timer_def)
  have fb: "snd (execute_flush now t m b)
      = (lb_remove_timer i (timer_name session ''L1_idle'' None None) b)\<lparr>lb_queue := insert_task u (lb_queue b)\<rparr>"
    unfolding f using w by (simp add: lb_enqueue_task_def)
  have q1: "lb_queue b1 = insert_task u (lb_queue b)" using assms(10,11) fb by (simp add: run_flush_def cascade_l1_frame)
  have key: "task_key t (tp_session t) = session_key i session None None" "task_key u (tp_session u) = session_key i session None None"
    using assms(9,13) by (simp_all add: task_key_def session_task_def scope_team_def scope_agent_def or_defined_def data_field_def scope_data_def)
  have c1: "map_option conversation_count (lb_get_session (session_key i session None None) b1) = Some 0"
    using cascade_l1_count [of t] assms(10,11) by (simp add: run_flush_def key)
  have "execute_flush now' u m b1 = (None, b1)"
    using flush_nothing [of m session b1 now'] c1 assms(3,4,13)
    by (simp add: execute_flush_def handle_session_end_def session_task_def)
  then have "lb_queue b2 = lb_queue b1" using assms(10,12) by (simp add: run_flush_def cascade_l1_frame)
  moreover have "map_option conversation_count (lb_get_session (session_key i session None None) b2) = Some 0"
    using cascade_l1_count [of u] assms(10,12) by (simp add: run_flush_def key)
  moreover have "map_of (lb_timers (snd (execute_flush now t m b))) (timer_key i (timer_name session ''L1_idle'' None None)) = None"
    unfolding fb by (simp add: lb_remove_timer_def)
  ultimately show ?thesis using q1 c1 assms(13) by (simp add: session_task_def)
qed

theorem session_end_extracts_nothing_witness:
  "let m = demo_stateful ''d'';
       b = lb_update_session 1 (session_key ''d'' ''s'' None None) (no_patch\<lparr>pa_conversation_count := Some 2\<rparr>) (new_backend False);
       cfg = gateway_worker_config ''w'' 200 1 m;
       t = session_task ''flush'' T_flush 5 ''d'' ''s'' None None;
       u = session_task ''flush'' T_flush 6 ''d'' ''s'' None None
   in lb_queue (run_flush 7 u cfg m (run_flush 6 t cfg m b)) = [u]"
proof -
  let ?m = "demo_stateful ''d''"
  let ?b = "lb_update_session 1 (session_key ''d'' ''s'' None None) (no_patch\<lparr>pa_conversation_count := Some 2\<rparr>) (new_backend False)"
  have h: "\<not> sp_destroyed ?m" "\<not> should_skip (mc_filter (sp_cfg ?m)) ''s''" "''s'' \<noteq> []" "''d'' = sp_default ?m"
    "''d'' \<noteq> unset_instance" "lb_waiters ?b = []"
    "map_option conversation_count (lb_get_session (session_key ''d'' ''s'' None None) ?b) = Some 2" "(2::int) \<noteq> 0" "lb_queue ?b = []"
    by code_simp+
  from session_end_extracts_nothing [OF h(1-8) refl refl refl refl refl, where now = 6 and now' = 7 and ?t0.0 = 5
      and wid = "''w''" and p = 200 and c = 1] h(9) show ?thesis by simp
qed

lemma apply_patch_l2_time [simp]:
  "l2_last_extraction_time (apply_patch (no_patch\<lparr>pa_conversation_count := Some n\<rparr>) s) = l2_last_extraction_time s"
  "l2_last_extraction_time (apply_patch (no_patch\<lparr>pa_l2_pending_l1_count := Some n\<rparr>) s) = l2_last_extraction_time s"
  "l2_last_extraction_time (apply_patch (no_patch\<lparr>pa_l2_pending_l1_count := Some n, pa_l2_last_extraction_time := Some x\<rparr>) s) = x"
  by (simp_all add: apply_patch_def no_patch_def patch_or_def)

lemma update_keeps_l2_time:
  assumes "map_option l2_last_extraction_time (lb_get_session k b) = Some x"
    and "\<And>s. l2_last_extraction_time (apply_patch p s) = l2_last_extraction_time s"
  shows "map_option l2_last_extraction_time (lb_get_session k (lb_update_session now k' p b)) = Some x"
  using assms by (auto simp: jget_of_get)

lemma arm_max_timers:
  assumes "i \<noteq> unset_instance" "\<not> sp_destroyed m"
  shows "map_of (lb_timers (sp_arm_l2_max_interval now s (Some i) t a m b)) (timer_key i x)
    = (if x = s @ '':L2_schedule''
       then map_of (lb_timers (lb_set_timer now i x (now + mc_l2_max (sp_cfg m)) b)) (timer_key i x)
       else map_of (lb_timers b) (timer_key i x))"
  using assms by (auto simp: sp_arm_l2_max_interval_def effective_instance_def Let_def timer_set_timer)

lemma arm_max_sessions [simp]: "lb_sessions (sp_arm_l2_max_interval now s i t a m b) = lb_sessions b"
  by (simp add: sp_arm_l2_max_interval_def Let_def lb_set_timer_def)

text \<open>
  a second-stage run spaces out the next one. When the second stage of a session has ended at
  time \<open>t\<close> and none of its timers was pending, then after the next first-stage run, whenever it
  ends, the session's timer is armed, not earlier than the minimum interval after \<open>t\<close> and not later
  than the delay after that run (or the end of the interval, if that is later). The time of the
  last run travels through the session state as ISO text.
\<close>

theorem service_l2_min_interval:
  assumes "\<not> sp_destroyed m" "i \<noteq> unset_instance" "cfg = gateway_worker_config wid p c m"
    and "tp_instance t2 = i" "tp_session t2 = session" "scope_team t2 = team" "scope_agent t2 = agent"
    and "tp_instance t1 = i" "scope_team t1 = team" "scope_agent t1 = agent" "cascade_l2_keys t1 r = [session]"
    and "0 < t" "t < 240000000000000" "mc_l2_min (sp_cfg m) \<le> mc_l2_max (sp_cfg m)"
    and "map_of (lb_timers b) (timer_key i (timer_name session ''L2_schedule'' team agent)) = None"
    and "b1 = cascade_l2 t cfg t2 b" "b2 = cascade_l1 now cfg t1 r b1"
  shows "\<exists>f. map_option it_fire_at (map_of (lb_timers b2) (timer_key i (timer_name session ''L2_schedule'' team agent))) = Some f
    \<and> t + mc_l2_min (sp_cfg m) \<le> f
    \<and> f \<le> max (now + mc_l2_delay (sp_cfg m)) (t + mc_l2_min (sp_cfg m))"
proof -
  let ?K = "timer_name session ''L2_schedule'' team agent" and ?k = "session_key i session team agent"
  let ?D = "max (now + mc_l2_delay (sp_cfg m)) (t + mc_l2_min (sp_cfg m))"
  have key: "task_key t2 session = ?k" "task_key t1 session = ?k" using assms(4-10) by (simp_all add: task_key_def)
  have s1: "map_option l2_last_extraction_time (lb_get_session ?k b1) = Some (to_iso_string t)"
    unfolding assms(16) assms(3) by (simp add: cascade_l2_def assms(5) key lb_get_session_def) (simp flip: lb_get_session_def)
  have t1: "map_option it_fire_at (map_of (lb_timers b1) (timer_key i ?K))
      = (if ?K = session @ '':L2_schedule'' then Some (t + mc_l2_max (sp_cfg m)) else None)"
    unfolding assms(16) assms(3)
    by (simp add: cascade_l2_def assms(4,5) arm_max_timers [OF assms(2,1)] timer_set_timer assms(15))
  define b3 where "b3 = lb_update_session now ?k (no_patch\<lparr>pa_l2_pending_l1_count := Some 1\<rparr>)
      (lb_update_session now (task_key t1 (tp_session t1)) (no_patch\<lparr>pa_conversation_count := Some 0\<rparr>) b1)"
  have b2: "b2 = advance_l2_timer_after_l1 now session (Some i) team agent m b3"
    unfolding assms(17) assms(3) b3_def by (simp add: cascade_l1_def assms(8-11) key)
  have "map_option l2_last_extraction_time (lb_get_session ?k b3) = Some (to_iso_string t)"
    unfolding b3_def by (rule update_keeps_l2_time [OF update_keeps_l2_time [OF s1]]) simp_all
  then obtain st where st: "lb_get_session ?k b3 = Some st" "l2_last_extraction_time st = to_iso_string t" by auto
  have "effective_instance m (Some i) = i" by (simp add: effective_instance_def)
  note f = advance_l2_fire_time [OF assms(1) this assms(2), of now session team agent b3, unfolded st(1)
      desired_l2_time_after [OF assms(12,13) st(2)]]
  have t3: "lb_timers b3 = lb_timers b1" by (simp add: b3_def)
  show ?thesis
  proof (cases "map_of (lb_timers b1) (timer_key i ?K)")
    case None
    then have "map_option it_fire_at (map_of (lb_timers b2) (timer_key i ?K)) = Some ?D" unfolding b2 using f t3 by simp
    then show ?thesis by (intro exI [of _ ?D] conjI) simp_all
  next
    case (Some e)
    then have e: "it_fire_at e = t + mc_l2_max (sp_cfg m)" using t1 by (auto split: if_splits)
    have "map_option it_fire_at (map_of (lb_timers b2) (timer_key i ?K)) = Some (min (it_fire_at e) ?D)"
      unfolding b2 using f t3 Some by simp
    then show ?thesis using e assms(14) by (intro exI [of _ "min (it_fire_at e) ?D"] conjI) simp_all
  qed
qed

theorem service_l2_min_interval_witness:
  "let m = demo_stateful ''d''; cfg = gateway_worker_config ''w'' 200 1 m;
       t2 = session_task ''L2'' T_L2 5 ''d'' ''s'' (Some ''t'') (Some ''a'');
       t1 = session_task ''L1'' T_L1 5 ''d'' ''s'' (Some ''t'') (Some ''a'');
       r = \<lparr>ex_error = None, ex_l2_scopes = None, ex_l2_skipped = False, ex_deferred = []\<rparr>;
       b = cascade_l1 120 cfg t1 r (cascade_l2 100 cfg t2 (new_backend False))
   in map_of (lb_timers b) (timer_key ''d'' (timer_name ''s'' ''L2_schedule'' (Some ''t'') (Some ''a''))) \<noteq> None"
proof -
  let ?m = "demo_stateful ''d''"
  let ?t2 = "session_task ''L2'' T_L2 5 ''d'' ''s'' (Some ''t'') (Some ''a'')"
  let ?t1 = "session_task ''L1'' T_L1 5 ''d'' ''s'' (Some ''t'') (Some ''a'')"
  let ?r = "\<lparr>ex_error = None, ex_l2_scopes = None, ex_l2_skipped = False, ex_deferred = []\<rparr>"
  have h: "\<not> sp_destroyed ?m" "''d'' \<noteq> unset_instance" by code_simp+
  have t: "tp_instance ?t2 = ''d''" "tp_session ?t2 = ''s''" "scope_team ?t2 = Some ''t''" "scope_agent ?t2 = Some ''a''"
    "tp_instance ?t1 = ''d''" "scope_team ?t1 = Some ''t''" "scope_agent ?t1 = Some ''a''" "cascade_l2_keys ?t1 ?r = [''s'']"
    by code_simp+
  have n: "(0::ms) < 100" "(100::ms) < 240000000000000" "mc_l2_min (sp_cfg ?m) \<le> mc_l2_max (sp_cfg ?m)"
    by (simp_all add: demo_stateful_def new_stateful_manager_def manager_config_of_def)
  have b: "map_of (lb_timers (new_backend False)) (timer_key ''d'' (timer_name ''s'' ''L2_schedule'' (Some ''t'') (Some ''a''))) = None"
    by (simp add: new_backend_def)
  from service_l2_min_interval [OF h refl t n b refl refl, of 120 "''w''" 200 1] show ?thesis by auto
qed

lemma capture_waits_timer:
  assumes "capture_atomic now c b = ((False, n), b')"
  shows "map_option it_fire_at (map_of (lb_timers b') (timer_key (cp_instance c) (cp_timer_member c))) = Some (cp_fire_at c)"
  using assms by (auto simp: capture_atomic_def capture_count_def timer_set_timer Let_def split: if_splits)

lemma notify_waits_timer:
  assumes "notify_conversation now session (Some i) rounds None None m b = (Inr (Some False), wake, m1, b1)"
  shows "map_option it_fire_at (map_of (lb_timers b1) (timer_key i (session @ '':L1_idle'')))
    = Some (now + mc_l1_idle_timeout (sp_cfg m))"
proof -
  define plan where "plan = plan_of now session i rounds None None (sp_cfg m) (lb_get_session (session_key i session None None) b)"
  have p: "cp_instance (np_capture plan) = i" "cp_timer_member (np_capture plan) = session @ '':L1_idle''"
    "cp_fire_at (np_capture plan) = now + mc_l1_idle_timeout (sp_cfg m)"
    by (simp_all add: plan_def plan_of_def Let_def timer_name_def build_pipeline_timer_member_def truthy_def)
  obtain n b2 where c: "capture_atomic now (np_capture plan) b = ((False, n), b2)" and b1: "b1 = b2"
    using assms by (auto simp: notify_conversation_def notify_read_def effective_instance_def notify_capture_def notify_finish_def
        Let_def plan_def [symmetric] split: if_splits prod.splits)
  from capture_waits_timer [OF c] show ?thesis unfolding b1 p .
qed

lemma no_offload_prefix: "CHR '':'' \<in> set p \<Longrightarrow> offload_prefix p = None"
  by (auto simp: offload_prefix_def)

lemma cascade_l1_keeps_timer:
  assumes "\<And>k. timer_name k ''L2_schedule'' (scope_team t) (scope_agent t) \<noteq> x"
  shows "map_of (lb_timers (cascade_l1 now (gateway_worker_config wid p c m) t r b)) (timer_key (tp_instance t) x)
    = map_of (lb_timers b) (timer_key (tp_instance t) x)"
proof -
  let ?x = "timer_key (tp_instance t) x"
  have n: "?x \<noteq> timer_key (effective_instance m (Some (tp_instance t))) (timer_name k ''L2_schedule'' (scope_team t) (scope_agent t))" for k
    using assms [of k] by (simp add: effective_instance_def not_sym)
  have "map_of (lb_timers (fold (\<lambda>k b. advance_l2_timer_after_l1 now k (Some (tp_instance t)) (scope_team t) (scope_agent t) m
           (lb_update_session now (task_key t k) (no_patch\<lparr>pa_l2_pending_l1_count := Some 1\<rparr>) b)) ks b)) ?x
      = map_of (lb_timers b) ?x" for ks b
    by (induction ks arbitrary: b) (simp_all add: advance_other_timer [OF n])
  then show ?thesis by (simp add: cascade_l1_def Let_def)
qed

lemma take_index_of: "index_of c s = Some j \<Longrightarrow> take j s = takeWhile (\<lambda>x. x \<noteq> c) s"
  by (induction s arbitrary: j) (auto split: if_splits)

lemma first_part_plain:
  assumes "offload_prefix (takeWhile (\<lambda>c. c \<noteq> CHR '':'') s) = None" "offload_prefix s = None"
  shows "offload_prefix (case index_of (CHR '':'') s of Some j \<Rightarrow> if 0 < j then take j s else s | None \<Rightarrow> s) = None"
  using assms by (auto simp: take_index_of split: option.split)

lemma timer_task_of_plain:
  assumes "session \<noteq> []" "\<not> prefix scoped_timer_prefix (session @ '':L1_idle'')" "parse_profile_session_tenant session = None"
    and "offload_prefix (takeWhile (\<lambda>c. c \<noteq> CHR '':'') (session @ '':L1_idle'')) = None"
  shows "local_timer_target cfg \<lparr>te_instance = Some i, te_member = session @ '':L1_idle'', te_fire_at = f\<rparr>
    = (T_L1, i, session, None, None)"
proof -
  let ?m = "session @ '':L1_idle''"
  have "offload_prefix ?m = None" by (rule no_offload_prefix) simp
  note first_part_plain [OF assms(4) this]
  moreover have "CHR '':'' \<notin> set ''L1_idle''" by simp
  note p = parse_plain_build [OF assms(1) this, simplified, OF assms(2)]
  ultimately show ?thesis
    using assms(3) by (simp add: local_timer_target_def Let_def p classify_timer_type_def patch_or_def)
qed

text \<open>
  a conversation that arrives while the first stage of its session runs waits for another one.
  Below the threshold its notification counts it and arms the idle timer, but the end of the run
  sets the count to 0; when the timer fires, the task built from it is skipped by the executor,
  which takes a count of 0 for \<open>already processed\<close>: the idle timeout extracts nothing.
\<close>

theorem notification_during_l1_not_extracted:
  assumes "notify_conversation now session (Some i) rounds None None m b = (Inr (Some False), wake, m1, b1)"
    and "tp_instance t = i" "tp_session t = session" "scope_team t = None" "scope_agent t = None" "i \<noteq> []"
    and "b2 = cascade_l1 now1 (gateway_worker_config wid p c m) t r b1"
    and "session \<noteq> []" "\<not> prefix scoped_timer_prefix (session @ '':L1_idle'')" "parse_profile_session_tenant session = None"
    and "offload_prefix (takeWhile (\<lambda>c. c \<noteq> CHR '':'') (session @ '':L1_idle'')) = None"
    and "u = on_timer_expired now2 cfg \<lparr>te_instance = Some i, te_member = session @ '':L1_idle'', te_fire_at = f\<rparr>"
  shows "map_option it_fire_at (map_of (lb_timers b2) (timer_key i (session @ '':L1_idle'')))
           = Some (now + mc_l1_idle_timeout (sp_cfg m))
    \<and> tp_type u = T_L1 \<and> tp_session u = session \<and> tp_instance u = i
    \<and> execute_l1_begin (Some True) None u b2 = Skips"
proof -
  have "CHR '':'' \<notin> set ''L1_idle''" "CHR '':'' \<notin> set ''L2_schedule''" by simp_all
  then have "k @ '':L2_schedule'' \<noteq> session @ '':L1_idle''" for k
    using sep_append_eq_last [of "CHR '':''" "''L2_schedule''" "''L1_idle''" k session] by simp
  then have "timer_name k ''L2_schedule'' (scope_team t) (scope_agent t) \<noteq> session @ '':L1_idle''" for k
    by (simp add: timer_name_def build_pipeline_timer_member_def truthy_def assms(4,5))
  from cascade_l1_keeps_timer [of t, OF this] notify_waits_timer [OF assms(1)]
  have timer: "map_option it_fire_at (map_of (lb_timers b2) (timer_key i (session @ '':L1_idle'')))
      = Some (now + mc_l1_idle_timeout (sp_cfg m))"
    by (simp add: assms(7) assms(2) [symmetric])
  note target = timer_task_of_plain [OF assms(8-11), of cfg i f]
  have u: "tp_type u = T_L1" "tp_session u = session" "tp_instance u = i" "tp_team u = None" "tp_agent u = None"
    "data_field dt_instance u = Some i" "data_field dt_team u = None" "data_field dt_agent u = None"
    "data_field dt_triggered_by u = Some ''timer_scanner''"
    by (simp_all add: assms(12) on_timer_expired_def target data_field_def)
  have "map_option conversation_count (lb_get_session (session_key i session None None) b2) = Some 0"
    using cascade_l1_count [of t now1 wid p c m r b1] assms(2-5,7) by (simp add: task_key_def)
  then have "execute_l1_begin (Some True) None u b2 = Skips"
    using assms(6) by (simp add: execute_l1_begin_def u truthy_def or_defined_def)
  then show ?thesis using timer u by simp
qed

theorem notification_during_l1_not_extracted_witness:
  "execute_l1_begin (Some True) None
     (on_timer_expired 99 None \<lparr>te_instance = Some ''d'', te_member = ''s:L1_idle'', te_fire_at = 98\<rparr>)
     (cascade_l1 9 (gateway_worker_config ''w'' 200 1 (demo_stateful ''d'')) (session_task ''L1'' T_L1 5 ''d'' ''s'' None None)
        \<lparr>ex_error = None, ex_l2_scopes = None, ex_l2_skipped = False, ex_deferred = []\<rparr>
        (snd (snd (snd (notify_conversation 8 ''s'' (Some ''d'') None None None (demo_stateful ''d'')
          (lb_update_session 1 (session_key ''d'' ''s'' None None) (no_patch\<lparr>pa_warmup_threshold := Some 0\<rparr>) (new_backend True)))))))
   = Skips"
proof -
  let ?b = "lb_update_session 1 (session_key ''d'' ''s'' None None) (no_patch\<lparr>pa_warmup_threshold := Some 0\<rparr>) (new_backend True)"
  let ?t = "session_task ''L1'' T_L1 5 ''d'' ''s'' None None"
  obtain res wake m1 b1 where n: "notify_conversation 8 ''s'' (Some ''d'') None None None (demo_stateful ''d'') ?b = (res, wake, m1, b1)"
    by (metis prod.exhaust)
  have "fst (notify_conversation 8 ''s'' (Some ''d'') None None None (demo_stateful ''d'') ?b) = Inr (Some False)" by code_simp
  then have n': "notify_conversation 8 ''s'' (Some ''d'') None None None (demo_stateful ''d'') ?b = (Inr (Some False), wake, m1, b1)"
    using n by simp
  have h: "tp_instance ?t = ''d''" "tp_session ?t = ''s''" "scope_team ?t = None" "scope_agent ?t = None" "''d'' \<noteq> []" by code_simp+
  have s: "''s'' \<noteq> []" "\<not> prefix scoped_timer_prefix (''s'' @ '':L1_idle'')" "parse_profile_session_tenant ''s'' = None"
    "offload_prefix (takeWhile (\<lambda>c. c \<noteq> CHR '':'') (''s'' @ '':L1_idle'')) = None" by code_simp+
  from notification_during_l1_not_extracted [OF n' h refl s refl] show ?thesis by (simp add: n')
qed

end
