(* ===== verification/Checkpoint.thy ===== *)
theory Checkpoint
  imports Iso_Time State_Backend
begin

text \<open>
  \<^verbatim>\<open>MemoryCore/src/utils/checkpoint.ts\<close>, the data: the progress record of the memory pipeline, how
  it is read back from its file (older formats included), and what each method of
  \<^verbatim>\<open>CheckpointManager\<close> does to it. The file is the JSON text after parsing: a field that a
  document lacks is None. The locks around the methods are in \<open>Checkpoint_Lock\<close>.
\<close>

section \<open>Data\<close>

record runner_state =
  rs_last_captured :: ms
  rs_last_l1_cursor :: ms
  rs_last_scene_name :: string

record checkpoint =
  ck_last_captured :: ms
  ck_total_processed :: int
  ck_last_persona_at :: int
  ck_last_persona_time :: string
  ck_request_persona :: bool
  ck_persona_reason :: string
  ck_memories_since_persona :: int
  ck_scenes_processed :: int
  ck_runner_states :: "(string, runner_state) jsmap"
  ck_pipeline_states :: "(string, session_state) jsmap"
  ck_l0_count :: int
  ck_total_memories :: int

definition default_runner_state :: runner_state where
  "default_runner_state = \<lparr>rs_last_captured = 0, rs_last_l1_cursor = 0, rs_last_scene_name = []\<rparr>"

definition default_pipeline :: session_state where
  "default_pipeline = \<lparr>conversation_count = 0, last_extraction_time = [], last_extraction_updated_time = [],
     last_active_time = 0, l2_pending_l1_count = 0, warmup_threshold = 0, l2_last_extraction_time = []\<rparr>"

definition default_checkpoint :: checkpoint where
  "default_checkpoint = \<lparr>ck_last_captured = 0, ck_total_processed = 0, ck_last_persona_at = 0,
     ck_last_persona_time = [], ck_request_persona = False, ck_persona_reason = [],
     ck_memories_since_persona = 0, ck_scenes_processed = 0, ck_runner_states = [], ck_pipeline_states = [],
     ck_l0_count = 0, ck_total_memories = 0\<rparr>"

section \<open>Reading the file\<close>

text \<open>A per-session entry as stored, and the whole document. Before the split, \<^verbatim>\<open>session_states\<close> held
  the fields of both.\<close>

record raw_runner =
  rr_last_captured :: "ms option"
  rr_last_l1_cursor :: "ms option"
  rr_last_scene_name :: "string option"

record raw_checkpoint =
  rk_last_captured :: "ms option"
  rk_total_processed :: "int option"
  rk_last_persona_at :: "int option"
  rk_last_persona_time :: "string option"
  rk_request_persona :: "bool option"
  rk_persona_reason :: "string option"
  rk_memories_since_persona :: "int option"
  rk_scenes_processed :: "int option"
  rk_runner_states :: "(string, raw_runner) jsmap option"
  rk_pipeline_states :: "(string, session_patch) jsmap option"
  rk_l0_count :: "int option"
  rk_total_memories :: "int option"
  rk_session_states :: "(string, raw_runner \<times> session_patch) jsmap option"

datatype file_content = Malformed | Document raw_checkpoint

definition runner_of_raw :: "raw_runner \<Rightarrow> runner_state" where
  "runner_of_raw r = \<lparr>rs_last_captured = patch_or (rr_last_captured r) 0,
     rs_last_l1_cursor = patch_or (rr_last_l1_cursor r) 0,
     rs_last_scene_name = patch_or (rr_last_scene_name r) []\<rparr>"

text \<open>The migration of an old entry: its warm-up threshold is not carried over.\<close>

definition migrated_pipeline :: "session_patch \<Rightarrow> session_state" where
  "migrated_pipeline p = (apply_patch p default_pipeline)\<lparr>warmup_threshold := 0\<rparr>"

definition on_values :: "('v \<Rightarrow> 'w) \<Rightarrow> ('k, 'v) jsmap \<Rightarrow> ('k, 'w) jsmap" where
  "on_values f m = map (\<lambda>(k, v). (k, f v)) m"

definition session_parts ::
  "raw_checkpoint \<Rightarrow> (string, runner_state) jsmap \<times> (string, session_state) jsmap" where
  "session_parts r =
     (case rk_session_states r of
        Some old \<Rightarrow>
          if rk_runner_states r = None \<and> rk_pipeline_states r = None
          then (on_values (runner_of_raw \<circ> fst) old, on_values (migrated_pipeline \<circ> snd) old)
          else (on_values runner_of_raw (patch_or (rk_runner_states r) []),
                on_values (\<lambda>p. apply_patch p default_pipeline) (patch_or (rk_pipeline_states r) []))
      | None \<Rightarrow> (on_values runner_of_raw (patch_or (rk_runner_states r) []),
                on_values (\<lambda>p. apply_patch p default_pipeline) (patch_or (rk_pipeline_states r) [])))"

definition checkpoint_of_raw :: "raw_checkpoint \<Rightarrow> checkpoint" where
  "checkpoint_of_raw r =
     \<lparr>ck_last_captured = patch_or (rk_last_captured r) 0, ck_total_processed = patch_or (rk_total_processed r) 0,
      ck_last_persona_at = patch_or (rk_last_persona_at r) 0, ck_last_persona_time = patch_or (rk_last_persona_time r) [],
      ck_request_persona = patch_or (rk_request_persona r) False, ck_persona_reason = patch_or (rk_persona_reason r) [],
      ck_memories_since_persona = patch_or (rk_memories_since_persona r) 0,
      ck_scenes_processed = patch_or (rk_scenes_processed r) 0,
      ck_runner_states = fst (session_parts r), ck_pipeline_states = snd (session_parts r),
      ck_l0_count = patch_or (rk_l0_count r) 0, ck_total_memories = patch_or (rk_total_memories r) 0\<rparr>"

text \<open>\<^verbatim>\<open>readRaw\<close>: the answer of the storage is an error, no (or an empty) file, or its content. Whatever
  goes wrong, the result is the default checkpoint.\<close>

definition read_raw :: "string + file_content option \<Rightarrow> checkpoint" where
  "read_raw answer =
     (case answer of
        Inr (Some (Document r)) \<Rightarrow> checkpoint_of_raw r
      | _ \<Rightarrow> default_checkpoint)"

text \<open>\<^verbatim>\<open>writeRaw\<close>: the document that is written, with every field.\<close>

definition patch_of_session :: "session_state \<Rightarrow> session_patch" where
  "patch_of_session s = \<lparr>pa_conversation_count = Some (conversation_count s),
     pa_last_extraction_time = Some (last_extraction_time s),
     pa_last_extraction_updated_time = Some (last_extraction_updated_time s),
     pa_last_active_time = Some (last_active_time s), pa_l2_pending_l1_count = Some (l2_pending_l1_count s),
     pa_warmup_threshold = Some (warmup_threshold s), pa_l2_last_extraction_time = Some (l2_last_extraction_time s)\<rparr>"

definition raw_of_runner :: "runner_state \<Rightarrow> raw_runner" where
  "raw_of_runner s = \<lparr>rr_last_captured = Some (rs_last_captured s), rr_last_l1_cursor = Some (rs_last_l1_cursor s),
     rr_last_scene_name = Some (rs_last_scene_name s)\<rparr>"

definition raw_of_checkpoint :: "checkpoint \<Rightarrow> raw_checkpoint" where
  "raw_of_checkpoint c =
     \<lparr>rk_last_captured = Some (ck_last_captured c), rk_total_processed = Some (ck_total_processed c),
      rk_last_persona_at = Some (ck_last_persona_at c), rk_last_persona_time = Some (ck_last_persona_time c),
      rk_request_persona = Some (ck_request_persona c), rk_persona_reason = Some (ck_persona_reason c),
      rk_memories_since_persona = Some (ck_memories_since_persona c),
      rk_scenes_processed = Some (ck_scenes_processed c),
      rk_runner_states = Some (on_values raw_of_runner (ck_runner_states c)),
      rk_pipeline_states = Some (on_values patch_of_session (ck_pipeline_states c)),
      rk_l0_count = Some (ck_l0_count c), rk_total_memories = Some (ck_total_memories c),
      rk_session_states = None\<rparr>"

definition write_raw :: "checkpoint \<Rightarrow> file_content" where
  "write_raw c = Document (raw_of_checkpoint c)"

section \<open>The methods\<close>

definition mark_persona_generated :: "ms \<Rightarrow> int \<Rightarrow> checkpoint \<Rightarrow> checkpoint" where
  "mark_persona_generated now processed c =
     c\<lparr>ck_last_persona_at := processed, ck_last_persona_time := to_iso_string now, ck_memories_since_persona := 0,
       ck_request_persona := False, ck_persona_reason := []\<rparr>"

definition clear_persona_request :: "checkpoint \<Rightarrow> checkpoint" where
  "clear_persona_request c = c\<lparr>ck_request_persona := False, ck_persona_reason := []\<rparr>"

definition set_persona_update_request :: "string \<Rightarrow> checkpoint \<Rightarrow> checkpoint" where
  "set_persona_update_request reason c = c\<lparr>ck_request_persona := True, ck_persona_reason := reason\<rparr>"

definition increment_scenes_processed :: "checkpoint \<Rightarrow> checkpoint" where
  "increment_scenes_processed c = c\<lparr>ck_scenes_processed := ck_scenes_processed c + 1\<rparr>"

text \<open>The helpers get an entry, creating it when it is missing.\<close>

definition get_runner_state :: "string \<Rightarrow> checkpoint \<Rightarrow> runner_state \<times> checkpoint" where
  "get_runner_state k c =
     (case map_of (ck_runner_states c) k of
        Some s \<Rightarrow> (s, c)
      | None \<Rightarrow> (default_runner_state,
          c\<lparr>ck_runner_states := AList.update k default_runner_state (ck_runner_states c)\<rparr>))"

definition get_pipeline_state :: "ms \<Rightarrow> string \<Rightarrow> checkpoint \<Rightarrow> session_state \<times> checkpoint" where
  "get_pipeline_state now k c =
     (case map_of (ck_pipeline_states c) k of
        Some s \<Rightarrow> (s, c)
      | None \<Rightarrow> (let s = default_pipeline\<lparr>last_active_time := now\<rparr>
                 in (s, c\<lparr>ck_pipeline_states := AList.update k s (ck_pipeline_states c)\<rparr>)))"

definition get_all_pipeline_states :: "checkpoint \<Rightarrow> (string, session_state) jsmap" where
  "get_all_pipeline_states c = ck_pipeline_states c"

definition set_runner :: "string \<Rightarrow> (runner_state \<Rightarrow> runner_state) \<Rightarrow> checkpoint \<Rightarrow> checkpoint" where
  "set_runner k f c =
     (case get_runner_state k c of
        (s, c) \<Rightarrow> c\<lparr>ck_runner_states := AList.update k (f s) (ck_runner_states c)\<rparr>)"

definition merge_pipeline_states :: "(string, session_state) jsmap \<Rightarrow> checkpoint \<Rightarrow> checkpoint" where
  "merge_pipeline_states states c =
     c\<lparr>ck_pipeline_states := fold (\<lambda>(k, s) m. AList.update k s m) states (ck_pipeline_states c)\<rparr>"

text \<open>\<^verbatim>\<open>if (cursorRecordedAtMs)\<close>: None and 0 leave the cursor alone.\<close>

definition advanced_cursor :: "ms option \<Rightarrow> ms \<Rightarrow> ms" where
  "advanced_cursor cursor old =
     (case cursor of
        None \<Rightarrow> old
      | Some n \<Rightarrow> if n = 0 then old else if old < n then n else old)"

definition mark_l1_extraction_complete ::
  "string \<Rightarrow> int \<Rightarrow> ms option \<Rightarrow> string option \<Rightarrow> checkpoint \<Rightarrow> checkpoint" where
  "mark_l1_extraction_complete k n cursor scene c =
     (let c = set_runner k (\<lambda>s. s\<lparr>rs_last_l1_cursor := advanced_cursor cursor (rs_last_l1_cursor s),
                                   rs_last_scene_name := patch_or scene (rs_last_scene_name s)\<rparr>) c
      in c\<lparr>ck_total_memories := ck_total_memories c + n,
           ck_memories_since_persona := ck_memories_since_persona c + n\<rparr>)"

text \<open>\<^verbatim>\<open>repairMonotonicCounters\<close>, and whether it repaired something.\<close>

definition repair_monotonic_counters :: "int option \<Rightarrow> int option \<Rightarrow> checkpoint \<Rightarrow> bool \<times> checkpoint" where
  "repair_monotonic_counters scenes msgs c =
     (let low_scenes = (case scenes of None \<Rightarrow> False | Some n \<Rightarrow> ck_scenes_processed c < n);
          c1 = (if low_scenes then c\<lparr>ck_scenes_processed := the scenes\<rparr> else c);
          low_total = (case msgs of None \<Rightarrow> False | Some n \<Rightarrow> ck_total_processed c1 < n);
          c2 = (if low_total then c1\<lparr>ck_total_processed := the msgs\<rparr> else c1)
      in (low_scenes \<or> low_total, c2))"

text \<open>\<^verbatim>\<open>captureAtomically\<close>: the cursor that the callback is given, and what its result
  \<^verbatim>\<open>{maxTimestamp, messageCount}\<close> does.\<close>

definition capture_cursor :: "string \<Rightarrow> ms option \<Rightarrow> checkpoint \<Rightarrow> ms" where
  "capture_cursor k start c =
     (let after = rs_last_captured (fst (get_runner_state k c))
      in if after = 0 then (case start of Some n \<Rightarrow> if 0 < n then n else after | None \<Rightarrow> after) else after)"

definition capture_result :: "string \<Rightarrow> (ms \<times> int) option \<Rightarrow> checkpoint \<Rightarrow> checkpoint" where
  "capture_result k res c =
     (case res of
        None \<Rightarrow> snd (get_runner_state k c)
      | Some (max_ts, n) \<Rightarrow>
          (let c = set_runner k (\<lambda>s. s\<lparr>rs_last_captured := max_ts\<rparr>) c
           in c\<lparr>ck_last_captured := max (ck_last_captured c) max_ts,
                ck_total_processed := ck_total_processed c + n, ck_l0_count := ck_l0_count c + 1\<rparr>))"

definition capture_atomically :: "string \<Rightarrow> ms option \<Rightarrow> (ms \<Rightarrow> (ms \<times> int) option) \<Rightarrow> checkpoint \<Rightarrow> checkpoint" where
  "capture_atomically k start fn c = capture_result k (fn (capture_cursor k start c)) c"

text \<open>The calls that change a checkpoint.\<close>

datatype ck_call =
    MarkPersona ms int
  | ClearRequest
  | RequestPersona string
  | IncrementScenes
  | MergePipeline "(string, session_state) jsmap"
  | MarkL1 string int "ms option" "string option"
  | RepairCounters "int option" "int option"
  | Capture string "ms option" "ms \<Rightarrow> (ms \<times> int) option"

fun ck_apply :: "ck_call \<Rightarrow> checkpoint \<Rightarrow> checkpoint" where
  "ck_apply (MarkPersona now n) c = mark_persona_generated now n c"
| "ck_apply ClearRequest c = clear_persona_request c"
| "ck_apply (RequestPersona reason) c = set_persona_update_request reason c"
| "ck_apply IncrementScenes c = increment_scenes_processed c"
| "ck_apply (MergePipeline states) c = merge_pipeline_states states c"
| "ck_apply (MarkL1 k n cursor scene) c = mark_l1_extraction_complete k n cursor scene c"
| "ck_apply (RepairCounters scenes msgs) c = snd (repair_monotonic_counters scenes msgs c)"
| "ck_apply (Capture k start fn) c = capture_atomically k start fn c"

section \<open>Lemmas\<close>

lemma on_values_on_values [simp]: "on_values f (on_values g m) = on_values (f \<circ> g) m"
  by (simp add: on_values_def comp_def case_prod_unfold)

lemma on_values_id: "(\<And>v. f v = v) \<Longrightarrow> on_values f m = m"
  by (induction m) (auto simp: on_values_def)

lemma runner_roundtrip [simp]: "runner_of_raw (raw_of_runner s) = s"
  by (cases s) (simp add: runner_of_raw_def raw_of_runner_def patch_or_def)

lemma session_roundtrip [simp]: "apply_patch (patch_of_session s) d = s"
  by (cases s) (simp add: apply_patch_def patch_of_session_def patch_or_def)

lemma map_of_on_values [simp]: "map_of (on_values f m) k = map_option f (map_of m k)"
  by (induction m) (auto simp: on_values_def)

lemma patch_or_simps [simp]: "patch_or None d = d" "patch_or (Some v) d = v"
  by (simp_all add: patch_or_def)

lemma set_runner_frame [simp]:
  "ck_pipeline_states (set_runner k f c) = ck_pipeline_states c"
  "ck_scenes_processed (set_runner k f c) = ck_scenes_processed c"
  "ck_total_memories (set_runner k f c) = ck_total_memories c"
  by (simp_all add: set_runner_def get_runner_state_def split: option.split)

lemma set_runner_get:
  "map_of (ck_runner_states (set_runner k f c)) k'
   = (if k' = k then Some (f (jget_or default_runner_state (ck_runner_states c) k)) else map_of (ck_runner_states c) k')"
  by (simp add: set_runner_def get_runner_state_def jget_or_def split: option.split)

text \<open>The cursor of a session as the L1 runner reads it, and the cursors that a call reports.\<close>

definition l1_cursor :: "string \<Rightarrow> checkpoint \<Rightarrow> ms" where
  "l1_cursor k c = rs_last_l1_cursor (fst (get_runner_state k c))"

fun reported_cursors :: "string \<Rightarrow> ck_call list \<Rightarrow> ms list" where
  "reported_cursors k [] = []"
| "reported_cursors k (call # calls) =
     (case call of
        MarkL1 k' n (Some cursor) scene \<Rightarrow> if k' = k \<and> cursor \<noteq> 0 then [cursor] else []
      | _ \<Rightarrow> []) @ reported_cursors k calls"

lemma l1_cursor_alt: "l1_cursor k c = rs_last_l1_cursor (jget_or default_runner_state (ck_runner_states c) k)"
  by (simp add: l1_cursor_def get_runner_state_def jget_or_def split: option.split)

lemma l1_cursor_cong: "ck_runner_states c = ck_runner_states c' \<Longrightarrow> l1_cursor k c = l1_cursor k c'"
  by (simp add: l1_cursor_alt)

lemma l1_cursor_set_runner:
  "l1_cursor k (set_runner k' f c)
   = (if k = k' then rs_last_l1_cursor (f (jget_or default_runner_state (ck_runner_states c) k)) else l1_cursor k c)"
  by (simp add: l1_cursor_alt jget_or_def [of default_runner_state "ck_runner_states (set_runner k' f c)"] set_runner_get)
    (simp add: jget_or_def)

lemma l1_cursor_get_runner [simp]: "l1_cursor k (snd (get_runner_state k' c)) = l1_cursor k c"
  by (auto simp: l1_cursor_alt get_runner_state_def jget_or_def default_runner_state_def split: option.split)

lemma advanced_cursor_max: "advanced_cursor (Some n) old = (if n = 0 then old else max old n)"
  by (auto simp: advanced_cursor_def)

lemma l1_cursor_mark:
  "l1_cursor k (mark_l1_extraction_complete k' n cursor scene c)
   = (if k = k' then advanced_cursor cursor (l1_cursor k c) else l1_cursor k c)"
proof -
  have "l1_cursor k (mark_l1_extraction_complete k' n cursor scene c)
      = l1_cursor k (set_runner k' (\<lambda>s. s\<lparr>rs_last_l1_cursor := advanced_cursor cursor (rs_last_l1_cursor s),
                                       rs_last_scene_name := patch_or scene (rs_last_scene_name s)\<rparr>) c)"
    by (rule l1_cursor_cong) (simp add: mark_l1_extraction_complete_def Let_def)
  then show ?thesis by (simp add: l1_cursor_set_runner) (simp add: l1_cursor_alt)
qed

lemma l1_cursor_capture: "l1_cursor k (capture_atomically k' start fn c) = l1_cursor k c"
proof (cases "fn (capture_cursor k' start c)")
  case None
  then show ?thesis by (simp add: capture_atomically_def capture_result_def)
next
  case (Some r)
  obtain ts n where r: "r = (ts, n)" by (cases r) auto
  have "l1_cursor k (capture_atomically k' start fn c)
      = l1_cursor k (set_runner k' (\<lambda>s. s\<lparr>rs_last_captured := ts\<rparr>) c)"
    using Some r by (intro l1_cursor_cong) (simp add: capture_atomically_def capture_result_def Let_def)
  then show ?thesis by (simp add: l1_cursor_set_runner) (simp add: l1_cursor_alt)
qed

lemma l1_cursor_apply:
  "l1_cursor k (ck_apply call c) = fold max (reported_cursors k [call]) (l1_cursor k c)"
proof (cases call)
  case (MarkL1 k' n cursor scene)
  then show ?thesis
    by (cases cursor) (auto simp: l1_cursor_mark advanced_cursor_max max.commute, simp add: advanced_cursor_def)
next
  case (Capture k' start fn)
  then show ?thesis by (simp add: l1_cursor_capture)
qed (auto simp: mark_persona_generated_def clear_persona_request_def set_persona_update_request_def Let_def
    increment_scenes_processed_def merge_pipeline_states_def repair_monotonic_counters_def intro!: l1_cursor_cong)

lemma reported_cursors_Cons: "reported_cursors k (call # calls) = reported_cursors k [call] @ reported_cursors k calls"
  by simp

lemma scenes_apply: "ck_scenes_processed c \<le> ck_scenes_processed (ck_apply call c)"
  by (cases call) (auto simp: mark_persona_generated_def clear_persona_request_def set_persona_update_request_def
    increment_scenes_processed_def merge_pipeline_states_def mark_l1_extraction_complete_def repair_monotonic_counters_def
    capture_atomically_def capture_result_def get_runner_state_def Let_def split: option.splits)

text \<open>Which of the two namespaces a call writes.\<close>

fun pipeline_call :: "ck_call \<Rightarrow> bool" where
  "pipeline_call (MergePipeline states) = True"
| "pipeline_call _ = False"

lemma pipeline_call_frame:
  "pipeline_call call \<Longrightarrow> ck_runner_states (ck_apply call c) = ck_runner_states c"
  "\<not> pipeline_call call \<Longrightarrow> ck_pipeline_states (ck_apply call c) = ck_pipeline_states c"
  by (cases call; auto simp: merge_pipeline_states_def mark_persona_generated_def clear_persona_request_def
      set_persona_update_request_def increment_scenes_processed_def mark_l1_extraction_complete_def
      repair_monotonic_counters_def capture_atomically_def capture_result_def get_runner_state_def Let_def split: option.splits)+

lemma ck_apply_runner_cong:
  "ck_runner_states c = ck_runner_states c' \<Longrightarrow> ck_runner_states (ck_apply call c) = ck_runner_states (ck_apply call c')"
  by (cases call) (auto simp: merge_pipeline_states_def mark_persona_generated_def clear_persona_request_def
      set_persona_update_request_def increment_scenes_processed_def mark_l1_extraction_complete_def set_runner_def
      repair_monotonic_counters_def capture_atomically_def capture_result_def capture_cursor_def get_runner_state_def
      Let_def split: option.splits)

lemma ck_apply_pipeline_cong:
  "ck_pipeline_states c = ck_pipeline_states c' \<Longrightarrow>
   ck_pipeline_states (ck_apply call c) = ck_pipeline_states (ck_apply call c')"
  by (cases call) (auto simp: merge_pipeline_states_def mark_persona_generated_def clear_persona_request_def
      set_persona_update_request_def increment_scenes_processed_def mark_l1_extraction_complete_def
      repair_monotonic_counters_def capture_atomically_def capture_result_def get_runner_state_def Let_def split: option.splits)

lemma ck_fold_runner_cong:
  "ck_runner_states c = ck_runner_states c' \<Longrightarrow>
   ck_runner_states (fold ck_apply calls c) = ck_runner_states (fold ck_apply (filter (\<lambda>x. \<not> pipeline_call x) calls) c')"
proof (induction calls arbitrary: c c')
  case (Cons a calls)
  show ?case
  proof (cases "pipeline_call a")
    case True
    with Cons.prems pipeline_call_frame(1) [of a c] Cons.IH [of "ck_apply a c" c'] show ?thesis by (auto simp only: fold_simps filter.simps if_True if_False comp_def not_True_eq_False not_False_eq_True)
  next
    case False
    with ck_apply_runner_cong [OF Cons.prems, of a] Cons.IH [of "ck_apply a c" "ck_apply a c'"] show ?thesis by (auto simp only: fold_simps filter.simps if_True if_False comp_def not_True_eq_False not_False_eq_True)
  qed
qed simp

lemma ck_fold_pipeline_cong:
  "ck_pipeline_states c = ck_pipeline_states c' \<Longrightarrow>
   ck_pipeline_states (fold ck_apply calls c) = ck_pipeline_states (fold ck_apply (filter pipeline_call calls) c')"
proof (induction calls arbitrary: c c')
  case (Cons a calls)
  show ?case
  proof (cases "pipeline_call a")
    case False
    with Cons.prems pipeline_call_frame(2) [of a c] Cons.IH [of "ck_apply a c" c'] show ?thesis by (auto simp only: fold_simps filter.simps if_True if_False comp_def not_True_eq_False not_False_eq_True)
  next
    case True
    with ck_apply_pipeline_cong [OF Cons.prems, of a] Cons.IH [of "ck_apply a c" "ck_apply a c'"] show ?thesis by (auto simp only: fold_simps filter.simps if_True if_False comp_def not_True_eq_False not_False_eq_True)
  qed
qed simp

section \<open>Properties\<close>



text \<open>
  the runners and the pipeline manager cannot overwrite each other. After any sequence of
  calls the runner states are those of the runner calls alone, and the pipeline states those of
  the merges alone: the split that the header of the file calls its core guarantee.
\<close>

theorem checkpoint_namespaces_independent:
  "ck_runner_states (fold ck_apply calls c) = ck_runner_states (fold ck_apply (filter (\<lambda>x. \<not> pipeline_call x) calls) c)
   \<and> ck_pipeline_states (fold ck_apply calls c) = ck_pipeline_states (fold ck_apply (filter pipeline_call calls) c)"
  using ck_fold_runner_cong [OF refl] ck_fold_pipeline_cong [OF refl] by blast

end
