(* ===== verification/Checkpoint_Lock.thy ===== *)
theory Checkpoint_Lock
  imports Checkpoint Json_Text
begin

text \<open>
  \<^verbatim>\<open>MemoryCore/src/utils/checkpoint.ts\<close>, the locks: \<^verbatim>\<open>withFileLock\<close> (a chain of promises per
  file inside one process), \<^verbatim>\<open>withDistributedLock\<close> (an expiring lock of the state backend between
  processes) and \<^verbatim>\<open>mutate\<close>, which reads, changes and writes the file under both. Many calls in
  many processes share one file; a call is a position in a list and its phase says where it
  waits. The backend of the lock is an argument, with the contract of \<open>Lock_Service\<close>.
\<close>

section \<open>Calls and their world\<close>

text \<open>A call: its process, the owner id of its \<^verbatim>\<open>CheckpointManager\<close>, whether that one was built with
  lock options, the longest wait, the lifetime of the lock, and the change it makes.\<close>

record cp_call =
  cc_process :: nat
  cc_owner :: string
  cc_locked :: bool
  cc_max_wait :: "ms option"
  cc_ttl :: "ms option"
  cc_change :: ck_call

datatype cp_phase =
    Idle
  | AtGate "nat option"
  | Trying ms ms ms
  | Entered bool
  | Loaded checkpoint bool
  | Written checkpoint bool
  | Finished "string + checkpoint"

text \<open>\<^verbatim>\<open>CheckpointDistributedLock\<close>: key, owner, time and lifetime.\<close>

record 'l lock_backend =
  lk_acquire :: "string \<Rightarrow> string \<Rightarrow> ms \<Rightarrow> ms \<Rightarrow> 'l \<Rightarrow> bool \<times> 'l"
  lk_renew :: "string \<Rightarrow> string \<Rightarrow> ms \<Rightarrow> ms \<Rightarrow> 'l \<Rightarrow> bool \<times> 'l"
  lk_release :: "string \<Rightarrow> string \<Rightarrow> 'l \<Rightarrow> 'l"

text \<open>The file, the state of the lock backend, the last call in each process's chain (its entry in
  \<^verbatim>\<open>fileLocks\<close>), and the calls that wrote, in order.\<close>

record 'l cp_world =
  cw_file :: "file_content option"
  cw_locks :: 'l
  cw_tail :: "nat \<Rightarrow> nat option"
  cw_phase :: "nat \<Rightarrow> cp_phase"
  cw_log :: "nat list"

definition default_lock_ttl :: ms where "default_lock_ttl = 60000"
definition default_lock_max_wait :: ms where "default_lock_max_wait = 30000"

definition checkpoint_lock_key :: "string \<Rightarrow> string" where
  "checkpoint_lock_key k = ''checkpoint:'' @ k"

definition lock_ttl :: "cp_call \<Rightarrow> ms" where
  "lock_ttl x = patch_or (cc_ttl x) default_lock_ttl"

definition renew_interval :: "ms option \<Rightarrow> cp_call \<Rightarrow> ms" where
  "renew_interval opt x = patch_or opt (max 1000 (lock_ttl x div 3))"

definition set_cp :: "nat \<Rightarrow> cp_phase \<Rightarrow> 'l cp_world \<Rightarrow> 'l cp_world" where
  "set_cp c ph w = w\<lparr>cw_phase := (cw_phase w)(c := ph)\<rparr>"

section \<open>The chain of a process\<close>

text \<open>\<^verbatim>\<open>withFileLock\<close>: a call waits for the gate of the call before it; the end of a call opens its
  gate, and removes the entry of the file if no later call has come.\<close>

definition lock_enter :: "cp_call \<Rightarrow> nat \<Rightarrow> 'l cp_world \<Rightarrow> 'l cp_world" where
  "lock_enter x c w =
     (case cw_phase w c of
        Idle \<Rightarrow> set_cp c (AtGate (cw_tail w (cc_process x))) (w\<lparr>cw_tail := (cw_tail w)(cc_process x := Some c)\<rparr>)
      | _ \<Rightarrow> w)"

definition gate_open :: "'l cp_world \<Rightarrow> nat option \<Rightarrow> bool" where
  "gate_open w g = (case g of None \<Rightarrow> True | Some d \<Rightarrow> (case cw_phase w d of Finished r \<Rightarrow> True | _ \<Rightarrow> False))"

definition lock_leave :: "cp_call \<Rightarrow> nat \<Rightarrow> string + checkpoint \<Rightarrow> 'l cp_world \<Rightarrow> 'l cp_world" where
  "lock_leave x c r w =
     (let w = set_cp c (Finished r) w
      in if cw_tail w (cc_process x) = Some c then w\<lparr>cw_tail := (cw_tail w)(cc_process x := None)\<rparr> else w)"

section \<open>The lock between processes\<close>

definition backend_error :: "string \<Rightarrow> string \<Rightarrow> string" where
  "backend_error k e = ''checkpoint lock backend error for '' @ k @ '': '' @ e"

definition unavailable_error :: "string \<Rightarrow> ms \<Rightarrow> string" where
  "unavailable_error k waited =
     ''failed to acquire '' @ k @ '' within '' @ dec_int waited @ ''ms; skipping write (caller should requeue)''"

definition lost_error :: "string \<Rightarrow> string" where
  "lost_error k = ''lock '' @ k @ '' was lost during the critical section; write is not trustworthy''"

text \<open>The gate is open: a manager without lock options enters at once.\<close>

definition pass_gate :: "ms \<Rightarrow> cp_call \<Rightarrow> nat \<Rightarrow> 'l cp_world \<Rightarrow> 'l cp_world" where
  "pass_gate now x c w =
     (case cw_phase w c of
        AtGate g \<Rightarrow>
          if gate_open w g
          then set_cp c (if cc_locked x
                 then Trying now (now + patch_or (cc_max_wait x) default_lock_max_wait) 20 else Entered False) w
          else w
      | _ \<Rightarrow> w)"

text \<open>One round of the acquisition loop; the backend may reject the call.\<close>

definition try_lock :: "'l lock_backend \<Rightarrow> ms \<Rightarrow> string option \<Rightarrow> string \<Rightarrow> cp_call \<Rightarrow> nat \<Rightarrow> 'l cp_world \<Rightarrow> 'l cp_world" where
  "try_lock L now err k x c w =
     (case cw_phase w c of
        Trying started deadline delay \<Rightarrow>
          if now < deadline then
            (case err of
               Some e \<Rightarrow> lock_leave x c (Inl (backend_error k e)) w
             | None \<Rightarrow>
                 (case lk_acquire L k (cc_owner x) now (lock_ttl x) (cw_locks w) of
                    (True, m) \<Rightarrow> set_cp c (Entered False) (w\<lparr>cw_locks := m\<rparr>)
                  | (False, m) \<Rightarrow> set_cp c (Trying started deadline (min (delay * 2) 500)) (w\<lparr>cw_locks := m\<rparr>)))
          else lock_leave x c (Inl (unavailable_error k (now - started))) w
      | _ \<Rightarrow> w)"

text \<open>A tick of the renewal interval, which ends when the lock is lost.\<close>

definition renew_lock :: "'l lock_backend \<Rightarrow> ms \<Rightarrow> string option \<Rightarrow> string \<Rightarrow> cp_call \<Rightarrow> nat \<Rightarrow> 'l cp_world \<Rightarrow> 'l cp_world" where
  "renew_lock L now err k x c w =
     (let renew = (\<lambda>lost. case err of
            Some e \<Rightarrow> set_cp c lost w
          | None \<Rightarrow> (case lk_renew L k (cc_owner x) now (lock_ttl x) (cw_locks w) of
              (True, m) \<Rightarrow> w\<lparr>cw_locks := m\<rparr>
            | (False, m) \<Rightarrow> set_cp c lost (w\<lparr>cw_locks := m\<rparr>)))
      in if cc_locked x then
           (case cw_phase w c of
              Entered False \<Rightarrow> renew (Entered True)
            | Loaded cp False \<Rightarrow> renew (Loaded cp True)
            | Written cp False \<Rightarrow> renew (Written cp True)
            | _ \<Rightarrow> w)
         else w)"

text \<open>The end of the critical section: the lock is released unless it was lost, then the gate opens.\<close>

definition leave_section :: "'l lock_backend \<Rightarrow> string \<Rightarrow> cp_call \<Rightarrow> nat \<Rightarrow> bool \<Rightarrow> string + checkpoint \<Rightarrow> 'l cp_world \<Rightarrow> 'l cp_world" where
  "leave_section L k x c lost r w =
     lock_leave x c r
       (if cc_locked x \<and> \<not> lost then w\<lparr>cw_locks := lk_release L k (cc_owner x) (cw_locks w)\<rparr> else w)"

section \<open>Read, change, write\<close>

text \<open>\<^verbatim>\<open>mutate\<close>: the answer of the storage to the read may be an error; the write may be rejected.\<close>

definition mutate_read :: "string option \<Rightarrow> nat \<Rightarrow> 'l cp_world \<Rightarrow> 'l cp_world" where
  "mutate_read err c w =
     (case cw_phase w c of
        Entered lost \<Rightarrow> set_cp c (Loaded (read_raw (case err of Some e \<Rightarrow> Inl e | None \<Rightarrow> Inr (cw_file w))) lost) w
      | _ \<Rightarrow> w)"

definition mutate_write :: "'l lock_backend \<Rightarrow> string option \<Rightarrow> string \<Rightarrow> cp_call \<Rightarrow> nat \<Rightarrow> 'l cp_world \<Rightarrow> 'l cp_world" where
  "mutate_write L err k x c w =
     (case cw_phase w c of
        Loaded cp lost \<Rightarrow>
          (let cp' = ck_apply (cc_change x) cp
           in case err of
                Some e \<Rightarrow> leave_section L k x c lost (Inl e) w
              | None \<Rightarrow> set_cp c (Written cp' lost) (w\<lparr>cw_file := Some (write_raw cp'), cw_log := cw_log w @ [c]\<rparr>))
      | _ \<Rightarrow> w)"

definition mutate_return :: "'l lock_backend \<Rightarrow> string \<Rightarrow> cp_call \<Rightarrow> nat \<Rightarrow> 'l cp_world \<Rightarrow> 'l cp_world" where
  "mutate_return L k x c w =
     (case cw_phase w c of
        Written cp lost \<Rightarrow> leave_section L k x c lost (if lost then Inl (lost_error k) else Inr cp) w
      | _ \<Rightarrow> w)"

text \<open>\<^verbatim>\<open>write\<close>, which no caller uses: a whole checkpoint, behind the gate but without the lock
  between processes.\<close>

definition checkpoint_write :: "checkpoint \<Rightarrow> cp_call \<Rightarrow> nat \<Rightarrow> 'l cp_world \<Rightarrow> 'l cp_world" where
  "checkpoint_write cp x c w =
     (case cw_phase w c of
        AtGate g \<Rightarrow>
          if gate_open w g then lock_leave x c (Inr cp) (w\<lparr>cw_file := Some (write_raw cp), cw_log := cw_log w @ [c]\<rparr>) else w
      | _ \<Rightarrow> w)"

datatype cp_event =
    CpEnter nat
  | CpGate ms nat
  | CpTry ms "string option" nat
  | CpRenew ms "string option" nat
  | CpRead "string option" nat
  | CpWrite "string option" nat
  | CpReturn nat

fun event_call :: "cp_event \<Rightarrow> nat" where
  "event_call (CpEnter c) = c"
| "event_call (CpGate now c) = c"
| "event_call (CpTry now err c) = c"
| "event_call (CpRenew now err c) = c"
| "event_call (CpRead err c) = c"
| "event_call (CpWrite err c) = c"
| "event_call (CpReturn c) = c"

fun cp_action :: "'l lock_backend \<Rightarrow> string \<Rightarrow> cp_call \<Rightarrow> cp_event \<Rightarrow> 'l cp_world \<Rightarrow> 'l cp_world" where
  "cp_action L k x (CpEnter c) w = lock_enter x c w"
| "cp_action L k x (CpGate now c) w = pass_gate now x c w"
| "cp_action L k x (CpTry now err c) w = try_lock L now err k x c w"
| "cp_action L k x (CpRenew now err c) w = renew_lock L now err k x c w"
| "cp_action L k x (CpRead err c) w = mutate_read err c w"
| "cp_action L k x (CpWrite err c) w = mutate_write L err k x c w"
| "cp_action L k x (CpReturn c) w = mutate_return L k x c w"

definition cp_step :: "'l lock_backend \<Rightarrow> string \<Rightarrow> cp_call list \<Rightarrow> cp_event \<Rightarrow> 'l cp_world \<Rightarrow> 'l cp_world" where
  "cp_step L k calls ev w =
     (if event_call ev < length calls then cp_action L k (calls ! event_call ev) ev w else w)"

definition cp_run :: "'l lock_backend \<Rightarrow> string \<Rightarrow> cp_call list \<Rightarrow> cp_event list \<Rightarrow> 'l cp_world \<Rightarrow> 'l cp_world" where
  "cp_run L k calls evs w = fold (cp_step L k calls) evs w"

definition cp_start :: "file_content option \<Rightarrow> 'l \<Rightarrow> 'l cp_world" where
  "cp_start f l = \<lparr>cw_file = f, cw_locks = l, cw_tail = (\<lambda>p. None), cw_phase = (\<lambda>c. Idle), cw_log = []\<rparr>"

section \<open>The chain is a queue\<close>

text \<open>What the chain of \<^verbatim>\<open>withFileLock\<close> sees of a call, and the three moves of a call in it.\<close>

datatype lock_view = VIdle | VGate "nat option" | VIn | VDone

fun view_of :: "cp_phase \<Rightarrow> lock_view" where
  "view_of Idle = VIdle"
| "view_of (AtGate g) = VGate g"
| "view_of (Finished r) = VDone"
| "view_of _ = VIn"

definition view_open :: "(nat \<Rightarrow> lock_view) \<Rightarrow> nat option \<Rightarrow> bool" where
  "view_open v g \<longleftrightarrow> (case g of None \<Rightarrow> True | Some d \<Rightarrow> v d = VDone)"

fun chain_from :: "(nat \<Rightarrow> lock_view) \<Rightarrow> nat \<Rightarrow> nat list \<Rightarrow> bool" where
  "chain_from v c [] \<longleftrightarrow> True"
| "chain_from v c (d # q) \<longleftrightarrow> v d = VGate (Some c) \<and> chain_from v d q"

fun chain_ok :: "(nat \<Rightarrow> lock_view) \<Rightarrow> nat list \<Rightarrow> bool" where
  "chain_ok v [] \<longleftrightarrow> True"
| "chain_ok v (c # q) \<longleftrightarrow> (v c = VIn \<or> (\<exists>g. v c = VGate g \<and> view_open v g)) \<and> chain_from v c q"

definition waits :: "lock_view \<Rightarrow> bool" where
  "waits x \<longleftrightarrow> x = VIn \<or> (\<exists>g. x = VGate g)"

definition queue_ok :: "(nat \<Rightarrow> nat) \<Rightarrow> nat \<Rightarrow> (nat \<Rightarrow> nat option) \<Rightarrow> (nat \<Rightarrow> lock_view) \<Rightarrow> nat list \<Rightarrow> bool" where
  "queue_ok proc p t v q \<longleftrightarrow> distinct q \<and> set q = {c. proc c = p \<and> waits (v c)}
     \<and> t p = (if q = [] then None else Some (last q)) \<and> chain_ok v q"

definition chains_ok :: "(nat \<Rightarrow> nat) \<Rightarrow> (nat \<Rightarrow> nat option) \<Rightarrow> (nat \<Rightarrow> lock_view) \<Rightarrow> bool" where
  "chains_ok proc t v \<longleftrightarrow> (\<forall>p. \<exists>q. queue_ok proc p t v q)"

lemma chain_from_cong: "(\<And>d. d \<in> set q \<Longrightarrow> v d = v' d) \<Longrightarrow> chain_from v c q = chain_from v' c q"
  by (induction q arbitrary: c) auto

lemma chain_from_upd [simp]: "c \<notin> set q \<Longrightarrow> chain_from (v(c := x)) d q = chain_from v d q"
  by (rule chain_from_cong) auto

lemma view_open_upd: "v c \<noteq> VDone \<Longrightarrow> view_open v g \<Longrightarrow> view_open (v(c := x)) g"
  by (auto simp: view_open_def split: option.splits)

lemma chain_from_snoc: "chain_from v c (q @ [d]) \<longleftrightarrow> chain_from v c q \<and> v d = VGate (Some (last (c # q)))"
  by (induction q arbitrary: c) auto

lemma chain_from_gate: "chain_from v c q \<Longrightarrow> d \<in> set q \<Longrightarrow> \<exists>e \<in> set (c # q). v d = VGate (Some e)"
  by (induction q arbitrary: c) auto

lemma waits_simps [simp]: "waits VIn" "waits (VGate g)" "\<not> waits VIdle" "\<not> waits VDone"
  by (simp_all add: waits_def)

text \<open>Only the first call of the queue can be past its gate, or pass it.\<close>

lemma queue_head:
  assumes "queue_ok proc p t v q" "proc c = p" "v c = VIn \<or> (\<exists>g. v c = VGate g \<and> view_open v g)"
  shows "q \<noteq> [] \<and> hd q = c"
proof -
  have "waits (v c)" using assms(3) by (auto simp: waits_def)
  then have c: "c \<in> set q" using assms(1,2) by (simp add: queue_ok_def)
  then obtain d r where q: "q = d # r" by (cases q) auto
  have "c \<notin> set r"
  proof
    assume "c \<in> set r"
    then obtain e where e: "e \<in> set q" "v c = VGate (Some e)"
      using assms(1) chain_from_gate [of v d r c] unfolding q queue_ok_def by auto
    then have "waits (v e)" using assms(1) by (auto simp: queue_ok_def)
    then show False using assms(3) e(2) by (auto simp: view_open_def)
  qed
  with c q show ?thesis by simp
qed

lemma queue_head_view: "queue_ok proc p t v (c # q) \<Longrightarrow> v c = VIn \<or> (\<exists>g. v c = VGate g \<and> view_open v g)"
  by (simp add: queue_ok_def)

lemma one_inside:
  assumes "chains_ok proc t v" "proc c = proc d" "v c = VIn" "v d = VIn"
  shows "c = d"
proof -
  obtain q where q: "queue_ok proc (proc d) t v q" using assms(1) by (auto simp: chains_ok_def)
  from queue_head [OF q assms(2)] queue_head [OF q refl] assms(3,4) show ?thesis by simp
qed

lemma chains_initially: "(\<And>p. t p = None) \<Longrightarrow> (\<And>c. v c = VIdle) \<Longrightarrow> chains_ok proc t v"
  by (auto simp: chains_ok_def queue_ok_def intro: exI [where x = "[]"])

text \<open>A queue that the move of another call does not touch.\<close>

lemma queue_ok_other:
  assumes "queue_ok proc p t v q" "proc c \<noteq> p" "t' p = t p" "v c \<noteq> VDone" "\<And>d. d \<noteq> c \<Longrightarrow> v' d = v d"
  shows "queue_ok proc p t' v' q"
proof -
  have q: "d \<noteq> c" if "d \<in> set q" for d using assms(1,2) that by (auto simp: queue_ok_def)
  have "chain_ok v' q"
  proof (cases q)
    case (Cons d r)
    have "chain_from v' d r" using assms(1,5) q Cons chain_from_cong [of r v v' d] by (auto simp: queue_ok_def)
    moreover have "v' d = v d" using q Cons assms(5) by simp
    moreover have "view_open v g \<Longrightarrow> view_open v' g" for g
      using assms(4,5) by (cases g; cases "the g = c") (auto simp: view_open_def)
    ultimately show ?thesis using assms(1) Cons by (auto simp: queue_ok_def)
  qed simp
  moreover have "{c. proc c = p \<and> waits (v' c)} = {c. proc c = p \<and> waits (v c)}"
    using assms(2,5) by metis
  ultimately show ?thesis using assms(1,3) by (auto simp: queue_ok_def)
qed

lemma chains_enter:
  assumes "chains_ok proc t v" "v c = VIdle"
  shows "chains_ok proc (t(proc c := Some c)) (v(c := VGate (t (proc c))))"
  unfolding chains_ok_def
proof
  fix p
  obtain q where q: "queue_ok proc p t v q" using assms(1) by (auto simp: chains_ok_def)
  let ?v = "v(c := VGate (t (proc c)))"
  show "\<exists>q. queue_ok proc p (t(proc c := Some c)) ?v q"
  proof (cases "proc c = p")
    case False
    with q assms(2) show ?thesis by (intro exI [of _ q] queue_ok_other [OF q, of c]) auto
  next
    case True
    have c: "c \<notin> set q" using q assms(2) by (auto simp: queue_ok_def)
    have "chain_ok ?v (q @ [c])"
    proof (cases q)
      case Nil
      then show ?thesis using q True by (simp add: queue_ok_def view_open_def)
    next
      case (Cons d r)
      then have h: "v d = VIn \<or> (\<exists>g. v d = VGate g \<and> view_open v g)" "chain_from v d r" "t p = Some (last (d # r))"
        "d \<noteq> c" "c \<notin> set r"
        using q c by (auto simp: queue_ok_def)
      have "?v d = VIn \<or> (\<exists>g. ?v d = VGate g \<and> view_open ?v g)"
        using h(1,4) view_open_upd [of v c] assms(2) by auto
      with h show ?thesis using Cons True by (simp add: chain_from_snoc)
    qed
    moreover have "set (q @ [c]) = {d. proc d = p \<and> waits (?v d)}"
      using q True by (simp add: queue_ok_def set_eq_iff)
    ultimately have "queue_ok proc p (t(proc c := Some c)) ?v (q @ [c])"
      using q True c unfolding queue_ok_def by simp
    then show ?thesis by blast
  qed
qed

lemma chains_pass:
  assumes "chains_ok proc t v" "v c = VGate g" "view_open v g"
  shows "chains_ok proc t (v(c := VIn))"
  unfolding chains_ok_def
proof
  fix p
  obtain q where q: "queue_ok proc p t v q" using assms(1) by (auto simp: chains_ok_def)
  show "\<exists>q. queue_ok proc p t (v(c := VIn)) q"
  proof (cases "proc c = p")
    case False
    with q assms(2) show ?thesis by (intro exI [of _ q] queue_ok_other [OF q, of c]) auto
  next
    case True
    from queue_head [OF q True] assms(2,3) obtain r where r: "q = c # r" by (cases q) auto
    have "c \<notin> set r" using q r by (auto simp: queue_ok_def)
    then have "chain_from (v(c := VIn)) c r" using q r by (simp add: queue_ok_def)
    moreover have "waits ((v(c := VIn)) d) = waits (v d)" for d using assms(2) by simp
    ultimately show ?thesis using q r by (intro exI [of _ q]) (simp add: queue_ok_def)
  qed
qed

lemma chains_leave:
  assumes "chains_ok proc t v" "v c = VIn"
  shows "chains_ok proc (if t (proc c) = Some c then t(proc c := None) else t) (v(c := VDone))"
  unfolding chains_ok_def
proof
  fix p
  obtain q where q: "queue_ok proc p t v q" using assms(1) by (auto simp: chains_ok_def)
  let ?v = "v(c := VDone)" and ?t = "if t (proc c) = Some c then t(proc c := None) else t"
  show "\<exists>q. queue_ok proc p ?t ?v q"
  proof (cases "proc c = p")
    case False
    with q assms(2) show ?thesis by (intro exI [of _ q] queue_ok_other [OF q, of c]) auto
  next
    case True
    from queue_head [OF q True] assms(2) obtain r where r: "q = c # r" by (cases q) auto
    have c: "c \<notin> set r" "distinct r" using q r by (auto simp: queue_ok_def)
    have "{d. proc d = p \<and> waits (?v d)} = {d. proc d = p \<and> waits (v d)} - {c}" by auto
    also have "\<dots> = set r" using q r c by (auto simp: queue_ok_def)
    finally have "set r = {d. proc d = p \<and> waits (?v d)}" by simp
    moreover have "?t p = (if r = [] then None else Some (last r))"
    proof (cases "r = []")
      case False
      then have "last r \<noteq> c" using c last_in_set by metis
      then show ?thesis using q r False True by (simp add: queue_ok_def)
    qed (use q r True in \<open>simp add: queue_ok_def\<close>)
    moreover have "chain_ok ?v r"
    proof (cases r)
      case (Cons d r')
      then have "d \<noteq> c" "c \<notin> set r'" using c by auto
      then show ?thesis using q r Cons by (simp add: queue_ok_def view_open_def)
    qed simp
    ultimately show ?thesis using c by (intro exI [of _ r]) (simp add: queue_ok_def)
  qed
qed

section \<open>Exclusion and serialisation\<close>

definition in_section :: "cp_phase \<Rightarrow> bool" where
  "in_section ph \<longleftrightarrow> (case ph of Entered l \<Rightarrow> True | Loaded cp l \<Rightarrow> True | Written cp l \<Rightarrow> True | _ \<Rightarrow> False)"

definition lock_lost :: "cp_phase \<Rightarrow> bool" where
  "lock_lost ph \<longleftrightarrow> (case ph of Entered l \<Rightarrow> l | Loaded cp l \<Rightarrow> l | Written cp l \<Rightarrow> l | _ \<Rightarrow> False)"

definition process_of :: "cp_call list \<Rightarrow> nat \<Rightarrow> nat" where
  "process_of calls c = cc_process (calls ! c)"

text \<open>Renewals come in time: nobody tries for the lock when it has expired under a call that is still
  in its critical section; the backend does not fail, and neither does a read of the file.\<close>

definition smooth :: "('l \<Rightarrow> string \<Rightarrow> (string \<times> ms) option) \<Rightarrow> string \<Rightarrow> cp_call list \<Rightarrow> cp_event \<Rightarrow> 'l cp_world \<Rightarrow> bool" where
  "smooth holder k calls ev w =
     (case ev of
        CpTry now err c \<Rightarrow> err = None \<and>
          (case holder (cw_locks w) k of
             None \<Rightarrow> True
           | Some (ow, e) \<Rightarrow> now < e \<or> \<not> list_ex (\<lambda>d. in_section (cw_phase w d)) [0..<length calls])
      | CpRenew now err c \<Rightarrow> err = None
      | CpRead err c \<Rightarrow> err = None
      | _ \<Rightarrow> True)"

fun smooth_run :: "'l lock_backend \<Rightarrow> ('l \<Rightarrow> string \<Rightarrow> (string \<times> ms) option) \<Rightarrow> string \<Rightarrow> cp_call list
    \<Rightarrow> cp_event list \<Rightarrow> 'l cp_world \<Rightarrow> bool" where
  "smooth_run L holder k calls [] w \<longleftrightarrow> True"
| "smooth_run L holder k calls (ev # evs) w \<longleftrightarrow>
     smooth holder k calls ev w \<and> smooth_run L holder k calls evs (cp_step L k calls ev w)"

text \<open>Every manager has lock options, and managers of different processes have different owner ids.\<close>

definition owners_ok :: "cp_call list \<Rightarrow> bool" where
  "owners_ok calls \<longleftrightarrow> list_all cc_locked calls
     \<and> list_all (\<lambda>x. list_all (\<lambda>y. cc_owner x = cc_owner y \<longrightarrow> cc_process x = cc_process y) calls) calls"

definition views :: "(nat \<Rightarrow> cp_phase) \<Rightarrow> nat \<Rightarrow> lock_view" where
  "views f c = view_of (f c)"

definition chain_inv :: "cp_call list \<Rightarrow> 'l cp_world \<Rightarrow> bool" where
  "chain_inv calls w \<longleftrightarrow> chains_ok (process_of calls) (cw_tail w) (views (cw_phase w))"

lemma view_in_section: "in_section ph \<Longrightarrow> view_of ph = VIn"
  by (cases ph) (auto simp: in_section_def)

lemma set_cp_simps [simp]:
  "cw_phase (set_cp c ph w) = (cw_phase w)(c := ph)" "cw_file (set_cp c ph w) = cw_file w"
  "cw_locks (set_cp c ph w) = cw_locks w" "cw_tail (set_cp c ph w) = cw_tail w" "cw_log (set_cp c ph w) = cw_log w"
  by (simp_all add: set_cp_def)

lemma lock_leave_simps [simp]:
  "cw_phase (lock_leave x c r w) = (cw_phase w)(c := Finished r)" "cw_file (lock_leave x c r w) = cw_file w"
  "cw_locks (lock_leave x c r w) = cw_locks w" "cw_log (lock_leave x c r w) = cw_log w"
  "cw_tail (lock_leave x c r w) = (if cw_tail w (cc_process x) = Some c then (cw_tail w)(cc_process x := None) else cw_tail w)"
  by (simp_all add: lock_leave_def Let_def)

lemma views_upd [simp]: "views (f(c := ph)) = (views f)(c := view_of ph)"
  by (auto simp: views_def)

lemma chain_inv_inside:
  assumes "chain_inv calls w" "cw_tail w' = cw_tail w" "cw_phase w' = (cw_phase w)(c := ph)"
    and "view_of ph = view_of (cw_phase w c)"
  shows "chain_inv calls w'"
proof -
  have "views (cw_phase w') = views (cw_phase w)" using assms(3,4) by (auto simp: views_def)
  then show ?thesis using assms(1,2) by (simp add: chain_inv_def)
qed

lemma chain_inv_locks [simp]: "chain_inv calls (w\<lparr>cw_locks := l\<rparr>) = chain_inv calls w"
  by (simp add: chain_inv_def)

lemma chain_inv_leave:
  assumes "chain_inv calls w" "view_of (cw_phase w c) = VIn" "cw_tail w' = cw_tail w" "cw_phase w' = cw_phase w"
  shows "chain_inv calls (lock_leave (calls ! c) c r w')"
  using chains_leave [of "process_of calls" "cw_tail w" "views (cw_phase w)" c] assms
  by (cases "cw_tail w (process_of calls c) = Some c")
    (simp_all add: chain_inv_def views_def [of "cw_phase w" c] process_of_def [symmetric])

lemma gate_open_view: "gate_open w g \<longleftrightarrow> view_open (views (cw_phase w)) g"
proof -
  have "(case ph of Finished r \<Rightarrow> True | _ \<Rightarrow> False) \<longleftrightarrow> view_of ph = VDone" for ph by (cases ph) auto
  then show ?thesis by (auto simp: gate_open_def view_open_def views_def split: option.split)
qed

lemma chain_inv_enter:
  assumes "chain_inv calls w"
  shows "chain_inv calls (lock_enter (calls ! c) c w)"
proof (cases "cw_phase w c")
  case Idle
  then show ?thesis
    using chains_enter [of "process_of calls" "cw_tail w" "views (cw_phase w)" c] assms
    by (simp add: chain_inv_def views_def [of "cw_phase w" c] process_of_def lock_enter_def)
qed (use assms in \<open>simp_all add: lock_enter_def\<close>)

lemma chain_inv_pass:
  assumes "chain_inv calls w"
  shows "chain_inv calls (pass_gate now (calls ! c) c w)"
proof (cases "cw_phase w c")
  case (AtGate g)
  then show ?thesis
    using chains_pass [of "process_of calls" "cw_tail w" "views (cw_phase w)" c g] assms
    by (simp add: chain_inv_def views_def [of "cw_phase w" c] pass_gate_def gate_open_view)
qed (use assms in \<open>simp_all add: pass_gate_def\<close>)

lemma chain_inv_section:
  assumes "chain_inv calls w" "view_of (cw_phase w c) = VIn"
  shows "chain_inv calls (leave_section L k (calls ! c) c lost r w)"
  unfolding leave_section_def by (rule chain_inv_leave [OF assms]) simp_all

lemma chain_inv_try: "chain_inv calls w \<Longrightarrow> chain_inv calls (try_lock L now err k (calls ! c) c w)"
  by (cases "cw_phase w c")
    (auto simp: try_lock_def split: option.split prod.split bool.split intro: chain_inv_leave chain_inv_inside)

lemma chain_inv_renew: "chain_inv calls w \<Longrightarrow> chain_inv calls (renew_lock L now err k x c w)"
  by (cases "cw_phase w c")
    (auto simp: renew_lock_def Let_def split: option.split prod.split bool.split
      intro: chain_inv_inside [where c = c] chain_inv_inside [where c = c and ph = "cw_phase w c"])

lemma chain_inv_mutate:
  assumes "chain_inv calls w"
  shows "chain_inv calls (mutate_read err c w)" "chain_inv calls (mutate_write L err k (calls ! c) c w)"
    "chain_inv calls (mutate_return L k (calls ! c) c w)"
  using assms
  by (cases "cw_phase w c"; auto simp: mutate_read_def mutate_write_def mutate_return_def Let_def split: option.split
      intro: chain_inv_inside [where c = c] chain_inv_section)+

lemma chain_inv_step:
  assumes "chain_inv calls w"
  shows "chain_inv calls (cp_step L k calls ev w)"
  using assms unfolding cp_step_def
  by (cases ev) (auto intro: chain_inv_enter chain_inv_pass chain_inv_try chain_inv_renew chain_inv_mutate)

lemma chain_inv_start: "chain_inv calls (cp_start f l)"
  by (auto simp: chain_inv_def cp_start_def views_def intro: chains_initially)

text \<open>The backend keeps the contract of an expiring lock. Under a smooth run every call in its critical
  section holds the lock, so at most one call of all processes is in its section.\<close>

locale checkpoint_lock =
  fixes L :: "'l lock_backend"
    and holder :: "'l \<Rightarrow> string \<Rightarrow> (string \<times> ms) option"
    and invar :: "'l \<Rightarrow> bool"
  assumes backend: "lock_service (lk_acquire L) (lk_renew L) (lk_release L) holder invar"

sublocale checkpoint_lock \<subseteq> lock_service "lk_acquire L" "lk_renew L" "lk_release L" holder invar
  by (rule backend)

text \<open>The calls took effect one after the other, in the order of their writes.\<close>

definition changes :: "cp_call list \<Rightarrow> nat list \<Rightarrow> checkpoint \<Rightarrow> checkpoint" where
  "changes calls cs c = fold (\<lambda>i. ck_apply (cc_change (calls ! i))) cs c"

definition stored :: "cp_phase \<Rightarrow> bool" where
  "stored ph \<longleftrightarrow> (case ph of Written cp l \<Rightarrow> True | Finished (Inr cp) \<Rightarrow> True | _ \<Rightarrow> False)"

definition over :: "cp_phase \<Rightarrow> bool" where
  "over ph \<longleftrightarrow> (case ph of Written cp l \<Rightarrow> True | Finished r \<Rightarrow> True | _ \<Rightarrow> False)"

definition up_to_date :: "cp_phase \<Rightarrow> checkpoint \<Rightarrow> bool" where
  "up_to_date ph c \<longleftrightarrow> (case ph of Loaded cp l \<Rightarrow> cp = c | _ \<Rightarrow> True)"

definition serial :: "cp_call list \<Rightarrow> file_content option \<Rightarrow> 'l cp_world \<Rightarrow> bool" where
  "serial calls f w \<longleftrightarrow>
     read_raw (Inr (cw_file w)) = changes calls (cw_log w) (read_raw (Inr f))
     \<and> (\<forall>c. up_to_date (cw_phase w c) (read_raw (Inr (cw_file w))))
     \<and> distinct (cw_log w) \<and> (\<forall>c \<in> set (cw_log w). over (cw_phase w c))
     \<and> (\<forall>c. stored (cw_phase w c) \<longrightarrow> c \<in> set (cw_log w))"

lemma serial_same:
  assumes "cw_file w' = cw_file w" "cw_log w' = cw_log w" "cw_phase w' = cw_phase w"
  shows "serial calls f w' = serial calls f w"
  unfolding serial_def by (simp only: assms)

lemma serial_quiet:
  assumes "serial calls f w" "cw_file w' = cw_file w" "cw_log w' = cw_log w" "cw_phase w' = (cw_phase w)(c := ph)"
    and "over (cw_phase w c) \<longrightarrow> over ph" "stored ph \<longrightarrow> stored (cw_phase w c)"
    and "up_to_date ph (read_raw (Inr (cw_file w)))"
  shows "serial calls f w'"
  using assms unfolding serial_def by auto

lemma read_write [simp]: "read_raw (Inr (Some (write_raw c))) = c"
  by (cases c) (simp add: read_raw_def write_raw_def checkpoint_of_raw_def raw_of_checkpoint_def session_parts_def on_values_id)

lemma serial_write:
  assumes "serial calls f w" "cw_phase w c = Loaded cp l" "\<And>d. in_section (cw_phase w d) \<Longrightarrow> d = c"
  shows "serial calls f (set_cp c (Written (ck_apply (cc_change (calls ! c)) cp) l)
    (w\<lparr>cw_file := Some (write_raw (ck_apply (cc_change (calls ! c)) cp)), cw_log := cw_log w @ [c]\<rparr>))"
proof -
  have "up_to_date (cw_phase w c) (changes calls (cw_log w) (read_raw (Inr f)))" using assms(1) unfolding serial_def by metis
  then have "cp = changes calls (cw_log w) (read_raw (Inr f))" using assms(2) by (simp add: up_to_date_def)
  moreover have "c \<notin> set (cw_log w)" using assms(1,2) by (auto simp: serial_def over_def)
  moreover have "up_to_date (cw_phase w d) cp'" if "d \<noteq> c" for d cp'
    using assms(3) [of d] that by (cases "cw_phase w d") (auto simp: in_section_def up_to_date_def)
  ultimately show ?thesis using assms(1,2) unfolding serial_def by (auto simp: changes_def over_def stored_def up_to_date_def [of "Written cp' l'" for cp' l'])
qed

context checkpoint_lock begin

definition holds :: "string \<Rightarrow> cp_call list \<Rightarrow> 'l cp_world \<Rightarrow> bool" where
  "holds k calls w \<longleftrightarrow> invar (cw_locks w)
     \<and> (\<forall>c < length calls. in_section (cw_phase w c) \<longrightarrow>
          \<not> lock_lost (cw_phase w c) \<and> (\<exists>e. holder (cw_locks w) k = Some (cc_owner (calls ! c), e)))
     \<and> (\<forall>c. length calls \<le> c \<longrightarrow> cw_phase w c = Idle)"

lemma one_in_section:
  assumes "owners_ok calls" "chain_inv calls w" "holds k calls w"
    and "in_section (cw_phase w c)" "in_section (cw_phase w d)"
  shows "c = d"
proof -
  have l: "c < length calls" "d < length calls"
    using assms(3-5) by (auto simp: holds_def in_section_def intro!: not_le_imp_less)
  then obtain e e' where "holder (cw_locks w) k = Some (cc_owner (calls ! c), e)"
      "holder (cw_locks w) k = Some (cc_owner (calls ! d), e')"
    using assms(3-5) unfolding holds_def by blast
  then have "cc_process (calls ! c) = cc_process (calls ! d)"
    using assms(1) l by (auto simp: owners_ok_def list_all_iff)
  then show ?thesis
    using one_inside [of "process_of calls" "cw_tail w" "views (cw_phase w)" c d] assms(2,4,5) view_in_section
    by (simp add: chain_inv_def process_of_def views_def)
qed

lemma holds_outside:
  assumes "holds k calls w" "c < length calls" "cw_phase w' = (cw_phase w)(c := ph)" "\<not> in_section ph" "cw_locks w' = cw_locks w"
  shows "holds k calls w'"
  using assms by (auto simp: holds_def)

lemma holds_inside:
  assumes "holds k calls w" "c < length calls" "cw_phase w' = (cw_phase w)(c := ph)" "cw_locks w' = cw_locks w"
    and "in_section (cw_phase w c)" "lock_lost ph = lock_lost (cw_phase w c)"
  shows "holds k calls w'"
  using assms unfolding holds_def by auto

lemma holds_leave:
  assumes "owners_ok calls" "chain_inv calls w" "holds k calls w" "c < length calls" "in_section (cw_phase w c)"
  shows "holds k calls (leave_section L k (calls ! c) c lost r w)"
proof -
  have "d = c" if "in_section (cw_phase w d)" for d using one_in_section [OF assms(1-3) that assms(5)] .
  then show ?thesis
    using assms(3,4) invar_release by (auto simp: holds_def leave_section_def in_section_def)
qed

lemma holds_try:
  assumes "owners_ok calls" "holds k calls w" "c < length calls" "smooth holder k calls (CpTry now err c) w"
  shows "holds k calls (try_lock L now err k (calls ! c) c w)"
proof (cases "cw_phase w c")
  case (Trying started deadline delay)
  let ?x = "calls ! c"
  have i: "invar (cw_locks w)" using assms(2) by (simp add: holds_def)
  obtain r m where a: "lk_acquire L k (cc_owner ?x) now (lock_ttl ?x) (cw_locks w) = (r, m)" by fastforce
  have e: "now < e" if "d < length calls" "in_section (cw_phase w d)" "holder (cw_locks w) k = Some (cc_owner (calls ! d), e)" for d e
    using assms(4) that by (auto simp: smooth_def list_ex_iff)
  have m: "invar m" using invar_acquire [OF i, of k "cc_owner ?x" now "lock_ttl ?x"] a by simp
  show ?thesis
  proof (cases r)
    case True
    have none: "\<not> in_section (cw_phase w d)" if dl: "d < length calls" for d
    proof
      assume d: "in_section (cw_phase w d)"
      then obtain e' where h: "holder (cw_locks w) k = Some (cc_owner (calls ! d), e')" using assms(2) dl by (auto simp: holds_def)
      from acquire_held [OF i h e [OF dl d h]] a True show False by (metis fst_conv)
    qed
    have "holder m k = Some (cc_owner ?x, now + lock_ttl ?x)"
    proof -
      have "e' \<le> now" if "holder (cw_locks w) k = Some (ow, e')" for ow e'
        using acquire_held [OF i that, of now "cc_owner ?x" "lock_ttl ?x"] a True by (metis fst_conv not_le_imp_less)
      from acquire_free [OF i, of k now "cc_owner ?x" "lock_ttl ?x"] this a show ?thesis by auto
    qed
    then show ?thesis
      using assms(2,3,4) none m True Trying a
      by (auto simp: holds_def try_lock_def smooth_def in_section_def lock_lost_def)
  next
    case False
    have k: "holder m k = Some (cc_owner (calls ! d), e')"
      if "d < length calls" "in_section (cw_phase w d)" "holder (cw_locks w) k = Some (cc_owner (calls ! d), e')" for d e'
      using acquire_keeps [OF i that(3) e [OF that], of k "cc_owner ?x" "lock_ttl ?x"] a by simp
    have "\<exists>e'. holder m k = Some (cc_owner (calls ! d), e')" if "d < length calls" "in_section (cw_phase w d)" for d
      using assms(2) that k unfolding holds_def by blast
    then show ?thesis
      using assms(2,3,4) m False Trying a
      by (auto simp: holds_def try_lock_def smooth_def in_section_def lock_lost_def)
  qed
qed (use assms in \<open>simp_all add: try_lock_def\<close>)

lemma holds_renew:
  assumes "owners_ok calls" "chain_inv calls w" "holds k calls w" "c < length calls" "smooth holder k calls (CpRenew now err c) w"
  shows "holds k calls (renew_lock L now err k (calls ! c) c w) \<and>
    cw_phase (renew_lock L now err k (calls ! c) c w) = cw_phase w"
proof (cases "in_section (cw_phase w c)")
  case True
  let ?x = "calls ! c"
  obtain e where h: "holder (cw_locks w) k = Some (cc_owner ?x, e)" and n: "\<not> lock_lost (cw_phase w c)"
    using assms(3,4) True by (auto simp: holds_def)
  have i: "invar (cw_locks w)" using assms(3) by (simp add: holds_def)
  obtain m where m: "lk_renew L k (cc_owner ?x) now (lock_ttl ?x) (cw_locks w) = (True, m)"
    using renew_owner [OF i] h by (metis (full_types) prod.collapse)
  have i': "invar m" using invar_renew [OF i, of k "cc_owner ?x" now "lock_ttl ?x"] m by simp
  have h': "holder m k = Some (cc_owner ?x, now + lock_ttl ?x)" using renew_sets [OF i h, of now "lock_ttl ?x"] m by simp
  have d: "d = c" if "in_section (cw_phase w d)" for d using one_in_section [OF assms(1-3) that True] .
  have "renew_lock L now err k ?x c w = (if cc_locked ?x then w\<lparr>cw_locks := m\<rparr> else w)"
    using True n m assms(5) by (cases "cw_phase w c") (auto simp: renew_lock_def in_section_def lock_lost_def smooth_def)
  then show ?thesis using assms(3) i' h' d by (auto simp: holds_def)
next
  case False
  then show ?thesis using assms(3) by (cases "cw_phase w c") (auto simp: renew_lock_def in_section_def)
qed

lemma holds_step:
  assumes "owners_ok calls" "chain_inv calls w" "holds k calls w" "smooth holder k calls ev w"
  shows "holds k calls (cp_step L k calls ev w)"
proof (cases "event_call ev < length calls")
  case True
  have lk: "cc_locked (calls ! c)" if "c < length calls" for c using assms(1) that by (simp add: owners_ok_def list_all_iff)
  from True show ?thesis
  proof (cases ev)
    case (CpEnter c)
    then show ?thesis using assms(3) True
      by (cases "cw_phase w c") (auto simp: cp_step_def lock_enter_def holds_def in_section_def)
  next
    case (CpGate now c)
    then show ?thesis using assms(3) True lk
      by (cases "cw_phase w c") (auto simp: cp_step_def pass_gate_def holds_def in_section_def)
  next
    case (CpRead err c)
    then show ?thesis using assms(3) True
      by (cases "cw_phase w c") (auto simp: cp_step_def mutate_read_def in_section_def lock_lost_def intro: holds_inside [where c = c])
  next
    case (CpWrite err c)
    then show ?thesis using assms(3) True holds_leave [OF assms(1-3), of c]
      by (cases "cw_phase w c")
        (auto simp: cp_step_def mutate_write_def in_section_def lock_lost_def Let_def split: option.split intro: holds_inside [where c = c])
  next
    case (CpReturn c)
    then show ?thesis using assms(3) True holds_leave [OF assms(1-3), of c]
      by (cases "cw_phase w c") (auto simp: cp_step_def mutate_return_def in_section_def)
  qed (use assms True holds_try holds_renew in \<open>simp_all add: cp_step_def\<close>)
qed (use assms(3) in \<open>simp add: cp_step_def\<close>)

lemma serial_step:
  assumes "owners_ok calls" "chain_inv calls w" "holds k calls w" "smooth holder k calls ev w" "serial calls f w"
  shows "serial calls f (cp_step L k calls ev w)"
proof (cases "event_call ev < length calls")
  case True
  have lk: "cc_locked (calls ! c)" if "c < length calls" for c using assms(1) that by (simp add: owners_ok_def list_all_iff)
  note one = one_in_section [OF assms(1-3)]
  from True show ?thesis
  proof (cases ev)
    case (CpEnter c)
    then show ?thesis using assms(5) True
      by (cases "cw_phase w c") (auto simp: cp_step_def lock_enter_def over_def stored_def up_to_date_def intro: serial_quiet [where c = c])
  next
    case (CpGate now c)
    then show ?thesis using assms(5) True lk
      by (cases "cw_phase w c") (auto simp: cp_step_def pass_gate_def over_def stored_def up_to_date_def intro: serial_quiet [where c = c])
  next
    case (CpTry now err c)
    show ?thesis
    proof (cases "cw_phase w c")
      case (Trying started deadline delay)
      obtain r m where a: "lk_acquire L k (cc_owner (calls ! c)) now (lock_ttl (calls ! c)) (cw_locks w) = (r, m)" by fastforce
      let ?ph = "if now < deadline then if r then Entered False else Trying started deadline (min (delay * 2) 500)
        else Finished (Inl (unavailable_error k (now - started)))"
      have e: "err = None" using assms(4) CpTry by (simp add: smooth_def)
      show ?thesis
        by (rule serial_quiet [OF assms(5), where c = c and ph = ?ph])
          (use CpTry True Trying a e in \<open>auto simp: cp_step_def try_lock_def over_def stored_def up_to_date_def split: bool.split\<close>)
    qed (use CpTry True assms(5) in \<open>simp_all add: cp_step_def try_lock_def\<close>)
  next
    case (CpRenew now err c)
    let ?w = "renew_lock L now err k (calls ! c) c w"
    have "cw_phase ?w = cw_phase w" using holds_renew [OF assms(1-3)] assms(4) CpRenew True by simp
    moreover have "cw_file ?w = cw_file w" "cw_log ?w = cw_log w"
      by (cases "cw_phase w c"; auto simp: renew_lock_def Let_def split: option.split prod.split bool.split)+
    ultimately have "serial calls f ?w" using assms(5) serial_same by metis
    then show ?thesis using CpRenew True by (simp add: cp_step_def)
  next
    case (CpRead err c)
    show ?thesis
    proof (cases "cw_phase w c")
      case (Entered l)
      show ?thesis
        by (rule serial_quiet [OF assms(5), where c = c and ph = "Loaded (read_raw (Inr (cw_file w))) l"])
          (use CpRead True Entered assms(4) in \<open>simp_all add: cp_step_def mutate_read_def smooth_def over_def
            stored_def up_to_date_def\<close>)
    qed (use CpRead True assms(5) in \<open>simp_all add: cp_step_def mutate_read_def\<close>)
  next
    case (CpWrite err c)
    show ?thesis
    proof (cases "cw_phase w c")
      case (Loaded cp l)
      have o: "d = c" if "in_section (cw_phase w d)" for d using one [OF that] Loaded by (simp add: in_section_def)
      show ?thesis
      proof (cases err)
        case None
        then show ?thesis using serial_write [OF assms(5) Loaded o] CpWrite True Loaded
          by (simp add: cp_step_def mutate_write_def Let_def)
      next
        case (Some e)
        show ?thesis
          by (rule serial_quiet [OF assms(5), where c = c and ph = "Finished (Inl e)"])
            (use Some CpWrite True Loaded in \<open>simp_all add: cp_step_def mutate_write_def leave_section_def Let_def
              over_def stored_def up_to_date_def\<close>)
      qed
    qed (use CpWrite True assms(5) in \<open>simp_all add: cp_step_def mutate_write_def\<close>)
  next
    case (CpReturn c)
    have nl: "\<not> l" if "cw_phase w c = Written cp l" for cp l
      using assms(3) CpReturn True that by (auto simp: holds_def in_section_def lock_lost_def)
    show ?thesis
    proof (cases "cw_phase w c")
      case (Written cp l)
      show ?thesis
        by (rule serial_quiet [OF assms(5), where c = c and ph = "Finished (Inr cp)"])
          (use CpReturn True Written nl [OF Written] in \<open>simp_all add: cp_step_def mutate_return_def leave_section_def
            over_def stored_def up_to_date_def\<close>)
    qed (use CpReturn True assms(5) in \<open>simp_all add: cp_step_def mutate_return_def\<close>)
  qed
qed (use assms(5) in \<open>simp add: cp_step_def\<close>)

lemma serial_run:
  assumes "owners_ok calls" "chain_inv calls w" "holds k calls w" "serial calls f w" "smooth_run L holder k calls evs w"
  shows "serial calls f (cp_run L k calls evs w) \<and> holds k calls (cp_run L k calls evs w)
    \<and> chain_inv calls (cp_run L k calls evs w)"
  using assms(2-)
proof (induction evs arbitrary: w)
  case (Cons ev evs)
  have s: "smooth holder k calls ev w" "smooth_run L holder k calls evs (cp_step L k calls ev w)" using Cons.prems(4) by simp_all
  from Cons.IH [OF chain_inv_step [OF Cons.prems(1)] holds_step [OF assms(1) Cons.prems(1,2) s(1)]
      serial_step [OF assms(1) Cons.prems(1,2) s(1) Cons.prems(3)] s(2)]
  show ?case by (simp add: cp_run_def)
qed (simp add: cp_run_def)

lemma serial_start: "invar l \<Longrightarrow> serial calls f (cp_start f l) \<and> holds k calls (cp_start f l)"
  by (simp add: serial_def holds_def cp_start_def changes_def in_section_def stored_def up_to_date_def)

end

section \<open>On the local state backend\<close>

definition local_lock_backend :: "local_backend lock_backend" where
  "local_lock_backend = \<lparr>lk_acquire = lb_acquire_lock, lk_renew = lb_renew_lock, lk_release = lb_release_lock\<rparr>"

interpretation local_cp: checkpoint_lock local_lock_backend lb_holder lb_locks_ok
  by (rule checkpoint_lock.intro) (simp add: local_lock_backend_def lb_locks.lock_service_axioms)

section \<open>Properties\<close>


definition demo_calls :: "cp_call list" where
  "demo_calls = [\<lparr>cc_process = 0, cc_owner = ''cp-1'', cc_locked = True, cc_max_wait = None, cc_ttl = None,
       cc_change = MarkL1 ''s'' 2 (Some 7) None\<rparr>,
     \<lparr>cc_process = 1, cc_owner = ''cp-2'', cc_locked = True, cc_max_wait = None, cc_ttl = None,
       cc_change = MarkL1 ''t'' 1 (Some 9) (Some ''work'')\<rparr>]"

definition demo_interleaved :: "cp_event list" where
  "demo_interleaved = [CpEnter 0, CpEnter 1, CpGate 1 0, CpGate 1 1, CpTry 2 None 0, CpTry 3 None 1, CpRead None 0,
     CpRenew 4 None 0, CpWrite None 0, CpReturn 0, CpTry 30 None 1, CpRead None 1, CpWrite None 1, CpReturn 1]"


text \<open>
  a manager without lock options loses the updates of others. The captures, the persona and scene
  stages and the persister build their \<^verbatim>\<open>CheckpointManager\<close> without the lock that the L1 stage
  uses: whatever such a call changes, when it reads before the locked call of another process
  writes, and writes after it, both calls return normally, and the locked call has left no trace in
  the file.
\<close>

definition lost_update_run :: "cp_event list" where
  "lost_update_run = [CpEnter 0, CpEnter 1, CpGate 1 0, CpGate 1 1, CpTry 2 None 0, CpRead None 0, CpRead None 1,
     CpWrite None 0, CpReturn 0, CpWrite None 1, CpReturn 1]"

theorem unlocked_writer_loses_update:
  assumes "cc_process x \<noteq> cc_process y" "cc_locked x" "\<not> cc_locked y" "0 < patch_or (cc_max_wait x) default_lock_max_wait - 1"
    and "w = cp_run local_lock_backend k [x, y] lost_update_run (cp_start f (new_backend cb))"
  shows "read_raw (Inr (cw_file w)) = ck_apply (cc_change y) (read_raw (Inr f))
    \<and> cw_phase w 0 = Finished (Inr (ck_apply (cc_change x) (read_raw (Inr f))))
    \<and> cw_phase w 1 = Finished (Inr (ck_apply (cc_change y) (read_raw (Inr f))))"
  using assms(1-4) unfolding assms(5)
  by (simp add: cp_run_def lost_update_run_def cp_step_def lock_enter_def pass_gate_def gate_open_def try_lock_def
      mutate_read_def mutate_write_def mutate_return_def leave_section_def cp_start_def local_lock_backend_def
      lb_acquire_lock_def new_backend_def lt_clean_def Let_def set_cp_def lock_leave_def)

definition demo_unlocked :: cp_call where
  "demo_unlocked = \<lparr>cc_process = 1, cc_owner = ''cp-2'', cc_locked = False, cc_max_wait = None, cc_ttl = None,
     cc_change = Capture ''t'' None (\<lambda>after. Some (50, 1))\<rparr>"

theorem unlocked_writer_loses_update_witness:
  "\<exists>w. w = cp_run local_lock_backend ''i'' [demo_calls ! 0, demo_unlocked] lost_update_run (cp_start None (new_backend False))
     \<and> l1_cursor ''s'' (read_raw (Inr (cw_file w))) = 0"
proof -
  let ?w = "cp_run local_lock_backend ''i'' [demo_calls ! 0, demo_unlocked] lost_update_run (cp_start None (new_backend False))"
  have "read_raw (Inr (cw_file ?w)) = ck_apply (cc_change demo_unlocked) (read_raw (Inr None))"
    using unlocked_writer_loses_update [where x = "demo_calls ! 0" and y = demo_unlocked and k = "''i''" and f = None
        and cb = False, OF _ _ _ _ refl]
    by (simp add: demo_calls_def demo_unlocked_def default_lock_max_wait_def)
  moreover have "l1_cursor ''s'' (ck_apply (cc_change demo_unlocked) (read_raw (Inr None))) = 0" by code_simp
  ultimately show ?thesis by simp
qed

text \<open>
  C27: a failed read erases the progress of every session. \<^verbatim>\<open>readRaw\<close> turns any error of the
  storage into the default checkpoint, and the call that read it writes that back: the file then
  holds this call's change alone, and every other session starts again from the beginning.
\<close>

theorem failed_read_erases_progress:
  assumes "cw_phase w c = Entered l" "c < length calls"
    and "w' = cp_run L k calls [CpRead (Some e) c, CpWrite None c] w"
  shows "read_raw (Inr (cw_file w')) = ck_apply (cc_change (calls ! c)) default_checkpoint
    \<and> l1_cursor s (read_raw (Inr (cw_file w'))) = fold max (reported_cursors s [cc_change (calls ! c)]) 0"
proof -
  have "read_raw (Inr (cw_file w')) = ck_apply (cc_change (calls ! c)) default_checkpoint"
    using assms by (simp add: cp_run_def cp_step_def mutate_read_def mutate_write_def Let_def) (simp add: read_raw_def)
  moreover have "l1_cursor s default_checkpoint = 0"
    by (simp add: l1_cursor_alt default_checkpoint_def default_runner_state_def)
  ultimately show ?thesis using l1_cursor_apply [of s "cc_change (calls ! c)" default_checkpoint] by simp
qed

theorem failed_read_erases_progress_witness:
  "\<exists>w. w = cp_run local_lock_backend ''i'' demo_calls [CpRead (Some ''timeout'') 1, CpWrite None 1]
           (cp_run local_lock_backend ''i'' demo_calls (take 11 demo_interleaved) (cp_start None (new_backend False)))
     \<and> l1_cursor ''s'' (read_raw (Inr (cw_file w))) = 0"
proof -
  let ?v = "cp_run local_lock_backend ''i'' demo_calls (take 11 demo_interleaved) (cp_start None (new_backend False))"
  have "cw_phase ?v 1 = Entered False" "1 < length demo_calls" by code_simp+
  note failed_read_erases_progress [OF this refl, where L = local_lock_backend and k = "''i''"
      and e = "''timeout''" and s = "''s''"]
  moreover have "fold max (reported_cursors ''s'' [cc_change (demo_calls ! 1)]) 0 = 0" by code_simp
  ultimately show ?thesis by (metis (lifting))
qed

text \<open>A call whose lock was lost reports that nothing was written, but its change is in the file.\<close>

lemma lost_lock_write_landed:
  assumes "cw_phase w c = Loaded cp True" "c < length calls" "w' = cp_run L k calls [CpWrite None c, CpReturn c] w"
  shows "cw_phase w' c = Finished (Inl (lost_error k)) \<and> read_raw (Inr (cw_file w')) = ck_apply (cc_change (calls ! c)) cp"
  using assms by (simp add: cp_run_def cp_step_def mutate_write_def mutate_return_def leave_section_def Let_def)

end
