(* ===== verification/Sanitize.thy ===== *)
theory Sanitize
  imports Session_Filter
begin

text \<open>
  \<^verbatim>\<open>MemoryCore/src/utils/sanitize.ts\<close>: which messages enter the archive (L0) and the extraction
  (L1), the repair of control characters in the JSON text of a model's answer, and the escaping
  of the tags that delimit the injected sections. Regular expressions see UTF-16 units.
\<close>

section \<open>UTF-16\<close>

definition byte_at :: "string \<Rightarrow> nat \<Rightarrow> nat" where
  "byte_at s i = (if i < length s then of_char (s ! i) mod 64 else 0)"

text \<open>The UTF-16 units of a UTF-8 text.\<close>

function utf16 :: "string \<Rightarrow> nat list" where
  "utf16 [] = []"
| "utf16 (c # cs) =
     (let n = of_char c :: nat
      in if n < 128 then n # utf16 cs
         else if n < 224 then ((n mod 32) * 64 + byte_at cs 0) # utf16 (drop 1 cs)
         else if n < 240 then ((n mod 16) * 4096 + byte_at cs 0 * 64 + byte_at cs 1) # utf16 (drop 2 cs)
         else (let p = (n mod 8) * 262144 + byte_at cs 0 * 4096 + byte_at cs 1 * 64 + byte_at cs 2 - 65536
               in (55296 + p div 1024) # (56320 + p mod 1024) # utf16 (drop 3 cs)))"
  by pat_completeness auto

termination by (relation "measure length") auto

text \<open>\<^verbatim>\<open>\w\<close>, \<^verbatim>\<open>\s\<close> and the ranges of CJK ideographs, kana and hangul.\<close>

definition word_unit :: "nat \<Rightarrow> bool" where
  "word_unit n \<longleftrightarrow> 48 \<le> n \<and> n \<le> 57 \<or> 65 \<le> n \<and> n \<le> 90 \<or> n = 95 \<or> 97 \<le> n \<and> n \<le> 122"

definition space_unit :: "nat \<Rightarrow> bool" where
  "space_unit n \<longleftrightarrow> 9 \<le> n \<and> n \<le> 13 \<or> n = 32 \<or> n = 160 \<or> n = 5760 \<or> 8192 \<le> n \<and> n \<le> 8202
     \<or> n = 8232 \<or> n = 8233 \<or> n = 8239 \<or> n = 8287 \<or> n = 12288 \<or> n = 65279"

definition cjk_unit :: "nat \<Rightarrow> bool" where
  "cjk_unit n \<longleftrightarrow> 19968 \<le> n \<and> n \<le> 40959 \<or> 12352 \<le> n \<and> n \<le> 12543 \<or> 44032 \<le> n \<and> n \<le> 55215"

section \<open>Which messages count\<close>

definition trim_units :: "nat list \<Rightarrow> nat list" where
  "trim_units u = rev (dropWhile space_unit (rev (dropWhile space_unit u)))"

definition is_framework_noise :: "string \<Rightarrow> bool" where
  "is_framework_noise text =
     (let t = trim_units (utf16 text)
      in t = utf16 ''(session bootstrap)'' \<or> prefix (utf16 ''A new session was started via'') t
         \<or> (prefix [9989] t \<and> prefix (utf16 ''New session started'') (dropWhile space_unit (drop 1 t)))
         \<or> prefix (utf16 ''Pre-compaction memory flush'') t \<or> t = utf16 ''NO_REPLY'')"

definition should_capture_l0 :: "string \<Rightarrow> bool" where
  "should_capture_l0 text \<longleftrightarrow> trim_units (utf16 text) \<noteq> [] \<and> \<not> is_framework_noise text \<and> \<not> prefix ''/'' text"

definition should_extract_l1 :: "string \<Rightarrow> bool" where
  "should_extract_l1 text \<longleftrightarrow> should_capture_l0 text
     \<and> \<not> (1 \<le> length (utf16 text) \<and> length (utf16 text) \<le> 5
          \<and> list_all (\<lambda>n. \<not> word_unit n \<and> \<not> space_unit n \<and> \<not> cjk_unit n) (utf16 text))
     \<and> \<not> (text \<noteq> [] \<and> list_all (\<lambda>n. n = 63 \<or> n = 65311) (utf16 text))"

text \<open>\<^verbatim>\<open>pickRecentUnique\<close>: a scan from the end.\<close>

fun pick_back :: "nat \<Rightarrow> string list \<Rightarrow> string list \<Rightarrow> string list" where
  "pick_back n seen [] = []"
| "pick_back n seen (t # ts) =
     (if n \<le> length seen then []
      else if t \<in> set seen then pick_back n seen ts
      else t # pick_back n (t # seen) ts)"

definition pick_recent_unique :: "string list \<Rightarrow> nat \<Rightarrow> string list" where
  "pick_recent_unique texts n = rev (pick_back n [] (rev texts))"

section \<open>Control characters in JSON text\<close>

definition is_control :: "char \<Rightarrow> bool" where
  "is_control c \<longleftrightarrow> (of_char c :: nat) \<le> 31"

definition hex_lower :: "nat \<Rightarrow> char" where
  "hex_lower n = (if n < 10 then char_of (48 + n) else char_of (87 + n))"

definition control_escape :: "char \<Rightarrow> string" where
  "control_escape c =
     (let n = of_char c :: nat
      in if n = 8 then [CHR 0x5C, CHR ''b''] else if n = 9 then [CHR 0x5C, CHR ''t'']
         else if n = 10 then [CHR 0x5C, CHR ''n''] else if n = 12 then [CHR 0x5C, CHR ''f'']
         else if n = 13 then [CHR 0x5C, CHR ''r'']
         else [CHR 0x5C, CHR ''u'', CHR ''0'', CHR ''0'', hex_lower (n div 16), hex_lower (n mod 16)])"

fun escape_from :: "bool \<Rightarrow> string \<Rightarrow> string" where
  "escape_from in_string [] = []"
| "escape_from False (c # cs) = c # escape_from (c = CHR 0x22) cs"
| "escape_from True [c] = (if c = CHR 0x22 then [c] else if is_control c then control_escape c else [c])"
| "escape_from True (c # d # cs) =
     (if c = CHR 0x5C then c # d # escape_from True cs
      else if c = CHR 0x22 then c # escape_from False (d # cs)
      else if is_control c then control_escape c @ escape_from True (d # cs)
      else c # escape_from True (d # cs))"

definition escape_control_chars :: "string \<Rightarrow> string" where
  "escape_control_chars s = escape_from False s"

text \<open>The characters that phase 2 strips; \<^verbatim>\<open>JSON.parse\<close> is only asked whether it accepts a text.\<close>

definition rare_control :: "char \<Rightarrow> bool" where
  "rare_control c \<longleftrightarrow> (let n = of_char c :: nat in n \<le> 8 \<or> n = 11 \<or> n = 12 \<or> 14 \<le> n \<and> n \<le> 31)"

definition sanitize_json_for_parse :: "(string \<Rightarrow> bool) \<Rightarrow> string \<Rightarrow> string" where
  "sanitize_json_for_parse parses raw =
     (let escaped = escape_control_chars raw
      in if parses escaped then escaped else filter (\<lambda>c. \<not> rare_control c) escaped)"

section \<open>Boundary tags\<close>

definition boundary_names :: "string list" where
  "boundary_names = [''user-persona'', ''relevant-memories'', ''scene-navigation'', ''relevant-scenes'',
     ''memory-tools-guide'', ''system'', ''assistant'']"

text \<open>The inside of a tag that starts here: its text between the angle brackets.\<close>

definition tag_body :: "string \<Rightarrow> bool" where
  "tag_body b \<longleftrightarrow> to_lower (if prefix ''/'' b then drop 1 b else b) \<in> set boundary_names"

definition tag_here :: "string \<Rightarrow> string option" where
  "tag_here s =
     (case s of
        [] \<Rightarrow> None
      | c # cs \<Rightarrow> (let b = takeWhile (\<lambda>x. x \<noteq> CHR ''>'') cs
          in if c = CHR ''<'' \<and> length b < length cs \<and> tag_body b then Some b else None))"

function escape_xml_tags :: "string \<Rightarrow> string" where
  "escape_xml_tags [] = []"
| "escape_xml_tags (c # cs) =
     (case tag_here (c # cs) of
        Some b \<Rightarrow> ''&lt;'' @ b @ ''&gt;'' @ escape_xml_tags (drop (Suc (length b)) cs)
      | None \<Rightarrow> c # escape_xml_tags cs)"
  by pat_completeness auto

termination by (relation "measure length") auto

section \<open>Lemmas\<close>

text \<open>The control characters inside the strings of a JSON text, apart from those that follow a
  backslash, which \<^verbatim>\<open>escapeControlCharsInJsonStrings\<close> copies with it.\<close>

fun raw_controls :: "bool \<Rightarrow> string \<Rightarrow> string" where
  "raw_controls in_string [] = []"
| "raw_controls False (c # cs) = raw_controls (c = CHR 0x22) cs"
| "raw_controls True [c] = (if is_control c then [c] else [])"
| "raw_controls True (c # d # cs) =
     (if c = CHR 0x5C then raw_controls True cs
      else if c = CHR 0x22 then raw_controls False (d # cs)
      else (if is_control c then [c] else []) @ raw_controls True (d # cs))"

lemma is_control_quote [simp]: "\<not> is_control (CHR 0x22)" "\<not> is_control (CHR 0x5C)"
  by (simp_all add: is_control_def)

lemma hex_lower_plain: "n < 16 \<Longrightarrow> hex_lower n \<noteq> CHR 0x22 \<and> hex_lower n \<noteq> CHR 0x5C \<and> \<not> is_control (hex_lower n)"
proof -
  assume "n < 16"
  then have "n \<in> set [0..<16]" by simp
  moreover have "\<forall>n \<in> set [0..<16]. hex_lower n \<noteq> CHR 0x22 \<and> hex_lower n \<noteq> CHR 0x5C \<and> \<not> is_control (hex_lower n)"
    by code_simp
  ultimately show ?thesis by blast
qed

lemma control_escape_shape:
  assumes "is_control c"
  shows "\<exists>d r. control_escape c = CHR 0x5C # d # r \<and> (\<forall>x \<in> set r. x \<noteq> CHR 0x22 \<and> x \<noteq> CHR 0x5C \<and> \<not> is_control x)"
proof -
  have "(of_char c :: nat) div 16 < 16" "(of_char c :: nat) mod 16 < 16" using assms by (simp_all add: is_control_def)
  moreover have "\<not> is_control (CHR ''0'')" by code_simp
  ultimately show ?thesis by (auto simp: control_escape_def Let_def hex_lower_plain)
qed

lemma escape_from_plain:
  "(\<And>x. x \<in> set r \<Longrightarrow> x \<noteq> CHR 0x22 \<and> x \<noteq> CHR 0x5C \<and> \<not> is_control x) \<Longrightarrow>
   escape_from True (r @ s) = r @ escape_from True s \<and> raw_controls True (r @ s) = raw_controls True s"
proof (induction r)
  case (Cons c r)
  then show ?case by (cases "r @ s") auto
qed simp

lemma escape_from_escape:
  assumes "is_control c"
  shows "escape_from True (control_escape c @ s) = control_escape c @ escape_from True s \<and>
    raw_controls True (control_escape c @ s) = raw_controls True s"
proof -
  obtain d r where e: "control_escape c = CHR 0x5C # d # r"
      "\<forall>x \<in> set r. x \<noteq> CHR 0x22 \<and> x \<noteq> CHR 0x5C \<and> \<not> is_control x"
    using control_escape_shape [OF assms] by blast
  then show ?thesis using escape_from_plain [of r s] by simp
qed

lemma escape_from_Cons_plain:
  assumes "c \<noteq> CHR 0x5C" "c \<noteq> CHR 0x22" "\<not> is_control c"
  shows "escape_from True (c # s) = c # escape_from True s \<and> raw_controls True (c # s) = raw_controls True s"
  using assms by (cases s) auto

lemma escape_from_idem: "escape_from b (escape_from b s) = escape_from b s \<and> raw_controls b (escape_from b s) = []"
proof (induction b s rule: escape_from.induct)
  case (3 c)
  then show ?case using escape_from_escape [of c "[]"] by auto
next
  case (4 c d cs)
  show ?case
  proof (cases "c = CHR 0x5C")
    case True
    then show ?thesis using 4(1) by simp
  next
    case False
    note ne = this
    show ?thesis
    proof (cases "c = CHR 0x22")
      case True
      then have "escape_from False (d # cs) \<noteq> []" by simp
      then obtain x y where xy: "escape_from False (d # cs) = x # y" by (cases "escape_from False (d # cs)") auto
      have "escape_from True (c # x # y) = c # escape_from False (x # y)" "raw_controls True (c # x # y) = raw_controls False (x # y)"
        using True by simp_all
      then show ?thesis using 4(2) True ne xy by simp
    next
      case False
      then show ?thesis
        using 4(3,4) ne escape_from_escape [of c "escape_from True (d # cs)"]
          escape_from_Cons_plain [of c "escape_from True (d # cs)"] by auto
    qed
  qed
qed simp_all

text \<open>Nothing before the first '&' of an escaped text was touched.\<close>

lemma tag_here_body: "tag_here s = Some b \<Longrightarrow> \<exists>r. s = CHR ''<'' # b @ CHR ''>'' # r"
proof -
  assume h: "tag_here s = Some b"
  then obtain cs where s: "s = CHR ''<'' # cs" "b = takeWhile (\<lambda>x. x \<noteq> CHR ''>'') cs" "length b < length cs"
    by (auto simp: tag_here_def Let_def split: list.splits if_splits)
  then have "dropWhile (\<lambda>x. x \<noteq> CHR ''>'') cs \<noteq> []" by (metis takeWhile_eq_all_conv dropWhile_eq_Nil_conv less_irrefl)
  then obtain r where r: "dropWhile (\<lambda>x. x \<noteq> CHR ''>'') cs = CHR ''>'' # r"
    by (cases "dropWhile (\<lambda>x. x \<noteq> CHR ''>'') cs") (auto dest: dropWhile_eq_Cons_conv [THEN iffD1])
  have "cs = b @ CHR ''>'' # r" using takeWhile_dropWhile_id [of "\<lambda>x. x \<noteq> CHR ''>''" cs] r s(2) by simp
  then show ?thesis using s(1) by blast
qed

lemma escape_prefix: "CHR ''&'' \<notin> set p \<Longrightarrow> prefix p (escape_xml_tags s) \<Longrightarrow> prefix p s"
proof (induction s arbitrary: p rule: escape_xml_tags.induct)
  case (2 c cs)
  show ?case
  proof (cases "tag_here (c # cs)")
    case None
    then show ?thesis using 2(1) [OF None] 2(3,4) by (cases p) auto
  next
    case (Some b)
    then show ?thesis using 2(3,4) by (cases p) auto
  qed
qed simp

lemma tag_body_chars: "tag_body b \<Longrightarrow> CHR ''&'' \<notin> set b \<and> CHR ''<'' \<notin> set b \<and> CHR ''>'' \<notin> set b"
proof -
  assume "tag_body b"
  then obtain n where n: "n \<in> set boundary_names" "to_lower (if prefix ''/'' b then drop 1 b else b) = n" by (auto simp: tag_body_def)
  have "\<forall>n \<in> set boundary_names. CHR ''&'' \<notin> set n \<and> CHR ''<'' \<notin> set n \<and> CHR ''>'' \<notin> set n" by code_simp
  moreover have "x \<in> set b \<Longrightarrow> x \<in> {CHR ''&'', CHR ''<'', CHR ''>''} \<Longrightarrow> x \<in> set n" for x
  proof -
    assume x: "x \<in> set b" "x \<in> {CHR ''&'', CHR ''<'', CHR ''>''}"
    then have "x \<in> set (if prefix ''/'' b then drop 1 b else b)" by (cases b) (auto split: if_splits)
    then have "to_lower_char x \<in> set n" using n(2) by (auto simp: to_lower_def)
    moreover have "to_lower_char x = x" using x(2) by (auto simp: to_lower_char_def Let_def)
    ultimately show "x \<in> set n" by simp
  qed
  ultimately show ?thesis using n(1) by blast
qed

lemma tag_here_iff: "tag_here s = Some b \<longleftrightarrow> tag_body b \<and> prefix (CHR ''<'' # b @ [CHR ''>'']) s"
proof
  assume h: "tag_here s = Some b"
  then show "tag_body b \<and> prefix (CHR ''<'' # b @ [CHR ''>'']) s"
    using tag_here_body [OF h] by (auto simp: tag_here_def Let_def split: list.splits if_splits)
next
  assume h: "tag_body b \<and> prefix (CHR ''<'' # b @ [CHR ''>'']) s"
  then obtain r where s: "s = CHR ''<'' # b @ CHR ''>'' # r" by (auto simp: prefix_def)
  have "takeWhile (\<lambda>x. x \<noteq> CHR ''>'') (b @ CHR ''>'' # r) = b"
    using tag_body_chars h by (subst takeWhile_append2) auto
  then show "tag_here s = Some b" using s h by (simp add: tag_here_def Let_def)
qed

lemma no_tag_in_escaped: "suffix t (escape_xml_tags s) \<Longrightarrow> tag_here t = None"
proof (induction s rule: escape_xml_tags.induct)
  case 1
  then show ?case by (simp add: tag_here_def)
next
  case (2 c cs)
  show ?case
  proof (cases "tag_here (c # cs)")
    case None
    then have e: "escape_xml_tags (c # cs) = c # escape_xml_tags cs" by simp
    show ?thesis
    proof (cases "t = c # escape_xml_tags cs")
      case True
      show ?thesis
      proof (rule ccontr)
        assume "tag_here t \<noteq> None"
        then obtain b where b: "tag_body b" "prefix (CHR ''<'' # b @ [CHR ''>'']) (escape_xml_tags (c # cs))"
          using True e by (auto simp: tag_here_iff)
        have "prefix (CHR ''<'' # b @ [CHR ''>'']) (c # cs)"
          by (rule escape_prefix [OF _ b(2)]) (use tag_body_chars [OF b(1)] in auto)
        then show False using None b(1) tag_here_iff [of "c # cs" b] by simp
      qed
    next
      case False
      then show ?thesis using 2(1) [OF None] 2(3) e by (auto simp: suffix_Cons)
    qed
  next
    case (Some b)
    have nb: "CHR ''<'' \<notin> set (''&lt;'' @ b @ ''&gt;'')" using tag_body_chars Some tag_here_iff by auto
    have sf: "suffix t ((''&lt;'' @ b @ ''&gt;'') @ escape_xml_tags (drop (Suc (length b)) cs))" using 2(3) Some by simp
    show ?thesis
    proof (cases "suffix t (escape_xml_tags (drop (Suc (length b)) cs))")
      case True
      then show ?thesis using 2(2) [OF Some] by simp
    next
      case False
      then obtain u where u: "t = u @ escape_xml_tags (drop (Suc (length b)) cs)" "suffix u (''&lt;'' @ b @ ''&gt;'')" "u \<noteq> []"
        using sf unfolding suffix_append by (metis append_Nil suffix_order.refl)
      then have "hd u \<noteq> CHR ''<''" using nb by (metis hd_in_set set_mono_suffix subsetD)
      then show ?thesis using u(1,3) by (cases u) (auto simp: tag_here_def)
    qed
  qed
qed

section \<open>Properties\<close>

text \<open>
  C28: no text can close or open one of the sections it is injected into. After \<^verbatim>\<open>escapeXmlTags\<close>
  none of the boundary tags starts anywhere in the text, in upper or lower case, opening or
  closing, not even one put together from the pieces around a tag that was escaped.
\<close>

theorem no_boundary_tag_survives:
  "tag_here (drop n (escape_xml_tags s)) = None"
  by (rule no_tag_in_escaped) (rule suffix_drop)

text \<open>
  the repair of a model's JSON text leaves no bare control character inside a string, except one
  that follows a backslash, and repairing twice changes nothing.
\<close>

theorem json_controls_escaped:
  "raw_controls False (escape_control_chars s) = [] \<and> escape_control_chars (escape_control_chars s) = escape_control_chars s"
  using escape_from_idem [of False s] by (simp add: escape_control_chars_def)

text \<open>A control character after a backslash stays, and \<^verbatim>\<open>JSON.parse\<close> still rejects the text.\<close>

lemma escaped_newline_stays:
  "escape_control_chars [CHR 0x22, CHR 0x5C, CHR 0x0A, CHR 0x22] = [CHR 0x22, CHR 0x5C, CHR 0x0A, CHR 0x22]"
  by code_simp

end
