(* ===== verification/Isolation.thy ===== *)
theory Isolation
  imports Timer_Member Session_Filter
begin

text \<open>
  Who owns a memory: \<^verbatim>\<open>MemoryCore/src/core/store/isolation.ts\<close> (contexts of writes and filters of
  reads), the context of a request (\<^verbatim>\<open>gateway/v2-schemas.ts\<close>, \<^verbatim>\<open>gateway/v2-router.ts\<close>) and the scopes
  of profiles (\<^verbatim>\<open>core/profile/profile-sync.ts\<close>, \<^verbatim>\<open>utils/pipeline-factory.ts\<close>). A missing field is
  None, or the empty string where the code treats the two alike.
\<close>

section \<open>Contexts and filters\<close>

definition default_isolation_id :: string where
  "default_isolation_id = ''default''"

record isolation_context =
  ic_team :: "string option"
  ic_user :: string
  ic_agent :: string
  ic_session :: string
  ic_task :: "string option"
  ic_session_key :: "string option"

record isolation_filter =
  if_team :: "string option"
  if_user :: "string option"
  if_agent :: "string option"
  if_session :: "string option"
  if_task :: "string option"
  if_session_key :: "string option"

record isolation_config =
  iso_enforce :: bool
  iso_legacy_compat :: bool
  iso_placeholder :: string

definition default_isolation_config :: isolation_config where
  "default_isolation_config = \<lparr>iso_enforce = True, iso_legacy_compat = False, iso_placeholder = default_isolation_id\<rparr>"

text \<open>\<^verbatim>\<open>s || d\<close>\<close>

definition or_else :: "string \<Rightarrow> string \<Rightarrow> string" where
  "or_else s d = (if s = [] then d else s)"

definition nonempty :: "string \<Rightarrow> string option" where
  "nonempty s = (if s = [] then None else Some s)"

definition opt_text :: "string option \<Rightarrow> string" where
  "opt_text x = (case x of None \<Rightarrow> [] | Some s \<Rightarrow> s)"

text \<open>The fields that \<^verbatim>\<open>assertIsolation\<close> is given have the shape of a filter.\<close>

definition assert_isolation :: "isolation_filter option \<Rightarrow> isolation_config \<Rightarrow> isolation_context" where
  "assert_isolation given cfg =
     (let field = (\<lambda>f. trim (case given of None \<Rightarrow> [] | Some c \<Rightarrow> opt_text (f c)));
          user = field if_user; agent = field if_agent; session = field if_session;
          placeholder = (if iso_legacy_compat cfg then iso_placeholder cfg else default_isolation_id);
          task = (case given of None \<Rightarrow> None | Some c \<Rightarrow> if_task c);
          key = (case given of None \<Rightarrow> None | Some c \<Rightarrow> if_session_key c)
      in if user \<noteq> [] \<and> agent \<noteq> [] \<and> session \<noteq> []
         then \<lparr>ic_team = nonempty (field if_team), ic_user = user, ic_agent = agent, ic_session = session,
               ic_task = task, ic_session_key = key\<rparr>
         else \<lparr>ic_team = nonempty (field if_team), ic_user = or_else user placeholder,
               ic_agent = or_else agent placeholder, ic_session = or_else session placeholder,
               ic_task = task, ic_session_key = key\<rparr>)"

text \<open>The columns of a row that say who owns it; the rows of the tables extend this record.\<close>

record owned =
  ow_team :: string
  ow_user :: string
  ow_agent :: string
  ow_session_id :: string
  ow_task :: string
  ow_session_key :: string

definition row_matches_isolation :: "'a owned_scheme \<Rightarrow> isolation_filter option \<Rightarrow> bool" where
  "row_matches_isolation row flt =
     (case flt of
        None \<Rightarrow> True
      | Some f \<Rightarrow>
          (case if_team f of Some v \<Rightarrow> ow_team row = v | None \<Rightarrow> True)
          \<and> (case if_user f of Some v \<Rightarrow> ow_user row = v | None \<Rightarrow> True)
          \<and> (case if_agent f of Some v \<Rightarrow> ow_agent row = v | None \<Rightarrow> True)
          \<and> (case if_session f of Some v \<Rightarrow> ow_session_id row = v | None \<Rightarrow> True)
          \<and> (case if_task f of Some v \<Rightarrow> ow_task row = v | None \<Rightarrow> True)
          \<and> (case if_session_key f of Some v \<Rightarrow> ow_session_key row = v | None \<Rightarrow> True))"

text \<open>\<^verbatim>\<open>buildIsolationWhere\<close>: the conditions \<^verbatim>\<open>column = ?\<close> of the clause with their parameters.\<close>

definition isolation_conditions :: "string \<Rightarrow> isolation_filter option \<Rightarrow> (string \<times> string) list" where
  "isolation_conditions table_prefix flt =
     (let part = (\<lambda>column v. case v of None \<Rightarrow> [] | Some x \<Rightarrow> [(table_prefix @ column, x)])
      in case flt of
           None \<Rightarrow> []
         | Some f \<Rightarrow> part ''team_id'' (if_team f) @ part ''user_id'' (if_user f) @ part ''agent_id'' (if_agent f)
             @ part ''session_id'' (if_session f) @ part ''task_id'' (if_task f) @ part ''session_key'' (if_session_key f))"

fun and_clause :: "string list \<Rightarrow> string" where
  "and_clause [] = []"
| "and_clause [c] = c"
| "and_clause (c # d # cs) = c @ '' AND '' @ and_clause (d # cs)"

definition build_isolation_where :: "isolation_filter option \<Rightarrow> string \<Rightarrow> string \<times> string list" where
  "build_isolation_where flt table_prefix =
     (let cs = isolation_conditions table_prefix flt
      in (and_clause (map (\<lambda>(c, v). c @ '' = ?'') cs), map snd cs))"

section \<open>The context of a request\<close>

text \<open>The identity fields of a request, from the body or from the headers; the body wins.\<close>

definition body_or_header :: "string option \<Rightarrow> string option \<Rightarrow> string" where
  "body_or_header in_body in_header = (case in_body of Some v \<Rightarrow> v | None \<Rightarrow> opt_text in_header)"

definition resolve_isolation :: "isolation_filter \<Rightarrow> isolation_filter \<Rightarrow> bool \<Rightarrow> string option \<Rightarrow> isolation_context" where
  "resolve_isolation body headers legacy_compat placeholder =
     (let field = (\<lambda>f. body_or_header (f body) (f headers));
          ph = (if legacy_compat then (case placeholder of Some p \<Rightarrow> p | None \<Rightarrow> default_isolation_id) else default_isolation_id)
      in \<lparr>ic_team = nonempty (field if_team), ic_user = or_else (field if_user) ph,
          ic_agent = or_else (field if_agent) ph, ic_session = or_else (field if_session) ph,
          ic_task = nonempty (field if_task), ic_session_key = None\<rparr>)"

definition collect_v3_missing :: "isolation_filter \<Rightarrow> isolation_filter \<Rightarrow> string list" where
  "collect_v3_missing body headers =
     (let missing = (\<lambda>f name. if trim (body_or_header (f body) (f headers)) = [] then [name] else [])
      in missing if_team ''team_id'' @ missing if_agent ''agent_id'' @ missing if_user ''user_id'')"

section \<open>Scopes of profiles\<close>

record profile_isolation =
  pf_team :: "string option"
  pf_user :: "string option"
  pf_agent :: "string option"
  pf_session :: "string option"

definition default_profile_scope :: string where
  "default_profile_scope = ''global''"

definition build_profile_isolation_scope :: "profile_isolation option \<Rightarrow> string" where
  "build_profile_isolation_scope given =
     (case given of
        None \<Rightarrow> default_profile_scope
      | Some c \<Rightarrow>
          ''team:'' @ or_else (opt_text (pf_team c)) (or_else (opt_text (pf_user c)) ''default'')
          @ ''|agent:'' @ or_else (opt_text (pf_agent c)) ''default'')"

text \<open>The fields \<^verbatim>\<open>name:value\<close> of a scope; None when a part has no name.\<close>

fun scope_fields :: "string list \<Rightarrow> (string, string) jsmap \<Rightarrow> (string, string) jsmap option" where
  "scope_fields [] values = Some values"
| "scope_fields (part # parts) values =
     (case index_of (CHR '':'') part of
        None \<Rightarrow> None
      | Some i \<Rightarrow> if i = 0 then None
                  else scope_fields parts (AList.update (take i part) (drop (Suc i) part) values))"

definition parse_profile_isolation_scope :: "string \<Rightarrow> profile_isolation option" where
  "parse_profile_isolation_scope scope =
     (case scope_fields (split_on (CHR ''|'') scope) [] of
        None \<Rightarrow> None
      | Some values \<Rightarrow>
          (let agent = jget_or [] values ''agent'';
               session = (let v = jget_or [] values ''session'' in if v = [] then [] else safe_decode_uri_component v);
               team = jget_or [] values ''team''; user = jget_or [] values ''user''
           in if agent = [] then None
              else if team \<noteq> [] then Some \<lparr>pf_team = Some team, pf_user = None, pf_agent = Some agent, pf_session = nonempty session\<rparr>
              else if user \<noteq> [] then Some \<lparr>pf_team = None, pf_user = Some user, pf_agent = Some agent, pf_session = nonempty session\<rparr>
              else None))"

definition profile_l2_key_prefix :: string where
  "profile_l2_key_prefix = ''profile:''"

definition build_profile_l2_key :: "profile_isolation option \<Rightarrow> string" where
  "build_profile_l2_key given =
     (let session = (case given of None \<Rightarrow> [] | Some c \<Rightarrow> opt_text (pf_session c))
      in profile_l2_key_prefix @ build_profile_isolation_scope given
         @ (if session = [] then [] else ''|session:'' @ encode_uri_component session))"

definition parse_profile_l2_key :: "string \<Rightarrow> profile_isolation option" where
  "parse_profile_l2_key key =
     (if prefix profile_l2_key_prefix key
      then parse_profile_isolation_scope (drop (length profile_l2_key_prefix) key) else None)"

section \<open>Lemmas\<close>

lemma row_matches_None [simp]: "row_matches_isolation row None"
  by (simp add: row_matches_isolation_def)

text \<open>The value of a column, as the clause of \<^verbatim>\<open>buildIsolationWhere\<close> names it.\<close>

definition owner_column :: "'a owned_scheme \<Rightarrow> string \<Rightarrow> string option" where
  "owner_column row c = map_of [(''team_id'', ow_team row), (''user_id'', ow_user row), (''agent_id'', ow_agent row),
     (''session_id'', ow_session_id row), (''task_id'', ow_task row), (''session_key'', ow_session_key row)] c"

lemma index_of_name: "CHR '':'' \<notin> set n \<Longrightarrow> index_of (CHR '':'') (n @ CHR '':'' # v) = Some (length n)"
  by (rule index_of_append_sep)

lemma scope_fields_Cons:
  assumes "CHR '':'' \<notin> set n" "n \<noteq> []"
  shows "scope_fields ((n @ CHR '':'' # v) # parts) values = scope_fields parts (AList.update n v values)"
  using assms by (simp add: index_of_name)

lemma build_scope_split:
  assumes "CHR ''|'' \<notin> set t" "CHR ''|'' \<notin> set a"
  shows "split_on (CHR ''|'') (''team:'' @ t @ ''|agent:'' @ a) = [''team:'' @ t, ''agent:'' @ a]"
    and "CHR ''|'' \<notin> set e \<Longrightarrow>
      split_on (CHR ''|'') (''team:'' @ t @ ''|agent:'' @ a @ ''|session:'' @ e) = [''team:'' @ t, ''agent:'' @ a, ''session:'' @ e]"
proof -
  have eq: "(''team:'' @ t) @ CHR ''|'' # r = ''team:'' @ t @ [CHR ''|''] @ r" for r by simp
  have "split_on (CHR ''|'') ((''team:'' @ t) @ CHR ''|'' # r) = (''team:'' @ t) # split_on (CHR ''|'') r" for r
    by (rule split_on_append) (use assms in auto)
  moreover have "split_on (CHR ''|'') ((''agent:'' @ a) @ CHR ''|'' # r) = (''agent:'' @ a) # split_on (CHR ''|'') r" for r
    by (rule split_on_append) (use assms in auto)
  ultimately show "split_on (CHR ''|'') (''team:'' @ t @ ''|agent:'' @ a) = [''team:'' @ t, ''agent:'' @ a]"
    "CHR ''|'' \<notin> set e \<Longrightarrow>
      split_on (CHR ''|'') (''team:'' @ t @ ''|agent:'' @ a @ ''|session:'' @ e) = [''team:'' @ t, ''agent:'' @ a, ''session:'' @ e]"
    using assms by (simp_all add: split_on_no_sep)
qed

lemma scope_field_names:
  "scope_fields ((''team:'' @ v) # parts) m = scope_fields parts (AList.update ''team'' v m)"
  "scope_fields ((''agent:'' @ v) # parts) m = scope_fields parts (AList.update ''agent'' v m)"
  "scope_fields ((''session:'' @ v) # parts) m = scope_fields parts (AList.update ''session'' v m)"
  using scope_fields_Cons [of "''team''"] scope_fields_Cons [of "''agent''"] scope_fields_Cons [of "''session''"] by simp_all

section \<open>Properties\<close>

text \<open>
  the SQL clause and the check after recall agree. For every row and filter,
  \<^verbatim>\<open>rowMatchesIsolation\<close> accepts the row exactly when it satisfies all conditions that
  \<^verbatim>\<open>buildIsolationWhere\<close> generates, and the clause has one placeholder per parameter.
\<close>

theorem where_clause_agrees:
  "row_matches_isolation row f = list_all (\<lambda>(c, v). owner_column row c = Some v) (isolation_conditions [] f)
   \<and> length (snd (build_isolation_where f p)) = length (isolation_conditions p f)"
  by (cases f) (auto simp: row_matches_isolation_def isolation_conditions_def owner_column_def build_isolation_where_def
      Let_def split: option.splits)

text \<open>
  the key of a scene-extraction task gives back team, agent and source session. The user is
  dropped on purpose; the round trip needs a team and an agent without a vertical bar.
\<close>

theorem profile_key_roundtrip:
  assumes "pf_team c = Some t" "t \<noteq> []" "CHR ''|'' \<notin> set t" "pf_agent c = Some a" "a \<noteq> []" "CHR ''|'' \<notin> set a"
    and "utf8_ok (opt_text (pf_session c))"
  shows "parse_profile_l2_key (build_profile_l2_key (Some c)) =
     Some \<lparr>pf_team = Some t, pf_user = None, pf_agent = Some a, pf_session = nonempty (opt_text (pf_session c))\<rparr>"
proof -
  let ?s = "opt_text (pf_session c)"
  have key: "drop (length profile_l2_key_prefix) (build_profile_l2_key (Some c)) =
      (if ?s = [] then ''team:'' @ t @ ''|agent:'' @ a
       else ''team:'' @ t @ ''|agent:'' @ a @ ''|session:'' @ encode_uri_component ?s)"
    "prefix profile_l2_key_prefix (build_profile_l2_key (Some c))"
    using assms(1,2,4,5) by (simp_all add: build_profile_l2_key_def build_profile_isolation_scope_def opt_text_def or_else_def Let_def)
  show ?thesis
  proof (cases "?s = []")
    case True
    then show ?thesis using key assms(2,5) build_scope_split(1) [OF assms(3,6)]
      by (simp only: parse_profile_l2_key_def if_True if_False parse_profile_isolation_scope_def scope_field_names scope_fields.simps)
        (simp add: Let_def nonempty_def jget_or_def)
  next
    case False
    then show ?thesis using key assms(2,5,7) build_scope_split(2) [OF assms(3,6) encode_no_separator(1) [of ?s]]
      by (simp only: parse_profile_l2_key_def if_True if_False parse_profile_isolation_scope_def scope_field_names scope_fields.simps)
        (simp add: Let_def nonempty_def jget_or_def safe_decode_encode)
  qed
qed

theorem profile_key_roundtrip_witness:
  "\<exists>c. c = \<lparr>pf_team = Some ''ops'', pf_user = Some ''u'', pf_agent = Some ''bot:1'', pf_session = Some ''a|b''\<rparr>
    \<and> parse_profile_l2_key (build_profile_l2_key (Some c)) =
      Some \<lparr>pf_team = Some ''ops'', pf_user = None, pf_agent = Some ''bot:1'', pf_session = Some ''a|b''\<rparr>"
proof -
  have "utf8_ok ''a|b''" by code_simp
  then show ?thesis
    using profile_key_roundtrip [where c = "\<lparr>pf_team = Some ''ops'', pf_user = Some ''u'', pf_agent = Some ''bot:1'',
        pf_session = Some ''a|b''\<rparr>" and t = "''ops''" and a = "''bot:1''"]
    by (simp add: opt_text_def nonempty_def)
qed

text \<open>Team and agent are put into a scope as they are: two different pairs of team and agent share
  their scenes and persona when one of the names holds a vertical bar.\<close>

lemma profile_scopes_collide:
  "build_profile_isolation_scope (Some \<lparr>pf_team = Some ''a|agent:b'', pf_user = None, pf_agent = Some ''c'', pf_session = None\<rparr>)
   = build_profile_isolation_scope (Some \<lparr>pf_team = Some ''a'', pf_user = None, pf_agent = Some ''b|agent:c'', pf_session = None\<rparr>)"
  by code_simp

end
