(* ===== verification/Memory_Store.thy ===== *)
theory Memory_Store
  imports Isolation "HOL-Library.Char_ord" "HOL-Library.List_Lexorder"
begin

text \<open>
  The local memory store, \<^verbatim>\<open>MemoryCore/src/core/store/sqlite.ts\<close>: conversation messages (L0) and
  extracted memories (L1), each with a vector table and a full-text index, and the queue of
  messages that wait for their embedding. A table is the list of its rows in the order of their
  insertion, which also settles the order of rows that a query sorts equal. Times are milliseconds
  (the ISO strings of the columns sort like them). A call that throws inside a transaction is rolled
  back; which calls do is an argument, as are the nearest neighbours that \<^verbatim>\<open>sqlite-vec\<close> finds and
  the matches of \<^verbatim>\<open>FTS5\<close>.
\<close>

section \<open>Tables\<close>

record l0_row = owned +
  l0_id :: string
  l0_role :: string
  l0_text :: string
  l0_recorded :: ms
  l0_time :: ms

record l1_row = owned +
  l1_id :: string
  l1_content :: string
  l1_type :: string
  l1_priority :: int
  l1_scene :: string
  l1_version :: int
  l1_stamp :: string
  l1_stamp_start :: string
  l1_stamp_end :: string
  l1_created :: ms
  l1_updated :: ms
  l1_metadata :: string

record embedding_job =
  ej_id :: string
  ej_text :: string
  ej_dead :: bool
  ej_attempts :: nat
  ej_next :: ms
  ej_error :: "string option"
  ej_created :: ms
  ej_updated :: ms

record 'v memory_store =
  st_degraded :: bool
  st_vec_ready :: bool
  st_fts_available :: bool
  st_l0 :: "l0_row list"
  st_l0_vec :: "(string \<times> 'v list \<times> ms) list"
  st_l0_fts :: "l0_row list"
  st_l0_jobs :: "embedding_job list"
  st_l1 :: "l1_row list"
  st_l1_vec :: "(string \<times> 'v list \<times> ms) list"
  st_l1_fts :: "l1_row list"

text \<open>How the statements of a call end: one of them throws, or only the (non-fatal) deletion or
  insertion in the full-text index does, for some records.\<close>

record db_run =
  db_fails :: bool
  db_fts_delete_fails :: "string \<Rightarrow> bool"
  db_fts_insert_fails :: "string \<Rightarrow> bool"

definition db_ok :: db_run where
  "db_ok = \<lparr>db_fails = False, db_fts_delete_fails = (\<lambda>i. False), db_fts_insert_fails = (\<lambda>i. False)\<rparr>"

definition upsert_row :: "('r \<Rightarrow> string) \<Rightarrow> ('r \<Rightarrow> 'r \<Rightarrow> 'r) \<Rightarrow> 'r \<Rightarrow> 'r list \<Rightarrow> 'r list" where
  "upsert_row key merge r rows =
     (if key r \<in> key ` set rows then map (\<lambda>x. if key x = key r then merge x r else x) rows else rows @ [r])"

definition drop_id :: "('r \<Rightarrow> string) \<Rightarrow> string \<Rightarrow> 'r list \<Rightarrow> 'r list" where
  "drop_id key i rows = filter (\<lambda>r. key r \<noteq> i) rows"

definition find_id :: "('r \<Rightarrow> string) \<Rightarrow> string \<Rightarrow> 'r list \<Rightarrow> 'r option" where
  "find_id key i rows = List.find (\<lambda>r. key r = i) rows"

definition zero_vector :: "'v::zero list \<Rightarrow> bool" where
  "zero_vector v = list_all (\<lambda>x. x = 0) v"

text \<open>The full-text index is written row by row: delete, then insert; an error of either is ignored.\<close>

definition fts_delete :: "db_run \<Rightarrow> ('r \<Rightarrow> string) \<Rightarrow> string \<Rightarrow> 'r list \<Rightarrow> 'r list" where
  "fts_delete run key i rows = (if db_fts_delete_fails run i then rows else drop_id key i rows)"

definition fts_write :: "db_run \<Rightarrow> ('r \<Rightarrow> string) \<Rightarrow> 'r \<Rightarrow> 'r list \<Rightarrow> 'r list" where
  "fts_write run key r rows =
     (if db_fts_delete_fails run (key r) then rows
      else if db_fts_insert_fails run (key r) then drop_id key (key r) rows
      else drop_id key (key r) rows @ [r])"

section \<open>Messages\<close>

record l0_record =
  lr_id :: string
  lr_session_key :: string
  lr_session_id :: string
  lr_team :: "string option"
  lr_user :: "string option"
  lr_agent :: "string option"
  lr_task :: "string option"
  lr_role :: string
  lr_text :: string
  lr_recorded :: ms
  lr_time :: ms

definition row_of_l0 :: "l0_record \<Rightarrow> l0_row" where
  "row_of_l0 r =
     \<lparr>ow_team = or_else (opt_text (lr_team r)) default_isolation_id,
      ow_user = or_else (opt_text (lr_user r)) default_isolation_id,
      ow_agent = or_else (opt_text (lr_agent r)) default_isolation_id,
      ow_session_id = or_else (lr_session_id r) default_isolation_id, ow_task = opt_text (lr_task r),
      ow_session_key = lr_session_key r,
      l0_id = lr_id r, l0_role = lr_role r, l0_text = lr_text r, l0_recorded = lr_recorded r, l0_time = lr_time r\<rparr>"

text \<open>\<^verbatim>\<open>ON CONFLICT\<close> keeps the session columns and the role.\<close>

definition merge_l0 :: "l0_row \<Rightarrow> l0_row \<Rightarrow> l0_row" where
  "merge_l0 old new = old\<lparr>l0_text := l0_text new, l0_recorded := l0_recorded new, l0_time := l0_time new,
     ow_team := ow_team new, ow_task := ow_task new, ow_user := ow_user new, ow_agent := ow_agent new\<rparr>"

definition upsert_l0 :: "db_run \<Rightarrow> l0_record \<Rightarrow> 'v::zero list option \<Rightarrow> 'v memory_store \<Rightarrow> bool \<times> 'v memory_store" where
  "upsert_l0 run r emb s =
     (if st_degraded s \<or> db_fails run then (False, s)
      else
        (let row = row_of_l0 r;
             skip = (case emb of None \<Rightarrow> True | Some v \<Rightarrow> zero_vector v \<or> \<not> st_vec_ready s);
             s = s\<lparr>st_l0 := upsert_row l0_id merge_l0 row (st_l0 s)\<rparr>;
             s = (if skip then s else s\<lparr>st_l0_vec := drop_id fst (lr_id r) (st_l0_vec s) @ [(lr_id r, the emb, lr_recorded r)]\<rparr>)
         in (True, if st_fts_available s then s\<lparr>st_l0_fts := fts_write run l0_id row (st_l0_fts s)\<rparr> else s)))"

definition has_l0 :: "string \<Rightarrow> 'v memory_store \<Rightarrow> bool" where
  "has_l0 i s \<longleftrightarrow> \<not> st_degraded s \<and> find_id l0_id i (st_l0 s) \<noteq> None"

definition delete_l0_artifacts :: "db_run \<Rightarrow> string \<Rightarrow> 'v memory_store \<Rightarrow> 'v memory_store" where
  "delete_l0_artifacts run i s =
     (let s = s\<lparr>st_l0_jobs := drop_id ej_id i (st_l0_jobs s)\<rparr>;
          s = (if st_vec_ready s then s\<lparr>st_l0_vec := drop_id fst i (st_l0_vec s)\<rparr> else s)
      in if st_fts_available s then s\<lparr>st_l0_fts := fts_delete run l0_id i (st_l0_fts s)\<rparr> else s)"

definition delete_l0 :: "db_run \<Rightarrow> string \<Rightarrow> isolation_filter option \<Rightarrow> 'v memory_store \<Rightarrow> bool \<times> 'v memory_store" where
  "delete_l0 run i flt s =
     (let row = find_id l0_id i (st_l0 s);
          refused = (flt \<noteq> None \<and> (case row of None \<Rightarrow> True | Some r \<Rightarrow> \<not> row_matches_isolation r flt))
      in if st_degraded s \<or> refused \<or> db_fails run then (False, s)
         else (row \<noteq> None, delete_l0_artifacts run i (s\<lparr>st_l0 := drop_id l0_id i (st_l0 s)\<rparr>)))"

text \<open>\<^verbatim>\<open>deleteL0Expired\<close> refuses to delete more than four fifths of the rows.\<close>

definition delete_l0_expired :: "db_run \<Rightarrow> ms \<Rightarrow> 'v memory_store \<Rightarrow> nat \<times> 'v memory_store" where
  "delete_l0_expired run cutoff s =
     (let expired = filter (\<lambda>r. l0_recorded r < cutoff) (st_l0 s);
          n = length expired
      in if st_degraded s \<or> n = 0 \<or> 4 * length (st_l0 s) < 5 * n \<or> db_fails run then (0, s)
         else
           (let s = s\<lparr>st_l0_jobs := filter (\<lambda>j. ej_id j \<notin> l0_id ` set expired) (st_l0_jobs s)\<rparr>;
                s = (if st_vec_ready s then s\<lparr>st_l0_vec := filter (\<lambda>(i, v, t). \<not> t < cutoff) (st_l0_vec s)\<rparr> else s)
            in (n, s\<lparr>st_l0 := filter (\<lambda>r. \<not> l0_recorded r < cutoff) (st_l0 s)\<rparr>)))"

text \<open>\<^verbatim>\<open>deleteL0BySession\<close>; None is the error for an empty session.\<close>

fun delete_l0_rows :: "db_run \<Rightarrow> l0_row list \<Rightarrow> 'v memory_store \<Rightarrow> nat \<times> 'v memory_store" where
  "delete_l0_rows run [] s = (0, s)"
| "delete_l0_rows run (r # rs) s =
     (case find_id l0_id (l0_id r) (st_l0 s) of
        None \<Rightarrow> delete_l0_rows run rs s
      | Some x \<Rightarrow>
          (case delete_l0_rows run rs (delete_l0_artifacts run (l0_id r) (s\<lparr>st_l0 := drop_id l0_id (l0_id r) (st_l0 s)\<rparr>)) of
             (n, s) \<Rightarrow> (Suc n, s)))"

definition of_session :: "string \<Rightarrow> 'a owned_scheme \<Rightarrow> bool" where
  "of_session sid r \<longleftrightarrow> ow_session_key r = sid \<or> ow_session_id r = sid"

definition delete_l0_by_session ::
  "db_run \<Rightarrow> string \<Rightarrow> isolation_filter option \<Rightarrow> 'v memory_store \<Rightarrow> (nat \<times> 'v memory_store) option" where
  "delete_l0_by_session run session flt s =
     (let sid = trim session
      in if sid = [] then None
         else if st_degraded s \<or> db_fails run then Some (0, s)
         else Some (delete_l0_rows run (filter (\<lambda>r. row_matches_isolation r flt) (filter (of_session sid) (st_l0 s))) s))"

section \<open>Waiting embeddings\<close>

definition enqueue_l0_embedding :: "ms \<Rightarrow> string \<Rightarrow> string \<Rightarrow> 'v memory_store \<Rightarrow> 'v memory_store" where
  "enqueue_l0_embedding now i txt s =
     (if st_degraded s \<or> \<not> st_vec_ready s \<or> i \<in> fst ` set (st_l0_vec s) then s
      else s\<lparr>st_l0_jobs := upsert_row ej_id (\<lambda>old new. old\<lparr>ej_text := ej_text new, ej_updated := ej_updated new\<rparr>)
        \<lparr>ej_id = i, ej_text = txt, ej_dead = False, ej_attempts = 0, ej_next = now, ej_error = None,
         ej_created = now, ej_updated = now\<rparr> (st_l0_jobs s)\<rparr>)"

definition job_due :: "ms \<Rightarrow> embedding_job \<Rightarrow> bool" where
  "job_due now j \<longleftrightarrow> \<not> ej_dead j \<and> ej_next j \<le> now"

definition due_l0_embeddings :: "ms \<Rightarrow> int \<Rightarrow> 'v memory_store \<Rightarrow> embedding_job list \<times> 'v memory_store" where
  "due_l0_embeddings now limit s =
     (if st_degraded s \<or> \<not> st_vec_ready s then ([], s)
      else
        (let jobs = filter (\<lambda>j. \<not> (ej_dead j \<and> ej_updated j < now - 7 * 24 * 60 * 60000)) (st_l0_jobs s)
         in (take (nat (max 1 (min 100 limit))) (sort_key ej_created (filter (job_due now) jobs)), s\<lparr>st_l0_jobs := jobs\<rparr>)))"

definition complete_l0_embedding :: "string \<Rightarrow> 'v memory_store \<Rightarrow> 'v memory_store" where
  "complete_l0_embedding i s = (if st_degraded s then s else s\<lparr>st_l0_jobs := drop_id ej_id i (st_l0_jobs s)\<rparr>)"

definition retry_delay_ms :: "nat \<Rightarrow> ms" where
  "retry_delay_ms attempts = min (5 * 60000) (1000 * 2 ^ min attempts 8)"

definition retry_l0_embedding :: "ms \<Rightarrow> string \<Rightarrow> nat \<Rightarrow> string \<Rightarrow> 'v memory_store \<Rightarrow> 'v memory_store" where
  "retry_l0_embedding now i attempts err s =
     (if st_degraded s then s
      else s\<lparr>st_l0_jobs := map (\<lambda>j. if ej_id j = i
        then j\<lparr>ej_dead := 8 \<le> attempts, ej_attempts := attempts,
               ej_next := (if 8 \<le> attempts then now else now + retry_delay_ms attempts),
               ej_error := Some (take 1000 err), ej_updated := now\<rparr>
        else j) (st_l0_jobs s)\<rparr>)"

definition update_l0_embedding :: "db_run \<Rightarrow> string \<Rightarrow> 'v::zero list \<Rightarrow> 'v memory_store \<Rightarrow> bool \<times> 'v memory_store" where
  "update_l0_embedding run i v s =
     (if st_degraded s \<or> \<not> st_vec_ready s \<or> zero_vector v then (False, s)
      else
        (case find_id l0_id i (st_l0 s) of
           None \<Rightarrow> (False, s)
         | Some r \<Rightarrow>
             if db_fails run then (False, s)
             else (True, s\<lparr>st_l0_vec := drop_id fst i (st_l0_vec s) @ [(i, v, l0_recorded r)]\<rparr>)))"

section \<open>Reading messages\<close>

text \<open>\<^verbatim>\<open>L0CountFilter\<close> and \<^verbatim>\<open>L0PaginatedFilter\<close>: a session is its key or its id, and an empty one counts
  as absent.\<close>

record l0_filter =
  lf_session :: "string option"
  lf_team :: "string option"
  lf_user :: "string option"
  lf_agent :: "string option"
  lf_task :: "string option"
  lf_start :: "ms option"
  lf_end :: "ms option"

definition l0_selected :: "l0_filter \<Rightarrow> l0_row \<Rightarrow> bool" where
  "l0_selected f r \<longleftrightarrow>
     (opt_text (lf_session f) = [] \<or> of_session (opt_text (lf_session f)) r)
     \<and> (case lf_team f of Some v \<Rightarrow> ow_team r = v | None \<Rightarrow> True)
     \<and> (case lf_user f of Some v \<Rightarrow> ow_user r = v | None \<Rightarrow> True)
     \<and> (case lf_agent f of Some v \<Rightarrow> ow_agent r = v | None \<Rightarrow> True)
     \<and> (case lf_task f of Some v \<Rightarrow> ow_task r = v | None \<Rightarrow> True)
     \<and> (case lf_start f of Some t \<Rightarrow> t \<le> l0_time r | None \<Rightarrow> True)
     \<and> (case lf_end f of Some t \<Rightarrow> l0_time r \<le> t | None \<Rightarrow> True)"

definition count_l0 :: "bool \<Rightarrow> l0_filter \<Rightarrow> 'v memory_store \<Rightarrow> nat" where
  "count_l0 fails f s = (if st_degraded s \<or> fails then 0 else length (filter (l0_selected f) (st_l0 s)))"

definition page :: "nat \<Rightarrow> nat \<Rightarrow> 'r list \<Rightarrow> 'r list" where
  "page limit offset rows = take limit (drop offset rows)"

definition query_l0_paginated :: "bool \<Rightarrow> l0_filter \<Rightarrow> nat \<Rightarrow> nat \<Rightarrow> 'v memory_store \<Rightarrow> l0_row list \<times> nat" where
  "query_l0_paginated fails f limit offset s =
     (if st_degraded s \<or> fails then ([], 0)
      else (page limit offset (sort_key (\<lambda>r. - l0_time r) (filter (l0_selected f) (st_l0 s))),
            length (filter (l0_selected f) (st_l0 s))))"

definition query_l0_for_l1 :: "bool \<Rightarrow> string \<Rightarrow> ms option \<Rightarrow> nat \<Rightarrow> 'v memory_store \<Rightarrow> l0_row list" where
  "query_l0_for_l1 fails key after limit s =
     (if st_degraded s \<or> fails then []
      else take limit (sort_key l0_recorded (filter (\<lambda>r. ow_session_key r = key
        \<and> (case after of Some t \<Rightarrow> 0 < t \<longrightarrow> t < l0_recorded r | None \<Rightarrow> True)) (st_l0 s))))"

text \<open>\<^verbatim>\<open>queryL0GroupedBySessionId\<close>: groups in the order of their first rows, then sorted by the time of
  their first messages. The key of a group is the tuple that the code joins with NUL characters.\<close>

record l0_message =
  lm_id :: string
  lm_role :: string
  lm_content :: string
  lm_time :: ms
  lm_recorded :: ms

record l0_group =
  lg_session :: string
  lg_team :: "string option"
  lg_task :: "string option"
  lg_user :: string
  lg_agent :: string
  lg_messages :: "l0_message list"

definition message_of_row :: "l0_row \<Rightarrow> l0_message" where
  "message_of_row r = \<lparr>lm_id = l0_id r, lm_role = l0_role r, lm_content = l0_text r, lm_time = l0_time r,
     lm_recorded = l0_recorded r\<rparr>"

text \<open>Insertion into a \<^verbatim>\<open>Map\<close> of groups: an existing group gets the item at its end.\<close>

definition group_into :: "('r \<Rightarrow> 'k) \<Rightarrow> 'r \<Rightarrow> ('k, 'r list) jsmap \<Rightarrow> ('k, 'r list) jsmap" where
  "group_into key r m = AList.update (key r) (jget_or [] m (key r) @ [r]) m"

definition group_rows :: "('r \<Rightarrow> 'k) \<Rightarrow> 'r list \<Rightarrow> ('k, 'r list) jsmap" where
  "group_rows key rows = fold (group_into key) rows []"

definition l0_group_key :: "l0_row \<Rightarrow> string list" where
  "l0_group_key r = [ow_team r, ow_user r, ow_agent r, ow_session_id r, ow_task r]"

definition l0_group_of :: "l0_row list \<Rightarrow> l0_group" where
  "l0_group_of rows =
     (let r = hd rows
      in \<lparr>lg_session = ow_session_id r, lg_team = nonempty (ow_team r), lg_task = nonempty (ow_task r),
          lg_user = ow_user r, lg_agent = ow_agent r, lg_messages = map message_of_row rows\<rparr>)"

definition query_l0_grouped :: "bool \<Rightarrow> string \<Rightarrow> ms option \<Rightarrow> nat \<Rightarrow> 'v memory_store \<Rightarrow> l0_group list" where
  "query_l0_grouped fails key after limit s =
     sort_key (\<lambda>g. lm_time (hd (lg_messages g)))
       (map (l0_group_of \<circ> snd) (group_rows l0_group_key (query_l0_for_l1 fails key after limit s)))"

definition query_l0_records_cursor :: "bool \<Rightarrow> string \<Rightarrow> nat \<Rightarrow> 'v memory_store \<Rightarrow> l0_row list" where
  "query_l0_records_cursor fails after limit s =
     (if st_degraded s \<or> fails then []
      else take limit (sort_key l0_id (filter (\<lambda>r. after < l0_id r) (st_l0 s))))"

section \<open>Searching messages\<close>

text \<open>The nearest neighbours of a vector in a table: ids with their distance, None where it is
  undefined. A hit without a row, or of another owner, is left out.\<close>

type_synonym ('v, 'd) neighbours = "'v list \<Rightarrow> nat \<Rightarrow> (string \<times> 'v list \<times> ms) list \<Rightarrow> (string \<times> 'd option) list"

definition retrieve_count :: "nat \<Rightarrow> isolation_filter option \<Rightarrow> nat" where
  "retrieve_count k flt = (if flt = None then k + 10 else max (k * 5) (k + 10))"

definition vector_hits ::
  "('a owned_scheme \<Rightarrow> string) \<Rightarrow> 'a owned_scheme list \<Rightarrow> isolation_filter option \<Rightarrow> (string \<times> 'd option) list
   \<Rightarrow> ('a owned_scheme \<times> 'd::{one, minus}) list" where
  "vector_hits key rows flt hits =
     List.map_filter (\<lambda>(i, d). case (d, find_id key i rows) of
         (Some d, Some r) \<Rightarrow> if row_matches_isolation r flt then Some (r, 1 - d) else None
       | _ \<Rightarrow> None) hits"

definition search_l0_vector ::
  "('v, 'd::{one, minus}) neighbours \<Rightarrow> bool \<Rightarrow> 'v list \<Rightarrow> nat \<Rightarrow> isolation_filter option \<Rightarrow> 'v memory_store \<Rightarrow> (l0_row \<times> 'd) list" where
  "search_l0_vector knn fails v k flt s =
     (if st_degraded s \<or> \<not> st_vec_ready s \<or> fails then []
      else take k (vector_hits l0_id (st_l0 s) flt (knn v (retrieve_count k flt) (st_l0_vec s))))"

text \<open>The matches of a query in an index, best first, with their scores.\<close>

type_synonym ('r, 'd) matches = "string \<Rightarrow> 'r list \<Rightarrow> ('r \<times> 'd) list"

definition fts_hits :: "('a owned_scheme \<times> 'd) list \<Rightarrow> nat \<Rightarrow> isolation_filter option \<Rightarrow> ('a owned_scheme \<times> 'd) list" where
  "fts_hits found limit flt =
     take limit (filter (\<lambda>(r, d). row_matches_isolation r flt) (take (if flt = None then limit else max (limit * 5) limit) found))"

definition search_l0_fts :: "(l0_row, 'd) matches \<Rightarrow> bool \<Rightarrow> string \<Rightarrow> nat \<Rightarrow> isolation_filter option \<Rightarrow> 'v memory_store \<Rightarrow> (l0_row \<times> 'd) list" where
  "search_l0_fts fts fails q limit flt s =
     (if st_degraded s \<or> \<not> st_fts_available s \<or> fails then [] else fts_hits (fts q (st_l0_fts s)) limit flt)"

end
