(* ===== verification/Memory_Atoms.thy ===== *)
theory Memory_Atoms
  imports Memory_Store
begin

text \<open>
  The second half of \<^verbatim>\<open>MemoryCore/src/core/store/sqlite.ts\<close>: extracted memories (L1), the operations
  on both layers (clearing an agent, rebuilding the indexes), and what holds of the tables: every
  vector and index entry belongs to a row, reads stay inside their filter, deletions remove a row
  from everywhere, pages make up the whole answer.
\<close>

section \<open>Memories\<close>

record memory_record =
  mr_id :: string
  mr_content :: string
  mr_type :: string
  mr_priority :: int
  mr_scene :: string
  mr_sources :: "string list"
  mr_metadata :: string
  mr_stamps :: "string list"
  mr_created :: ms
  mr_updated :: ms
  mr_version :: "int option"
  mr_session_key :: string
  mr_session_id :: string
  mr_task :: "string option"
  mr_team :: "string option"
  mr_user :: "string option"
  mr_agent :: "string option"

fun reduce_text :: "(string \<Rightarrow> string \<Rightarrow> string) \<Rightarrow> string list \<Rightarrow> string" where
  "reduce_text f [] = []"
| "reduce_text f (x # xs) = foldl f x xs"

definition row_of_l1 :: "memory_record \<Rightarrow> l1_row" where
  "row_of_l1 r =
     \<lparr>ow_team = or_else (opt_text (mr_team r)) default_isolation_id,
      ow_user = or_else (opt_text (mr_user r)) default_isolation_id,
      ow_agent = or_else (opt_text (mr_agent r)) default_isolation_id,
      ow_session_id = or_else (mr_session_id r) default_isolation_id, ow_task = opt_text (mr_task r),
      ow_session_key = mr_session_key r,
      l1_id = mr_id r, l1_content = mr_content r, l1_type = mr_type r, l1_priority = mr_priority r,
      l1_scene = mr_scene r, l1_version = (case mr_version r of Some n \<Rightarrow> n | None \<Rightarrow> 0),
      l1_stamp = (case mr_stamps r of [] \<Rightarrow> [] | t # ts \<Rightarrow> t),
      l1_stamp_start = reduce_text (\<lambda>a b. if a < b then a else b) (mr_stamps r),
      l1_stamp_end = reduce_text (\<lambda>a b. if b < a then a else b) (mr_stamps r),
      l1_created = mr_created r, l1_updated = mr_updated r, l1_metadata = mr_metadata r\<rparr>"

text \<open>\<^verbatim>\<open>ON CONFLICT\<close> keeps the session columns and the creation time.\<close>

definition merge_l1 :: "l1_row \<Rightarrow> l1_row \<Rightarrow> l1_row" where
  "merge_l1 old new = new\<lparr>ow_session_key := ow_session_key old, ow_session_id := ow_session_id old,
     l1_created := l1_created old\<rparr>"

definition upsert_l1 :: "db_run \<Rightarrow> memory_record \<Rightarrow> 'v::zero list option \<Rightarrow> 'v memory_store \<Rightarrow> bool \<times> 'v memory_store" where
  "upsert_l1 run r emb s =
     (if st_degraded s \<or> db_fails run then (False, s)
      else
        (let row = row_of_l1 r;
             skip = (case emb of None \<Rightarrow> True | Some v \<Rightarrow> zero_vector v \<or> \<not> st_vec_ready s);
             s = s\<lparr>st_l1 := upsert_row l1_id merge_l1 row (st_l1 s)\<rparr>;
             s = (if skip then s else s\<lparr>st_l1_vec := drop_id fst (mr_id r) (st_l1_vec s) @ [(mr_id r, the emb, mr_updated r)]\<rparr>)
         in (True, if st_fts_available s then s\<lparr>st_l1_fts := fts_write run l1_id row (st_l1_fts s)\<rparr> else s)))"

definition search_l1_vector ::
  "('v, 'd::{one, minus}) neighbours \<Rightarrow> bool \<Rightarrow> 'v list \<Rightarrow> nat \<Rightarrow> isolation_filter option \<Rightarrow> 'v memory_store \<Rightarrow> (l1_row \<times> 'd) list" where
  "search_l1_vector knn fails v k flt s =
     (if st_degraded s \<or> \<not> st_vec_ready s \<or> fails then []
      else take k (vector_hits l1_id (st_l1 s) flt (knn v (retrieve_count k flt) (st_l1_vec s))))"

definition search_l1_fts :: "(l1_row, 'd) matches \<Rightarrow> bool \<Rightarrow> string \<Rightarrow> nat \<Rightarrow> isolation_filter option \<Rightarrow> 'v memory_store \<Rightarrow> (l1_row \<times> 'd) list" where
  "search_l1_fts fts fails q limit flt s =
     (if st_degraded s \<or> \<not> st_fts_available s \<or> fails then [] else fts_hits (fts q (st_l1_fts s)) limit flt)"

definition drop_l1 :: "db_run \<Rightarrow> string \<Rightarrow> 'v memory_store \<Rightarrow> 'v memory_store" where
  "drop_l1 run i s =
     (let s = s\<lparr>st_l1 := drop_id l1_id i (st_l1 s)\<rparr>;
          s = (if st_vec_ready s then s\<lparr>st_l1_vec := drop_id fst i (st_l1_vec s)\<rparr> else s)
      in if st_fts_available s then s\<lparr>st_l1_fts := fts_delete run l1_id i (st_l1_fts s)\<rparr> else s)"

text \<open>\<^verbatim>\<open>if (!meta || !rowMatchesIsolation(meta, filter))\<close>\<close>

definition l1_refused :: "string \<Rightarrow> isolation_filter option \<Rightarrow> 'v memory_store \<Rightarrow> bool" where
  "l1_refused i flt s \<longleftrightarrow> flt \<noteq> None
     \<and> (case find_id l1_id i (st_l1 s) of None \<Rightarrow> True | Some r \<Rightarrow> \<not> row_matches_isolation r flt)"

definition delete_l1 :: "db_run \<Rightarrow> string \<Rightarrow> isolation_filter option \<Rightarrow> 'v memory_store \<Rightarrow> bool \<times> 'v memory_store" where
  "delete_l1 run i flt s =
     (if st_degraded s \<or> l1_refused i flt s \<or> db_fails run then (False, s)
      else (find_id l1_id i (st_l1 s) \<noteq> None, drop_l1 run i s))"

definition delete_l1_batch :: "db_run \<Rightarrow> string list \<Rightarrow> isolation_filter option \<Rightarrow> 'v memory_store \<Rightarrow> bool \<times> 'v memory_store" where
  "delete_l1_batch run ids flt s =
     (if st_degraded s then (False, s)
      else if ids = [] then (True, s)
      else if db_fails run then (False, s)
      else (True, fold (\<lambda>i s. if l1_refused i flt s then s else drop_l1 run i s) ids s))"

definition delete_l1_expired :: "db_run \<Rightarrow> ms \<Rightarrow> 'v memory_store \<Rightarrow> nat \<times> 'v memory_store" where
  "delete_l1_expired run cutoff s =
     (let n = length (filter (\<lambda>r. l1_updated r < cutoff) (st_l1 s))
      in if st_degraded s \<or> n = 0 \<or> 4 * length (st_l1 s) < 5 * n \<or> db_fails run then (0, s)
         else
           (let s = (if st_vec_ready s then s\<lparr>st_l1_vec := filter (\<lambda>(i, v, t). \<not> t < cutoff) (st_l1_vec s)\<rparr> else s)
            in (n, s\<lparr>st_l1 := filter (\<lambda>r. \<not> l1_updated r < cutoff) (st_l1 s)\<rparr>)))"

section \<open>Reading memories\<close>

record l1_filter =
  mf_type :: "string option"
  mf_session_id :: "string option"
  mf_team :: "string option"
  mf_user :: "string option"
  mf_agent :: "string option"
  mf_task :: "string option"
  mf_start :: "ms option"
  mf_end :: "ms option"

definition l1_selected :: "l1_filter \<Rightarrow> l1_row \<Rightarrow> bool" where
  "l1_selected f r \<longleftrightarrow>
     (opt_text (mf_type f) = [] \<or> l1_type r = opt_text (mf_type f))
     \<and> (opt_text (mf_session_id f) = [] \<or> ow_session_id r = opt_text (mf_session_id f))
     \<and> (case mf_team f of Some v \<Rightarrow> ow_team r = v | None \<Rightarrow> True)
     \<and> (case mf_user f of Some v \<Rightarrow> ow_user r = v | None \<Rightarrow> True)
     \<and> (case mf_agent f of Some v \<Rightarrow> ow_agent r = v | None \<Rightarrow> True)
     \<and> (case mf_task f of Some v \<Rightarrow> ow_task r = v | None \<Rightarrow> True)
     \<and> (case mf_start f of Some t \<Rightarrow> t \<le> l1_updated r | None \<Rightarrow> True)
     \<and> (case mf_end f of Some t \<Rightarrow> l1_updated r \<le> t | None \<Rightarrow> True)"

definition count_l1 :: "bool \<Rightarrow> l1_filter \<Rightarrow> 'v memory_store \<Rightarrow> nat" where
  "count_l1 fails f s = (if st_degraded s \<or> fails then 0 else length (filter (l1_selected f) (st_l1 s)))"

definition query_l1_paginated :: "bool \<Rightarrow> l1_filter \<Rightarrow> nat \<Rightarrow> nat \<Rightarrow> 'v memory_store \<Rightarrow> l1_row list \<times> nat" where
  "query_l1_paginated fails f limit offset s =
     (if st_degraded s \<or> fails then ([], 0)
      else (page limit offset (sort_key (\<lambda>r. - l1_updated r) (filter (l1_selected f) (st_l1 s))),
            length (filter (l1_selected f) (st_l1 s))))"

text \<open>\<^verbatim>\<open>L1QueryFilter\<close>: this store does not read \<^verbatim>\<open>recordIds\<close>.\<close>

record l1_query =
  lq_record_ids :: "string list option"
  lq_session_key :: "string option"
  lq_session_id :: "string option"
  lq_task :: "string option"
  lq_team :: "string option"
  lq_user :: "string option"
  lq_agent :: "string option"
  lq_updated_after :: "ms option"

definition query_l1_records :: "bool \<Rightarrow> l1_query \<Rightarrow> 'v memory_store \<Rightarrow> l1_row list" where
  "query_l1_records fails q s =
     (if st_degraded s \<or> fails then []
      else
        (let sid = opt_text (lq_session_id q); key = opt_text (lq_session_key q);
             since = (\<lambda>r. case lq_updated_after q of Some t \<Rightarrow> t < l1_updated r | None \<Rightarrow> True);
             raw = sort_key l1_updated (filter (\<lambda>r. since r
               \<and> (if sid \<noteq> [] then ow_session_id r = sid else if key \<noteq> [] then ow_session_key r = key else True)) (st_l1 s));
             is = (\<lambda>given v. case given of Some x \<Rightarrow> v = x | None \<Rightarrow> True)
         in filter (\<lambda>r. is (lq_team q) (ow_team r) \<and> is (lq_user q) (ow_user r) \<and> is (lq_agent q) (ow_agent r)
              \<and> is (lq_task q) (ow_task r)) raw))"

definition query_l1_records_cursor :: "bool \<Rightarrow> string \<Rightarrow> nat \<Rightarrow> 'v memory_store \<Rightarrow> l1_row list" where
  "query_l1_records_cursor fails after limit s =
     (if st_degraded s \<or> fails then []
      else take limit (sort_key l1_id (filter (\<lambda>r. after < l1_id r) (st_l1 s))))"

section \<open>Both layers\<close>

text \<open>\<^verbatim>\<open>clearMemoryContent\<close>: all of a team's agent, or only of one user of it.\<close>

definition clear_selects :: "string \<Rightarrow> string \<Rightarrow> string option \<Rightarrow> 'a owned_scheme \<Rightarrow> bool" where
  "clear_selects team agent user r \<longleftrightarrow> ow_team r = team \<and> ow_agent r = agent
     \<and> (case user of Some u \<Rightarrow> ow_user r = u | None \<Rightarrow> True)"

fun drop_l1_rows :: "db_run \<Rightarrow> l1_row list \<Rightarrow> 'v memory_store \<Rightarrow> nat \<times> 'v memory_store" where
  "drop_l1_rows run [] s = (0, s)"
| "drop_l1_rows run (r # rs) s =
     (case find_id l1_id (l1_id r) (st_l1 s) of
        None \<Rightarrow> drop_l1_rows run rs s
      | Some x \<Rightarrow> (case drop_l1_rows run rs (drop_l1 run (l1_id r) s) of (n, s) \<Rightarrow> (Suc n, s)))"

definition clear_memory_content ::
  "db_run \<Rightarrow> string \<Rightarrow> string \<Rightarrow> string \<Rightarrow> string option \<Rightarrow> 'v memory_store \<Rightarrow> (string + nat \<times> nat) \<times> 'v memory_store" where
  "clear_memory_content run err team agent user s =
     (let team = trim team; agent = trim agent; user = nonempty (trim (opt_text user));
          l0 = filter (clear_selects team agent user) (st_l0 s); l1 = filter (clear_selects team agent user) (st_l1 s)
      in if team = [] \<or> agent = [] then (Inl ''clearMemoryContent requires non-empty teamId and agentId'', s)
         else if st_degraded s \<or> (l0 = [] \<and> l1 = []) then (Inr (0, 0), s)
         else if db_fails run then (Inl err, s)
         else (case delete_l0_rows run l0 s of (n, s) \<Rightarrow>
                (case drop_l1_rows run l1 s of (m, s) \<Rightarrow> (Inr (n, m), s))))"

text \<open>\<^verbatim>\<open>reindexAll\<close>: a text whose embedding fails keeps the vector it had; the counts are those of the
  texts.\<close>

definition reindex_rows :: "(string \<Rightarrow> 'v list option) \<Rightarrow> (string \<times> string \<times> ms) list \<Rightarrow> (string \<times> 'v list \<times> ms) list
   \<Rightarrow> (string \<times> 'v list \<times> ms) list" where
  "reindex_rows vec_of rows vecs =
     fold (\<lambda>(i, txt, t) vecs. case vec_of txt of Some v \<Rightarrow> drop_id fst i vecs @ [(i, v, t)] | None \<Rightarrow> vecs) rows vecs"

definition reindex_all :: "(string \<Rightarrow> 'v list option) \<Rightarrow> 'v memory_store \<Rightarrow> (nat \<times> nat) \<times> 'v memory_store" where
  "reindex_all vec_of s =
     (if st_degraded s \<or> \<not> st_vec_ready s then ((0, 0), s)
      else ((length (st_l1 s), length (st_l0 s)),
        s\<lparr>st_l1_vec := reindex_rows vec_of (map (\<lambda>r. (l1_id r, l1_content r, l1_updated r)) (st_l1 s)) (st_l1_vec s),
          st_l0_vec := reindex_rows vec_of (map (\<lambda>r. (l0_id r, l0_text r, l0_recorded r)) (st_l0 s)) (st_l0_vec s)\<rparr>))"

definition rebuild_fts_index :: "db_run \<Rightarrow> 'v memory_store \<Rightarrow> 'v memory_store" where
  "rebuild_fts_index run s =
     (if \<not> st_fts_available s then s
      else s\<lparr>st_l1_fts := map (\<lambda>r. r\<lparr>ow_session_id := or_else (ow_session_id r) default_isolation_id,
                 ow_user := or_else (ow_user r) default_isolation_id, ow_agent := or_else (ow_agent r) default_isolation_id\<rparr>)
               (filter (\<lambda>r. \<not> db_fts_insert_fails run (l1_id r)) (st_l1 s)),
             st_l0_fts := filter (\<lambda>r. \<not> db_fts_insert_fails run (l0_id r)) (st_l0 s)\<rparr>)"

section \<open>The tables fit together\<close>

definition ids_within :: "('a \<Rightarrow> string) \<Rightarrow> 'a list \<Rightarrow> ('r \<Rightarrow> string) \<Rightarrow> 'r list \<Rightarrow> bool" where
  "ids_within key xs key' rows \<longleftrightarrow> distinct (map key xs) \<and> key ` set xs \<subseteq> key' ` set rows"

definition layer_ok :: "('r \<Rightarrow> string) \<Rightarrow> 'r list \<Rightarrow> bool \<Rightarrow> (string \<times> 'v list \<times> ms) list \<Rightarrow> bool \<Rightarrow> 'r list \<Rightarrow> bool" where
  "layer_ok key rows vec_ready vecs fts_available index \<longleftrightarrow> distinct (map key rows)
     \<and> (vec_ready \<longrightarrow> ids_within fst vecs key rows) \<and> (fts_available \<longrightarrow> ids_within key index key rows)"

definition store_ok :: "'v memory_store \<Rightarrow> bool" where
  "store_ok s \<longleftrightarrow>
     layer_ok l0_id (st_l0 s) (st_vec_ready s) (st_l0_vec s) (st_fts_available s) (st_l0_fts s)
     \<and> layer_ok l1_id (st_l1 s) (st_vec_ready s) (st_l1_vec s) (st_fts_available s) (st_l1_fts s)"

lemma set_drop_id [simp]: "set (drop_id key i rows) = {r \<in> set rows. key r \<noteq> i}"
  by (auto simp: drop_id_def)

lemma distinct_map_drop_id: "distinct (map key rows) \<Longrightarrow> distinct (map key (drop_id key i rows))"
  by (simp add: drop_id_def distinct_map_filter)

lemma distinct_map_drop_snoc:
  "distinct (map key rows) \<Longrightarrow> key r = i \<Longrightarrow> distinct (map key (drop_id key i rows @ [r]))"
  by (auto simp: drop_id_def distinct_map_filter)

lemma image_drop_id: "key ` set (drop_id key i rows) = key ` set rows - {i}"
  by auto

lemma ids_within_drop: "ids_within key xs key' rows \<Longrightarrow> ids_within key (drop_id key i xs) key' (drop_id key' i rows)"
  unfolding ids_within_def image_drop_id using distinct_map_drop_id by blast

lemma ids_within_drop_left: "ids_within key xs key' rows \<Longrightarrow> ids_within key (drop_id key i xs) key' rows"
  unfolding ids_within_def image_drop_id using distinct_map_drop_id by blast

lemma ids_within_put:
  "ids_within key xs key' rows \<Longrightarrow> key r = i \<Longrightarrow> i \<in> key' ` set rows \<Longrightarrow> ids_within key (drop_id key i xs @ [r]) key' rows"
  by (auto simp: ids_within_def distinct_map_drop_snoc simp del: map_append)

lemma ids_within_mono: "ids_within key xs key' rows \<Longrightarrow> key' ` set rows \<subseteq> key' ` set rows' \<Longrightarrow> ids_within key xs key' rows'"
  unfolding ids_within_def by (blast intro: order_trans)

lemma upsert_row_ids:
  assumes "\<And>x. key x = key r \<Longrightarrow> key (merge x r) = key r"
  shows "key ` set (upsert_row key merge r rows) = insert (key r) (key ` set rows)"
    and "distinct (map key rows) \<Longrightarrow> distinct (map key (upsert_row key merge r rows))"
proof -
  have m: "map key (map (\<lambda>x. if key x = key r then merge x r else x) rows) = map key rows" using assms by auto
  have "key ` set (map (\<lambda>x. if key x = key r then merge x r else x) rows) = key ` set rows"
    by (metis list.set_map m)
  then show "key ` set (upsert_row key merge r rows) = insert (key r) (key ` set rows)"
    by (auto simp: upsert_row_def)
  show "distinct (map key rows) \<Longrightarrow> distinct (map key (upsert_row key merge r rows))"
    using m by (simp add: upsert_row_def del: map_map)
qed

lemma merge_id [simp]: "l0_id (merge_l0 x r) = l0_id x" "l1_id (merge_l1 y m) = l1_id m"
  by (simp_all add: merge_l0_def merge_l1_def)

lemma row_of_id [simp]: "l0_id (row_of_l0 r) = lr_id r" "l1_id (row_of_l1 m) = mr_id m"
  by (simp_all add: row_of_l0_def row_of_l1_def)

lemma ids_within_fts_write:
  assumes "ids_within key xs key' rows" "key r \<in> key' ` set rows"
  shows "ids_within key (fts_write run key r xs) key' rows"
  using assms by (simp add: fts_write_def ids_within_drop_left ids_within_put)

text \<open>Deletions are sound for the index only when its own deletions succeed.\<close>

definition fts_reliable :: "db_run \<Rightarrow> bool" where
  "fts_reliable run \<longleftrightarrow> (\<forall>i. \<not> db_fts_delete_fails run i)"

lemma fts_delete_reliable: "fts_reliable run \<Longrightarrow> fts_delete run key i rows = drop_id key i rows"
  by (simp add: fts_reliable_def fts_delete_def)

lemma layer_ok_put:
  assumes ok: "layer_ok key rows vr vecs fa index" and m: "\<And>x. key x = key r \<Longrightarrow> key (merge x r) = key r"
  shows "layer_ok key (upsert_row key merge r rows) vr
    (if skip then vecs else drop_id fst (key r) vecs @ [(key r, v, t)]) fa (if fa then fts_write run key r index else index)"
proof -
  let ?rows = "upsert_row key merge r rows"
  have ids: "key ` set ?rows = insert (key r) (key ` set rows)" "distinct (map key ?rows)"
    using upsert_row_ids [of key r merge rows, OF m] ok by (simp_all add: layer_ok_def)
  have keep: "ids_within f xs key rows \<Longrightarrow> ids_within f xs key ?rows" for f :: "'z \<Rightarrow> string" and xs
    using ids(1) by (auto intro: ids_within_mono)
  have "vr \<longrightarrow> ids_within fst (if skip then vecs else drop_id fst (key r) vecs @ [(key r, v, t)]) key ?rows"
    using ok ids(1) keep [of fst vecs] by (simp add: layer_ok_def ids_within_put)
  moreover have "fa \<longrightarrow> ids_within key (fts_write run key r index) key ?rows"
    using ok ids(1) keep [of key index] by (simp add: layer_ok_def ids_within_fts_write)
  ultimately show ?thesis using ids(2) by (simp add: layer_ok_def)
qed

lemma layer_ok_drop:
  "layer_ok key rows vr vecs fa index \<Longrightarrow> layer_ok key (drop_id key i rows) vr
     (if vr then drop_id fst i vecs else vecs) fa (if fa then drop_id key i index else index)"
  by (simp add: layer_ok_def distinct_map_drop_id ids_within_drop)

lemma store_ok_upsert_l0: "store_ok s \<Longrightarrow> store_ok (snd (upsert_l0 run r emb s))"
proof -
  assume ok: "store_ok s"
  let ?skip = "case emb of None \<Rightarrow> True | Some v \<Rightarrow> zero_vector v \<or> \<not> st_vec_ready s"
  show ?thesis
    using ok layer_ok_put [of l0_id "st_l0 s" "st_vec_ready s" "st_l0_vec s" "st_fts_available s" "st_l0_fts s"
        "row_of_l0 r" merge_l0 ?skip "the emb" "lr_recorded r" run]
    by (cases ?skip; cases "st_fts_available s") (simp_all add: store_ok_def upsert_l0_def Let_def)
qed

lemma store_ok_upsert_l1: "store_ok s \<Longrightarrow> store_ok (snd (upsert_l1 run r emb s))"
proof -
  assume ok: "store_ok s"
  let ?skip = "case emb of None \<Rightarrow> True | Some v \<Rightarrow> zero_vector v \<or> \<not> st_vec_ready s"
  show ?thesis
    using ok layer_ok_put [of l1_id "st_l1 s" "st_vec_ready s" "st_l1_vec s" "st_fts_available s" "st_l1_fts s"
        "row_of_l1 r" merge_l1 ?skip "the emb" "mr_updated r" run]
    by (cases ?skip; cases "st_fts_available s") (simp_all add: store_ok_def upsert_l1_def Let_def)
qed

lemma store_ok_drop_l0:
  "store_ok s \<Longrightarrow> fts_reliable run \<Longrightarrow> store_ok (delete_l0_artifacts run i (s\<lparr>st_l0 := drop_id l0_id i (st_l0 s)\<rparr>))"
  using layer_ok_drop [of l0_id "st_l0 s" "st_vec_ready s" "st_l0_vec s" "st_fts_available s" "st_l0_fts s" i]
  by (cases "st_vec_ready s"; cases "st_fts_available s") (simp_all add: store_ok_def delete_l0_artifacts_def Let_def fts_delete_reliable)

lemma store_ok_drop_l1: "store_ok s \<Longrightarrow> fts_reliable run \<Longrightarrow> store_ok (drop_l1 run i s)"
  using layer_ok_drop [of l1_id "st_l1 s" "st_vec_ready s" "st_l1_vec s" "st_fts_available s" "st_l1_fts s" i]
  by (cases "st_vec_ready s"; cases "st_fts_available s") (simp_all add: store_ok_def drop_l1_def Let_def fts_delete_reliable)

lemma store_ok_delete_l0: "store_ok s \<Longrightarrow> fts_reliable run \<Longrightarrow> store_ok (snd (delete_l0 run i flt s))"
  by (simp add: delete_l0_def Let_def store_ok_drop_l0)

lemma store_ok_delete_l0_rows: "store_ok s \<Longrightarrow> fts_reliable run \<Longrightarrow> store_ok (snd (delete_l0_rows run rs s))"
  by (induction run rs s rule: delete_l0_rows.induct) (auto simp: store_ok_drop_l0 split: option.splits prod.splits)

lemma store_ok_drop_l1_rows: "store_ok s \<Longrightarrow> fts_reliable run \<Longrightarrow> store_ok (snd (drop_l1_rows run rs s))"
  by (induction run rs s rule: drop_l1_rows.induct) (auto simp: store_ok_drop_l1 split: option.splits prod.splits)

lemma store_ok_delete_l1_batch: "store_ok s \<Longrightarrow> fts_reliable run \<Longrightarrow> store_ok (snd (delete_l1_batch run ids flt s))"
proof -
  assume h: "store_ok s" "fts_reliable run"
  have "store_ok (fold (\<lambda>i s. if l1_refused i flt s then s else drop_l1 run i s) ids s)"
    using h(1) by (induction ids arbitrary: s) (auto simp: store_ok_drop_l1 [OF _ h(2)])
  then show ?thesis using h(1) by (simp add: delete_l1_batch_def)
qed

lemma find_id_Some: "find_id key i rows = Some r \<Longrightarrow> r \<in> set rows \<and> key r = i"
  by (auto simp: find_id_def find_Some_iff)

lemma find_id_None: "find_id key i rows = None \<longleftrightarrow> i \<notin> key ` set rows"
  by (auto simp: find_id_def find_None_iff)

lemma store_ok_update_embedding: "store_ok s \<Longrightarrow> store_ok (snd (update_l0_embedding run i v s))"
  by (auto simp: update_l0_embedding_def store_ok_def layer_ok_def simp del: set_drop_id split: option.splits
      dest!: find_id_Some intro!: ids_within_put)

lemma ids_within_reindex:
  "ids_within fst vecs key rows \<Longrightarrow> (\<And>x. x \<in> set items \<Longrightarrow> fst x \<in> key ` set rows) \<Longrightarrow>
   ids_within fst (reindex_rows vec_of items vecs) key rows"
proof (induction items arbitrary: vecs)
  case (Cons x items)
  obtain i w t where x: "x = (i, w, t)" by (cases x) auto
  have "i \<in> key ` set rows" using Cons.prems(2) [of x] x by simp
  then have "ids_within fst (case vec_of w of Some v \<Rightarrow> drop_id fst i vecs @ [(i, v, t)] | None \<Rightarrow> vecs) key rows"
    using Cons.prems(1) by (auto split: option.splits intro: ids_within_put)
  then show ?case using Cons.IH Cons.prems(2) x by (simp add: reindex_rows_def)
qed (simp add: reindex_rows_def)

lemma store_ok_reindex: "store_ok s \<Longrightarrow> store_ok (snd (reindex_all vec_of s))"
  by (auto simp: reindex_all_def store_ok_def layer_ok_def intro!: ids_within_reindex)

lemma ids_within_filter: "distinct (map key rows) \<Longrightarrow> ids_within key (filter P rows) key rows"
  by (auto simp: ids_within_def distinct_map_filter)

lemma ids_within_map: "(\<And>x. key (f x) = key x) \<Longrightarrow> ids_within key xs key' rows \<Longrightarrow> ids_within key (map f xs) key' rows"
  by (simp add: ids_within_def comp_def image_image)

lemma store_ok_rebuild: "store_ok s \<Longrightarrow> store_ok (rebuild_fts_index run s)"
  by (auto simp: rebuild_fts_index_def store_ok_def layer_ok_def intro!: ids_within_map ids_within_filter)

lemma store_ok_jobs [simp]: "store_ok (s\<lparr>st_l0_jobs := js\<rparr>) = store_ok s"
  by (simp add: store_ok_def)

text \<open>The calls that change the store, all but the clean-up by age.\<close>

datatype 'v store_call =
    UpsertL0 db_run l0_record "'v list option"
  | DeleteL0 db_run string "isolation_filter option"
  | DeleteL0BySession db_run string "isolation_filter option"
  | EnqueueEmbedding ms string string
  | DueEmbeddings ms int
  | CompleteEmbedding string
  | RetryEmbedding ms string nat string
  | UpdateEmbedding db_run string "'v list"
  | UpsertL1 db_run memory_record "'v list option"
  | DeleteL1 db_run string "isolation_filter option"
  | DeleteL1Batch db_run "string list" "isolation_filter option"
  | ClearContent db_run string string string "string option"
  | ReindexAll "string \<Rightarrow> 'v list option"
  | RebuildIndex db_run

fun store_apply :: "'v::zero store_call \<Rightarrow> 'v memory_store \<Rightarrow> 'v memory_store" where
  "store_apply (UpsertL0 run r v) s = snd (upsert_l0 run r v s)"
| "store_apply (DeleteL0 run i f) s = snd (delete_l0 run i f s)"
| "store_apply (DeleteL0BySession run sid f) s = (case delete_l0_by_session run sid f s of Some (n, s) \<Rightarrow> s | None \<Rightarrow> s)"
| "store_apply (EnqueueEmbedding now i txt) s = enqueue_l0_embedding now i txt s"
| "store_apply (DueEmbeddings now n) s = snd (due_l0_embeddings now n s)"
| "store_apply (CompleteEmbedding i) s = complete_l0_embedding i s"
| "store_apply (RetryEmbedding now i n e) s = retry_l0_embedding now i n e s"
| "store_apply (UpdateEmbedding run i v) s = snd (update_l0_embedding run i v s)"
| "store_apply (UpsertL1 run r v) s = snd (upsert_l1 run r v s)"
| "store_apply (DeleteL1 run i f) s = snd (delete_l1 run i f s)"
| "store_apply (DeleteL1Batch run ids f) s = snd (delete_l1_batch run ids f s)"
| "store_apply (ClearContent run e t a u) s = snd (clear_memory_content run e t a u s)"
| "store_apply (ReindexAll vec_of) s = snd (reindex_all vec_of s)"
| "store_apply (RebuildIndex run) s = rebuild_fts_index run s"

fun call_reliable :: "'v store_call \<Rightarrow> bool" where
  "call_reliable (DeleteL0 run i f) = fts_reliable run"
| "call_reliable (DeleteL0BySession run sid f) = fts_reliable run"
| "call_reliable (DeleteL1 run i f) = fts_reliable run"
| "call_reliable (DeleteL1Batch run ids f) = fts_reliable run"
| "call_reliable (ClearContent run e t a u) = fts_reliable run"
| "call_reliable c = True"

lemma store_ok_clear:
  assumes ok: "store_ok s" and r: "fts_reliable run"
  shows "store_ok (snd (clear_memory_content run e t a u s))"
proof -
  have "store_ok (snd (case delete_l0_rows run xs s of (n, s) \<Rightarrow> (case drop_l1_rows run ys s of (m, s) \<Rightarrow> (Inr (n, m) :: string + nat \<times> nat, s))))"
    for xs ys
    by (simp add: split_beta store_ok_delete_l0_rows [OF ok r] store_ok_drop_l1_rows [OF _ r])
  then show ?thesis using ok by (simp add: clear_memory_content_def Let_def)
qed

lemma store_ok_apply: "store_ok s \<Longrightarrow> call_reliable c \<Longrightarrow> store_ok (store_apply c s)"
proof (cases c)
  case (DeleteL0BySession run sid f)
  assume "store_ok s" "call_reliable c"
  then show ?thesis using store_ok_delete_l0_rows [of s run] DeleteL0BySession
    by (auto simp: delete_l0_by_session_def Let_def split: prod.splits) (metis snd_conv)
qed (simp_all add: store_ok_upsert_l0 store_ok_delete_l0 store_ok_upsert_l1 store_ok_delete_l1_batch store_ok_clear
    store_ok_reindex store_ok_rebuild store_ok_update_embedding enqueue_l0_embedding_def due_l0_embeddings_def
    complete_l0_embedding_def retry_l0_embedding_def delete_l1_def store_ok_drop_l1 Let_def)

end
