(* ===== verification/Store_Properties.thy ===== *)
theory Store_Properties
  imports Memory_Atoms
begin

text \<open>
  What the memory store promises (\<open>Memory_Store\<close>, \<open>Memory_Atoms\<close>): tables that fit together, reads
  and deletions inside their filter, complete deletions, exact pages; and the clean-up by age, which
  leaves the deleted texts in the full-text index.
\<close>

section \<open>Deletions as one filter\<close>

definition remove_l0 :: "string set \<Rightarrow> 'v memory_store \<Rightarrow> 'v memory_store" where
  "remove_l0 A s = s\<lparr>st_l0 := filter (\<lambda>r. l0_id r \<notin> A) (st_l0 s), st_l0_jobs := filter (\<lambda>j. ej_id j \<notin> A) (st_l0_jobs s),
     st_l0_vec := (if st_vec_ready s then filter (\<lambda>v. fst v \<notin> A) (st_l0_vec s) else st_l0_vec s),
     st_l0_fts := (if st_fts_available s then filter (\<lambda>r. l0_id r \<notin> A) (st_l0_fts s) else st_l0_fts s)\<rparr>"

definition remove_l1 :: "string set \<Rightarrow> 'v memory_store \<Rightarrow> 'v memory_store" where
  "remove_l1 A s = s\<lparr>st_l1 := filter (\<lambda>r. l1_id r \<notin> A) (st_l1 s),
     st_l1_vec := (if st_vec_ready s then filter (\<lambda>v. fst v \<notin> A) (st_l1_vec s) else st_l1_vec s),
     st_l1_fts := (if st_fts_available s then filter (\<lambda>r. l1_id r \<notin> A) (st_l1_fts s) else st_l1_fts s)\<rparr>"

lemma remove_l0_empty [simp]: "remove_l0 {} s = s"
  by (simp add: remove_l0_def)

lemma remove_l1_empty [simp]: "remove_l1 {} s = s"
  by (simp add: remove_l1_def)

lemma remove_l0_remove: "remove_l0 A (remove_l0 B s) = remove_l0 (A \<union> B) s"
  by (simp add: remove_l0_def conj_commute)

lemma remove_l1_remove: "remove_l1 A (remove_l1 B s) = remove_l1 (A \<union> B) s"
  by (simp add: remove_l1_def conj_commute)

lemma drop_l0_remove:
  "fts_reliable run \<Longrightarrow> delete_l0_artifacts run i (s\<lparr>st_l0 := drop_id l0_id i (st_l0 s)\<rparr>) = remove_l0 {i} s"
  by (simp add: delete_l0_artifacts_def Let_def remove_l0_def drop_id_def fts_delete_reliable)

lemma drop_l1_remove: "fts_reliable run \<Longrightarrow> drop_l1 run i s = remove_l1 {i} s"
  by (simp add: drop_l1_def Let_def remove_l1_def drop_id_def fts_delete_reliable)

lemma delete_l0_rows_remove:
  "fts_reliable run \<Longrightarrow> distinct (map l0_id rs) \<Longrightarrow> l0_id ` set rs \<subseteq> l0_id ` set (st_l0 s) \<Longrightarrow>
   delete_l0_rows run rs s = (length rs, remove_l0 (l0_id ` set rs) s)"
proof (induction rs arbitrary: s)
  case (Cons r rs)
  obtain x where x: "find_id l0_id (l0_id r) (st_l0 s) = Some x"
    using Cons.prems(3) by (cases "find_id l0_id (l0_id r) (st_l0 s)") (auto simp: find_id_None)
  have "l0_id ` set rs \<subseteq> l0_id ` set (st_l0 (remove_l0 {l0_id r} s))"
  proof
    fix i assume i: "i \<in> l0_id ` set rs"
    then have "i \<noteq> l0_id r" using Cons.prems(2) by (metis distinct.simps(2) list.simps(9) set_map)
    moreover obtain y where "y \<in> set (st_l0 s)" "i = l0_id y" using i Cons.prems(3) by auto
    ultimately show "i \<in> l0_id ` set (st_l0 (remove_l0 {l0_id r} s))" by (simp add: remove_l0_def)
  qed
  then have "delete_l0_rows run rs (remove_l0 {l0_id r} s) = (length rs, remove_l0 (l0_id ` set rs) (remove_l0 {l0_id r} s))"
    using Cons.IH [OF Cons.prems(1)] Cons.prems(2) by simp
  then show ?case using x Cons.prems(1) by (simp add: drop_l0_remove remove_l0_remove)
qed simp

lemma drop_l1_rows_remove:
  "fts_reliable run \<Longrightarrow> distinct (map l1_id rs) \<Longrightarrow> l1_id ` set rs \<subseteq> l1_id ` set (st_l1 s) \<Longrightarrow>
   drop_l1_rows run rs s = (length rs, remove_l1 (l1_id ` set rs) s)"
proof (induction rs arbitrary: s)
  case (Cons r rs)
  obtain x where x: "find_id l1_id (l1_id r) (st_l1 s) = Some x"
    using Cons.prems(3) by (cases "find_id l1_id (l1_id r) (st_l1 s)") (auto simp: find_id_None)
  have "l1_id ` set rs \<subseteq> l1_id ` set (st_l1 (remove_l1 {l1_id r} s))"
  proof
    fix i assume i: "i \<in> l1_id ` set rs"
    then have "i \<noteq> l1_id r" using Cons.prems(2) by (metis distinct.simps(2) list.simps(9) set_map)
    moreover obtain y where "y \<in> set (st_l1 s)" "i = l1_id y" using i Cons.prems(3) by auto
    ultimately show "i \<in> l1_id ` set (st_l1 (remove_l1 {l1_id r} s))" by (simp add: remove_l1_def)
  qed
  then have "drop_l1_rows run rs (remove_l1 {l1_id r} s) = (length rs, remove_l1 (l1_id ` set rs) (remove_l1 {l1_id r} s))"
    using Cons.IH [OF Cons.prems(1)] Cons.prems(2) by simp
  then show ?case using x Cons.prems(1) by (simp add: drop_l1_remove remove_l1_remove)
qed simp

lemma filter_ids_of_filter:
  "distinct (map key rows) \<Longrightarrow> filter (\<lambda>r. key r \<notin> key ` set (filter P rows)) rows = filter (\<lambda>r. \<not> P r) rows"
  by (rule filter_cong) (auto simp: distinct_map dest: inj_onD)

lemma distinct_ids_unique:
  assumes "distinct (map key rows)" "find_id key i rows = Some r" "x \<in> set rows" "key x = i"
  shows "x = r"
  using assms find_id_Some [OF assms(2)] by (auto simp: distinct_map dest: inj_onD)

lemma list_all_take: "list_all P xs \<Longrightarrow> list_all P (take n xs)"
  by (auto simp: list_all_iff dest: in_set_takeD)

lemma vector_hits_match: "list_all (\<lambda>(r, d). row_matches_isolation r flt) (take k (vector_hits key rows flt hits))"
  by (rule list_all_take) (auto simp: list_all_iff vector_hits_def map_filter_def split: option.splits if_splits)

lemma fts_hits_match: "list_all (\<lambda>(r, d). row_matches_isolation r flt) (fts_hits found k flt)"
  unfolding fts_hits_def by (rule list_all_take) (auto simp: list_all_iff)

lemma fts_hits_length: "length (fts_hits found k flt) \<le> k"
  by (simp add: fts_hits_def)

lemma delete_l1_expired_rows:
  "delete_l1_expired run cutoff s = (n, s1) \<Longrightarrow> 0 < n \<Longrightarrow> st_l1 s1 = filter (\<lambda>r. \<not> l1_updated r < cutoff) (st_l1 s)
     \<and> st_l1_fts s1 = st_l1_fts s \<and> st_degraded s1 = st_degraded s \<and> st_fts_available s1 = st_fts_available s"
  by (cases "st_vec_ready s") (auto simp: delete_l1_expired_def Let_def split: if_splits)

lemma delete_l0_expired_rows:
  "delete_l0_expired run cutoff s = (n, s1) \<Longrightarrow> 0 < n \<Longrightarrow> st_l0 s1 = filter (\<lambda>r. \<not> l0_recorded r < cutoff) (st_l0 s)
     \<and> st_l0_fts s1 = st_l0_fts s \<and> st_degraded s1 = st_degraded s \<and> st_fts_available s1 = st_fts_available s"
  by (cases "st_vec_ready s") (auto simp: delete_l0_expired_def Let_def split: if_splits)

lemma concat_pages: "concat (map (\<lambda>i. page n (i * n) xs) [0..<k]) = take (k * n) xs"
proof (induction k)
  case (Suc k)
  have "take (n + k * n) xs = take (k * n) xs @ take n (drop (k * n) xs)"
    by (metis add.commute take_add)
  then show ?case using Suc by (simp add: page_def)
qed simp

definition others :: "isolation_filter option \<Rightarrow> 'a owned_scheme list \<Rightarrow> 'a owned_scheme list" where
  "others flt rows = filter (\<lambda>r. \<not> row_matches_isolation r flt) rows"

lemma others_drop_ids:
  "(\<And>x. x \<in> set rows \<Longrightarrow> key x \<in> A \<Longrightarrow> row_matches_isolation x flt) \<Longrightarrow> others flt (filter (\<lambda>r. key r \<notin> A) rows) = others flt rows"
  unfolding others_def filter_filter by (rule filter_cong) auto

lemma others_delete_l0:
  assumes "store_ok s" "fts_reliable run"
  shows "others flt (st_l0 (snd (delete_l0 run i flt s))) = others flt (st_l0 s)"
proof (cases "snd (delete_l0 run i flt s) = s")
  case False
  have d: "distinct (map l0_id (st_l0 s))" using assms(1) by (simp add: store_ok_def layer_ok_def)
  from False have res: "snd (delete_l0 run i flt s) = remove_l0 {i} s"
    and m: "flt = None \<or> (\<exists>r. find_id l0_id i (st_l0 s) = Some r \<and> row_matches_isolation r flt)"
    using assms(2) by (auto simp: delete_l0_def Let_def drop_l0_remove split: if_splits option.splits)
  have "row_matches_isolation x flt" if x: "x \<in> set (st_l0 s)" "l0_id x \<in> {i}" for x
    using m distinct_ids_unique [OF d _ x(1)] x(2) by auto
  then show ?thesis using others_drop_ids [of "st_l0 s" l0_id "{i}" flt] by (simp add: res remove_l0_def)
qed simp

lemma others_delete_session:
  assumes "store_ok s" "fts_reliable run"
  shows "others flt (st_l0 (store_apply (DeleteL0BySession run sid flt) s)) = others flt (st_l0 s)"
proof -
  define rs where "rs = filter (\<lambda>r. row_matches_isolation r flt) (filter (of_session (trim sid)) (st_l0 s))"
  have rs: "set rs \<subseteq> set (st_l0 s)" "\<And>y. y \<in> set rs \<Longrightarrow> row_matches_isolation y flt" by (auto simp: rs_def)
  have d: "distinct (map l0_id (st_l0 s))" using assms(1) by (simp add: store_ok_def layer_ok_def)
  then have "distinct (map l0_id rs)" by (simp add: rs_def distinct_map_filter)
  then have del: "delete_l0_rows run rs s = (length rs, remove_l0 (l0_id ` set rs) s)"
    using rs(1) by (intro delete_l0_rows_remove [OF assms(2)]) blast+
  have "row_matches_isolation x flt" if x: "x \<in> set (st_l0 s)" "l0_id x \<in> l0_id ` set rs" for x
  proof -
    obtain y where y: "y \<in> set rs" "l0_id y = l0_id x" using x(2) by auto
    have "inj_on l0_id (set (st_l0 s))" using d by (simp add: distinct_map)
    then have "y = x" using y x(1) rs(1) by (meson inj_onD subsetD)
    then show ?thesis using rs(2) y(1) by simp
  qed
  then have "others flt (filter (\<lambda>r. l0_id r \<notin> l0_id ` set rs) (st_l0 s)) = others flt (st_l0 s)"
    by (rule others_drop_ids)
  then have o: "others flt (st_l0 (remove_l0 (l0_id ` set rs) s)) = others flt (st_l0 s)"
    unfolding remove_l0_def by simp
  have "store_apply (DeleteL0BySession run sid flt) s
      = (if trim sid = [] \<or> st_degraded s \<or> db_fails run then s else snd (delete_l0_rows run rs s))"
    unfolding store_apply.simps delete_l0_by_session_def Let_def rs_def by (simp add: split_beta)
  then show ?thesis using o by (simp only: del snd_conv if_distrib [of "\<lambda>s. others flt (st_l0 s)"] if_cancel)
qed

lemma others_delete_batch:
  assumes "store_ok s" "fts_reliable run"
  shows "others flt (st_l1 (snd (delete_l1_batch run ids flt s))) = others flt (st_l1 s)"
proof -
  have step: "others flt (st_l1 (drop_l1 run i s)) = others flt (st_l1 s)" if ok: "store_ok s" and nr: "\<not> l1_refused i flt s" for i s
  proof -
    have d: "distinct (map l1_id (st_l1 s))" using ok by (simp add: store_ok_def layer_ok_def)
    have m: "flt = None \<or> (\<exists>r. find_id l1_id i (st_l1 s) = Some r \<and> row_matches_isolation r flt)"
      using nr by (auto simp: l1_refused_def split: option.splits)
    have "row_matches_isolation x flt" if x: "x \<in> set (st_l1 s)" "l1_id x \<in> {i}" for x
      using m distinct_ids_unique [OF d _ x(1)] x(2) by auto
    then show ?thesis using others_drop_ids [of "st_l1 s" l1_id "{i}" flt] by (simp add: drop_l1_remove [OF assms(2)] remove_l1_def)
  qed
  have "others flt (st_l1 (fold (\<lambda>i s. if l1_refused i flt s then s else drop_l1 run i s) ids s)) = others flt (st_l1 s)"
    using assms(1) by (induction ids arbitrary: s) (simp_all add: step store_ok_drop_l1 [OF _ assms(2)])
  then show ?thesis by (simp add: delete_l1_batch_def)
qed

section \<open>Properties\<close>


definition empty_store :: "'v memory_store" where
  "empty_store = \<lparr>st_degraded = False, st_vec_ready = True, st_fts_available = True, st_l0 = [], st_l0_vec = [],
     st_l0_fts = [], st_l0_jobs = [], st_l1 = [], st_l1_vec = [], st_l1_fts = []\<rparr>"

definition demo_l0 :: "string \<Rightarrow> string \<Rightarrow> ms \<Rightarrow> l0_record" where
  "demo_l0 i sid t = \<lparr>lr_id = i, lr_session_key = sid, lr_session_id = sid, lr_team = Some ''team'', lr_user = Some ''ann'',
     lr_agent = None, lr_task = None, lr_role = ''user'', lr_text = ''hello'', lr_recorded = t, lr_time = t\<rparr>"

definition demo_memory :: "string \<Rightarrow> string \<Rightarrow> ms \<Rightarrow> memory_record" where
  "demo_memory i user t = \<lparr>mr_id = i, mr_content = ''likes tea'', mr_type = ''persona'', mr_priority = 50, mr_scene = ''home'',
     mr_sources = [], mr_metadata = ''{}'', mr_stamps = [], mr_created = t, mr_updated = t, mr_version = Some 0,
     mr_session_key = ''s'', mr_session_id = ''s'', mr_task = None, mr_team = Some ''team'', mr_user = Some user, mr_agent = None\<rparr>"

definition demo_store :: "int memory_store" where
  "demo_store = fold store_apply
     [UpsertL0 db_ok (demo_l0 ''m1'' ''s'' 10) (Some [1, 2]), UpsertL0 db_ok (demo_l0 ''m2'' ''s'' 20) None,
      UpsertL1 db_ok (demo_memory ''a1'' ''ann'' 10) (Some [1]), UpsertL1 db_ok (demo_memory ''a2'' ''bob'' 20) None] empty_store"

lemma store_ok_empty: "store_ok empty_store"
  by (simp add: store_ok_def layer_ok_def ids_within_def empty_store_def)

lemma store_ok_demo: "store_ok demo_store"
  unfolding demo_store_def by (simp add: store_ok_upsert_l0 store_ok_upsert_l1 store_ok_empty)

definition isolation_of_user :: "string \<Rightarrow> isolation_filter" where
  "isolation_of_user u = \<lparr>if_team = None, if_user = Some u, if_agent = None, if_session = None, if_task = None, if_session_key = None\<rparr>"


text \<open>
  what the clean-up deletes is still found. \<^verbatim>\<open>deleteL1Expired\<close> and \<^verbatim>\<open>deleteL0Expired\<close> delete the
  expired rows, but not their entries in the full-text index: every keyword search answers after the
  clean-up exactly as before it, with the expired texts.
\<close>

theorem expired_texts_still_found:
  assumes "delete_l1_expired run cutoff s = (n, s1)" "0 < n" "delete_l0_expired run0 cutoff0 s = (m, s0)" "0 < m"
  shows "filter (\<lambda>r. l1_updated r < cutoff) (st_l1 s1) = [] \<and> search_l1_fts fts fails q limit flt s1 = search_l1_fts fts fails q limit flt s
    \<and> filter (\<lambda>r. l0_recorded r < cutoff0) (st_l0 s0) = [] \<and> search_l0_fts fts0 fails q limit flt s0 = search_l0_fts fts0 fails q limit flt s"
  using delete_l1_expired_rows [OF assms(1,2)] delete_l0_expired_rows [OF assms(3,4)]
  by (simp add: search_l1_fts_def search_l0_fts_def filter_empty_conv)

theorem expired_texts_still_found_witness:
  "\<exists>s1. s1 = snd (delete_l1_expired db_ok 15 demo_store) \<and> map l1_id (st_l1 s1) = [''a2'']
     \<and> map (l1_id \<circ> fst) (search_l1_fts (\<lambda>q rows. map (\<lambda>r. (r, 1::nat)) rows) False ''tea'' 5 None s1) = [''a1'', ''a2'']"
proof -
  let ?d = "delete_l1_expired db_ok 15 demo_store" and ?e = "delete_l0_expired db_ok 15 demo_store"
  let ?fts = "\<lambda>q rows. map (\<lambda>r. (r, 1::nat)) rows" and ?fts0 = "\<lambda>q rows. map (\<lambda>r. (r, 1::nat)) rows"
  have n: "0 < fst ?d" "0 < fst ?e" by code_simp+
  have "search_l1_fts ?fts False ''tea'' 5 None (snd ?d) = search_l1_fts ?fts False ''tea'' 5 None demo_store"
    using expired_texts_still_found [OF surjective_pairing n(1) surjective_pairing n(2), where fts0 = ?fts0] by blast
  moreover have "map (l1_id \<circ> fst) (search_l1_fts ?fts False ''tea'' 5 None demo_store) = [''a1'', ''a2'']" by code_simp
  moreover have "map l1_id (st_l1 (snd ?d)) = [''a2'']" by code_simp
  ultimately show ?thesis by metis
qed

text \<open>
  a search answers only inside its filter. Whatever the vector and full-text tables return,
  orphans and undefined distances included, each result of the four searches matches the filter
  and is at most as many as asked for.
\<close>

theorem searches_stay_in_filter:
  "list_all (\<lambda>(r, d). row_matches_isolation r flt) (search_l1_vector knn fails v k flt s)
   \<and> list_all (\<lambda>(r, d). row_matches_isolation r flt) (search_l0_vector knn fails v k flt s)
   \<and> list_all (\<lambda>(r, d). row_matches_isolation r flt) (search_l1_fts fts fails q k flt s)
   \<and> list_all (\<lambda>(r, d). row_matches_isolation r flt) (search_l0_fts fts0 fails q k flt s)
   \<and> length (search_l1_vector knn fails v k flt s) \<le> k \<and> length (search_l1_fts fts fails q k flt s) \<le> k"
  by (auto simp: search_l1_vector_def search_l0_vector_def search_l1_fts_def search_l0_fts_def vector_hits_match fts_hits_match fts_hits_length)

text \<open>
  C14: deletions stay inside their filter. Whatever ids or session a caller names, the messages and
  memories that do not match its filter are untouched by \<^verbatim>\<open>deleteL0\<close>, \<^verbatim>\<open>deleteL0BySession\<close>
  and \<^verbatim>\<open>deleteL1Batch\<close>.
\<close>

theorem deletions_stay_in_filter:
  assumes "store_ok s" "fts_reliable run"
  shows "others flt (st_l0 (snd (delete_l0 run i flt s))) = others flt (st_l0 s)
    \<and> others flt (st_l0 (store_apply (DeleteL0BySession run sid flt) s)) = others flt (st_l0 s)
    \<and> others flt (st_l1 (snd (delete_l1_batch run ids flt s))) = others flt (st_l1 s)"
  using others_delete_l0 others_delete_session others_delete_batch assms by blast

theorem deletions_stay_in_filter_witness:
  "\<exists>f. f = isolation_of_user ''ann'' \<and> map l1_id (st_l1 (snd (delete_l1_batch db_ok [''a1'', ''a2''] (Some f) demo_store))) = [''a2'']
     \<and> others (Some f) (st_l1 (snd (delete_l1_batch db_ok [''a1'', ''a2''] (Some f) demo_store))) = others (Some f) (st_l1 demo_store)"
proof -
  have "others (Some (isolation_of_user ''ann'')) (st_l1 (snd (delete_l1_batch db_ok [''a1'', ''a2''] (Some (isolation_of_user ''ann'')) demo_store)))
      = others (Some (isolation_of_user ''ann'')) (st_l1 demo_store)"
    using deletions_stay_in_filter [OF store_ok_demo, of db_ok] by (simp add: fts_reliable_def db_ok_def)
  moreover have "map l1_id (st_l1 (snd (delete_l1_batch db_ok [''a1'', ''a2''] (Some (isolation_of_user ''ann'')) demo_store))) = [''a2'']"
    by code_simp
  ultimately show ?thesis by (intro exI conjI) (assumption | rule refl)+
qed

text \<open>
  a deletion is complete. When a deletion of a message or a memory reports success, its row, its
  vector, its index entry and its waiting embedding are gone.
\<close>

theorem deletion_is_complete:
  assumes "fts_reliable run" "st_vec_ready s" "st_fts_available s" "delete_l0 run i flt s = (True, s0)" "delete_l1 run j flt s = (True, s1)"
  shows "i \<notin> l0_id ` set (st_l0 s0) \<union> fst ` set (st_l0_vec s0) \<union> l0_id ` set (st_l0_fts s0) \<union> ej_id ` set (st_l0_jobs s0)
    \<and> j \<notin> l1_id ` set (st_l1 s1) \<union> fst ` set (st_l1_vec s1) \<union> l1_id ` set (st_l1_fts s1)"
proof -
  have "s0 = remove_l0 {i} s" "s1 = remove_l1 {j} s"
    using assms(1,4,5) by (simp_all add: delete_l0_def delete_l1_def Let_def drop_l0_remove drop_l1_remove split: if_splits)
  then show ?thesis using assms(2,3) by (auto simp: remove_l0_def remove_l1_def)
qed

theorem deletion_is_complete_witness:
  "''m1'' \<notin> l0_id ` set (st_l0_fts (snd (delete_l0 db_ok ''m1'' None demo_store)))
   \<and> ''a1'' \<notin> l1_id ` set (st_l1_fts (snd (delete_l1 db_ok ''a1'' None demo_store)))"
proof -
  let ?d = "delete_l0 db_ok ''m1'' None demo_store" and ?e = "delete_l1 db_ok ''a1'' None demo_store"
  have h: "fst ?d = True" "fst ?e = True" "st_vec_ready demo_store" "st_fts_available demo_store" by code_simp+
  have "?d = (True, snd ?d)" "?e = (True, snd ?e)" using h(1,2) by (simp_all add: prod_eq_iff)
  from deletion_is_complete [OF _ h(3,4) this] show ?thesis by (simp add: fts_reliable_def db_ok_def)
qed



text \<open>
  the pages of a query make up its answer. Reading page after page gives the rows that match the
  filter, each exactly once and newest first, and the total that every page reports is their
  number.
\<close>

theorem pages_make_up_answer:
  assumes "\<not> st_degraded s" "length (filter (l1_selected f) (st_l1 s)) \<le> k * n"
  shows "concat (map (\<lambda>i. fst (query_l1_paginated False f n (i * n) s)) [0..<k]) = sort_key (\<lambda>r. - l1_updated r) (filter (l1_selected f) (st_l1 s))
    \<and> snd (query_l1_paginated False f n m s) = count_l1 False f s
    \<and> mset (concat (map (\<lambda>i. fst (query_l1_paginated False f n (i * n) s)) [0..<k])) = mset (filter (l1_selected f) (st_l1 s))"
proof -
  let ?all = "sort_key (\<lambda>r. - l1_updated r) (filter (l1_selected f) (st_l1 s))"
  have "concat (map (\<lambda>i. page n (i * n) ?all) [0..<k]) = take (k * n) ?all" by (rule concat_pages)
  then have "concat (map (\<lambda>i. fst (query_l1_paginated False f n (i * n) s)) [0..<k]) = ?all"
    using assms by (simp add: query_l1_paginated_def)
  then show ?thesis using assms(1) by (simp add: query_l1_paginated_def count_l1_def)
qed

definition any_memory :: l1_filter where
  "any_memory = \<lparr>mf_type = None, mf_session_id = None, mf_team = Some ''team'', mf_user = None, mf_agent = None, mf_task = None,
     mf_start = None, mf_end = None\<rparr>"

theorem pages_make_up_answer_witness:
  "map l1_id (concat (map (\<lambda>i. fst (query_l1_paginated False any_memory 1 (i * 1) demo_store)) [0..<2])) = [''a2'', ''a1'']"
proof -
  have h: "\<not> st_degraded demo_store" "length (filter (l1_selected any_memory) (st_l1 demo_store)) \<le> 2 * 1" by code_simp+
  have "map l1_id (sort_key (\<lambda>r. - l1_updated r) (filter (l1_selected any_memory) (st_l1 demo_store))) = [''a2'', ''a1'']" by code_simp
  then show ?thesis using pages_make_up_answer [OF h] by metis
qed

end
