(* ===== verification/Memory_Api.thy ===== *)
theory Memory_Api
  imports Store_Properties Json_Text
begin

text \<open>
  The request handlers for messages and memories, \<^verbatim>\<open>MemoryCore/src/gateway/v2-router.ts\<close>, over the SQLite
  store (\<open>Memory_Store\<close>, \<open>Memory_Atoms\<close>): adding, reading and deleting messages, updating, reading and deleting
  memories. A handler takes the parsed request and the resolved identity of the caller and answers with an
  error code or with data. SHA-256, random ids, the quota answer and statements that throw are arguments;
  audit entries, usage reports, the JSONL mirror and asset registration are left out. An embedding service is present or not; with it the store defers all embeddings.
\<close>

section \<open>Requests\<close>

text \<open>\<^verbatim>\<open>dedupeIdList\<close>: trimmed, without empty and repeated ids, in order.\<close>

definition add_id :: "string \<Rightarrow> string list \<Rightarrow> string list" where
  "add_id raw out = (if trim raw = [] \<or> trim raw \<in> set out then out else trim raw # out)"

definition dedupe_id_list :: "string list \<Rightarrow> string list" where
  "dedupe_id_list ids = rev (fold add_id ids [])"

lemma dedupe_id_list_ok: "distinct (dedupe_id_list ids) \<and> [] \<notin> set (dedupe_id_list ids)"
proof -
  have "distinct out \<and> [] \<notin> set out \<Longrightarrow> distinct (fold add_id ids out) \<and> [] \<notin> set (fold add_id ids out)" for out
    by (induction ids arbitrary: out) (auto simp: add_id_def)
  from this [of "[]"] show ?thesis by (simp add: dedupe_id_list_def)
qed

record api_message =
  am_role :: string
  am_content :: string
  am_timestamp :: "ms option"
  am_recorded_at :: "ms option"

record add_message_request =
  aq_session :: string
  aq_idempotency_key :: "string option"
  aq_messages :: "api_message list"

definition key_char :: "char \<Rightarrow> bool" where
  "key_char c \<longleftrightarrow> c \<in> set ''ABCDEFGHIJKLMNOPQRSTUVWXYZabcdefghijklmnopqrstuvwxyz0123456789._:-''"

definition valid_add_request :: "add_message_request \<Rightarrow> bool" where
  "valid_add_request q \<longleftrightarrow> aq_session q \<noteq> []
     \<and> (case aq_idempotency_key q of None \<Rightarrow> True | Some k \<Rightarrow> 16 \<le> length k \<and> length k \<le> 128 \<and> list_all key_char k)
     \<and> aq_messages q \<noteq> [] \<and> length (aq_messages q) \<le> 100"

section \<open>Adding messages\<close>

record add_env =
  ae_now :: ms
  ae_random_id :: "nat \<Rightarrow> string"
  ae_sha256 :: "string \<Rightarrow> string"
  ae_service :: string
  ae_embedding :: bool
  ae_quota :: "nat \<Rightarrow> bool"
  ae_run :: "nat \<Rightarrow> db_run"

definition nul :: char where
  "nul = char_of (0::nat)"

definition deterministic_message_id ::
  "(string \<Rightarrow> string) \<Rightarrow> string \<Rightarrow> isolation_context \<Rightarrow> string \<Rightarrow> string \<Rightarrow> nat \<Rightarrow> string \<Rightarrow> string" where
  "deterministic_message_id sha256 service who session key index role =
     ''msg-'' @ take 24 (sha256 (join_with nul
       [service, opt_text (ic_team who), ic_user who, ic_agent who, opt_text (ic_task who), session, key, dec_digits index, role]))"

definition add_record :: "add_env \<Rightarrow> isolation_context \<Rightarrow> add_message_request \<Rightarrow> nat \<times> api_message \<Rightarrow> l0_record" where
  "add_record e who q im =
     (case im of (i, m) \<Rightarrow>
        (let recorded = (case am_recorded_at m of Some t \<Rightarrow> t | None \<Rightarrow> ae_now e + int i)
         in \<lparr>lr_id = (case aq_idempotency_key q of
                Some key \<Rightarrow> deterministic_message_id (ae_sha256 e) (ae_service e) who (aq_session q) key i (am_role m)
              | None \<Rightarrow> ''msg-'' @ ae_random_id e i),
             lr_session_key = aq_session q, lr_session_id = aq_session q, lr_team = ic_team who, lr_user = Some (ic_user who),
             lr_agent = Some (ic_agent who), lr_task = ic_task who, lr_role = am_role m, lr_text = am_content m,
             lr_recorded = recorded, lr_time = (case am_timestamp m of Some t \<Rightarrow> t | None \<Rightarrow> recorded)\<rparr>))"

definition add_records :: "add_env \<Rightarrow> isolation_context \<Rightarrow> add_message_request \<Rightarrow> l0_record list" where
  "add_records e who q = map (add_record e who q) (List.enumerate 0 (aq_messages q))"

text \<open>What the caller gets, and the rounds that the pipeline is notified of (None: not notified).\<close>

datatype add_answer = AddRefused nat | AddAccepted (accepted_ids: "string list") (notified: "nat option")

definition user_rounds :: "('m \<Rightarrow> string) \<Rightarrow> 'm list \<Rightarrow> nat option" where
  "user_rounds role ms = (let n = length (filter (\<lambda>m. role m = ''user'') ms) in if n = 0 then None else Some n)"

definition enqueue_records :: "ms \<Rightarrow> l0_record list \<Rightarrow> 'v memory_store \<Rightarrow> 'v memory_store" where
  "enqueue_records now rs s = fold (\<lambda>r. enqueue_l0_embedding now (lr_id r) (lr_text r)) rs s"

text \<open>The writes of a request: what \<^verbatim>\<open>upsertL0\<close> answers is not looked at.\<close>

definition upsert_records :: "(nat \<Rightarrow> db_run) \<Rightarrow> l0_record list \<Rightarrow> 'v::zero memory_store \<Rightarrow> 'v memory_store" where
  "upsert_records run rs s = fold (\<lambda>(i, r) s. snd (upsert_l0 (run i) r None s)) (List.enumerate 0 rs) s"

definition handle_conversation_add ::
  "add_env \<Rightarrow> isolation_context \<Rightarrow> add_message_request \<Rightarrow> 'v::zero memory_store \<Rightarrow> add_answer \<times> 'v memory_store" where
  "handle_conversation_add e who q s =
     (if \<not> valid_add_request q then (AddRefused 400, s)
      else
        (let records = add_records e who q; ids = map lr_id records;
             accepted = (if aq_idempotency_key q = None then records else filter (\<lambda>r. \<not> has_l0 (lr_id r) s) records)
         in if accepted = [] then (AddAccepted ids None, if ae_embedding e then enqueue_records (ae_now e) records s else s)
            else if \<not> ae_quota e (length accepted) then (AddRefused 4291, s)
            else
              (let s = upsert_records (ae_run e) accepted s;
                   s = (if ae_embedding e then enqueue_records (ae_now e) accepted s else s)
               in (AddAccepted ids (if aq_idempotency_key q = None then user_rounds lr_role accepted else user_rounds am_role (aq_messages q)), s))))"

section \<open>Reading and deleting messages\<close>

text \<open>The filter of a caller: its team, user, agent and task, never its session.\<close>

definition caller_filter :: "isolation_context \<Rightarrow> isolation_filter" where
  "caller_filter who = \<lparr>if_team = ic_team who, if_user = Some (ic_user who), if_agent = Some (ic_agent who), if_session = None,
     if_task = ic_task who, if_session_key = None\<rparr>"

definition caller_l0_filter :: "isolation_context \<Rightarrow> string option \<Rightarrow> ms option \<Rightarrow> ms option \<Rightarrow> l0_filter" where
  "caller_l0_filter who session t0 t1 = \<lparr>lf_session = session, lf_team = ic_team who, lf_user = Some (ic_user who),
     lf_agent = Some (ic_agent who), lf_task = ic_task who, lf_start = t0, lf_end = t1\<rparr>"

definition handle_conversation_query ::
  "bool \<Rightarrow> isolation_context \<Rightarrow> string option \<Rightarrow> ms option \<Rightarrow> ms option \<Rightarrow> nat \<Rightarrow> nat \<Rightarrow> 'v memory_store \<Rightarrow> l0_row list \<times> nat" where
  "handle_conversation_query fails who session t0 t1 limit offset s =
     query_l0_paginated fails (caller_l0_filter who session t0 t1) limit offset s"

definition handle_conversation_count :: "bool \<Rightarrow> isolation_context \<Rightarrow> string option \<Rightarrow> ms option \<Rightarrow> ms option \<Rightarrow> 'v memory_store \<Rightarrow> nat" where
  "handle_conversation_count fails who session t0 t1 s = count_l0 fails (caller_l0_filter who session t0 t1) s"

text \<open>None: the request names nothing, or too much.\<close>

definition delete_request :: "string list \<Rightarrow> string list \<Rightarrow> string option \<Rightarrow> (string list \<times> string list) option" where
  "delete_request message_ids session_ids session_id =
     (let ms = dedupe_id_list message_ids; ss = dedupe_id_list (session_ids @ (case session_id of Some x \<Rightarrow> [x] | None \<Rightarrow> []))
      in if ms = [] \<and> ss = [] \<or> 100 < length ss \<or> 100 < length session_ids \<or> 5000 < int (length message_ids) then None else Some (ms, ss))"

definition delete_messages :: "db_run \<Rightarrow> isolation_filter \<Rightarrow> string list \<Rightarrow> 'v memory_store \<Rightarrow> nat \<times> 'v memory_store" where
  "delete_messages run flt ids s =
     fold (\<lambda>i (n, s). case delete_l0 run i (Some flt) s of (ok, s) \<Rightarrow> (if ok then Suc n else n, s)) ids (0, s)"

definition delete_sessions :: "db_run \<Rightarrow> isolation_filter \<Rightarrow> string list \<Rightarrow> nat \<times> 'v memory_store \<Rightarrow> nat \<times> 'v memory_store" where
  "delete_sessions run flt sessions ns =
     fold (\<lambda>sid (n, s). case delete_l0_by_session run sid (Some flt) s of Some (k, s) \<Rightarrow> (n + k, s) | None \<Rightarrow> (n, s)) sessions ns"

definition handle_conversation_delete ::
  "db_run \<Rightarrow> isolation_context \<Rightarrow> string list \<Rightarrow> string list \<Rightarrow> string option \<Rightarrow> 'v memory_store \<Rightarrow> (nat + nat) \<times> 'v memory_store" where
  "handle_conversation_delete run who message_ids session_ids session_id s =
     (case delete_request message_ids session_ids session_id of
        None \<Rightarrow> (Inl 400, s)
      | Some (ms, ss) \<Rightarrow>
          (case delete_sessions run (caller_filter who) ss (delete_messages run (caller_filter who) ms s) of (n, s) \<Rightarrow> (Inr n, s)))"

section \<open>Memories\<close>

definition by_record_id :: "string \<Rightarrow> l1_query" where
  "by_record_id i = \<lparr>lq_record_ids = Some [i], lq_session_key = None, lq_session_id = None, lq_task = None, lq_team = None,
     lq_user = None, lq_agent = None, lq_updated_after = None\<rparr>"

text \<open>\<^verbatim>\<open>a && b && a !== b\<close>\<close>

definition foreign :: "string \<Rightarrow> string \<Rightarrow> bool" where
  "foreign given stored \<longleftrightarrow> given \<noteq> [] \<and> stored \<noteq> [] \<and> stored \<noteq> given"

text \<open>\<^verbatim>\<open>handleAtomicUpdate\<close>; \<open>metadata\<close> is \<^verbatim>\<open>JSON.stringify\<close> of \<^verbatim>\<open>parseMetadataJson\<close>. The answer is an error code or the
  new version.\<close>

definition updated_memory :: "(string \<Rightarrow> string) \<Rightarrow> ms \<Rightarrow> isolation_context \<Rightarrow> string \<Rightarrow> string \<Rightarrow> string option \<Rightarrow> l1_row \<Rightarrow> memory_record" where
  "updated_memory metadata now who i content background r =
     \<lparr>mr_id = i, mr_content = content, mr_type = l1_type r, mr_priority = l1_priority r,
      mr_scene = (case background of Some b \<Rightarrow> b | None \<Rightarrow> l1_scene r), mr_sources = [], mr_metadata = metadata (l1_metadata r),
      mr_stamps = (if l1_stamp r = [] then [] else [l1_stamp r]), mr_created = l1_created r, mr_updated = now,
      mr_version = Some (l1_version r + 1), mr_session_key = ow_session_key r, mr_session_id = ow_session_id r,
      mr_task = Some (ow_task r), mr_team = Some (ow_team r), mr_user = Some (ow_user r), mr_agent = Some (ow_agent r)\<rparr>"

definition handle_atomic_update ::
  "bool \<Rightarrow> db_run \<Rightarrow> (string \<Rightarrow> string) \<Rightarrow> (string \<Rightarrow> string + 'v::zero list) option \<Rightarrow> ms \<Rightarrow> isolation_context \<Rightarrow> string \<Rightarrow> string \<Rightarrow> string option
   \<Rightarrow> 'v memory_store \<Rightarrow> (nat + int) \<times> 'v memory_store" where
  "handle_atomic_update query_fails run metadata vec_of now who i content background s =
     (case query_l1_records query_fails (by_record_id i) s of
        [] \<Rightarrow> (Inl 404, s)
      | r # rs \<Rightarrow>
          if foreign (ic_user who) (ow_user r) \<or> foreign (ic_agent who) (ow_agent r) then (Inl 403, s)
          else
            (let emb = (case vec_of of None \<Rightarrow> None | Some f \<Rightarrow> (case f content of Inl e \<Rightarrow> None | Inr v \<Rightarrow> Some v))
             in (Inr (l1_version r + 1), snd (upsert_l1 run (updated_memory metadata now who i content background r) emb s))))"

definition caller_l1_filter :: "isolation_context \<Rightarrow> string option \<Rightarrow> ms option \<Rightarrow> ms option \<Rightarrow> l1_filter" where
  "caller_l1_filter who type t0 t1 = \<lparr>mf_type = type, mf_session_id = None, mf_team = ic_team who, mf_user = Some (ic_user who),
     mf_agent = Some (ic_agent who), mf_task = ic_task who, mf_start = t0, mf_end = t1\<rparr>"

definition handle_atomic_query ::
  "bool \<Rightarrow> isolation_context \<Rightarrow> string option \<Rightarrow> ms option \<Rightarrow> ms option \<Rightarrow> nat \<Rightarrow> nat \<Rightarrow> 'v memory_store \<Rightarrow> l1_row list \<times> nat" where
  "handle_atomic_query fails who type t0 t1 limit offset s = query_l1_paginated fails (caller_l1_filter who type t0 t1) limit offset s"

definition handle_atomic_count :: "bool \<Rightarrow> isolation_context \<Rightarrow> string option \<Rightarrow> ms option \<Rightarrow> ms option \<Rightarrow> 'v memory_store \<Rightarrow> nat" where
  "handle_atomic_count fails who type t0 t1 s = count_l1 fails (caller_l1_filter who type t0 t1) s"

text \<open>\<^verbatim>\<open>handleAtomicDelete\<close> leaves empty fields out of the filter.\<close>

definition truthy_filter :: "isolation_context \<Rightarrow> isolation_filter" where
  "truthy_filter who = \<lparr>if_team = nonempty (opt_text (ic_team who)), if_user = nonempty (ic_user who), if_agent = nonempty (ic_agent who),
     if_session = None, if_task = nonempty (opt_text (ic_task who)), if_session_key = None\<rparr>"

definition handle_atomic_delete :: "db_run \<Rightarrow> isolation_context \<Rightarrow> string list \<Rightarrow> 'v memory_store \<Rightarrow> (nat + nat) \<times> 'v memory_store" where
  "handle_atomic_delete run who ids s =
     (let too_many = 5000 < int (length ids); ids = dedupe_id_list ids
      in if too_many \<or> ids = [] then (Inl 400, s)
         else (case fold (\<lambda>i (n, s). case delete_l1 run i (Some (truthy_filter who)) s of (ok, s) \<Rightarrow> (if ok then Suc n else n, s)) ids (0, s) of
                 (n, s) \<Rightarrow> (Inr n, s)))"

section \<open>Adding twice\<close>

lemma enqueue_l0_frame:
  "st_l0 (enqueue_l0_embedding now i text s) = st_l0 s \<and> st_l0_fts (enqueue_l0_embedding now i text s) = st_l0_fts s
   \<and> st_l0_vec (enqueue_l0_embedding now i text s) = st_l0_vec s \<and> st_l1 (enqueue_l0_embedding now i text s) = st_l1 s
   \<and> st_degraded (enqueue_l0_embedding now i text s) = st_degraded s"
  by (simp add: enqueue_l0_embedding_def)

lemma enqueue_records_frame:
  "st_l0 (enqueue_records now rs s) = st_l0 s \<and> st_l0_fts (enqueue_records now rs s) = st_l0_fts s
   \<and> st_l0_vec (enqueue_records now rs s) = st_l0_vec s \<and> st_l1 (enqueue_records now rs s) = st_l1 s
   \<and> st_degraded (enqueue_records now rs s) = st_degraded s"
  by (induction rs arbitrary: s) (simp_all add: enqueue_records_def enqueue_l0_frame)

lemma upsert_l0_frame:
  "st_degraded (snd (upsert_l0 run r emb s)) = st_degraded s
   \<and> (\<not> st_degraded s \<longrightarrow> \<not> db_fails run \<longrightarrow> st_l0 (snd (upsert_l0 run r emb s)) = upsert_row l0_id merge_l0 (row_of_l0 r) (st_l0 s))
   \<and> (st_degraded s \<or> db_fails run \<longrightarrow> snd (upsert_l0 run r emb s) = s)"
  by (simp add: upsert_l0_def Let_def)

lemma upsert_records_ids:
  assumes "\<not> st_degraded s" "\<And>i. \<not> db_fails (run i)"
  shows "l0_id ` set (st_l0 (upsert_records run rs s)) = l0_id ` set (st_l0 s) \<union> lr_id ` set rs \<and> \<not> st_degraded (upsert_records run rs s)"
proof -
  have "l0_id ` set (st_l0 (fold (\<lambda>(i, r) s. snd (upsert_l0 (run i) r None s)) (List.enumerate n rs) s)) = l0_id ` set (st_l0 s) \<union> lr_id ` set rs
      \<and> \<not> st_degraded (fold (\<lambda>(i, r) s. snd (upsert_l0 (run i) r None s)) (List.enumerate n rs) s)" for n
    using assms
  proof (induction rs arbitrary: n s)
    case (Cons r rs)
    let ?s = "snd (upsert_l0 (run n) r None s)"
    have "l0_id ` set (st_l0 ?s) = insert (lr_id r) (l0_id ` set (st_l0 s))" "\<not> st_degraded ?s"
      using upsert_l0_frame [of "run n" r None s] Cons.prems by (simp_all add: upsert_row_ids)
    then show ?case using Cons.IH [of ?s "Suc n"] Cons.prems(2) by auto
  qed simp
  from this [of 0] show ?thesis unfolding upsert_records_def .
qed

lemma has_l0_iff: "has_l0 i s \<longleftrightarrow> \<not> st_degraded s \<and> i \<in> l0_id ` set (st_l0 s)"
  by (auto simp: has_l0_def find_id_def find_None_iff image_iff)


section \<open>Reading one's own writes\<close>

lemma enumerate_rows: "map (f \<circ> snd) (List.enumerate n xs) = map f xs"
  by (simp flip: list.map_comp add: map_snd_enumerate)

lemma upsert_row_new: "key r \<notin> key ` set rows \<Longrightarrow> upsert_row key merge r rows = rows @ [r]"
  by (simp add: upsert_row_def)

lemma upsert_records_new:
  assumes "\<not> st_degraded s" "\<And>i. \<not> db_fails (run i)" "distinct (map lr_id rs)" "lr_id ` set rs \<inter> l0_id ` set (st_l0 s) = {}"
  shows "st_l0 (upsert_records run rs s) = st_l0 s @ map row_of_l0 rs"
proof -
  have "st_l0 (fold (\<lambda>(i, r) s. snd (upsert_l0 (run i) r None s)) (List.enumerate n rs) s) = st_l0 s @ map row_of_l0 rs" for n
    using assms
  proof (induction rs arbitrary: n s)
    case (Cons r rs)
    let ?s = "snd (upsert_l0 (run n) r None s)"
    have new: "st_l0 ?s = st_l0 s @ [row_of_l0 r]" "\<not> st_degraded ?s"
      using upsert_l0_frame [of "run n" r None s] Cons.prems by (simp_all add: upsert_row_new)
    moreover have "lr_id ` set rs \<inter> l0_id ` set (st_l0 ?s) = {}" using Cons.prems(3,4) new(1) by auto
    ultimately show ?case using Cons.IH [of ?s "Suc n"] Cons.prems(2,3) by simp
  qed simp
  from this [of 0] show ?thesis unfolding upsert_records_def .
qed

lemma add_record_fields:
  "lr_team (add_record e who q im) = ic_team who \<and> lr_user (add_record e who q im) = Some (ic_user who)
   \<and> lr_agent (add_record e who q im) = Some (ic_agent who) \<and> lr_task (add_record e who q im) = ic_task who
   \<and> lr_session_key (add_record e who q im) = aq_session q"
  by (cases im) (simp add: add_record_def Let_def)

lemma own_row_selected:
  assumes "ic_user who \<noteq> []" "ic_agent who \<noteq> []" "ic_team who \<noteq> Some []" "r \<in> set (add_records e who q)"
  shows "l0_selected (caller_l0_filter who (Some (aq_session q)) None None) (row_of_l0 r)"
proof -
  obtain im where r: "r = add_record e who q im" using assms(4) by (auto simp: add_records_def)
  note f = add_record_fields [of e who q im, folded r]
  have "ow_team (row_of_l0 r) = or_else (opt_text (ic_team who)) default_isolation_id" "ow_user (row_of_l0 r) = ic_user who"
    "ow_agent (row_of_l0 r) = ic_agent who" "ow_task (row_of_l0 r) = opt_text (ic_task who)" "ow_session_key (row_of_l0 r) = aq_session q"
    using f assms(1,2) by (simp_all add: row_of_l0_def or_else_def opt_text_def)
  then show ?thesis using assms(3)
    by (cases "ic_team who"; cases "ic_task who") (simp_all add: l0_selected_def caller_l0_filter_def of_session_def or_else_def opt_text_def)
qed


section \<open>Counting deletions\<close>

lemma drop_id_length: "distinct (map key rows) \<Longrightarrow> length (drop_id key i rows) + (if i \<in> key ` set rows then 1 else 0) = length rows"
proof (induction rows)
  case (Cons r rows)
  show ?case
  proof (cases "key r = i")
    case True
    then have "drop_id key i rows = rows" using Cons.prems by (auto simp: drop_id_def filter_id_conv image_iff)
    then show ?thesis using True by (simp add: drop_id_def)
  next
    case False
    then show ?thesis using Cons by (simp add: drop_id_def)
  qed
qed (simp add: drop_id_def)

lemma artifacts_rows: "st_l0 (delete_l0_artifacts run i s) = st_l0 s" "st_degraded (delete_l0_artifacts run i s) = st_degraded s"
  by (simp_all add: delete_l0_artifacts_def Let_def)

lemma find_id_iff: "find_id key i rows \<noteq> None \<longleftrightarrow> i \<in> key ` set rows"
  by (auto simp: find_id_def find_None_iff image_iff)

lemma delete_l0_count:
  assumes "delete_l0 run i flt s = (ok, s')" "distinct (map l0_id (st_l0 s))"
  shows "length (st_l0 s') + (if ok then 1 else 0) = length (st_l0 s) \<and> distinct (map l0_id (st_l0 s'))"
proof -
  have "\<not> ok \<and> s' = s \<or> ok = (find_id l0_id i (st_l0 s) \<noteq> None) \<and> st_l0 s' = drop_id l0_id i (st_l0 s)"
    using assms(1) by (auto simp: delete_l0_def Let_def artifacts_rows split: if_splits)
  then show ?thesis
  proof
    assume "ok = (find_id l0_id i (st_l0 s) \<noteq> None) \<and> st_l0 s' = drop_id l0_id i (st_l0 s)"
    then show ?thesis using drop_id_length [OF assms(2), of i] distinct_map_drop_id [OF assms(2)] by (simp only: find_id_iff split: if_split)
  qed (use assms(2) in simp)
qed

lemma delete_l0_rows_count:
  "delete_l0_rows run rs s = (n, s') \<Longrightarrow> distinct (map l0_id (st_l0 s)) \<Longrightarrow>
   length (st_l0 s') + n = length (st_l0 s) \<and> distinct (map l0_id (st_l0 s'))"
proof (induction rs arbitrary: n s)
  case (Cons r rs)
  show ?case
  proof (cases "find_id l0_id (l0_id r) (st_l0 s)")
    case None
    then show ?thesis using Cons by simp
  next
    case (Some x)
    let ?s = "delete_l0_artifacts run (l0_id r) (s\<lparr>st_l0 := drop_id l0_id (l0_id r) (st_l0 s)\<rparr>)"
    obtain k where k: "delete_l0_rows run rs ?s = (k, s')" "n = Suc k"
      using Cons.prems(1) Some by (auto split: prod.splits)
    have "l0_id r \<in> l0_id ` set (st_l0 s)" using Some find_id_iff [of l0_id "l0_id r" "st_l0 s"] by simp
    then have "length (st_l0 ?s) + 1 = length (st_l0 s)" "distinct (map l0_id (st_l0 ?s))"
      using drop_id_length [OF Cons.prems(2), of "l0_id r"] distinct_map_drop_id [OF Cons.prems(2)] by (simp_all add: artifacts_rows)
    then show ?thesis using Cons.IH [OF k(1)] k(2) by simp
  qed
qed simp

lemma delete_messages_count:
  "distinct (map l0_id (st_l0 s)) \<Longrightarrow> delete_messages run flt ids s = (n, s') \<Longrightarrow>
   length (st_l0 s') + n = length (st_l0 s) \<and> distinct (map l0_id (st_l0 s'))"
proof -
  let ?f = "\<lambda>i (n, s). case delete_l0 run i (Some flt) s of (ok, s) \<Rightarrow> (if ok then Suc n else n, s)"
  have "distinct (map l0_id (st_l0 s)) \<Longrightarrow> fold ?f ids (m, s) = (n, s') \<Longrightarrow>
      length (st_l0 s') + n = length (st_l0 s) + m \<and> distinct (map l0_id (st_l0 s'))" for m n s s'
  proof (induction ids arbitrary: m s)
    case (Cons i ids)
    obtain ok t where t: "delete_l0 run i (Some flt) s = (ok, t)" by (cases "delete_l0 run i (Some flt) s")
    show ?case using Cons.IH [of t "if ok then Suc m else m"] Cons.prems delete_l0_count [OF t Cons.prems(1)] t
      by (cases ok) auto
  qed simp
  from this [of s 0 n s'] show "distinct (map l0_id (st_l0 s)) \<Longrightarrow> delete_messages run flt ids s = (n, s') \<Longrightarrow> ?thesis"
    by (simp add: delete_messages_def)
qed

lemma delete_sessions_count:
  "distinct (map l0_id (st_l0 s)) \<Longrightarrow> delete_sessions run flt sessions (m, s) = (n, s') \<Longrightarrow>
   length (st_l0 s') + n = length (st_l0 s) + m"
proof (induction sessions arbitrary: m s)
  case (Cons sid sessions)
  obtain k t where t: "(case delete_l0_by_session run sid (Some flt) s of Some (k, s) \<Rightarrow> (m + k, s) | None \<Rightarrow> (m, s)) = (m + k, t)"
    "length (st_l0 t) + k = length (st_l0 s)" "distinct (map l0_id (st_l0 t))"
  proof (cases "delete_l0_by_session run sid (Some flt) s")
    case (Some kt)
    obtain k t where kt: "kt = (k, t)" by (cases kt)
    have "length (st_l0 t) + k = length (st_l0 s) \<and> distinct (map l0_id (st_l0 t))"
      using Some Cons.prems(1) by (auto simp: delete_l0_by_session_def Let_def kt split: if_splits dest: delete_l0_rows_count)
    then show ?thesis using that [of k t] Some kt by simp
  qed (use that [of 0 s] Cons.prems(1) in simp)
  then show ?case using Cons.IH [OF t(3), of "m + k"] Cons.prems(2) by (simp add: delete_sessions_def)
qed (simp add: delete_sessions_def)

text \<open>
  the number a deletion reports is exact. Also when messages and sessions of one request overlap, each deleted message counts once,
  and refused or failed deletions do not count.
\<close>

theorem deleted_count_exact:
  assumes "store_ok s" "handle_conversation_delete run who message_ids session_ids session_id s = (Inr n, s')"
  shows "length (st_l0 s') + n = length (st_l0 s)"
proof -
  have d: "distinct (map l0_id (st_l0 s))" using assms(1) by (simp add: store_ok_def layer_ok_def)
  obtain ms ss m t where h: "delete_messages run (caller_filter who) ms s = (m, t)" "delete_sessions run (caller_filter who) ss (m, t) = (n, s')"
    using assms(2) by (auto simp: handle_conversation_delete_def split: option.splits prod.splits) (metis surj_pair)
  show ?thesis using delete_messages_count [OF d h(1)] delete_sessions_count [OF _ h(2)] by simp
qed

section \<open>Writes that fail\<close>

lemma upsert_records_failed:
  assumes "\<And>i. db_fails (run i)"
  shows "upsert_records run rs s = s"
proof -
  have "fold (\<lambda>(i, r) s. snd (upsert_l0 (run i) r None s)) (List.enumerate n rs) s = s" for n
    by (induction rs arbitrary: n) (simp_all add: upsert_l0_frame assms)
  then show ?thesis by (simp add: upsert_records_def)
qed

text \<open>
  failed writes are acknowledged. When every write of a request fails, the request is answered with success and the ids of all its
  messages, and the pipeline is notified, although no message has been stored.
\<close>

theorem failed_writes_acknowledged:
  assumes "valid_add_request q" "aq_idempotency_key q = None" "ae_quota e (length (aq_messages q))" "\<And>i. db_fails (ae_run e i)"
  shows "\<exists>s'. handle_conversation_add e who q s = (AddAccepted (map lr_id (add_records e who q)) (user_rounds lr_role (add_records e who q)), s')
    \<and> st_l0 s' = st_l0 s \<and> st_l0_fts s' = st_l0_fts s"
proof -
  have "length (add_records e who q) = length (aq_messages q)" by (simp add: add_records_def)
  moreover have "aq_messages q \<noteq> []" using assms(1) by (simp add: valid_add_request_def)
  ultimately show ?thesis using assms
    by (auto simp: handle_conversation_add_def Let_def upsert_records_failed enqueue_records_frame)
qed

section \<open>The wrong memory is updated\<close>

lemma find_snoc: "List.find P xs = None \<Longrightarrow> P x \<Longrightarrow> List.find P (xs @ [x]) = Some x"
  by (induction xs) (auto split: if_splits)

lemma find_upserted:
  "i \<in> key ` set rows \<Longrightarrow> key r = i \<Longrightarrow> (\<And>x. key (merge x r) = key r) \<Longrightarrow>
   \<exists>old. old \<in> set rows \<and> key old = i \<and> find_id key i (upsert_row key merge r rows) = Some (merge old r)"
proof -
  assume i: "i \<in> key ` set rows" "key r = i" and m: "\<And>x. key (merge x r) = key r"
  have "i \<in> key ` set rows \<Longrightarrow> \<exists>old. old \<in> set rows \<and> key old = i
      \<and> List.find (\<lambda>x. key x = i) (map (\<lambda>x. if key x = key r then merge x r else x) rows) = Some (merge old r)"
    using i(2) m by (induction rows) auto
  then show ?thesis using i by (simp add: find_id_def upsert_row_def)
qed

text \<open>
  C9: an update reads the wrong memory. The store does not select by id, so \<^verbatim>\<open>/atomic/update\<close> checks the permission of, and copies, the
  oldest memory \<open>r\<close> of the whole store. A caller who owns \<open>r\<close> overwrites the memory of anybody: it gets the new text and the
  owner of \<open>r\<close>. An id that no memory has is not reported as missing either.
\<close>

theorem update_reads_wrong_memory:
  assumes "query_l1_records False (by_record_id i) s = r # rest" "ow_user r = ic_user who" "ow_agent r = ic_agent who"
    and "ic_user who \<noteq> []" "ic_agent who \<noteq> []" "\<not> st_degraded s" "\<not> db_fails run"
    and "handle_atomic_update False run metadata vec_of now who i content background s = (res, s')"
  shows "res = Inr (l1_version r + 1) \<and> (\<exists>v. find_id l1_id i (st_l1 s') = Some v \<and> l1_content v = content
    \<and> ow_user v = ic_user who \<and> ow_agent v = ic_agent who \<and> l1_type v = l1_type r)"
proof -
  let ?m = "updated_memory metadata now who i content background r"
  have h: "res = Inr (l1_version r + 1)" "st_l1 s' = upsert_row l1_id merge_l1 (row_of_l1 ?m) (st_l1 s)"
    using assms by (auto simp: handle_atomic_update_def foreign_def upsert_l1_def Let_def split: if_splits)
  have f: "l1_content (row_of_l1 ?m) = content" "ow_user (row_of_l1 ?m) = ic_user who" "ow_agent (row_of_l1 ?m) = ic_agent who"
    "l1_type (row_of_l1 ?m) = l1_type r" "l1_id (row_of_l1 ?m) = i"
    using assms(2-5) by (simp_all add: row_of_l1_def updated_memory_def or_else_def opt_text_def)
  have "\<exists>v. find_id l1_id i (st_l1 s') = Some v \<and> (v = row_of_l1 ?m \<or> (\<exists>old. v = merge_l1 old (row_of_l1 ?m)))"
  proof (cases "i \<in> l1_id ` set (st_l1 s)")
    case True
    then show ?thesis using find_upserted [OF True f(5), of merge_l1] h(2) by auto
  next
    case False
    then have "List.find (\<lambda>x. l1_id x = i) (st_l1 s) = None" by (auto simp: find_None_iff)
    then have "find_id l1_id i (st_l1 s @ [row_of_l1 ?m]) = Some (row_of_l1 ?m)" using f(5) by (simp add: find_id_def find_snoc)
    then show ?thesis using False f(5) h(2) by (simp add: upsert_row_new)
  qed
  then show ?thesis using h(1) f by (auto simp: merge_l1_def)
qed

section \<open>Concrete requests\<close>

definition ann :: isolation_context where
  "ann = \<lparr>ic_team = Some ''team'', ic_user = ''ann'', ic_agent = ''default'', ic_session = ''s'', ic_task = None, ic_session_key = None\<rparr>"

definition demo_env :: "bool \<Rightarrow> add_env" where
  "demo_env fails = \<lparr>ae_now = 100, ae_random_id = (\<lambda>i. if i = 0 then ''x'' else ''y''), ae_sha256 = (\<lambda>text. text), ae_service = ''tdai'',
     ae_embedding = True, ae_quota = (\<lambda>n. True), ae_run = (\<lambda>i. db_ok\<lparr>db_fails := fails\<rparr>)\<rparr>"

definition demo_request :: "string option \<Rightarrow> string \<Rightarrow> add_message_request" where
  "demo_request key text = \<lparr>aq_session = ''s'', aq_idempotency_key = key,
     aq_messages = [\<lparr>am_role = ''user'', am_content = text, am_timestamp = None, am_recorded_at = None\<rparr>]\<rparr>"

definition demo_key :: string where
  "demo_key = ''0123456789abcdef''"



theorem failed_writes_acknowledged_witness:
  "\<exists>s'. handle_conversation_add (demo_env True) ann (demo_request None ''hello'') (empty_store :: int memory_store) = (AddAccepted [''msg-x''] (Some 1), s') \<and> st_l0 s' = []"
proof -
  let ?q = "demo_request None ''hello''"
  have h: "valid_add_request ?q" "aq_idempotency_key ?q = None" "ae_quota (demo_env True) (length (aq_messages ?q))" by code_simp+
  have f: "\<And>i. db_fails (ae_run (demo_env True) i)" by (simp add: demo_env_def)
  have e: "map lr_id (add_records (demo_env True) ann ?q) = [''msg-x'']" "user_rounds lr_role (add_records (demo_env True) ann ?q) = Some 1"
    "st_l0 (empty_store :: int memory_store) = []" by code_simp+
  show ?thesis using failed_writes_acknowledged [OF h f, of ann "empty_store :: int memory_store"] unfolding e by blast
qed

theorem deleted_count_exact_witness:
  "\<exists>s'. handle_conversation_delete db_ok ann [''m1''] [''s''] None demo_store = (Inr 2, s') \<and> length (st_l0 s') + 2 = length (st_l0 demo_store)"
proof -
  let ?h = "handle_conversation_delete db_ok ann [''m1''] [''s''] None demo_store"
  have "fst ?h = Inr 2" by code_simp
  then have h: "?h = (Inr 2, snd ?h)" by (simp add: prod_eq_iff)
  show ?thesis using deleted_count_exact [OF store_ok_demo h] h by blast
qed

text \<open>A store whose oldest memory is ann's and whose other one is bob's.\<close>

definition two_owners :: "int memory_store" where
  "two_owners = snd (upsert_l1 db_ok (demo_memory ''b1'' ''bob'' 20) None (snd (upsert_l1 db_ok (demo_memory ''a1'' ''ann'' 10) None empty_store)))"

theorem update_reads_wrong_memory_witness:
  "\<exists>s' v. handle_atomic_update False db_ok (\<lambda>m. m) None 30 ann ''b1'' ''hacked'' None two_owners = (Inr 1, s')
     \<and> map ow_user (st_l1 two_owners) = [''ann'', ''bob''] \<and> find_id l1_id ''b1'' (st_l1 s') = Some v \<and> l1_content v = ''hacked'' \<and> ow_user v = ''ann''"
proof -
  let ?h = "handle_atomic_update False db_ok (\<lambda>m. m) None 30 ann ''b1'' ''hacked'' None two_owners"
  let ?rows = "query_l1_records False (by_record_id ''b1'') two_owners"
  have q: "?rows = hd ?rows # tl ?rows" by code_simp
  have o: "ow_user (hd ?rows) = ic_user ann" "ow_agent (hd ?rows) = ic_agent ann" "ic_user ann \<noteq> []" "ic_agent ann \<noteq> []"
    "\<not> st_degraded two_owners" "\<not> db_fails db_ok" by code_simp+
  have "?h = (fst ?h, snd ?h)" by simp
  from update_reads_wrong_memory [OF q o this]
  have u: "fst ?h = Inr (l1_version (hd ?rows) + 1)" "\<exists>v. find_id l1_id ''b1'' (st_l1 (snd ?h)) = Some v \<and> l1_content v = ''hacked'' \<and> ow_user v = ic_user ann" by blast+
  have e: "l1_version (hd ?rows) + 1 = 1" "map ow_user (st_l1 two_owners) = [''ann'', ''bob'']" "ic_user ann = ''ann''" by code_simp+
  have "?h = (Inr 1, snd ?h)" using u(1) unfolding e by (simp add: prod_eq_iff)
  then show ?thesis using u(2) e by metis
qed

text \<open>A key used again with another text: the stored message keeps its text, its waiting embedding gets the other one.\<close>

lemma reused_key_embeds_other_text:
  "\<exists>s1 s2. s1 = snd (handle_conversation_add (demo_env False) ann (demo_request (Some demo_key) ''hello'') (empty_store :: int memory_store))
     \<and> s2 = snd (handle_conversation_add (demo_env False) ann (demo_request (Some demo_key) ''other'') s1)
     \<and> map l0_text (st_l0 s2) = [''hello''] \<and> map ej_text (st_l0_jobs s2) = [''other'']"
proof (intro exI conjI)
  let ?s = "snd (handle_conversation_add (demo_env False) ann (demo_request (Some demo_key) ''other'')
    (snd (handle_conversation_add (demo_env False) ann (demo_request (Some demo_key) ''hello'') (empty_store :: int memory_store))))"
  show "map l0_text (st_l0 ?s) = [''hello'']" "map ej_text (st_l0_jobs ?s) = [''other'']" by code_simp+
qed (rule refl)+

end
