(* ===== verification/Hybrid_Search.thy ===== *)
theory Hybrid_Search
  imports Store_Properties Session_Filter Complex_Main
begin

text \<open>
  Search over memories and messages, \<^verbatim>\<open>MemoryCore/src/core/tools/memory-search.ts\<close> and
  \<^verbatim>\<open>conversation-search.ts\<close>: a keyword and a vector search, merged by reciprocal rank fusion when
  both find something. Scores are exact rationals where the code has doubles. The store is an
  interface (a locale), interpreted on the SQLite store of \<open>Memory_Store\<close> and \<open>Memory_Atoms\<close>; the embedding
  of the query, and the keyword query that \<^verbatim>\<open>buildFtsQuery\<close> makes of it, are arguments.
\<close>

section \<open>Reciprocal rank fusion\<close>

definition rrf_k :: nat where
  "rrf_k = 60"

definition rrf_score :: "nat \<Rightarrow> rat" where
  "rrf_score rank = 1 / of_nat (rrf_k + rank + 1)"

text \<open>One item of a list enters the map: the first item of an id stays, scores add up.\<close>

definition rrf_add :: "('i \<Rightarrow> string) \<Rightarrow> nat \<times> 'i \<Rightarrow> (string, 'i \<times> rat) jsmap \<Rightarrow> (string, 'i \<times> rat) jsmap" where
  "rrf_add key ri m =
     (case ri of (rank, i) \<Rightarrow>
        (case map_of m (key i) of
           Some (x, score) \<Rightarrow> AList.update (key i) (x, score + rrf_score rank) m
         | None \<Rightarrow> AList.update (key i) (i, rrf_score rank) m))"

definition rrf_map :: "('i \<Rightarrow> string) \<Rightarrow> 'i list list \<Rightarrow> (string, 'i \<times> rat) jsmap" where
  "rrf_map key rankings = fold (\<lambda>items. fold (rrf_add key) (List.enumerate 0 items)) rankings []"

text \<open>\<^verbatim>\<open>rrfMergeL1\<close> and \<^verbatim>\<open>rrfMergeL0\<close>, which differ in the type of their items only.\<close>

definition rrf_merge :: "('i \<Rightarrow> string) \<Rightarrow> (rat \<Rightarrow> 'i \<Rightarrow> 'i) \<Rightarrow> 'i list list \<Rightarrow> 'i list" where
  "rrf_merge key with_score rankings =
     map (\<lambda>(i, score). with_score score i) (sort_key (\<lambda>(i, score). - score) (map snd (rrf_map key rankings)))"

section \<open>Items\<close>

record memory_item =
  mi_id :: string
  mi_content :: string
  mi_type :: string
  mi_team :: string
  mi_user :: string
  mi_agent :: string
  mi_task :: string
  mi_priority :: int
  mi_scene :: string
  mi_score :: rat
  mi_version :: int
  mi_created :: string
  mi_updated :: string

definition memory_item_of :: "l1_row \<times> rat \<Rightarrow> memory_item" where
  "memory_item_of rs =
     (case rs of (r, score) \<Rightarrow>
       \<lparr>mi_id = l1_id r, mi_content = l1_content r, mi_type = l1_type r, mi_team = ow_team r, mi_user = ow_user r,
        mi_agent = ow_agent r, mi_task = ow_task r, mi_priority = l1_priority r, mi_scene = l1_scene r, mi_score = score,
        mi_version = l1_version r, mi_created = l1_stamp_start r, mi_updated = l1_stamp_end r\<rparr>)"

record conversation_item =
  ci_id :: string
  ci_session_key :: string
  ci_role :: string
  ci_content :: string
  ci_score :: rat
  ci_recorded :: ms
  ci_owner :: "(string \<times> string \<times> string) option"

definition conversation_item_of :: "l0_row \<times> rat \<Rightarrow> conversation_item" where
  "conversation_item_of rs =
     (case rs of (r, score) \<Rightarrow>
       \<lparr>ci_id = l0_id r, ci_session_key = ow_session_key r, ci_role = l0_role r, ci_content = l0_text r, ci_score = score,
        ci_recorded = l0_recorded r, ci_owner = Some (ow_session_id r, ow_user r, ow_agent r)\<rparr>)"

text \<open>A keyword hit lacks the session, the user and the agent.\<close>

definition keyword_item_of :: "l0_row \<times> rat \<Rightarrow> conversation_item" where
  "keyword_item_of rs = (conversation_item_of rs)\<lparr>ci_owner := None\<rparr>"

text \<open>\<^verbatim>\<open>bm25RankToScore\<close>; None is a rank that is not finite.\<close>

definition bm25_rank_to_score :: "rat option \<Rightarrow> rat" where
  "bm25_rank_to_score rank =
     (case rank of
        None \<Rightarrow> 1 / 1000
      | Some r \<Rightarrow> if r < 0 then - r / (1 - r) else 1 / (1 + r))"

section \<open>The search\<close>

text \<open>What the search calls: a call answers with items or throws.\<close>

record ('v, 'i) search_store =
  ss_fts_available :: bool
  ss_native_hybrid :: "(string \<Rightarrow> nat \<Rightarrow> isolation_filter option \<Rightarrow> string + 'i list) option"
  ss_search_fts :: "string \<Rightarrow> nat \<Rightarrow> isolation_filter option \<Rightarrow> string + 'i list"
  ss_search_vector :: "'v list \<Rightarrow> nat \<Rightarrow> isolation_filter option \<Rightarrow> string + 'i list"

record 'i search_result =
  sr_items :: "'i list"
  sr_total :: nat
  sr_strategy :: string
  sr_message :: "string option"

definition no_results :: "string \<Rightarrow> string option \<Rightarrow> 'i search_result" where
  "no_results strategy msg = \<lparr>sr_items = [], sr_total = 0, sr_strategy = strategy, sr_message = msg\<rparr>"

definition found :: "nat \<Rightarrow> ('i \<Rightarrow> bool) \<Rightarrow> string \<Rightarrow> 'i list \<Rightarrow> 'i search_result" where
  "found limit keep strategy items =
     (let trimmed = take limit (filter keep items)
      in \<lparr>sr_items = trimmed, sr_total = length trimmed, sr_strategy = strategy, sr_message = None\<rparr>)"

text \<open>\<^verbatim>\<open>catch \<dots> return []\<close>\<close>

definition or_nothing :: "string + 'i list \<Rightarrow> 'i list" where
  "or_nothing r = (case r of Inl e \<Rightarrow> [] | Inr items \<Rightarrow> items)"

definition fts_candidates :: "(string \<Rightarrow> string option) \<Rightarrow> string \<Rightarrow> nat \<Rightarrow> isolation_filter option \<Rightarrow> ('v, 'i) search_store \<Rightarrow> 'i list" where
  "fts_candidates fts_query query k flt store =
     (if \<not> ss_fts_available store then []
      else (case fts_query query of None \<Rightarrow> [] | Some q \<Rightarrow> or_nothing (ss_search_fts store q k flt)))"

definition vector_candidates :: "(string \<Rightarrow> string + 'v list) option \<Rightarrow> string \<Rightarrow> nat \<Rightarrow> isolation_filter option \<Rightarrow> ('v, 'i) search_store \<Rightarrow> 'i list" where
  "vector_candidates vec_of query k flt store =
     (case vec_of of
        None \<Rightarrow> []
      | Some f \<Rightarrow> (case f query of Inl e \<Rightarrow> [] | Inr v \<Rightarrow> or_nothing (ss_search_vector store v k flt)))"

text \<open>The common course of \<^verbatim>\<open>executeMemorySearch\<close> and \<^verbatim>\<open>executeConversationSearch\<close>: the number of
  candidates, the filter after the merge, and the message for a store without any search differ.\<close>

definition execute_search ::
  "('i \<Rightarrow> string) \<Rightarrow> (rat \<Rightarrow> 'i \<Rightarrow> 'i) \<Rightarrow> ('i \<Rightarrow> bool) \<Rightarrow> string \<Rightarrow> nat \<Rightarrow> (string \<Rightarrow> string option) \<Rightarrow> (string \<Rightarrow> string + 'v list) option
   \<Rightarrow> string \<Rightarrow> nat \<Rightarrow> isolation_filter option \<Rightarrow> ('v, 'i) search_store option \<Rightarrow> string + 'i search_result" where
  "execute_search key with_score keep unavailable k fts_query vec_of query limit flt store_opt =
     (if trim query = [] then Inr (no_results ''none'' None)
      else (case store_opt of
        None \<Rightarrow> Inr (no_results ''none'' None)
      | Some store \<Rightarrow>
          if vec_of = None \<and> \<not> ss_fts_available store then Inr (no_results ''none'' (Some unavailable))
          else (case ss_native_hybrid store of
            Some native \<Rightarrow> (case native query k flt of Inl e \<Rightarrow> Inl e | Inr items \<Rightarrow> Inr (found limit keep ''hybrid'' items))
          | None \<Rightarrow>
              (let fts = fts_candidates fts_query query k flt store;
                   vec = vector_candidates vec_of query k flt store
               in Inr (if fts \<noteq> [] \<and> vec \<noteq> [] then found limit keep ''hybrid'' (rrf_merge key with_score [fts, vec])
                       else if vec \<noteq> [] then found limit keep ''embedding'' vec
                       else if fts \<noteq> [] then found limit keep ''fts'' fts
                       else no_results (if vec_of \<noteq> None then ''embedding'' else ''fts'') None)))))"

definition search_unavailable :: "string \<Rightarrow> string" where
  "search_unavailable what =
     ''Embedding service is not configured and FTS is not available. '' @ what
     @ '' search requires an embedding provider or FTS5 support. Please configure an embedding provider in the embedding.provider setting (e.g. openai_compatible).''"

definition keep_memory :: "string option \<Rightarrow> string option \<Rightarrow> memory_item \<Rightarrow> bool" where
  "keep_memory type scene i \<longleftrightarrow>
     (opt_text type = [] \<or> mi_type i = opt_text type)
     \<and> (opt_text scene = [] \<or> str_includes (to_lower (opt_text scene)) (to_lower (mi_scene i)))"

definition execute_memory_search ::
  "(string \<Rightarrow> string option) \<Rightarrow> (string \<Rightarrow> string + 'v list) option \<Rightarrow> string \<Rightarrow> nat \<Rightarrow> string option \<Rightarrow> string option
   \<Rightarrow> isolation_filter option \<Rightarrow> ('v, memory_item) search_store option \<Rightarrow> string + memory_item search_result" where
  "execute_memory_search fts_query vec_of query limit type scene flt store =
     execute_search mi_id (\<lambda>score i. i\<lparr>mi_score := score\<rparr>) (keep_memory type scene) (search_unavailable ''Memory'')
       (limit * 3) fts_query vec_of query limit flt store"

definition keep_message :: "string option \<Rightarrow> conversation_item \<Rightarrow> bool" where
  "keep_message session i \<longleftrightarrow> opt_text session = [] \<or> ci_session_key i = opt_text session"

definition execute_conversation_search ::
  "(string \<Rightarrow> string option) \<Rightarrow> (string \<Rightarrow> string + 'v list) option \<Rightarrow> string \<Rightarrow> nat \<Rightarrow> string option
   \<Rightarrow> isolation_filter option \<Rightarrow> ('v, conversation_item) search_store option \<Rightarrow> string + conversation_item search_result" where
  "execute_conversation_search fts_query vec_of query limit session flt store =
     execute_search ci_id (\<lambda>score i. i\<lparr>ci_score := score\<rparr>) (keep_message session) (search_unavailable ''Conversation'')
       (limit * (if opt_text session = [] then 3 else 4)) fts_query vec_of query limit flt store"

text \<open>The SQLite store as a search store: no native hybrid search, and no call throws.\<close>

definition sqlite_l1_search ::
  "('v, rat) neighbours \<Rightarrow> (l1_row, rat option) matches \<Rightarrow> bool \<Rightarrow> 'v memory_store \<Rightarrow> ('v, memory_item) search_store" where
  "sqlite_l1_search knn fts fails s =
     \<lparr>ss_fts_available = st_fts_available s, ss_native_hybrid = None,
      ss_search_fts = (\<lambda>q k flt. Inr (map (\<lambda>(r, rank). memory_item_of (r, bm25_rank_to_score rank)) (search_l1_fts fts fails q k flt s))),
      ss_search_vector = (\<lambda>v k flt. Inr (map memory_item_of (search_l1_vector knn fails v k flt s)))\<rparr>"

definition sqlite_l0_search ::
  "('v, rat) neighbours \<Rightarrow> (l0_row, rat option) matches \<Rightarrow> bool \<Rightarrow> 'v memory_store \<Rightarrow> ('v, conversation_item) search_store" where
  "sqlite_l0_search knn fts fails s =
     \<lparr>ss_fts_available = st_fts_available s, ss_native_hybrid = None,
      ss_search_fts = (\<lambda>q k flt. Inr (map (\<lambda>(r, rank). keyword_item_of (r, bm25_rank_to_score rank)) (search_l0_fts fts fails q k flt s))),
      ss_search_vector = (\<lambda>v k flt. Inr (map conversation_item_of (search_l0_vector knn fails v k flt s)))\<rparr>"

section \<open>What the merge computes\<close>

text \<open>The score of an id: the sum over all its occurrences in all lists.\<close>

definition ranked :: "'i list list \<Rightarrow> (nat \<times> 'i) list" where
  "ranked rankings = concat (map (List.enumerate 0) rankings)"

lemma rrf_map_ranked: "rrf_map key rankings = fold (rrf_add key) (ranked rankings) []"
proof -
  have "fold (\<lambda>items. fold (rrf_add key) (List.enumerate 0 items)) rankings m = fold (rrf_add key) (ranked rankings) m" for m
    by (induction rankings arbitrary: m) (simp_all add: ranked_def)
  then show ?thesis by (simp add: rrf_map_def)
qed

lemma snd_ranked: "snd ` set (ranked rankings) = set (concat rankings)"
proof -
  have "snd ` set (List.enumerate 0 xs) = set xs" for xs :: "'a list"
    by (metis list.set_map map_snd_enumerate)
  then show ?thesis by (auto simp: ranked_def image_UN)
qed

lemma map_of_rrf_add:
  "map_of (rrf_add key (rank, j) m) k =
     (if k = key j then Some (case map_of m k of Some (x, s) \<Rightarrow> (x, s + rrf_score rank) | None \<Rightarrow> (j, rrf_score rank)) else map_of m k)"
  by (simp add: rrf_add_def split: option.split)

lemma keys_rrf_add: "distinct (jkeys m) \<Longrightarrow> distinct (jkeys (rrf_add key e m))"
  by (auto simp: rrf_add_def distinct_update split: prod.split option.split)

definition rrf_sum :: "('i \<Rightarrow> string) \<Rightarrow> (nat \<times> 'i) list \<Rightarrow> string \<Rightarrow> rat" where
  "rrf_sum key es k = sum_list (map (rrf_score \<circ> fst) (filter (\<lambda>e. key (snd e) = k) es))"

definition rrf_total :: "('i \<Rightarrow> string) \<Rightarrow> 'i list list \<Rightarrow> string \<Rightarrow> rat" where
  "rrf_total key rankings = rrf_sum key (ranked rankings)"

lemma rrf_sum_snoc: "rrf_sum key (es @ [(rank, j)]) k = rrf_sum key es k + (if key j = k then rrf_score rank else 0)"
  by (simp add: rrf_sum_def)

lemma rrf_fold_keys: "distinct (jkeys (fold (rrf_add key) es []))"
  by (induction es rule: rev_induct) (simp_all add: keys_rrf_add)

lemma rrf_fold_lookup:
  "case map_of (fold (rrf_add key) es []) k of
     None \<Rightarrow> filter (\<lambda>e. key (snd e) = k) es = []
   | Some (i, s) \<Rightarrow> key i = k \<and> i \<in> snd ` set es \<and> s = rrf_sum key es k"
proof (induction es rule: rev_induct)
  case (snoc e es)
  obtain rank j where e: "e = (rank, j)" by (cases e)
  show ?case
  proof (cases "k = key j")
    case True
    then show ?thesis using snoc
      by (cases "map_of (fold (rrf_add key) es []) k") (auto simp: e map_of_rrf_add rrf_sum_snoc, simp add: rrf_sum_def)
  next
    case False
    then show ?thesis using snoc
      by (cases "map_of (fold (rrf_add key) es []) k") (auto simp: e map_of_rrf_add rrf_sum_snoc)
  qed
qed simp

lemma rrf_map_entry:
  assumes "(k, i, sc) \<in> set (rrf_map key rankings)"
  shows "key i = k \<and> i \<in> set (concat rankings) \<and> sc = rrf_total key rankings k"
proof -
  have "map_of (rrf_map key rankings) k = Some (i, sc)"
    using assms by (simp add: rrf_map_ranked map_of_eq_Some_iff rrf_fold_keys)
  then show ?thesis using rrf_fold_lookup [where key = key and es = "ranked rankings" and k = k]
    by (simp add: rrf_map_ranked rrf_total_def snd_ranked)
qed

lemma rrf_map_keys: "set (jkeys (rrf_map key rankings)) = key ` set (concat rankings)"
proof (rule set_eqI)
  fix k
  have "k \<in> set (jkeys (rrf_map key rankings)) \<longleftrightarrow> map_of (rrf_map key rankings) k \<noteq> None"
    by (simp add: map_of_eq_None_iff)
  also have "\<dots> \<longleftrightarrow> k \<in> key ` snd ` set (ranked rankings)"
    using rrf_fold_lookup [where key = key and es = "ranked rankings" and k = k]
    by (cases "map_of (rrf_map key rankings) k") (auto simp: rrf_map_ranked filter_empty_conv image_iff)
  finally show "k \<in> set (jkeys (rrf_map key rankings)) \<longleftrightarrow> k \<in> key ` set (concat rankings)"
    by (simp only: snd_ranked)
qed

lemma map_pairs_fst:
  "(\<And>p. p \<in> set ps \<Longrightarrow> snd p = t (fst p)) \<Longrightarrow> map (\<lambda>(i, sc). f sc i) ps = map (\<lambda>i. f (t i) i) (map fst ps)"
  by (induction ps) (auto simp: split_beta)

lemma rrf_merge_alt:
  "\<exists>items. rrf_merge key with_score rankings = map (\<lambda>i. with_score (rrf_total key rankings (key i)) i) items
     \<and> distinct (map key items) \<and> set items \<subseteq> set (concat rankings) \<and> key ` set items = key ` set (concat rankings)
     \<and> sorted (map (\<lambda>i. - rrf_total key rankings (key i)) items)"
proof -
  let ?m = "rrf_map key rankings" and ?t = "\<lambda>i. rrf_total key rankings (key i)"
  let ?pairs = "map snd ?m"
  let ?sorted = "sort_key (\<lambda>(i, sc). - sc) ?pairs"
  have entry: "snd p = ?t (fst p) \<and> fst p \<in> set (concat rankings)" if "p \<in> set ?sorted" for p
  proof -
    have "p \<in> snd ` set ?m" using that by simp
    then obtain e where "e \<in> set ?m" "p = snd e" by (rule imageE)
    then show ?thesis using rrf_map_entry [of "fst e" "fst p" "snd p" key rankings] by simp
  qed
  then have t: "\<And>p. p \<in> set ?sorted \<Longrightarrow> snd p = ?t (fst p)" by blast
  have keys: "mset (map key (map fst ?sorted)) = mset (jkeys ?m)"
  proof -
    have "map key (map fst ?pairs) = jkeys ?m" by (auto simp: list.map_comp dest: rrf_map_entry)
    moreover have "mset (map key (map fst ?sorted)) = mset (map key (map fst ?pairs))" by (simp only: mset_map mset_sort)
    ultimately show ?thesis by metis
  qed
  have "distinct (map key (map fst ?sorted))"
    using rrf_fold_keys mset_eq_imp_distinct_iff [OF keys] by (simp add: rrf_map_ranked)
  moreover have "key ` set (map fst ?sorted) = key ` set (concat rankings)"
    using mset_eq_setD [OF keys] rrf_map_keys by (simp only: list.set_map)
  moreover have "set (map fst ?sorted) \<subseteq> set (concat rankings)" using entry by (auto simp del: set_sort)
  moreover have "sorted (map (\<lambda>i. - ?t i) (map fst ?sorted))"
  proof -
    have "sorted (map (\<lambda>(i, sc). - sc) ?sorted)" by (rule sorted_sort_key)
    then show ?thesis by (simp only: map_pairs_fst [OF t, where f = "\<lambda>sc i. - sc"])
  qed
  ultimately show ?thesis using map_pairs_fst [OF t, where f = with_score] unfolding rrf_merge_def by blast
qed

text \<open>
  C19: rank fusion is exact. Every memory that a search found is in the merged list exactly once, its
  score is the sum of 1/(60 + rank) over its ranks in both lists (counted from one), and the list is in descending
  order of these scores.
\<close>

theorem rank_fusion_exact:
  "distinct (map mi_id (rrf_merge mi_id (\<lambda>sc i. i\<lparr>mi_score := sc\<rparr>) rankings))
   \<and> mi_id ` set (rrf_merge mi_id (\<lambda>sc i. i\<lparr>mi_score := sc\<rparr>) rankings) = mi_id ` set (concat rankings)
   \<and> map mi_score (rrf_merge mi_id (\<lambda>sc i. i\<lparr>mi_score := sc\<rparr>) rankings)
       = map (\<lambda>i. rrf_total mi_id rankings (mi_id i)) (rrf_merge mi_id (\<lambda>sc i. i\<lparr>mi_score := sc\<rparr>) rankings)
   \<and> sorted (map (\<lambda>i. - mi_score i) (rrf_merge mi_id (\<lambda>sc i. i\<lparr>mi_score := sc\<rparr>) rankings))"
proof -
  obtain items where "rrf_merge mi_id (\<lambda>sc i. i\<lparr>mi_score := sc\<rparr>) rankings = map (\<lambda>i. i\<lparr>mi_score := rrf_total mi_id rankings (mi_id i)\<rparr>) items"
    "distinct (map mi_id items)" "mi_id ` set items = mi_id ` set (concat rankings)" "sorted (map (\<lambda>i. - rrf_total mi_id rankings (mi_id i)) items)"
    using rrf_merge_alt [of mi_id "\<lambda>sc i. i\<lparr>mi_score := sc\<rparr>" rankings] by blast
  then show ?thesis by (simp add: comp_def image_image)
qed

section \<open>Agreement\<close>

lemma rrf_sum_append: "rrf_sum key (es @ fs) k = rrf_sum key es k + rrf_sum key fs k"
  by (simp add: rrf_sum_def)

lemma rrf_sum_absent: "k \<notin> key ` set xs \<Longrightarrow> rrf_sum key (List.enumerate n xs) k = 0"
  by (induction xs arbitrary: n) (auto simp: rrf_sum_def)

lemma rrf_sum_once:
  "distinct (map key xs) \<Longrightarrow> k \<in> key ` set xs \<Longrightarrow>
   \<exists>r. n \<le> r \<and> r < n + length xs \<and> rrf_sum key (List.enumerate n xs) k = rrf_score r"
proof (induction xs arbitrary: n)
  case (Cons x xs)
  have step: "rrf_sum key (List.enumerate n (x # xs)) k = (if key x = k then rrf_score n else 0) + rrf_sum key (List.enumerate (Suc n) xs) k"
    by (simp add: rrf_sum_def)
  show ?case
  proof (cases "key x = k")
    case True
    then have "k \<notin> key ` set xs" using Cons.prems(1) by auto
    then show ?thesis using True step by (intro exI [of _ n]) (simp add: rrf_sum_absent)
  next
    case False
    then obtain r where "Suc n \<le> r" "r < Suc n + length xs" "rrf_sum key (List.enumerate (Suc n) xs) k = rrf_score r"
      using Cons.IH [of "Suc n"] Cons.prems by auto
    then show ?thesis using False step by (intro exI [of _ r]) simp
  qed
qed simp

lemma rrf_score_low: "r < 61 \<Longrightarrow> 1 / 121 \<le> rrf_score r"
proof -
  assume "r < 61"
  then have "(of_nat (rrf_k + r + 1) :: rat) \<le> of_nat 121" by (simp only: of_nat_le_iff rrf_k_def)
  then show ?thesis unfolding rrf_score_def by (intro frac_le) (simp_all add: rrf_k_def)
qed

lemma rrf_score_high: "rrf_score r \<le> 1 / 61"
proof -
  have "(of_nat 61 :: rat) \<le> of_nat (rrf_k + r + 1)" by (simp only: of_nat_le_iff rrf_k_def)
  then show ?thesis unfolding rrf_score_def by (intro frac_le) simp_all
qed

lemma rrf_total_two:
  "rrf_total key [xs, ys] k = rrf_sum key (List.enumerate 0 xs) k + rrf_sum key (List.enumerate 0 ys) k"
  by (simp add: rrf_total_def ranked_def rrf_sum_append)

lemma agreed_score:
  assumes "distinct (map key xs)" "distinct (map key ys)" "length xs \<le> 61" "length ys \<le> 61"
  shows "k \<in> key ` set xs \<Longrightarrow> k \<in> key ` set ys \<Longrightarrow> 1 / 61 < rrf_total key [xs, ys] k"
    and "k \<notin> key ` set xs \<or> k \<notin> key ` set ys \<Longrightarrow> rrf_total key [xs, ys] k \<le> 1 / 61"
proof -
  assume x: "k \<in> key ` set xs" and y: "k \<in> key ` set ys"
  obtain a where a: "a < length xs" "rrf_sum key (List.enumerate 0 xs) k = rrf_score a"
    using rrf_sum_once [OF assms(1) x, where n = 0] by auto
  obtain b where b: "b < length ys" "rrf_sum key (List.enumerate 0 ys) k = rrf_score b"
    using rrf_sum_once [OF assms(2) y, where n = 0] by auto
  have "1 / 121 \<le> rrf_score a" "1 / 121 \<le> rrf_score b" using a(1) b(1) assms(3,4) by (simp_all only: rrf_score_low order.strict_trans2)
  then show "1 / 61 < rrf_total key [xs, ys] k" by (simp add: rrf_total_two a(2) b(2))
next
  have up: "rrf_sum key (List.enumerate 0 zs) k \<le> 1 / 61" if "distinct (map key zs)" for zs
  proof (cases "k \<in> key ` set zs")
    case True
    then show ?thesis using rrf_sum_once [OF that, where n = 0] rrf_score_high by metis
  qed (simp add: rrf_sum_absent)
  assume "k \<notin> key ` set xs \<or> k \<notin> key ` set ys"
  then show "rrf_total key [xs, ys] k \<le> 1 / 61"
    using up [OF assms(1)] up [OF assms(2)] by (auto simp: rrf_total_two rrf_sum_absent)
qed

lemma sorted_threshold:
  fixes f :: "'i \<Rightarrow> 'o::linorder"
  shows "sorted (map f xs) \<Longrightarrow> (\<And>x. x \<in> set xs \<Longrightarrow> P x \<longleftrightarrow> f x < c) \<Longrightarrow> xs = filter P xs @ filter (\<lambda>x. \<not> P x) xs"
proof (induction xs)
  case (Cons x xs)
  have IH: "xs = filter P xs @ filter (\<lambda>x. \<not> P x) xs" using Cons by simp
  show ?case
  proof (cases "P x")
    case False
    then have "c \<le> f x" using Cons.prems(2) by (simp add: not_less)
    then have "\<not> P y" if "y \<in> set xs" for y using that Cons.prems by (fastforce simp: not_less)
    then have "filter P xs = []" by (simp add: filter_empty_conv)
    then show ?thesis using False IH by simp
  qed (use IH in simp)
qed simp

text \<open>
  what both searches find comes first. With at most 61 candidates each, the merged list has all the
  memories that the keyword and the vector search agree on before those that only one of them found.
\<close>

theorem agreement_comes_first:
  assumes "distinct (map mi_id xs)" "distinct (map mi_id ys)" "length xs \<le> 61" "length ys \<le> 61"
    and "merged = rrf_merge mi_id (\<lambda>sc i. i\<lparr>mi_score := sc\<rparr>) [xs, ys]" and "both = (\<lambda>i. mi_id i \<in> mi_id ` set xs \<inter> mi_id ` set ys)"
  shows "merged = filter both merged @ filter (\<lambda>i. \<not> both i) merged"
proof -
  obtain items where items: "merged = map (\<lambda>i. i\<lparr>mi_score := rrf_total mi_id [xs, ys] (mi_id i)\<rparr>) items"
    "sorted (map (\<lambda>i. - rrf_total mi_id [xs, ys] (mi_id i)) items)"
    using rrf_merge_alt [of mi_id "\<lambda>sc i. i\<lparr>mi_score := sc\<rparr>" "[xs, ys]"] unfolding assms(5) by blast
  have "sorted (map (\<lambda>i. - mi_score i) merged)" using items by (simp add: comp_def)
  moreover have "both i \<longleftrightarrow> - mi_score i < - (1 / 61)" if "i \<in> set merged" for i
  proof -
    have sc: "mi_score i = rrf_total mi_id [xs, ys] (mi_id i)" using that items(1) by auto
    show ?thesis
    proof (cases "mi_id i \<in> mi_id ` set xs \<and> mi_id i \<in> mi_id ` set ys")
      case True
      then show ?thesis using agreed_score(1) [OF assms(1-4), of "mi_id i"] by (simp add: sc assms(6))
    next
      case False
      then have "rrf_total mi_id [xs, ys] (mi_id i) \<le> 1 / 61" using agreed_score(2) [OF assms(1-4), of "mi_id i"] by blast
      then have "\<not> 1 / 61 < rrf_total mi_id [xs, ys] (mi_id i)" by (rule leD)
      then show ?thesis using False unfolding sc assms(6) Int_iff neg_less_iff_less by blast
    qed
  qed
  ultimately show ?thesis by (rule sorted_threshold)
qed

definition demo_item :: "string \<Rightarrow> memory_item" where
  "demo_item i = \<lparr>mi_id = i, mi_content = [], mi_type = [], mi_team = [], mi_user = [], mi_agent = [], mi_task = [], mi_priority = 0,
     mi_scene = [], mi_score = 0, mi_version = 0, mi_created = [], mi_updated = []\<rparr>"

definition demo_merge :: "memory_item list" where
  "demo_merge = rrf_merge mi_id (\<lambda>sc i. i\<lparr>mi_score := sc\<rparr>) [map demo_item [''a'', ''b''], map demo_item [''c'', ''b'']]"

definition demo_both :: "memory_item \<Rightarrow> bool" where
  "demo_both = (\<lambda>i. mi_id i \<in> mi_id ` set (map demo_item [''a'', ''b'']) \<inter> mi_id ` set (map demo_item [''c'', ''b'']))"

theorem agreement_comes_first_witness:
  "map mi_id demo_merge = [''b'', ''a'', ''c''] \<and> demo_merge = filter demo_both demo_merge @ filter (\<lambda>i. \<not> demo_both i) demo_merge"
proof (rule conjI)
  show "map mi_id demo_merge = [''b'', ''a'', ''c'']" by code_simp
  show "demo_merge = filter demo_both demo_merge @ filter (\<lambda>i. \<not> demo_both i) demo_merge"
    by (rule agreement_comes_first [OF _ _ _ _ demo_merge_def demo_both_def]) (simp_all add: demo_item_def)
qed

section \<open>Searches stay in their filter\<close>

text \<open>What the search relies on: the items of every call match the filter of the call, in the sense of
  \<open>admitted\<close>, which does not look at scores.\<close>

locale filtered_search =
  fixes store :: "('v, 'i) search_store"
    and admitted :: "isolation_filter option \<Rightarrow> 'i \<Rightarrow> bool"
    and key :: "'i \<Rightarrow> string" and with_score :: "rat \<Rightarrow> 'i \<Rightarrow> 'i"
  assumes fts_admitted: "list_all (admitted flt) (or_nothing (ss_search_fts store q k flt))"
    and vector_admitted: "list_all (admitted flt) (or_nothing (ss_search_vector store v k flt))"
    and native_admitted: "ss_native_hybrid store = Some native \<Longrightarrow> native q k flt = Inr items \<Longrightarrow> list_all (admitted flt) items"
    and rescored: "admitted flt i \<Longrightarrow> admitted flt (with_score sc i)"
begin

lemma candidates_admitted:
  "list_all (admitted flt) (fts_candidates fts_query query k flt store)"
  "list_all (admitted flt) (vector_candidates vec_of query k flt store)"
  by (simp_all add: fts_candidates_def vector_candidates_def fts_admitted vector_admitted split: option.split sum.split)

lemma merge_admitted: "list_all (admitted flt) xs \<Longrightarrow> list_all (admitted flt) ys \<Longrightarrow> list_all (admitted flt) (rrf_merge key with_score [xs, ys])"
  using rrf_merge_alt [of key with_score "[xs, ys]"] by (fastforce simp: list_all_iff intro!: rescored)

lemma found_ok:
  assumes "list_all (admitted flt) items"
  shows "length (sr_items (found limit keep strategy items)) \<le> limit
    \<and> sr_total (found limit keep strategy items) = length (sr_items (found limit keep strategy items))
    \<and> list_all (\<lambda>i. admitted flt i \<and> keep i) (sr_items (found limit keep strategy items))"
proof -
  have "list_all (\<lambda>i. admitted flt i \<and> keep i) (filter keep items)" using assms by (auto simp: list_all_iff)
  then have "list_all (\<lambda>i. admitted flt i \<and> keep i) (take limit (filter keep items))"
    by (auto simp: list_all_iff dest: in_set_takeD)
  then show ?thesis by (simp add: found_def Let_def)
qed

lemma search_ok:
  assumes "execute_search key with_score keep unavailable k fts_query vec_of query limit flt (Some store) = Inr res"
  shows "length (sr_items res) \<le> limit \<and> sr_total res = length (sr_items res) \<and> list_all (\<lambda>i. admitted flt i \<and> keep i) (sr_items res)"
proof -
  have none: "length (sr_items (no_results strategy msg)) \<le> limit
      \<and> sr_total (no_results strategy msg) = length (sr_items (no_results strategy msg))
      \<and> list_all (\<lambda>i. admitted flt i \<and> keep i) (sr_items (no_results strategy msg))" for strategy msg
    by (simp add: no_results_def)
  note c = candidates_admitted [where flt = flt and query = query and k = k]
  show ?thesis using assms
    by (auto simp: execute_search_def Let_def none found_ok [OF native_admitted] found_ok [OF c(1)] found_ok [OF c(2)]
      found_ok [OF merge_admitted [OF c(1) c(2)]] split: if_splits option.splits sum.splits)
qed

lemma search_answers:
  assumes "ss_native_hybrid store = None"
  shows "\<exists>res. execute_search key with_score keep unavailable k fts_query vec_of query limit flt (Some store) = Inr res
     \<and> length (sr_items res) \<le> limit \<and> sr_total res = length (sr_items res) \<and> list_all (\<lambda>i. admitted flt i \<and> keep i) (sr_items res)"
proof -
  have "\<exists>res. execute_search key with_score keep unavailable k fts_query vec_of query limit flt (Some store) = Inr res"
    using assms by (simp add: execute_search_def Let_def)
  then obtain res where "execute_search key with_score keep unavailable k fts_query vec_of query limit flt (Some store) = Inr res" ..
  then show ?thesis using search_ok by blast
qed

end

text \<open>A hit of the SQLite store: the item of a row that matches the filter.\<close>

definition l1_hit :: "isolation_filter option \<Rightarrow> memory_item \<Rightarrow> bool" where
  "l1_hit flt i \<longleftrightarrow> (\<exists>r sc. row_matches_isolation r flt \<and> i = memory_item_of (r, sc))"

definition l0_hit :: "isolation_filter option \<Rightarrow> conversation_item \<Rightarrow> bool" where
  "l0_hit flt i \<longleftrightarrow> (\<exists>r sc. row_matches_isolation r flt \<and> (i = conversation_item_of (r, sc) \<or> i = keyword_item_of (r, sc)))"

lemma list_all_hits:
  "list_all (\<lambda>(r, d). P r) hits \<Longrightarrow> (\<And>r d. P r \<Longrightarrow> Q (f (r, d))) \<Longrightarrow> list_all Q (map f hits)"
  by (induction hits) auto

lemma l1_hit_of: "row_matches_isolation r flt \<Longrightarrow> l1_hit flt (memory_item_of (r, d))"
  by (auto simp: l1_hit_def)

lemma l0_hit_of: "row_matches_isolation r flt \<Longrightarrow> l0_hit flt (conversation_item_of (r, d))"
  by (auto simp: l0_hit_def)

lemma l0_hit_of_keyword: "row_matches_isolation r flt \<Longrightarrow> l0_hit flt (keyword_item_of (r, d))"
  by (auto simp: l0_hit_def)

lemma l1_hit_rescored: "l1_hit flt i \<Longrightarrow> l1_hit flt (i\<lparr>mi_score := sc\<rparr>)"
  by (auto simp: l1_hit_def memory_item_of_def)

lemma l0_hit_rescored: "l0_hit flt i \<Longrightarrow> l0_hit flt (i\<lparr>ci_score := sc\<rparr>)"
  by (auto simp: l0_hit_def conversation_item_of_def keyword_item_of_def)

lemmas sqlite_search_defs = sqlite_l1_search_def sqlite_l0_search_def or_nothing_def
  search_l1_fts_def search_l0_fts_def search_l1_vector_def search_l0_vector_def

interpretation l1_search: filtered_search "sqlite_l1_search knn fts fails s" l1_hit mi_id "\<lambda>sc i. i\<lparr>mi_score := sc\<rparr>"
  for knn fts fails s
proof
  show "list_all (l1_hit flt) (or_nothing (ss_search_fts (sqlite_l1_search knn fts fails s) q k flt))" for flt q k
    by (auto simp: sqlite_search_defs intro!: list_all_hits [OF fts_hits_match] l1_hit_of)
  show "list_all (l1_hit flt) (or_nothing (ss_search_vector (sqlite_l1_search knn fts fails s) v k flt))" for flt v k
    by (auto simp: sqlite_search_defs intro!: list_all_hits [OF vector_hits_match] l1_hit_of)
qed (simp_all add: sqlite_search_defs l1_hit_rescored)

interpretation l0_search: filtered_search "sqlite_l0_search knn fts fails s" l0_hit ci_id "\<lambda>sc i. i\<lparr>ci_score := sc\<rparr>"
  for knn fts fails s
proof
  show "list_all (l0_hit flt) (or_nothing (ss_search_fts (sqlite_l0_search knn fts fails s) q k flt))" for flt q k
    by (auto simp: sqlite_search_defs intro!: list_all_hits [OF fts_hits_match] l0_hit_of_keyword)
  show "list_all (l0_hit flt) (or_nothing (ss_search_vector (sqlite_l0_search knn fts fails s) v k flt))" for flt v k
    by (auto simp: sqlite_search_defs intro!: list_all_hits [OF vector_hits_match] l0_hit_of)
qed (simp_all add: sqlite_search_defs l0_hit_rescored)

lemma sqlite_not_hybrid:
  "ss_native_hybrid (sqlite_l1_search knn fts fails s) = None" "ss_native_hybrid (sqlite_l0_search knn0 fts0 fails s) = None"
  by (simp_all add: sqlite_search_defs)

text \<open>
  a search never leaves its filter. Over the SQLite store a search always answers, with at most as many
  results as asked for; every result comes from a row that matches the isolation filter, and has the asked type and scene, or
  belongs to the asked session.
\<close>

theorem searches_admit_only_own_rows:
  "(\<exists>res. execute_memory_search fts_query vec_of query limit type scene flt (Some (sqlite_l1_search knn fts fails s)) = Inr res
     \<and> length (sr_items res) \<le> limit \<and> sr_total res = length (sr_items res)
     \<and> list_all (\<lambda>i. l1_hit flt i \<and> keep_memory type scene i) (sr_items res))
   \<and> (\<exists>res. execute_conversation_search fts_query vec_of query limit session flt (Some (sqlite_l0_search knn fts0 fails s)) = Inr res
     \<and> length (sr_items res) \<le> limit \<and> sr_total res = length (sr_items res)
     \<and> list_all (\<lambda>i. l0_hit flt i \<and> keep_message session i) (sr_items res))"
  unfolding execute_memory_search_def execute_conversation_search_def
  by (intro conjI l1_search.search_answers l0_search.search_answers sqlite_not_hybrid)

text \<open>
  C24: memories of others can hide one's own. The filter is applied to the best fifteen times \<open>limit\<close> matches of the whole store:
  when the matches of others fill them, a keyword search returns nothing although a memory of the caller matches.
\<close>

theorem others_crowd_out_own_memory:
  assumes "trim query \<noteq> []" "fts_query query = Some q" "st_fts_available s"
    and "fts q (st_l1_fts s) = others_rows @ (own, rank) # rest" "15 * limit \<le> length others_rows"
    and "list_all (\<lambda>(r, d). \<not> row_matches_isolation r (Some f)) others_rows" "row_matches_isolation own (Some f)"
  shows "execute_memory_search fts_query None query limit type scene (Some f) (Some (sqlite_l1_search knn fts fails s)) = Inr (no_results ''fts'' None)"
proof -
  have "take (max (limit * 3 * 5) (limit * 3)) (fts q (st_l1_fts s)) = take (15 * limit) others_rows"
    using assms(4,5) by (simp add: max_def)
  then have "search_l1_fts fts fails q (limit * 3) (Some f) s = []"
    using assms(6) by (auto simp: search_l1_fts_def fts_hits_def list_all_iff filter_empty_conv dest!: in_set_takeD)
  then show ?thesis using assms(1-3)
    by (simp add: execute_memory_search_def execute_search_def fts_candidates_def vector_candidates_def sqlite_l1_search_def or_nothing_def)
qed

definition rows_of_bob :: "int memory_store" where
  "rows_of_bob = fold (\<lambda>i s. snd (upsert_l1 db_ok (demo_memory [char_of i] (if i < (15::nat) then ''bob'' else ''ann'') 1) None s)) [0..<16] empty_store"

theorem others_crowd_out_own_memory_witness:
  "execute_memory_search Some None ''tea'' 1 None None (Some (isolation_of_user ''ann''))
     (Some (sqlite_l1_search (\<lambda>v k rows. []) (\<lambda>q rows. map (\<lambda>r. (r, Some (-1))) rows) False rows_of_bob)) = Inr (no_results ''fts'' None)
   \<and> map l1_id (filter (\<lambda>r. row_matches_isolation r (Some (isolation_of_user ''ann''))) (st_l1_fts rows_of_bob)) = [[char_of (15::nat)]]"
proof (rule conjI)
  let ?fts = "\<lambda>q rows. map (\<lambda>r::l1_row. (r, Some (-1::rat))) rows"
  have split: "?fts q (st_l1_fts rows_of_bob) = ?fts q (take 15 (st_l1_fts rows_of_bob)) @ (st_l1_fts rows_of_bob ! 15, Some (-1)) # []" for q :: string
    by code_simp
  have h: "trim ''tea'' \<noteq> []" "st_fts_available rows_of_bob" "15 * (1::nat) \<le> length (?fts q (take 15 (st_l1_fts rows_of_bob)))"
    "list_all (\<lambda>(r, d). \<not> row_matches_isolation r (Some (isolation_of_user ''ann''))) (?fts q (take 15 (st_l1_fts rows_of_bob)))"
    "row_matches_isolation (st_l1_fts rows_of_bob ! 15) (Some (isolation_of_user ''ann''))" for q :: string
    by code_simp+
  show "execute_memory_search Some None ''tea'' 1 None None (Some (isolation_of_user ''ann''))
     (Some (sqlite_l1_search (\<lambda>v k rows. []) ?fts False rows_of_bob)) = Inr (no_results ''fts'' None)"
    by (rule others_crowd_out_own_memory [where fts = ?fts, OF h(1) refl h(2) split h(3) h(4) h(5)])
qed code_simp

end
