(* ===== verification/Search_Api.thy ===== *)
theory Search_Api
  imports Memory_Api Hybrid_Search
begin

text \<open>
  The search handlers of \<^verbatim>\<open>MemoryCore/src/gateway/v2-router.ts\<close>, and what a deletion means for them. The parameters of
  \<open>Hybrid_Search\<close> (the keyword query of a text, its embedding, the matches and neighbours that the database finds) stay arguments.
\<close>

definition handle_atomic_search ::
  "(string \<Rightarrow> string option) \<Rightarrow> (string \<Rightarrow> string + 'v list) option \<Rightarrow> isolation_context \<Rightarrow> string \<Rightarrow> nat option \<Rightarrow> string option
   \<Rightarrow> ('v, memory_item) search_store option \<Rightarrow> string + memory_item list" where
  "handle_atomic_search fts_query vec_of who query limit type store =
     (case execute_memory_search fts_query vec_of query (case limit of Some n \<Rightarrow> n | None \<Rightarrow> 5) type None (Some (truthy_filter who)) store of
        Inl err \<Rightarrow> Inl err
      | Inr res \<Rightarrow> Inr (sr_items res))"

definition handle_conversation_search ::
  "(string \<Rightarrow> string option) \<Rightarrow> (string \<Rightarrow> string + 'v list) option \<Rightarrow> isolation_context \<Rightarrow> string \<Rightarrow> nat option \<Rightarrow> string option
   \<Rightarrow> ('v, conversation_item) search_store option \<Rightarrow> string + conversation_item list" where
  "handle_conversation_search fts_query vec_of who query limit session store =
     (case execute_conversation_search fts_query vec_of query (case limit of Some n \<Rightarrow> n | None \<Rightarrow> 5) session (Some (truthy_filter who)) store of
        Inl err \<Rightarrow> Inl err
      | Inr res \<Rightarrow> Inr (sr_items res))"

section \<open>Only existing memories are found\<close>

text \<open>The ids a search can know, when the index answers with its own rows.\<close>

definition known_l1 :: "'v memory_store \<Rightarrow> string set" where
  "known_l1 s = l1_id ` set (st_l1 s) \<union> l1_id ` set (st_l1_fts s)"

lemma vector_hits_rows: "(r, d) \<in> set (vector_hits key rows flt hits) \<Longrightarrow> key r \<in> key ` set rows"
  by (auto simp: vector_hits_def List.map_filter_def dest!: find_id_Some split: option.splits if_splits)

lemma fts_hits_rows: "(r, d) \<in> set (fts_hits hits k flt) \<Longrightarrow> r \<in> fst ` set hits"
  by (force simp: fts_hits_def dest!: in_set_takeD)

lemma sqlite_search_known:
  assumes "\<And>q rows. fst ` set (fts q rows) \<subseteq> set rows"
  shows "filtered_search (sqlite_l1_search knn fts fails s) (\<lambda>flt i. mi_id i \<in> known_l1 s) (\<lambda>sc i. i\<lparr>mi_score := sc\<rparr>)"
proof unfold_locales
  show "list_all (\<lambda>i. mi_id i \<in> known_l1 s) (or_nothing (ss_search_fts (sqlite_l1_search knn fts fails s) q k flt))" for q k flt
    using assms by (fastforce simp: sqlite_search_defs list_all_iff memory_item_of_def known_l1_def dest!: fts_hits_rows)
  show "list_all (\<lambda>i. mi_id i \<in> known_l1 s) (or_nothing (ss_search_vector (sqlite_l1_search knn fts fails s) v k flt))" for v k flt
    by (auto simp: sqlite_search_defs list_all_iff memory_item_of_def known_l1_def dest!: in_set_takeD vector_hits_rows)
qed (simp_all add: sqlite_search_defs)

section \<open>Deletion\<close>

lemma delete_l1_cases:
  assumes "delete_l1 run i (Some f) s = (ok, s')" "fts_reliable run"
  shows "if ok then s' = remove_l1 {i} s else s' = s"
  using assms by (auto simp: delete_l1_def drop_l1_remove l1_refused_def split: if_splits option.splits)

lemma delete_all_l1:
  assumes "fts_reliable run" "fold (\<lambda>i (n, s). case delete_l1 run i (Some f) s of (ok, s) \<Rightarrow> (if ok then Suc n else n, s)) ids (k, s) = (n, s')"
  shows "n \<le> k + length ids \<and> (n = k + length ids \<longrightarrow> s' = remove_l1 (set ids) s)"
  using assms(2)
proof (induction ids arbitrary: k s)
  case (Cons i ids)
  obtain ok t where d: "delete_l1 run i (Some f) s = (ok, t)" by (cases "delete_l1 run i (Some f) s")
  from delete_l1_cases [OF d assms(1)] Cons.prems Cons.IH [of "if ok then Suc k else k" t] show ?case
    by (cases ok) (auto simp: d remove_l1_remove)
qed simp



section \<open>Whose memories\<close>

lemma truthy_owner:
  assumes "row_matches_isolation r (Some (truthy_filter who))"
  shows "ow_team r = or_else (opt_text (ic_team who)) (ow_team r) \<and> ow_user r = or_else (ic_user who) (ow_user r)
    \<and> ow_agent r = or_else (ic_agent who) (ow_agent r) \<and> ow_task r = or_else (opt_text (ic_task who)) (ow_task r)"
  using assms by (auto simp: row_matches_isolation_def truthy_filter_def nonempty_def or_else_def split: if_splits)

definition own_memory :: "isolation_context \<Rightarrow> memory_item \<Rightarrow> bool" where
  "own_memory who i \<longleftrightarrow> mi_team i = or_else (opt_text (ic_team who)) (mi_team i) \<and> mi_user i = or_else (ic_user who) (mi_user i)
     \<and> mi_agent i = or_else (ic_agent who) (mi_agent i) \<and> mi_task i = or_else (opt_text (ic_task who)) (mi_task i)"

definition own_message :: "isolation_context \<Rightarrow> conversation_item \<Rightarrow> bool" where
  "own_message who i \<longleftrightarrow> (case ci_owner i of None \<Rightarrow> True
     | Some (sid, user, agent) \<Rightarrow> user = or_else (ic_user who) user \<and> agent = or_else (ic_agent who) agent)"

lemma own_memory_hit: "l1_hit (Some (truthy_filter who)) i \<Longrightarrow> own_memory who i"
  by (auto simp: l1_hit_def memory_item_of_def own_memory_def dest: truthy_owner)

lemma own_message_hit: "l0_hit (Some (truthy_filter who)) i \<Longrightarrow> own_message who i"
  by (auto simp: l0_hit_def conversation_item_of_def keyword_item_of_def own_message_def dest: truthy_owner)


end
