(* ===== verification/Deferred_Embedding.thy ===== *)
theory Deferred_Embedding
  imports Store_Properties
begin

text \<open>
  The background embedding of messages, \<^verbatim>\<open>MemoryCore/src/core/store/deferred-l0-embedding.ts\<close>, over the
  job table of \<open>Memory_Store\<close>. A round of the loop reads the due jobs, embeds their texts and settles
  each job; what a round meets (the clock, the answer of the embedding service, statements that
  throw) is its argument, so that a run of the loop is a list of rounds. The sharing of one
  running drain per store is left out.
\<close>

record 'v drain_env =
  de_due :: ms
  de_later :: ms
  de_embed_batch :: "string list \<Rightarrow> string + 'v list list"
  de_update :: "string \<Rightarrow> db_run"

definition drain_fail :: "'v drain_env \<Rightarrow> string \<Rightarrow> embedding_job \<Rightarrow> 'v memory_store \<Rightarrow> 'v memory_store" where
  "drain_fail e err j s = retry_l0_embedding (de_later e) (ej_id j) (ej_attempts j + 1) err s"

text \<open>A batch may have fewer vectors than texts.\<close>

definition drain_job :: "'v drain_env \<Rightarrow> 'v::zero list list \<Rightarrow> nat \<times> embedding_job \<Rightarrow> 'v memory_store \<Rightarrow> 'v memory_store" where
  "drain_job e vectors ij s =
     (case ij of (i, j) \<Rightarrow>
        if length vectors \<le> i then drain_fail e ''embedding response omitted a vector'' j s
        else (case update_l0_embedding (de_update e (ej_id j)) (ej_id j) (vectors ! i) s of
                (True, s) \<Rightarrow> complete_l0_embedding (ej_id j) s
              | (False, s) \<Rightarrow> drain_fail e ''vector update returned false'' j s))"

text \<open>One round; the flag says that the loop ends with it.\<close>

definition drain_round :: "int \<Rightarrow> 'v drain_env \<Rightarrow> 'v::zero memory_store \<Rightarrow> bool \<times> 'v memory_store" where
  "drain_round batch_size e s =
     (let limit = max 1 (min 100 batch_size)
      in case due_l0_embeddings (de_due e) limit s of
           (jobs, s) \<Rightarrow>
             if jobs = [] then (True, s)
             else (case de_embed_batch e (map ej_text jobs) of
               Inl err \<Rightarrow> (True, fold (drain_fail e err) jobs s)
             | Inr vectors \<Rightarrow> (int (length jobs) < limit, fold (drain_job e vectors) (List.enumerate 0 jobs) s)))"

fun drain_rounds :: "int \<Rightarrow> 'v drain_env list \<Rightarrow> 'v::zero memory_store \<Rightarrow> bool \<times> 'v memory_store" where
  "drain_rounds batch_size [] s = (False, s)"
| "drain_rounds batch_size (e # es) s =
     (case drain_round batch_size e s of
        (True, s) \<Rightarrow> (True, s)
      | (False, s) \<Rightarrow> drain_rounds batch_size es s)"

section \<open>The loop ends\<close>

text \<open>What a waiting job can still cost: the attempts it has left.\<close>

definition job_work :: "embedding_job \<Rightarrow> nat" where
  "job_work j = (if ej_dead j then 0 else 1 + (7 - ej_attempts j))"

definition work :: "embedding_job list \<Rightarrow> nat" where
  "work js = sum_list (map job_work js)"

text \<open>The effect of a round on one job: the job that is in the list of the round disappears or has one
  attempt more.\<close>

definition job_settled :: "embedding_job \<Rightarrow> embedding_job list \<Rightarrow> embedding_job list \<Rightarrow> bool" where
  "job_settled j js js' \<longleftrightarrow>
     js' = drop_id ej_id (ej_id j) js
     \<or> (\<exists>d err u. js' = map (\<lambda>x. if ej_id x = ej_id j
          then x\<lparr>ej_dead := 8 \<le> ej_attempts j + 1, ej_attempts := ej_attempts j + 1, ej_next := d, ej_error := err, ej_updated := u\<rparr> else x) js)"

lemma settled_fail: "\<not> st_degraded s \<Longrightarrow> job_settled j (st_l0_jobs s) (st_l0_jobs (drain_fail e err j s)) \<and> \<not> st_degraded (drain_fail e err j s)"
proof -
  assume ok: "\<not> st_degraded s"
  have eq: "st_l0_jobs (drain_fail e err j s) = map (\<lambda>x. if ej_id x = ej_id j
      then x\<lparr>ej_dead := 8 \<le> ej_attempts j + 1, ej_attempts := ej_attempts j + 1,
        ej_next := (if 8 \<le> ej_attempts j + 1 then de_later e else de_later e + retry_delay_ms (ej_attempts j + 1)),
        ej_error := Some (take 1000 err), ej_updated := de_later e\<rparr> else x) (st_l0_jobs s)"
    using ok by (simp add: drain_fail_def retry_l0_embedding_def)
  have "job_settled j (st_l0_jobs s) (st_l0_jobs (drain_fail e err j s))"
    unfolding job_settled_def by (rule disjI2, intro exI, rule eq)
  then show ?thesis using ok by (simp add: drain_fail_def retry_l0_embedding_def)
qed

lemma update_l0_embedding_frame:
  "st_l0_jobs (snd (update_l0_embedding run i v s)) = st_l0_jobs s \<and> st_degraded (snd (update_l0_embedding run i v s)) = st_degraded s"
  by (simp add: update_l0_embedding_def split: option.split)

lemma settled_job:
  assumes "\<not> st_degraded s"
  shows "job_settled j (st_l0_jobs s) (st_l0_jobs (drain_job e vectors (i, j) s)) \<and> \<not> st_degraded (drain_job e vectors (i, j) s)"
proof -
  obtain ok s' where u: "update_l0_embedding (de_update e (ej_id j)) (ej_id j) (vectors ! i) s = (ok, s')"
    by (cases "update_l0_embedding (de_update e (ej_id j)) (ej_id j) (vectors ! i) s")
  then have "st_l0_jobs s' = st_l0_jobs s" "\<not> st_degraded s'"
    using update_l0_embedding_frame [of "de_update e (ej_id j)" "ej_id j" "vectors ! i" s] assms by simp_all
  then show ?thesis using assms settled_fail [of s] settled_fail [of s']
    by (cases ok) (simp_all add: drain_job_def u, simp_all add: complete_l0_embedding_def job_settled_def)
qed

lemma work_drop: "work (drop_id ej_id i js) \<le> work js"
  by (induction js) (simp_all add: work_def drop_id_def)

lemma settled_other: "job_settled j js js' \<Longrightarrow> x \<in> set js \<Longrightarrow> ej_id x \<noteq> ej_id j \<Longrightarrow> x \<in> set js'"
  by (auto simp: job_settled_def drop_id_def image_iff)

lemma settled_distinct: "job_settled j js js' \<Longrightarrow> distinct (map ej_id js) \<Longrightarrow> distinct (map ej_id js')"
  by (auto simp: job_settled_def drop_id_def distinct_map_filter comp_def if_distrib [of ej_id] cong: if_cong)

lemma settled_work:
  "job_settled j js js' \<Longrightarrow> distinct (map ej_id js) \<Longrightarrow> j \<in> set js \<Longrightarrow> \<not> ej_dead j \<Longrightarrow> work js' < work js"
proof (induction js arbitrary: js')
  case (Cons x js)
  show ?case
  proof (cases "x = j")
    case True
    then have others: "\<forall>x\<in>set js. ej_id x \<noteq> ej_id j" using Cons.prems(2) by (auto simp: image_iff)
    then have "drop_id ej_id (ej_id j) js = js" by (auto simp: drop_id_def filter_id_conv)
    moreover have "map (\<lambda>y. if ej_id y = ej_id j then f y else y) js = js" for f using others by (intro map_idI) auto
    ultimately show ?thesis using Cons.prems(1,4) True
      by (auto simp: job_settled_def drop_id_def work_def job_work_def)
  next
    case False
    then have j: "j \<in> set js" and ne: "ej_id x \<noteq> ej_id j" using Cons.prems(2,3) by auto
    obtain ys where "js' = x # ys" "job_settled j js ys"
      using Cons.prems(1) ne by (auto simp: job_settled_def drop_id_def)
    then show ?thesis using Cons.IH [of ys] Cons.prems(2,4) j by (simp add: work_def)
  qed
qed simp

lemma settle_all:
  assumes step: "\<And>x s. x \<in> set xs \<Longrightarrow> \<not> st_degraded s \<Longrightarrow> job_settled (job_of x) (st_l0_jobs s) (st_l0_jobs (f x s)) \<and> \<not> st_degraded (f x s)"
    and "\<not> st_degraded s" "distinct (map ej_id (st_l0_jobs s))" "distinct (map (ej_id \<circ> job_of) xs)"
    and "list_all (\<lambda>x. job_of x \<in> set (st_l0_jobs s) \<and> \<not> ej_dead (job_of x)) xs"
  shows "work (st_l0_jobs (fold f xs s)) + length xs \<le> work (st_l0_jobs s)
    \<and> \<not> st_degraded (fold f xs s) \<and> distinct (map ej_id (st_l0_jobs (fold f xs s)))"
  using assms
proof (induction xs arbitrary: s)
  case (Cons x xs)
  have st: "job_settled (job_of x) (st_l0_jobs s) (st_l0_jobs (f x s))" "\<not> st_degraded (f x s)" using Cons.prems(1,2) by simp_all
  have "list_all (\<lambda>y. job_of y \<in> set (st_l0_jobs (f x s)) \<and> \<not> ej_dead (job_of y)) xs"
    using Cons.prems(4,5) settled_other [OF st(1)] by (auto simp: list_all_iff image_iff)
  then have "work (st_l0_jobs (fold f xs (f x s))) + length xs \<le> work (st_l0_jobs (f x s))
      \<and> \<not> st_degraded (fold f xs (f x s)) \<and> distinct (map ej_id (st_l0_jobs (fold f xs (f x s))))"
    using Cons.prems st settled_distinct [OF st(1)] by (intro Cons.IH) simp_all
  moreover have "work (st_l0_jobs (f x s)) < work (st_l0_jobs s)"
    using settled_work [OF st(1)] Cons.prems(3,5) by simp
  ultimately show ?case by simp
qed simp

lemma due_jobs:
  assumes "due_l0_embeddings now limit s = (jobs, s1)" "distinct (map ej_id (st_l0_jobs s))" "jobs \<noteq> []"
  shows "\<not> st_degraded s1 \<and> distinct (map ej_id (st_l0_jobs s1)) \<and> distinct (map ej_id jobs)
    \<and> list_all (\<lambda>j. j \<in> set (st_l0_jobs s1) \<and> \<not> ej_dead j) jobs \<and> work (st_l0_jobs s1) \<le> work (st_l0_jobs s)"
proof -
  define live where "live = filter (\<lambda>j. \<not> (ej_dead j \<and> ej_updated j < now - 7 * 24 * 60 * 60000)) (st_l0_jobs s)"
  have up: "\<not> st_degraded s" "st_vec_ready s" using assms(1,3) by (auto simp: due_l0_embeddings_def split: if_splits)
  then have s1: "s1 = s\<lparr>st_l0_jobs := live\<rparr>" and jobs: "jobs = take (nat (max 1 (min 100 limit))) (sort_key ej_created (filter (job_due now) live))"
    using assms(1) unfolding due_l0_embeddings_def live_def Let_def by simp_all
  have "distinct (map ej_id live)" using assms(2) by (simp add: live_def distinct_map_filter)
  moreover have "distinct (map ej_id (sort_key ej_created (filter (job_due now) live)))"
  proof -
    have "mset (map ej_id (sort_key ej_created (filter (job_due now) live))) = mset (map ej_id (filter (job_due now) live))"
      by (simp only: mset_map mset_sort)
    then show ?thesis using calculation mset_eq_imp_distinct_iff distinct_map_filter by blast
  qed
  moreover have "work live \<le> work (st_l0_jobs s)"
    unfolding live_def by (induction "st_l0_jobs s" arbitrary: s) (simp_all add: work_def sum_list_filter_le_nat)
  ultimately show ?thesis using up(1)
    by (auto simp: s1 jobs list_all_iff job_due_def take_map [symmetric] dest!: in_set_takeD intro: distinct_take)
qed

text \<open>A round that does not end the loop costs at least one attempt.\<close>

lemma drain_round_work:
  assumes "distinct (map ej_id (st_l0_jobs s))" "drain_round batch_size e s = (False, s')"
  shows "work (st_l0_jobs s') < work (st_l0_jobs s) \<and> distinct (map ej_id (st_l0_jobs s'))"
proof -
  obtain jobs s1 where due: "due_l0_embeddings (de_due e) (max 1 (min 100 batch_size)) s = (jobs, s1)"
    by (cases "due_l0_embeddings (de_due e) (max 1 (min 100 batch_size)) s")
  then obtain vectors where r: "jobs \<noteq> []" "s' = fold (drain_job e vectors) (List.enumerate 0 jobs) s1"
    using assms(2) by (auto simp: drain_round_def Let_def split: if_splits sum.splits)
  note d = due_jobs [OF due assms(1) r(1)]
  have "work (st_l0_jobs s') + length (List.enumerate 0 jobs) \<le> work (st_l0_jobs s1) \<and> \<not> st_degraded s' \<and> distinct (map ej_id (st_l0_jobs s'))"
    unfolding r(2)
  proof (rule settle_all [where job_of = snd])
    show "job_settled (snd x) (st_l0_jobs t) (st_l0_jobs (drain_job e vectors x t)) \<and> \<not> st_degraded (drain_job e vectors x t)"
      if "\<not> st_degraded t" for x t using settled_job [OF that, of "snd x" e vectors "fst x"] by simp
    show "distinct (map (ej_id \<circ> snd) (List.enumerate 0 jobs))" using d by (simp flip: list.map_comp add: map_snd_enumerate)
    show "list_all (\<lambda>x. snd x \<in> set (st_l0_jobs s1) \<and> \<not> ej_dead (snd x)) (List.enumerate 0 jobs)"
      using d by (auto simp: list_all_iff in_set_enumerate_eq)
  qed (use d in simp_all)
  then show ?thesis using d r(1) by (cases jobs) auto
qed

text \<open>
  C20: the background embedding ends. Whatever the embedding service answers, whichever writes fail and however the clock moves, the loop
  returns after at most eight rounds per waiting message: a message is embedded, retried later, or given up after its eighth attempt.
\<close>

theorem drain_terminates:
  assumes "distinct (map ej_id (st_l0_jobs s))" "8 * length (st_l0_jobs s) < length rounds"
  shows "fst (drain_rounds batch_size rounds s)"
proof -
  have "fst (drain_rounds batch_size es t)" if "distinct (map ej_id (st_l0_jobs t))" "work (st_l0_jobs t) < length es" for es and t :: "'a memory_store"
    using that
  proof (induction es arbitrary: t)
    case (Cons e es)
    obtain stop t' where r: "drain_round batch_size e t = (stop, t')" by (cases "drain_round batch_size e t")
    show ?case
    proof (cases stop)
      case False
      then show ?thesis using drain_round_work [of t batch_size e t'] Cons r by simp
    qed (simp add: r)
  qed simp
  moreover have "work js \<le> 8 * length js" for js
    by (induction js) (auto simp: work_def job_work_def)
  ultimately show ?thesis using assms order.strict_trans1 by blast
qed

definition demo_round :: "int drain_env" where
  "demo_round = \<lparr>de_due = 100, de_later = 100, de_embed_batch = (\<lambda>texts. Inr []), de_update = (\<lambda>i. db_ok)\<rparr>"

theorem drain_terminates_witness:
  "\<exists>s'. drain_rounds 1 (replicate 9 demo_round) (enqueue_l0_embedding 50 ''m1'' ''hello'' empty_store) = (True, s')
     \<and> map ej_attempts (st_l0_jobs s') = [1]"
proof -
  let ?s = "enqueue_l0_embedding 50 ''m1'' ''hello'' (empty_store :: int memory_store)"
  have "distinct (map ej_id (st_l0_jobs ?s))" "8 * length (st_l0_jobs ?s) < length (replicate 9 demo_round)" by code_simp+
  from drain_terminates [OF this, of 1] have "fst (drain_rounds 1 (replicate 9 demo_round) ?s)" .
  moreover have "map ej_attempts (st_l0_jobs (snd (drain_rounds 1 (replicate 9 demo_round) ?s))) = [1]" by code_simp
  ultimately show ?thesis by (metis prod.collapse)
qed

end
