(* ===== verification/L1_Records.thy ===== *)
theory L1_Records
  imports Memory_Api Hybrid_Search Sanitize Iso_Time
begin

text \<open>
  From conversations to memories, \<^verbatim>\<open>MemoryCore/src/core/record/\<close>: \<^verbatim>\<open>l1-extractor.ts\<close> (the extraction),
  \<^verbatim>\<open>l1-dedup.ts\<close> (which new memories update or merge old ones), \<^verbatim>\<open>l1-writer.ts\<close> (the writes) and
  \<^verbatim>\<open>l1-reader.ts\<close> (rows back to records). The answers of the language model, \<^verbatim>\<open>JSON.parse\<close>, embeddings, generated ids, the
  clock and statements that throw are arguments; numbers in JSON are integers. Metrics and generation logs are left out.
\<close>

section \<open>Memories and decisions\<close>

record extracted_memory =
  em_id :: string
  em_content :: string
  em_type :: string
  em_priority :: int
  em_sources :: "string list"
  em_metadata :: string
  em_scene :: string

datatype dedup_action = ActStore | ActUpdate | ActMerge | ActSkip

record dedup_decision =
  dd_record :: string
  dd_action :: dedup_action
  dd_targets :: "string list"
  dd_content :: "string option"
  dd_type :: "string option"
  dd_priority :: "int option"
  dd_stamps :: "string list option"

definition valid_types :: "string list" where
  "valid_types = [''persona'', ''episodic'', ''instruction'', ''work_fact'', ''work_task'', ''work_method'', ''work_artifact'']"

definition normalize_type :: "string \<Rightarrow> string option" where
  "normalize_type raw =
     (let lower = trim (to_lower raw)
      in if lower \<in> set valid_types then Some lower
         else if lower = ''episode'' then Some ''episodic''
         else if lower = ''instruct'' then Some ''instruction''
         else if lower = ''preference'' then Some ''persona''
         else None)"

definition store_decision :: "string \<Rightarrow> dedup_decision" where
  "store_decision i = \<lparr>dd_record = i, dd_action = ActStore, dd_targets = [], dd_content = None, dd_type = None, dd_priority = None,
     dd_stamps = None\<rparr>"

section \<open>Answers of the model\<close>

text \<open>\<^verbatim>\<open>String(x)\<close>, field access, and the type tests of the parsers.\<close>

fun js_string :: "json \<Rightarrow> string" where
  "js_string JNull = ''null''"
| "js_string (JBool b) = (if b then ''true'' else ''false'')"
| "js_string (JNum i) = dec_int i"
| "js_string (JStr s) = s"
| "js_string (JArr js) = join_with (CHR '','') (map (\<lambda>j. if j = JNull then [] else js_string j) js)"
| "js_string (JObj fs) = ''[object Object]''"

definition field :: "json \<Rightarrow> string \<Rightarrow> json option" where
  "field j k = (case j of JObj fs \<Rightarrow> map_of (rev fs) k | _ \<Rightarrow> None)"

definition as_text :: "json option \<Rightarrow> string option" where
  "as_text j = (case j of Some (JStr s) \<Rightarrow> Some s | _ \<Rightarrow> None)"

definition as_int :: "json option \<Rightarrow> int option" where
  "as_int j = (case j of Some (JNum i) \<Rightarrow> Some i | _ \<Rightarrow> None)"

definition as_texts :: "json option \<Rightarrow> string list option" where
  "as_texts j = (case j of Some (JArr js) \<Rightarrow> Some (map js_string js) | _ \<Rightarrow> None)"

text \<open>\<^verbatim>\<open>String(x ?? d)\<close>\<close>

definition text_or :: "string \<Rightarrow> json option \<Rightarrow> string" where
  "text_or d j = (case j of None \<Rightarrow> d | Some JNull \<Rightarrow> d | Some x \<Rightarrow> js_string x)"

definition is_object :: "json \<Rightarrow> bool" where
  "is_object j \<longleftrightarrow> (case j of JObj fs \<Rightarrow> True | JArr js \<Rightarrow> True | _ \<Rightarrow> False)"

text \<open>Without the Markdown fence, from the first bracket to the last one.\<close>

definition strip_fence :: "string \<Rightarrow> string" where
  "strip_fence raw =
     (let s = trim raw
      in if \<not> prefix ''```'' s then s
         else
           (let s = drop 3 s; s = (if prefix ''json'' s then drop 4 s else s); s = dropWhile ascii_space s;
                back = dropWhile ascii_space (rev s)
            in if prefix ''```'' back then (let back = drop 3 back in rev (if back \<noteq> [] \<and> hd back = char_of (10::nat) then tl back else back)) else s))"

definition array_text :: "string \<Rightarrow> string option" where
  "array_text s =
     (case (index_of (CHR ''['') s, last_index_of (CHR '']'') s) of
        (Some i, Some j) \<Rightarrow> if i < j then Some (drop i (take (Suc j) s)) else None
      | _ \<Rightarrow> None)"

definition parsed_array :: "(string \<Rightarrow> json option) \<Rightarrow> string \<Rightarrow> json list option" where
  "parsed_array parse text = (case parse text of Some (JArr js) \<Rightarrow> Some js | _ \<Rightarrow> None)"

definition answer_array :: "(string \<Rightarrow> json option) \<Rightarrow> string \<Rightarrow> json list option" where
  "answer_array parse raw =
     (case array_text (strip_fence raw) of
        None \<Rightarrow> None
      | Some text \<Rightarrow> parsed_array parse (sanitize_json_for_parse (\<lambda>t. parse t \<noteq> None) text))"

definition action_of :: "string \<Rightarrow> dedup_action" where
  "action_of a = (if a = ''update'' then ActUpdate else if a = ''merge'' then ActMerge else if a = ''skip'' then ActSkip else ActStore)"

definition decision_of :: "json \<Rightarrow> dedup_decision option" where
  "decision_of d =
     (let i = text_or [] (field d ''record_id'')
      in if \<not> is_object d \<or> i = [] then None
         else Some \<lparr>dd_record = i, dd_action = action_of (text_or ''store'' (field d ''action'')),
           dd_targets = (case as_texts (field d ''target_ids'') of Some ts \<Rightarrow> ts | None \<Rightarrow> []),
           dd_content = as_text (field d ''merged_content''),
           dd_type = (case as_text (field d ''merged_type'') of Some t \<Rightarrow> if t \<in> set valid_types then Some t else None | None \<Rightarrow> None),
           dd_priority = as_int (field d ''merged_priority''), dd_stamps = as_texts (field d ''merged_timestamps'')\<rparr>)"

definition parse_batch_result :: "(string \<Rightarrow> json option) \<Rightarrow> string \<Rightarrow> string list \<Rightarrow> dedup_decision list" where
  "parse_batch_result parse raw ids =
     (case answer_array parse raw of
        None \<Rightarrow> map store_decision ids
      | Some items \<Rightarrow>
          (let ds = List.map_filter decision_of items
           in ds @ map store_decision (filter (\<lambda>i. i \<notin> dd_record ` set ds) ids)))"

text \<open>The extraction; \<open>repair\<close> is the rewriting of almost valid JSON, tried once.\<close>

record scene_segment =
  ss_name :: string
  ss_message_ids :: "string list"
  ss_memories :: "extracted_memory list"

definition memory_of_item :: "(json \<Rightarrow> string) \<Rightarrow> string \<Rightarrow> json \<Rightarrow> extracted_memory option" where
  "memory_of_item show_json scene m =
     (case as_text (field m ''content'') of
        None \<Rightarrow> None
      | Some content \<Rightarrow>
          if content = [] then None
          else Some \<lparr>em_id = [], em_content = content, em_type = text_or ''episodic'' (field m ''type''),
            em_priority = (case as_int (field m ''priority'') of Some p \<Rightarrow> p | None \<Rightarrow> 50),
            em_sources = (case as_texts (field m ''source_message_ids'') of Some ids \<Rightarrow> ids | None \<Rightarrow> []),
            em_metadata = show_json (case field m ''metadata'' of Some j \<Rightarrow> if is_object j then j else JObj [] | None \<Rightarrow> JObj []),
            em_scene = scene\<rparr>)"

definition unknown_scene :: string where
  "unknown_scene = map char_of [230, 156, 170, 231, 159, 165, 230, 131, 133, 229, 162, 131::nat]"

definition scene_of_item :: "json \<Rightarrow> scene_segment option" where
  "scene_of_item s =
     (if \<not> is_object s then None
      else
        (let name = (case as_text (field s ''scene_name'') of Some n \<Rightarrow> n | None \<Rightarrow> unknown_scene)
         in Some \<lparr>ss_name = name, ss_message_ids = (case as_texts (field s ''message_ids'') of Some ids \<Rightarrow> ids | None \<Rightarrow> []),
              ss_memories = (case field s ''memories'' of Some (JArr ms) \<Rightarrow> List.map_filter (memory_of_item json_text name) ms | _ \<Rightarrow> [])\<rparr>))"

definition parse_extraction_result :: "(string \<Rightarrow> json option) \<Rightarrow> (string \<Rightarrow> string) \<Rightarrow> string \<Rightarrow> scene_segment list" where
  "parse_extraction_result parse repair raw =
     (case array_text (strip_fence raw) of
        None \<Rightarrow> []
      | Some text \<Rightarrow>
          (let text = sanitize_json_for_parse (\<lambda>t. parse t \<noteq> None) text;
               items = (if parse text = None then parsed_array parse (repair text) else parsed_array parse text)
           in List.map_filter scene_of_item (case items of Some js \<Rightarrow> js | None \<Rightarrow> [])))"

section \<open>Writing\<close>

text \<open>Whose conversation it is.\<close>

record l1_scope =
  sc_session_key :: string
  sc_session_id :: "string option"
  sc_task :: "string option"
  sc_team :: "string option"
  sc_user :: "string option"
  sc_agent :: "string option"

text \<open>Third parties and chance.\<close>

record 'v l1_env =
  le_now :: ms
  le_new_id :: "nat \<Rightarrow> string"
  le_embed :: "(string \<Rightarrow> string + 'v list) option"
  le_embed_batch :: "string list \<Rightarrow> string + 'v list list"
  le_knn :: "('v, rat) neighbours"
  le_fts :: "(l1_row, rat option) matches"
  le_fts_query :: "string \<Rightarrow> string option"
  le_read_fails :: bool
  le_delete_run :: "string \<Rightarrow> db_run"
  le_write_run :: "string \<Rightarrow> db_run"
  le_log_fails :: "string \<Rightarrow> bool"
  le_parse :: "string \<Rightarrow> json option"
  le_repair :: "string \<Rightarrow> string"

text \<open>The store, if there is one, and the JSONL log.\<close>

record 'v l1_state =
  xs_store :: "'v memory_store option"
  xs_log :: "memory_record list"

definition by_record_ids :: "string list \<Rightarrow> l1_query" where
  "by_record_ids ids = (by_record_id [])\<lparr>lq_record_ids := Some ids\<rparr>"

definition replaces :: "dedup_decision \<Rightarrow> bool" where
  "replaces d \<longleftrightarrow> dd_action d = ActUpdate \<or> dd_action d = ActMerge"

definition next_version :: "'v l1_env \<Rightarrow> dedup_decision \<Rightarrow> 'v l1_state \<Rightarrow> int" where
  "next_version e d st =
     (case xs_store st of
        None \<Rightarrow> 0
      | Some s \<Rightarrow>
          if replaces d \<and> dd_targets d \<noteq> []
          then foldl max 0 (map l1_version (query_l1_records (le_read_fails e) (by_record_ids (dd_targets d)) s)) + 1
          else 0)"

definition given :: "string option \<Rightarrow> bool" where
  "given x \<longleftrightarrow> opt_text x \<noteq> []"

definition delete_filter :: "l1_scope \<Rightarrow> isolation_filter option" where
  "delete_filter c =
     (if given (sc_team c) \<or> given (sc_user c) \<or> given (sc_agent c) \<or> given (sc_session_id c)
      then Some \<lparr>if_team = sc_team c, if_user = sc_user c, if_agent = sc_agent c, if_session = nonempty (opt_text (sc_session_id c)),
        if_task = None, if_session_key = Some (sc_session_key c)\<rparr>
      else None)"

definition or_value :: "'a option \<Rightarrow> 'a \<Rightarrow> 'a" where
  "or_value x y = (case x of Some v \<Rightarrow> v | None \<Rightarrow> y)"

definition final_record :: "'v l1_env \<Rightarrow> l1_scope \<Rightarrow> extracted_memory \<Rightarrow> dedup_decision \<Rightarrow> int \<Rightarrow> memory_record" where
  "final_record e c m d version =
     (let now = le_now e
      in \<lparr>mr_id = or_else (dd_record d) (le_new_id e 0),
          mr_content = (if replaces d then or_value (dd_content d) (em_content m) else em_content m),
          mr_type = (if replaces d then or_value (dd_type d) (em_type m) else em_type m),
          mr_priority = (if replaces d then or_value (dd_priority d) (em_priority m) else em_priority m),
          mr_scene = em_scene m, mr_sources = em_sources m, mr_metadata = em_metadata m,
          mr_stamps = (if replaces d then or_value (dd_stamps d) [to_iso_string now] else [to_iso_string now]),
          mr_created = now, mr_updated = now, mr_version = Some version, mr_session_key = sc_session_key c,
          mr_session_id = or_else (opt_text (sc_session_id c)) default_isolation_id, mr_task = sc_task c, mr_team = sc_team c,
          mr_user = Some (or_else (opt_text (sc_user c)) default_isolation_id),
          mr_agent = Some (or_else (opt_text (sc_agent c)) default_isolation_id)\<rparr>)"

definition on_store :: "('v memory_store \<Rightarrow> 'v memory_store) \<Rightarrow> 'v l1_state \<Rightarrow> 'v l1_state" where
  "on_store f st = st\<lparr>xs_store := map_option f (xs_store st)\<rparr>"

definition write_memory :: "'v l1_env \<Rightarrow> l1_scope \<Rightarrow> extracted_memory \<Rightarrow> dedup_decision \<Rightarrow> 'v::zero l1_state \<Rightarrow> memory_record option \<times> 'v l1_state" where
  "write_memory e c m d st =
     (if dd_action d = ActSkip then (None, st)
      else
        (let r = final_record e c m d (next_version e d st);
             emb = (case le_embed e of None \<Rightarrow> None | Some f \<Rightarrow> (case f (mr_content r) of Inl err \<Rightarrow> None | Inr v \<Rightarrow> Some v));
             st = (if replaces d \<and> dd_targets d \<noteq> []
               then on_store (\<lambda>s. snd (delete_l1_batch (le_delete_run e (mr_id r)) (dd_targets d) (delete_filter c) s)) st else st);
             st = (if le_log_fails e (mr_id r) then st else st\<lparr>xs_log := xs_log st @ [r]\<rparr>)
         in (Some r, on_store (\<lambda>s. snd (upsert_l1 (le_write_run e (mr_id r)) r emb s)) st)))"

definition write_step ::
  "'v l1_env \<Rightarrow> l1_scope \<Rightarrow> (string \<Rightarrow> dedup_decision) \<Rightarrow> extracted_memory \<Rightarrow> memory_record list \<times> 'v::zero l1_state \<Rightarrow> memory_record list \<times> 'v l1_state" where
  "write_step e c decide m rs =
     (case rs of (rs, st) \<Rightarrow>
        (case write_memory e c m (decide (em_id m)) st of
           (None, st) \<Rightarrow> (rs, st)
         | (Some r, st) \<Rightarrow> (rs @ [r], st)))"

text \<open>The last decision about a memory counts, and none means to store it.\<close>

definition apply_decisions ::
  "'v l1_env \<Rightarrow> l1_scope \<Rightarrow> extracted_memory list \<Rightarrow> dedup_decision list \<Rightarrow> 'v::zero l1_state \<Rightarrow> memory_record list \<times> 'v l1_state" where
  "apply_decisions e c ms ds st =
     fold (write_step e c (\<lambda>i. case List.find (\<lambda>d. dd_record d = i) (rev ds) of Some d \<Rightarrow> d | None \<Rightarrow> store_decision i)) ms ([], st)"

definition store_all_directly :: "'v l1_env \<Rightarrow> l1_scope \<Rightarrow> extracted_memory list \<Rightarrow> 'v::zero l1_state \<Rightarrow> memory_record list \<times> 'v l1_state" where
  "store_all_directly e c ms st = fold (write_step e c store_decision) ms ([], st)"

section \<open>Deduplication\<close>

text \<open>The old memories that look like a new one; those of the batch itself do not count.\<close>

definition candidates_by_vector ::
  "'v l1_env \<Rightarrow> isolation_filter option \<Rightarrow> nat \<Rightarrow> 'v memory_store \<Rightarrow> extracted_memory list \<Rightarrow> string + (extracted_memory \<times> l1_row list) list" where
  "candidates_by_vector e flt k s ms =
     (case le_embed_batch e (map em_content ms) of
        Inl err \<Rightarrow> Inl err
      | Inr vs \<Rightarrow> Inr (map (\<lambda>(i, m). (m, take k (filter (\<lambda>r. l1_id r \<notin> em_id ` set ms)
            (if i < length vs then map fst (search_l1_vector (le_knn e) (le_read_fails e) (vs ! i) (k + length ms) flt s) else []))))
          (List.enumerate 0 ms)))"

definition candidates_by_fts ::
  "'v l1_env \<Rightarrow> isolation_filter option \<Rightarrow> 'v memory_store \<Rightarrow> extracted_memory list \<Rightarrow> (extracted_memory \<times> l1_row list) list" where
  "candidates_by_fts e flt s ms =
     map (\<lambda>m. (m, case le_fts_query e (em_content m) of
         None \<Rightarrow> []
       | Some q \<Rightarrow> take 5 (filter (\<lambda>r. l1_id r \<notin> em_id ` set ms) (map fst (search_l1_fts (le_fts e) (le_read_fails e) q 10 flt s))))) ms"

definition every_memory :: l1_filter where
  "every_memory = \<lparr>mf_type = None, mf_session_id = None, mf_team = None, mf_user = None, mf_agent = None, mf_task = None, mf_start = None,
     mf_end = None\<rparr>"

text \<open>\<^verbatim>\<open>batchDedup\<close>; the model's answer to the candidates is an argument. An error is what the call throws.\<close>

definition batch_dedup ::
  "'v l1_env \<Rightarrow> ((extracted_memory \<times> l1_row list) list \<Rightarrow> string + string) \<Rightarrow> isolation_filter option \<Rightarrow> nat \<Rightarrow> 'v memory_store option
   \<Rightarrow> extracted_memory list \<Rightarrow> string + dedup_decision list" where
  "batch_dedup e judge flt k store ms =
     (let ids = map em_id ms; all = map store_decision ids;
          decide = (\<lambda>matches. if list_all (\<lambda>(m, cs). cs = []) matches then all
            else (case judge matches of Inl err \<Rightarrow> all | Inr raw \<Rightarrow> parse_batch_result (le_parse e) raw ids))
      in if ms = [] then Inr []
         else (case store of
           None \<Rightarrow> Inr all
         | Some s \<Rightarrow>
             (let has_data = 0 < count_l1 (le_read_fails e) every_memory s; has_fts = st_fts_available s
              in if \<not> has_data \<and> \<not> has_fts then Inr all
                 else if has_data \<and> le_embed e \<noteq> None
                   then (case candidates_by_vector e flt k s ms of Inl err \<Rightarrow> Inl err | Inr matches \<Rightarrow> Inr (decide matches))
                 else if has_fts then Inr (decide (candidates_by_fts e flt s ms))
                 else Inr all)))"

section \<open>Extraction\<close>

record l1_options =
  lo_max_new :: nat
  lo_max_background :: nat
  lo_dedup :: bool
  lo_max_memories :: nat
  lo_top_k :: nat
  lo_previous_scene :: "string option"

record l1_extraction =
  le_success :: bool
  le_extracted :: nat
  le_records :: "memory_record list"
  le_scenes :: "string list"

definition no_extraction :: "bool \<Rightarrow> l1_extraction" where
  "no_extraction ok = \<lparr>le_success = ok, le_extracted = 0, le_records = [], le_scenes = []\<rparr>"

text \<open>\<^verbatim>\<open>slice(-n)\<close> keeps the last \<open>n\<close>, all of them for 0.\<close>

definition slice_last :: "nat \<Rightarrow> 'a list \<Rightarrow> 'a list" where
  "slice_last n xs = (if n = 0 then xs else drop (length xs - n) xs)"

definition split_messages :: "l1_options \<Rightarrow> l0_message list \<Rightarrow> l0_message list \<times> l0_message list" where
  "split_messages opts ms =
     (let new = slice_last (lo_max_new opts) ms; cut = length ms - length new
      in (new, if 0 < cut then drop (cut - lo_max_background opts) (take cut ms) else []))"

definition typed_memories :: "scene_segment list \<Rightarrow> extracted_memory list" where
  "typed_memories scenes =
     concat (map (\<lambda>sc. List.map_filter (\<lambda>m. map_option (\<lambda>t. m\<lparr>em_type := t\<rparr>) (normalize_type (em_type m))) (ss_memories sc)) scenes)"

definition recall_filter :: "l1_scope \<Rightarrow> isolation_filter option" where
  "recall_filter c =
     (if given (sc_team c) \<or> given (sc_user c) \<or> given (sc_agent c) \<or> given (sc_session_id c) \<or> given (sc_task c)
      then Some \<lparr>if_team = sc_team c, if_user = sc_user c, if_agent = sc_agent c, if_session = sc_session_id c, if_task = sc_task c,
        if_session_key = None\<rparr>
      else None)"

text \<open>A comparison that throws stores every memory.\<close>

definition store_extracted ::
  "'v l1_env \<Rightarrow> ((extracted_memory \<times> l1_row list) list \<Rightarrow> string + string) \<Rightarrow> l1_options \<Rightarrow> l1_scope \<Rightarrow> extracted_memory list
   \<Rightarrow> 'v::zero l1_state \<Rightarrow> memory_record list \<times> 'v l1_state" where
  "store_extracted e judge opts c ms st =
     (if \<not> lo_dedup opts then store_all_directly e c ms st
      else (case batch_dedup e judge (recall_filter c) (lo_top_k opts) (xs_store st) ms of
          Inl err \<Rightarrow> store_all_directly e c ms st
        | Inr ds \<Rightarrow> apply_decisions e c ms ds st))"

definition extract_l1_memories ::
  "'v l1_env \<Rightarrow> (l0_message list \<times> l0_message list \<Rightarrow> string option \<Rightarrow> string + string)
   \<Rightarrow> ((extracted_memory \<times> l1_row list) list \<Rightarrow> string + string) \<Rightarrow> l1_options \<Rightarrow> l1_scope \<Rightarrow> l0_message list
   \<Rightarrow> 'v::zero l1_state \<Rightarrow> l1_extraction \<times> 'v l1_state" where
  "extract_l1_memories e ask judge opts c messages st =
     (let qualified = filter (\<lambda>m. should_extract_l1 (lm_content m)) messages
      in if qualified = [] then (no_extraction True, st)
         else (case ask (split_messages opts qualified) (lo_previous_scene opts) of
           Inl err \<Rightarrow> (no_extraction False, st)
         | Inr raw \<Rightarrow>
             (let scenes = parse_extraction_result (le_parse e) (le_repair e) raw; names = map ss_name scenes;
                  found = take (lo_max_memories opts) (typed_memories scenes);
                  ms = map (\<lambda>(i, m). m\<lparr>em_id := le_new_id e i\<rparr>) (List.enumerate 0 found)
              in if typed_memories scenes = [] then (no_extraction True\<lparr>le_scenes := names\<rparr>, st)
                 else (case store_extracted e judge opts c ms st of
                   (rs, st) \<Rightarrow> (\<lparr>le_success = True, le_extracted = length ms, le_records = rs, le_scenes = names\<rparr>, st)))))"

definition last_scene_name :: "l1_extraction \<Rightarrow> string option" where
  "last_scene_name x = (if le_scenes x = [] then None else Some (last (le_scenes x)))"

section \<open>Rows back to records\<close>

definition memory_of_row :: "(string \<Rightarrow> string) \<Rightarrow> l1_row \<Rightarrow> memory_record" where
  "memory_of_row metadata r =
     (let a = l1_stamp r; b = l1_stamp_start r; z = l1_stamp_end r
      in \<lparr>mr_id = l1_id r, mr_content = l1_content r, mr_type = l1_type r, mr_priority = l1_priority r, mr_scene = l1_scene r,
          mr_sources = [], mr_metadata = metadata (l1_metadata r),
          mr_stamps = (if a = [] then [] else [a]) @ (if b \<noteq> [] \<and> b \<noteq> a then [b] else []) @ (if z \<noteq> [] \<and> z \<noteq> a \<and> z \<noteq> b then [z] else []),
          mr_created = l1_created r, mr_updated = l1_updated r, mr_version = Some (l1_version r), mr_session_key = ow_session_key r,
          mr_session_id = ow_session_id r, mr_task = Some (ow_task r), mr_team = Some (ow_team r), mr_user = Some (ow_user r),
          mr_agent = Some (ow_agent r)\<rparr>)"

definition query_memory_records :: "(string \<Rightarrow> string) \<Rightarrow> bool \<Rightarrow> l1_query \<Rightarrow> 'v memory_store option \<Rightarrow> memory_record list" where
  "query_memory_records metadata fails q store =
     (case store of None \<Rightarrow> [] | Some s \<Rightarrow> map (memory_of_row metadata) (query_l1_records fails q s))"

end
