(* ===== verification/L1_Runner.thy ===== *)
theory L1_Runner
  imports L1_Records Checkpoint
begin

text \<open>
  The runner of an extraction round, \<^verbatim>\<open>createL1Runner\<close> of \<^verbatim>\<open>MemoryCore/src/utils/pipeline-factory.ts\<close>: the messages past the
  cursor of a session, the slice of them that one round processes, their groups, the extraction of each group (\<open>L1_Records\<close>) and
  the new cursor in the checkpoint. The fallback to the JSONL files reads them as \<^verbatim>\<open>core/conversation/l0-recorder.ts\<close> does.
  A round whose checkpoint call throws has no result and is left out; prompts and metrics are left out.
\<close>

section \<open>The JSONL files\<close>

text \<open>A line of the daily files, parsed (None: malformed); dates are those that \<^verbatim>\<open>toISOString\<close> writes.\<close>

record conversation_record =
  cv_session_id :: string
  cv_recorded :: string
  cv_message :: l0_message

definition text_field :: "json \<Rightarrow> string \<Rightarrow> string \<Rightarrow> string" where
  "text_field j k d = (case as_text (field j k) of Some t \<Rightarrow> or_else t d | None \<Rightarrow> d)"

definition conversation_of_line :: "(nat \<Rightarrow> string) \<Rightarrow> string \<Rightarrow> ms \<Rightarrow> nat \<times> json option \<Rightarrow> conversation_record option" where
  "conversation_of_line new_id key now line =
     (case line of
        (n, None) \<Rightarrow> None
      | (n, Some j) \<Rightarrow>
          if field j ''sessionKey'' \<noteq> Some (JStr key) then None
          else (case (as_text (field j ''role''), as_text (field j ''content'')) of
              (Some role, Some content) \<Rightarrow>
                Some \<lparr>cv_session_id = text_field j ''sessionId'' default_isolation_id,
                  cv_recorded = text_field j ''recordedAt'' (to_iso_string now),
                  cv_message = \<lparr>lm_id = text_field j ''id'' (new_id n), lm_role = role, lm_content = content,
                    lm_time = (case as_int (field j ''timestamp'') of Some t \<Rightarrow> t | None \<Rightarrow> now), lm_recorded = 0\<rparr>\<rparr>
            | _ \<Rightarrow> None))"

text \<open>Dates that do not parse sort last.\<close>

definition read_conversation_records :: "(nat \<Rightarrow> string) \<Rightarrow> string \<Rightarrow> ms \<Rightarrow> json option list \<Rightarrow> conversation_record list" where
  "read_conversation_records new_id key now file_lines =
     (let rs = List.map_filter (conversation_of_line new_id key now) (List.enumerate 0 file_lines)
      in sort_key (\<lambda>r. the (time_of_iso (cv_recorded r))) (filter (\<lambda>r. time_of_iso (cv_recorded r) \<noteq> None) rs)
         @ filter (\<lambda>r. time_of_iso (cv_recorded r) = None) rs)"

definition recorded_message :: "conversation_record \<Rightarrow> string \<times> l0_message" where
  "recorded_message r =
     (cv_session_id r, (cv_message r)\<lparr>lm_recorded := (case time_of_iso (cv_recorded r) of Some t \<Rightarrow> t | None \<Rightarrow> 0)\<rparr>)"

definition read_conversation_grouped :: "(nat \<Rightarrow> string) \<Rightarrow> string \<Rightarrow> ms \<Rightarrow> ms option \<Rightarrow> nat \<Rightarrow> json option list \<Rightarrow> (string \<times> l0_message list) list" where
  "read_conversation_grouped new_id key now after limit file_lines =
     (let ms = filter (\<lambda>(sid, m). case after of None \<Rightarrow> True | Some t \<Rightarrow> t = 0 \<or> t < lm_recorded m)
            (map recorded_message (read_conversation_records new_id key now file_lines));
          ms = sort_key (lm_time \<circ> snd) ms;
          newest = (if 0 < limit \<and> limit < length ms then drop (length ms - limit) ms else ms)
      in sort_key (\<lambda>(sid, ms). lm_time (hd ms)) (map (\<lambda>(sid, ms). (sid, map snd ms)) (group_rows fst newest)))"

section \<open>One round\<close>

definition l1_batch_process :: nat where
  "l1_batch_process = 10"

definition l1_batch_query :: nat where
  "l1_batch_query = l1_batch_process * 2"

text \<open>A message with the owner of its group.\<close>

record flat_message =
  fm_message :: l0_message
  fm_session :: string
  fm_team :: "string option"
  fm_task :: "string option"
  fm_user :: string
  fm_agent :: string

definition flat_group :: "l0_group \<Rightarrow> flat_message list" where
  "flat_group g = map (\<lambda>m. \<lparr>fm_message = m, fm_session = lg_session g, fm_team = lg_team g, fm_task = lg_task g, fm_user = lg_user g,
     fm_agent = lg_agent g\<rparr>) (lg_messages g)"

definition flat_jsonl :: "string \<times> l0_message list \<Rightarrow> flat_message list" where
  "flat_jsonl g = map (\<lambda>m. \<lparr>fm_message = m, fm_session = fst g, fm_team = None, fm_task = None, fm_user = [], fm_agent = []\<rparr>) (snd g)"

abbreviation fm_recorded :: "flat_message \<Rightarrow> ms" where
  "fm_recorded m \<equiv> lm_recorded (fm_message m)"

text \<open>\<^verbatim>\<open>a.recordedAtMs - b.recordedAtMs || a.timestamp - b.timestamp\<close>, as two stable sorts.\<close>

definition chronological :: "flat_message list \<Rightarrow> flat_message list" where
  "chronological xs = sort_key fm_recorded (sort_key (\<lambda>m. lm_time (fm_message m)) xs)"

text \<open>What a round finds past the cursor; the files are read when there is no usable store.\<close>

definition queried_messages ::
  "bool \<Rightarrow> (nat \<Rightarrow> string) \<Rightarrow> ms \<Rightarrow> json option list \<Rightarrow> string \<Rightarrow> ms \<Rightarrow> 'v memory_store option \<Rightarrow> flat_message list" where
  "queried_messages fails new_id now file_lines key cursor store =
     (case store of
        Some s \<Rightarrow>
          if st_degraded s
          then chronological (concat (map flat_jsonl (read_conversation_grouped new_id key now (Some cursor) l1_batch_query file_lines)))
          else chronological (concat (map flat_group (query_l0_grouped fails key (if 0 < cursor then Some cursor else None) l1_batch_query s)))
      | None \<Rightarrow> chronological (concat (map flat_jsonl (read_conversation_grouped new_id key now (Some cursor) l1_batch_query file_lines))))"

text \<open>The slice of a round: never a part of the messages of one millisecond.\<close>

definition aligned_slice :: "nat \<Rightarrow> flat_message list \<Rightarrow> flat_message list" where
  "aligned_slice n xs =
     (if length xs \<le> n then xs
      else take n xs @ takeWhile (\<lambda>m. fm_recorded m = fm_recorded (xs ! (n - 1))) (drop n xs))"

definition regroup_key :: "flat_message \<Rightarrow> string list" where
  "regroup_key m = [fm_user m, fm_agent m, fm_session m]"

definition regroup :: "flat_message list \<Rightarrow> flat_message list list" where
  "regroup ms = sort_key (\<lambda>g. lm_time (fm_message (hd g))) (map snd (group_rows regroup_key ms))"

text \<open>The scope of a group is that of its first message.\<close>

definition group_scope :: "string \<Rightarrow> flat_message list \<Rightarrow> l1_scope" where
  "group_scope key g =
     (let m = hd g
      in \<lparr>sc_session_key = key, sc_session_id = Some (fm_session m), sc_task = fm_task m, sc_team = fm_team m, sc_user = Some (fm_user m),
          sc_agent = Some (fm_agent m)\<rparr>)"

definition group_profile :: "flat_message list \<Rightarrow> string" where
  "group_profile g =
     (let m = hd g
      in build_profile_l2_key (Some \<lparr>pf_team = fm_team m, pf_user = Some (fm_user m), pf_agent = Some (fm_agent m), pf_session = Some (fm_session m)\<rparr>))"

record l1_config =
  lc_dedup :: bool
  lc_max_memories :: nat
  lc_top_k :: nat

definition round_options :: "l1_config \<Rightarrow> string option \<Rightarrow> l1_options" where
  "round_options cfg scene = \<lparr>lo_max_new = 10, lo_max_background = 5, lo_dedup = lc_dedup cfg, lo_max_memories = lc_max_memories cfg,
     lo_top_k = lc_top_k cfg, lo_previous_scene = scene\<rparr>"

text \<open>Progress through the groups: stored memories, the last scene, the profile scopes (a set) and the store.\<close>

record 'v l1_progress =
  lp_stored :: nat
  lp_scene :: "string option"
  lp_scopes :: "string list"
  lp_state :: "'v l1_state"

text \<open>The model and the other third parties may answer differently in each group.\<close>

record 'v l1_parties =
  pt_env :: "nat \<Rightarrow> 'v l1_env"
  pt_ask :: "nat \<Rightarrow> l0_message list \<times> l0_message list \<Rightarrow> string option \<Rightarrow> string + string"
  pt_judge :: "nat \<Rightarrow> (extracted_memory \<times> l1_row list) list \<Rightarrow> string + string"

definition add_scope :: "string \<Rightarrow> string list \<Rightarrow> string list" where
  "add_scope x xs = (if x \<in> set xs then xs else xs @ [x])"

definition extract_group ::
  "'v l1_parties \<Rightarrow> l1_config \<Rightarrow> string \<Rightarrow> string \<Rightarrow> nat \<times> flat_message list \<Rightarrow> 'v::zero l1_progress \<Rightarrow> 'v l1_progress" where
  "extract_group p cfg key previous ig w =
     (case ig of (i, g) \<Rightarrow>
        (let scene = (case lp_scene w of Some s \<Rightarrow> Some s | None \<Rightarrow> nonempty previous)
         in case extract_l1_memories (pt_env p i) (pt_ask p i) (pt_judge p i) (round_options cfg scene) (group_scope key g)
                (map fm_message g) (lp_state w) of
           (x, st) \<Rightarrow>
             (let n = length (le_records x); named = opt_text (last_scene_name x)
              in \<lparr>lp_stored = lp_stored w + n,
                  lp_scene = (if named = [] then lp_scene w else Some named),
                  lp_scopes = (if 0 < n then add_scope (group_profile g) (lp_scopes w) else lp_scopes w),
                  lp_state = st\<rparr>)))"

record l1_round =
  lr_processed :: nat
  lr_stored :: nat
  lr_has_more :: bool
  lr_full_backlog :: bool
  lr_scopes :: "string list"

definition idle_round :: l1_round where
  "idle_round = \<lparr>lr_processed = 0, lr_stored = 0, lr_has_more = False, lr_full_backlog = False, lr_scopes = []\<rparr>"

definition max_recorded :: "flat_message list \<Rightarrow> ms" where
  "max_recorded ms = foldl (\<lambda>b m. if b < fm_recorded m then fm_recorded m else b) 0 ms"

definition run_l1_round ::
  "bool \<Rightarrow> 'v l1_parties \<Rightarrow> l1_config \<Rightarrow> bool \<Rightarrow> (nat \<Rightarrow> string) \<Rightarrow> ms \<Rightarrow> json option list \<Rightarrow> string \<Rightarrow> checkpoint \<times> 'v::zero l1_state
   \<Rightarrow> l1_round \<times> checkpoint \<times> 'v l1_state" where
  "run_l1_round has_model p cfg fails new_id now file_lines key w =
     (case w of (c, st) \<Rightarrow>
        (let runner = fst (get_runner_state key c);
             flat = queried_messages fails new_id now file_lines key (rs_last_l1_cursor runner) (xs_store st);
             processed = aligned_slice l1_batch_process flat;
             more = length processed < length flat; full = length flat = l1_batch_query \<and> more
         in if \<not> has_model \<or> flat = [] then (idle_round, c, st)
            else
              (let done = fold (extract_group p cfg key (rs_last_scene_name runner)) (List.enumerate 0 (regroup processed))
                     \<lparr>lp_stored = 0, lp_scene = None, lp_scopes = [], lp_state = st\<rparr>
               in (\<lparr>lr_processed = length processed, lr_stored = lp_stored done, lr_has_more = more \<and> \<not> full, lr_full_backlog = full,
                    lr_scopes = lp_scopes done\<rparr>,
                   mark_l1_extraction_complete key (int (lp_stored done))
                     (if max_recorded processed = 0 then None else Some (max_recorded processed)) (lp_scene done) c,
                   lp_state done))))"

end
