(* ===== verification/L1_Properties.thy ===== *)
theory L1_Properties
  imports L1_Records
begin

text \<open>
  What holds of the extraction of memories (\<open>L1_Records\<close>) whatever the language model answers: every stored memory has
  one of the seven types, every memory gets a decision, nothing outside the scope of the conversation changes; and what a failing
  write loses.
\<close>

section \<open>Types\<close>

definition well_typed :: "memory_record \<Rightarrow> bool" where
  "well_typed r \<longleftrightarrow> mr_type r \<in> set valid_types"

definition decision_typed :: "dedup_decision \<Rightarrow> bool" where
  "decision_typed d \<longleftrightarrow> (case dd_type d of None \<Rightarrow> True | Some t \<Rightarrow> t \<in> set valid_types)"

lemma map_filter_all: "(\<And>x y. f x = Some y \<Longrightarrow> P y) \<Longrightarrow> list_all P (List.map_filter f xs)"
  by (induction xs) (auto simp: List.map_filter_simps split: option.split)

lemma normalize_type_valid: "normalize_type raw = Some t \<Longrightarrow> t \<in> set valid_types"
  by (auto simp: normalize_type_def Let_def valid_types_def split: if_splits)

lemma store_decision_typed [simp]: "decision_typed (store_decision i)"
  by (simp add: decision_typed_def store_decision_def)

lemma decision_of_typed: "decision_of j = Some d \<Longrightarrow> decision_typed d"
  by (auto simp: decision_of_def Let_def decision_typed_def split: if_splits option.splits)

lemma parse_batch_result_typed: "list_all decision_typed (parse_batch_result parse raw ids)"
proof -
  have "list_all decision_typed (List.map_filter decision_of items)" for items
    by (rule map_filter_all) (rule decision_of_typed)
  then show ?thesis by (auto simp: parse_batch_result_def Let_def list_all_iff split: option.split)
qed

lemma batch_dedup_typed: "batch_dedup e judge flt k store ms = Inr ds \<Longrightarrow> list_all decision_typed ds"
  using parse_batch_result_typed [of "le_parse e"]
  by (auto simp: batch_dedup_def Let_def list_all_iff split: if_splits option.splits sum.splits)

lemma typed_memories_valid: "list_all (\<lambda>m. em_type m \<in> set valid_types) (typed_memories scenes)"
proof -
  have "list_all (\<lambda>m. em_type m \<in> set valid_types) (List.map_filter (\<lambda>m. map_option (\<lambda>t. m\<lparr>em_type := t\<rparr>) (normalize_type (em_type m))) ms)" for ms
    by (rule map_filter_all) (auto dest: normalize_type_valid)
  then show ?thesis by (auto simp: typed_memories_def list_all_iff)
qed

lemma final_record_typed: "decision_typed d \<Longrightarrow> em_type m \<in> set valid_types \<Longrightarrow> well_typed (final_record e c m d version)"
  by (auto simp: well_typed_def final_record_def Let_def or_value_def decision_typed_def split: option.splits)

text \<open>What a run of writes does with the records and the log.\<close>

definition writes_ok :: "'v l1_env \<Rightarrow> memory_record list \<times> 'v l1_state \<Rightarrow> memory_record list \<times> 'v l1_state \<Rightarrow> bool" where
  "writes_ok e before after \<longleftrightarrow> (\<exists>new. fst after = fst before @ new \<and> list_all well_typed new
     \<and> xs_log (snd after) = xs_log (snd before) @ filter (\<lambda>r. \<not> le_log_fails e (mr_id r)) new)"

lemma write_memory_log:
  assumes "write_memory e c m d st = (res, st')" "decision_typed d" "em_type m \<in> set valid_types"
  shows "case res of None \<Rightarrow> xs_log st' = xs_log st
    | Some r \<Rightarrow> well_typed r \<and> xs_log st' = xs_log st @ filter (\<lambda>r. \<not> le_log_fails e (mr_id r)) [r]"
  using assms(1) final_record_typed [OF assms(2,3)]
  by (auto simp: write_memory_def Let_def on_store_def split: if_splits)

lemma write_step_ok:
  assumes "\<And>i. decision_typed (decide i)" "em_type m \<in> set valid_types"
  shows "writes_ok e rs (write_step e c decide m rs)"
proof -
  obtain old st where rs: "rs = (old, st)" by (cases rs)
  obtain res st' where w: "write_memory e c m (decide (em_id m)) st = (res, st')" by (cases "write_memory e c m (decide (em_id m)) st")
  have "writes_ok e (old, st) (case res of None \<Rightarrow> (old, st') | Some r \<Rightarrow> (old @ [r], st'))"
    using write_memory_log [OF w assms] unfolding writes_ok_def by (cases res) (auto intro: exI [of _ "[]"] split: if_splits)
  then show ?thesis by (simp add: write_step_def rs w)
qed

lemma writes_ok_trans: "writes_ok e a b \<Longrightarrow> writes_ok e b c \<Longrightarrow> writes_ok e a c"
  unfolding writes_ok_def by fastforce

lemma fold_writes_ok:
  "(\<And>i. decision_typed (decide i)) \<Longrightarrow> list_all (\<lambda>m. em_type m \<in> set valid_types) ms \<Longrightarrow> writes_ok e rs (fold (write_step e c decide) ms rs)"
proof (induction ms arbitrary: rs)
  case (Cons m ms)
  then show ?case using writes_ok_trans [OF write_step_ok [of decide m e rs c]] by simp
qed (simp add: writes_ok_def)

lemma apply_decisions_ok:
  "list_all decision_typed ds \<Longrightarrow> list_all (\<lambda>m. em_type m \<in> set valid_types) ms \<Longrightarrow> writes_ok e ([], st) (apply_decisions e c ms ds st)"
  unfolding apply_decisions_def
  by (rule fold_writes_ok) (auto simp: list_all_iff find_Some_iff split: option.split, metis nth_mem set_rev length_rev)

lemma store_all_ok: "list_all (\<lambda>m. em_type m \<in> set valid_types) ms \<Longrightarrow> writes_ok e ([], st) (store_all_directly e c ms st)"
  unfolding store_all_directly_def by (rule fold_writes_ok) simp

lemma store_extracted_ok:
  "list_all (\<lambda>m. em_type m \<in> set valid_types) ms \<Longrightarrow> writes_ok e ([], st) (store_extracted e judge opts c ms st)"
  by (auto simp: store_extracted_def store_all_ok intro: apply_decisions_ok batch_dedup_typed split: sum.split)

text \<open>
  C8: memories are well typed. Whatever the language model answers to the extraction and to the comparison with old memories,
  every memory that an extraction stores has one of the seven types, and the log grows by exactly the stored memories whose line could be appended.
\<close>

theorem stored_memories_well_typed:
  "list_all (\<lambda>r. mr_type r \<in> set valid_types) (le_records (fst (extract_l1_memories e ask judge opts c messages st)))
   \<and> xs_log (snd (extract_l1_memories e ask judge opts c messages st))
      = xs_log st @ filter (\<lambda>r. \<not> le_log_fails e (mr_id r)) (le_records (fst (extract_l1_memories e ask judge opts c messages st)))"
proof -
  have "\<exists>new. le_records (fst (extract_l1_memories e ask judge opts c messages st)) = new \<and> list_all well_typed new
      \<and> xs_log (snd (extract_l1_memories e ask judge opts c messages st)) = xs_log st @ filter (\<lambda>r. \<not> le_log_fails e (mr_id r)) new"
  proof (cases "ask (split_messages opts (filter (\<lambda>m. should_extract_l1 (lm_content m)) messages)) (lo_previous_scene opts)")
    case (Inr raw)
    define found where "found = take (lo_max_memories opts) (typed_memories (parse_extraction_result (le_parse e) (le_repair e) raw))"
    define ms where "ms = map (\<lambda>(i, m). m\<lparr>em_id := le_new_id e i\<rparr>) (List.enumerate 0 found)"
    have "list_all (\<lambda>m. em_type m \<in> set valid_types) found" using typed_memories_valid by (auto simp: found_def list_all_iff dest: in_set_takeD)
    then have "list_all (\<lambda>m. em_type m \<in> set valid_types) ms" by (auto simp: ms_def list_all_iff in_set_enumerate_eq)
    then have "writes_ok e ([], st) (store_extracted e judge opts c ms st)" by (rule store_extracted_ok)
    then show ?thesis
      by (auto simp: extract_l1_memories_def Let_def Inr no_extraction_def writes_ok_def split_beta simp flip: found_def ms_def)
  qed (simp add: extract_l1_memories_def Let_def no_extraction_def)
  then show ?thesis by (auto simp: well_typed_def list_all_iff)
qed

text \<open>
  every memory gets a decision. Any text that the model answers to the comparison yields at least one decision for each new
  memory, with a valid type where it has one; a text that is not a JSON array stores them all.
\<close>

theorem every_memory_decided:
  "set ids \<subseteq> dd_record ` set (parse_batch_result parse raw ids) \<and> list_all decision_typed (parse_batch_result parse raw ids)
   \<and> (answer_array parse raw = None) \<le> (parse_batch_result parse raw ids = map store_decision ids)"
proof -
  have "dd_record (store_decision i) = i" for i by (simp add: store_decision_def)
  then have "set ids \<subseteq> dd_record ` set (parse_batch_result parse raw ids)"
    by (auto simp: parse_batch_result_def Let_def image_Un image_image split: option.split)
  then show ?thesis using parse_batch_result_typed by (simp add: parse_batch_result_def)
qed

section \<open>Replacing old memories\<close>

lemma drop_l1_rows_eq: "st_l1 (drop_l1 run i s) = drop_id l1_id i (st_l1 s)"
  by (simp add: drop_l1_def Let_def)

lemma delete_batch_subset:
  "set (st_l1 (fold (\<lambda>i s. if l1_refused i flt s then s else drop_l1 run i s) ids s)) \<subseteq> set (st_l1 s)"
proof (induction ids arbitrary: s)
  case (Cons i ids)
  have "set (st_l1 (if l1_refused i flt s then s else drop_l1 run i s)) \<subseteq> set (st_l1 s)" by (auto simp: drop_l1_rows_eq drop_id_def)
  then show ?case using Cons by fastforce
qed simp

lemma delete_batch_removes:
  assumes "i \<in> set ids" "\<forall>r \<in> set (st_l1 s). l1_id r = i \<longrightarrow> row_matches_isolation r flt"
  shows "i \<notin> l1_id ` set (st_l1 (fold (\<lambda>i s. if l1_refused i flt s then s else drop_l1 run i s) ids s))"
  using assms
proof (induction ids arbitrary: s)
  case (Cons j ids)
  let ?s = "if l1_refused j flt s then s else drop_l1 run j s"
  have sub: "set (st_l1 ?s) \<subseteq> set (st_l1 s)" by (auto simp: drop_l1_rows_eq drop_id_def)
  show ?case
  proof (cases "i \<in> set ids")
    case True
    moreover have "\<forall>r \<in> set (st_l1 ?s). l1_id r = i \<longrightarrow> row_matches_isolation r flt" using Cons.prems(2) sub by blast
    ultimately show ?thesis using Cons.IH [of ?s] by simp
  next
    case False
    then have "j = i" using Cons.prems(1) by simp
    have "i \<notin> l1_id ` set (st_l1 ?s)"
    proof (cases "l1_refused i flt s")
      case True
      then have "find_id l1_id i (st_l1 s) = None"
        using Cons.prems(2) by (auto simp: l1_refused_def find_id_def find_Some_iff split: option.splits)
      then show ?thesis using True \<open>j = i\<close> by (auto simp: find_id_def find_None_iff)
    next
      case False
      then show ?thesis using \<open>j = i\<close> by (auto simp: drop_l1_rows_eq drop_id_def)
    qed
    then show ?thesis using delete_batch_subset [of flt run ids ?s] by auto
  qed
qed simp

text \<open>
  C21: a failed write loses the memory it replaces. The old memories are deleted before the new one is written, and what the write
  answers is not looked at: when it fails, the targets are gone, nothing took their place, and the memory is reported as stored.
\<close>

theorem failed_write_loses_memory:
  assumes "xs_store st = Some s" "\<not> st_degraded s" "replaces d" "i \<in> set (dd_targets d)"
    and "\<And>x. \<not> db_fails (le_delete_run e x)" "\<And>x. db_fails (le_write_run e x)"
    and "list_all (\<lambda>r. l1_id r = i \<longrightarrow> row_matches_isolation r (delete_filter c)) (st_l1 s)"
  shows "\<exists>r st' s'. write_memory e c m d st = (Some r, st') \<and> xs_store st' = Some s'
    \<and> l1_id ` set (st_l1 s') \<subseteq> l1_id ` set (st_l1 s) - {i}"
proof -
  let ?r = "final_record e c m d (next_version e d st)"
  let ?s = "snd (delete_l1_batch (le_delete_run e (mr_id ?r)) (dd_targets d) (delete_filter c) s)"
  have t: "dd_targets d \<noteq> []" using assms(4) by auto
  have a: "dd_action d \<noteq> ActSkip" using assms(3) by (auto simp: replaces_def)
  have "snd (upsert_l1 (le_write_run e (mr_id ?r)) ?r emb ?s) = ?s" for emb using assms(6) by (simp add: upsert_l1_def)
  then have "\<exists>st'. write_memory e c m d st = (Some ?r, st') \<and> xs_store st' = Some ?s"
    using assms(1,3) t a by (simp add: write_memory_def Let_def on_store_def)
  moreover have "l1_id ` set (st_l1 ?s) \<subseteq> l1_id ` set (st_l1 s) - {i}"
  proof -
    let ?rows = "fold (\<lambda>i s. if l1_refused i (delete_filter c) s then s else drop_l1 (le_delete_run e (mr_id ?r)) i s) (dd_targets d) s"
    have "i \<notin> l1_id ` set (st_l1 ?rows)" by (rule delete_batch_removes [OF assms(4)]) (use assms(7) in \<open>simp add: list_all_iff\<close>)
    then show ?thesis using image_mono [OF delete_batch_subset [of "delete_filter c" "le_delete_run e (mr_id ?r)" "dd_targets d" s], of l1_id] assms(2,5) t
      by (auto simp: delete_l1_batch_def)
  qed
  ultimately show ?thesis by blast
qed

lemma delete_batch_keeps:
  assumes "r \<in> set (st_l1 s)" "\<not> row_matches_isolation r flt" "distinct (map l1_id (st_l1 s))"
  shows "r \<in> set (st_l1 (fold (\<lambda>i s. if l1_refused i flt s then s else drop_l1 run i s) ids s))"
  using assms(1,3)
proof (induction ids arbitrary: s)
  case (Cons j ids)
  obtain x where x: "find_id l1_id (l1_id r) (st_l1 s) = Some x" using Cons.prems(1) by (cases "find_id l1_id (l1_id r) (st_l1 s)") (auto simp: find_id_None)
  have "r = x" using distinct_ids_unique [OF Cons.prems(2) x Cons.prems(1) refl] .
  then have "l1_refused (l1_id r) flt s" using x assms(2) by (cases flt) (simp_all add: l1_refused_def)
  then show ?case using Cons by (cases "j = l1_id r") (auto simp: drop_l1_rows_eq drop_id_def distinct_map_filter)
qed simp

text \<open>
  C23: a merge keeps targets of other sessions. Old memories are looked up without the session key, but deleted with it: a memory that the comparison can name as a
  target, stored under another key, is still there after the merge that replaced it, beside the merged memory.
\<close>

theorem merge_keeps_targets_of_other_keys:
  assumes "xs_store st = Some s" "\<not> st_degraded s" "store_ok s" "r \<in> set (st_l1 s)" "row_matches_isolation r (recall_filter c)"
    and "replaces d" "l1_id r \<in> set (dd_targets d)" "ow_session_key r \<noteq> sc_session_key c" "given (sc_user c)"
    and "dd_record d \<noteq> []" "dd_record d \<noteq> l1_id r" "\<And>x. \<not> db_fails (le_write_run e x)"
    and "write_memory e c m d st = (res, st')"
  shows "\<exists>s'. xs_store st' = Some s' \<and> r \<in> set (st_l1 s') \<and> dd_record d \<in> l1_id ` set (st_l1 s')"
proof -
  let ?r = "final_record e c m d (next_version e d st)"
  let ?s = "snd (delete_l1_batch (le_delete_run e (mr_id ?r)) (dd_targets d) (delete_filter c) s)"
  have t: "dd_targets d \<noteq> []" and a: "dd_action d \<noteq> ActSkip" using assms(6,7) by (auto simp: replaces_def)
  have i: "mr_id ?r = dd_record d" using assms(10) by (simp add: final_record_def Let_def or_else_def)
  have "\<not> row_matches_isolation r (delete_filter c)" using assms(8,9) by (auto simp: delete_filter_def row_matches_isolation_def)
  moreover have "distinct (map l1_id (st_l1 s))" using assms(3) by (simp add: store_ok_def layer_ok_def)
  ultimately have kept: "r \<in> set (st_l1 ?s)" using assms(4) delete_batch_keeps by (auto simp: delete_l1_batch_def)
  have "\<not> st_degraded ?s"
  proof -
    have "st_degraded (fold (\<lambda>i s. if l1_refused i flt s then s else drop_l1 run i s) ids s) = st_degraded s" for run flt ids
      by (induction ids arbitrary: s) (simp_all add: drop_l1_def Let_def)
    then show ?thesis using assms(2) by (simp add: delete_l1_batch_def)
  qed
  then have up: "st_l1 (snd (upsert_l1 (le_write_run e (mr_id ?r)) ?r emb ?s)) = upsert_row l1_id merge_l1 (row_of_l1 ?r) (st_l1 ?s)" for emb
    using assms(12) by (simp add: upsert_l1_def Let_def)
  have id: "l1_id (row_of_l1 ?r) = dd_record d" using i by (simp add: row_of_l1_def)
  have "r \<in> set (upsert_row l1_id merge_l1 (row_of_l1 ?r) (st_l1 ?s))" using kept id assms(11) by (auto simp: upsert_row_def image_iff)
  moreover have "dd_record d \<in> l1_id ` set (upsert_row l1_id merge_l1 (row_of_l1 ?r) (st_l1 ?s))"
    using id by (simp add: upsert_row_ids merge_l1_def)
  moreover have "\<exists>emb. xs_store st' = Some (snd (upsert_l1 (le_write_run e (mr_id ?r)) ?r emb ?s))"
    using assms(1,6,13) t a by (auto simp: write_memory_def Let_def on_store_def)
  ultimately show ?thesis using up by auto
qed

section \<open>Concrete merges\<close>

definition silent_env :: "int l1_env" where
  "silent_env = \<lparr>le_now = 50, le_new_id = (\<lambda>i. ''n''), le_embed = None, le_embed_batch = (\<lambda>texts. Inr []), le_knn = (\<lambda>v k rows. []),
     le_fts = (\<lambda>q rows. []), le_fts_query = (\<lambda>t. None), le_read_fails = False, le_delete_run = (\<lambda>i. db_ok), le_write_run = (\<lambda>i. db_ok),
     le_log_fails = (\<lambda>i. False), le_parse = (\<lambda>t. None), le_repair = (\<lambda>t. t)\<rparr>"

definition with_store :: "'v memory_store \<Rightarrow> 'v l1_state" where
  "with_store s = \<lparr>xs_store = Some s, xs_log = []\<rparr>"

definition demo_scope :: "string \<Rightarrow> l1_scope" where
  "demo_scope key = \<lparr>sc_session_key = key, sc_session_id = Some ''s'', sc_task = None, sc_team = None, sc_user = Some ''ann'', sc_agent = None\<rparr>"

definition demo_extracted :: extracted_memory where
  "demo_extracted = \<lparr>em_id = ''n1'', em_content = ''likes green tea'', em_type = ''persona'', em_priority = 50, em_sources = [], em_metadata = ''{}'', em_scene = ''home''\<rparr>"

definition demo_merge_of_a1 :: dedup_decision where
  "demo_merge_of_a1 = (store_decision ''n1'')\<lparr>dd_action := ActMerge, dd_targets := [''a1'']\<rparr>"

theorem failed_write_loses_memory_witness:
  "\<exists>r st' s'. write_memory (silent_env\<lparr>le_write_run := (\<lambda>i. db_ok\<lparr>db_fails := True\<rparr>)\<rparr>) (demo_scope ''s'') demo_extracted demo_merge_of_a1 (with_store demo_store)
       = (Some r, st') \<and> xs_store st' = Some s' \<and> l1_id ` set (st_l1 s') \<subseteq> {''a2''}"
proof -
  let ?e = "silent_env\<lparr>le_write_run := (\<lambda>i. db_ok\<lparr>db_fails := True\<rparr>)\<rparr>"
  have h: "\<not> st_degraded demo_store" "replaces demo_merge_of_a1" "''a1'' \<in> set (dd_targets demo_merge_of_a1)"
    "list_all (\<lambda>r. l1_id r = ''a1'' \<longrightarrow> row_matches_isolation r (delete_filter (demo_scope ''s''))) (st_l1 demo_store)"
    by code_simp+
  have ids: "l1_id ` set (st_l1 demo_store) - {''a1''} = {''a2''}" by code_simp
  have x: "xs_store (with_store demo_store) = Some demo_store" by (simp add: with_store_def)
  have runs: "\<And>x. \<not> db_fails (le_delete_run ?e x)" "\<And>x. db_fails (le_write_run ?e x)" by (simp_all add: silent_env_def db_ok_def)
  show ?thesis using failed_write_loses_memory [OF x h(1-3) runs h(4)] unfolding ids .
qed

theorem merge_keeps_targets_of_other_keys_witness:
  "\<exists>res st' s'. write_memory silent_env (demo_scope ''other'') demo_extracted demo_merge_of_a1 (with_store demo_store) = (res, st')
     \<and> xs_store st' = Some s' \<and> {''a1'', ''n1''} \<subseteq> l1_id ` set (st_l1 s')"
proof -
  let ?r = "hd (st_l1 demo_store)"
  obtain res st' where w: "write_memory silent_env (demo_scope ''other'') demo_extracted demo_merge_of_a1 (with_store demo_store) = (res, st')" by (meson prod.exhaust)
  have h: "\<not> st_degraded demo_store" "?r \<in> set (st_l1 demo_store)" "row_matches_isolation ?r (recall_filter (demo_scope ''other''))"
    "replaces demo_merge_of_a1" "l1_id ?r \<in> set (dd_targets demo_merge_of_a1)" "ow_session_key ?r \<noteq> sc_session_key (demo_scope ''other'')"
    "given (sc_user (demo_scope ''other''))" "dd_record demo_merge_of_a1 \<noteq> []" "dd_record demo_merge_of_a1 \<noteq> l1_id ?r" "l1_id ?r = ''a1''" "dd_record demo_merge_of_a1 = ''n1''"
    by code_simp+
  have x: "xs_store (with_store demo_store) = Some demo_store" by (simp add: with_store_def)
  have "\<And>x. \<not> db_fails (le_write_run silent_env x)" by (simp add: silent_env_def db_ok_def)
  from merge_keeps_targets_of_other_keys [OF x h(1) store_ok_demo h(2-9) this w] obtain s' where "xs_store st' = Some s'" "?r \<in> set (st_l1 s')" "''n1'' \<in> l1_id ` set (st_l1 s')"
    unfolding h(11) by blast
  moreover have "''a1'' \<in> l1_id ` set (st_l1 s')" using calculation(2) h(10) by (metis imageI)
  ultimately show ?thesis using w by blast
qed

end
