(* ===== verification/L1_Cursor.thy ===== *)
theory L1_Cursor
  imports L1_Runner L1_Properties
begin

text \<open>
  What the rounds of \<open>L1_Runner\<close> do with the messages of a session: a round takes exactly the messages between the old and the new
  cursor, and enough rounds take every message once.
\<close>

section \<open>Grouping\<close>

lemma mset_group_into:
  "distinct (jkeys m) \<Longrightarrow> mset (concat (map snd (group_into key r m))) = add_mset r (mset (concat (map snd m)))"
  by (induction m) (auto simp: group_into_def jget_or_def)

lemma group_into_keys: "distinct (jkeys m) \<Longrightarrow> distinct (jkeys (group_into key r m))"
  by (simp add: group_into_def distinct_update)

lemma group_rows_snoc: "group_rows key (rs @ [r]) = group_into key r (group_rows key rs)"
  by (simp add: group_rows_def)

lemma group_rows_keys: "distinct (jkeys (group_rows key rs))"
  by (induction rs rule: rev_induct) (simp_all add: group_rows_snoc group_into_keys, simp add: group_rows_def)

lemma mset_group_rows: "mset (concat (map snd (group_rows key rs))) = mset rs"
  by (induction rs rule: rev_induct) (simp_all add: group_rows_snoc mset_group_into group_rows_keys, simp add: group_rows_def)

lemma mset_concat_sort: "mset (concat (map f (sort_key k xs))) = mset (concat (map f xs))"
proof -
  have "mset (concat (map f ys)) = sum_mset (image_mset (mset \<circ> f) (mset ys))" for ys
    by (induction ys) simp_all
  then show ?thesis by simp
qed

lemma mset_regroup: "mset (concat (regroup ms)) = mset ms"
  by (simp add: regroup_def mset_group_rows mset_concat_sort [where f = "\<lambda>g. g", simplified])

lemma flat_group_messages: "map fm_message (flat_group g) = lg_messages g"
  by (simp add: flat_group_def comp_def)

lemma flat_groups_messages: "map fm_message (concat (map flat_group gs)) = concat (map lg_messages gs)"
  by (simp add: map_concat comp_def flat_group_messages)

lemma grouped_messages:
  "mset (concat (map lg_messages (query_l0_grouped fails key after limit s))) = mset (map message_of_row (query_l0_for_l1 fails key after limit s))"
proof -
  have "concat (map (lg_messages \<circ> (l0_group_of \<circ> snd)) gs) = map message_of_row (concat (map snd gs))" for gs :: "(string list \<times> l0_row list) list"
    by (simp add: map_concat comp_def l0_group_of_def Let_def)
  then show ?thesis by (simp add: query_l0_grouped_def mset_concat_sort mset_group_rows)
qed

section \<open>The slice of a round\<close>

lemma mset_chronological [simp]: "mset (chronological xs) = mset xs"
  by (simp add: chronological_def)

lemma sorted_chronological: "sorted (map fm_recorded (chronological xs))"
  by (simp add: chronological_def)

text \<open>The slice is a prefix; what it leaves was recorded strictly later.\<close>

definition later :: "flat_message list \<Rightarrow> flat_message list \<Rightarrow> bool" where
  "later xs ys \<longleftrightarrow> (\<forall>x \<in> set xs. \<forall>y \<in> set ys. fm_recorded x < fm_recorded y)"

lemma takeWhile_later:
  assumes "sorted (map fm_recorded (x # ys))"
  shows "\<exists>rest. ys = takeWhile (\<lambda>m. fm_recorded m = fm_recorded x) ys @ rest \<and> (\<forall>y \<in> set rest. fm_recorded x < fm_recorded y)
    \<and> (\<forall>y \<in> set (takeWhile (\<lambda>m. fm_recorded m = fm_recorded x) ys). fm_recorded y = fm_recorded x)"
  using assms
proof (induction ys)
  case (Cons y ys)
  show ?case
  proof (cases "fm_recorded y = fm_recorded x")
    case True
    with Cons show ?thesis by simp
  next
    case False
    with Cons.prems show ?thesis by (intro exI [of _ "y # ys"]) auto
  qed
qed simp

lemma aligned_slice_split:
  assumes "sorted (map fm_recorded xs)" "0 < n"
  shows "\<exists>rest. xs = aligned_slice n xs @ rest \<and> later (aligned_slice n xs) rest"
proof (cases "length xs \<le> n")
  case False
  define x ys where "x = xs ! (n - 1)" and "ys = drop n xs"
  have tk: "take n xs = take (n - 1) xs @ [x]" using False assms(2) take_Suc_conv_app_nth [of "n - 1" xs] by (simp add: x_def)
  have xs: "xs = take (n - 1) xs @ x # ys" using append_take_drop_id [of n xs] unfolding tk ys_def by simp
  have s: "sorted (map fm_recorded (x # ys))" "\<And>p. p \<in> set (take (n - 1) xs) \<Longrightarrow> fm_recorded p \<le> fm_recorded x"
    using assms(1) by (subst (asm) xs, force simp: sorted_append)+
  obtain rest where r: "ys = takeWhile (\<lambda>m. fm_recorded m = fm_recorded x) ys @ rest" "\<forall>y \<in> set rest. fm_recorded x < fm_recorded y"
    "\<forall>y \<in> set (takeWhile (\<lambda>m. fm_recorded m = fm_recorded x) ys). fm_recorded y = fm_recorded x"
    using takeWhile_later [OF s(1)] by blast
  have sl: "aligned_slice n xs = take (n - 1) xs @ x # takeWhile (\<lambda>m. fm_recorded m = fm_recorded x) ys"
  proof -
    have "aligned_slice n xs = take n xs @ takeWhile (\<lambda>m. fm_recorded m = fm_recorded x) ys"
      using False by (simp only: aligned_slice_def x_def ys_def if_False)
    then show ?thesis unfolding tk by simp
  qed
  have "aligned_slice n xs @ rest = take (n - 1) xs @ x # (takeWhile (\<lambda>m. fm_recorded m = fm_recorded x) ys @ rest)" unfolding sl by simp
  also have "\<dots> = take (n - 1) xs @ x # ys" by (simp only: r(1) [symmetric])
  finally have "xs = aligned_slice n xs @ rest" by (rule trans [OF xs, OF sym])
  moreover have "later (aligned_slice n xs) rest"
    unfolding sl later_def
  proof (intro ballI)
    fix a y assume "a \<in> set (take (n - 1) xs @ x # takeWhile (\<lambda>m. fm_recorded m = fm_recorded x) ys)" "y \<in> set rest"
    then consider "a \<in> set (take (n - 1) xs)" | "a = x" | "a \<in> set (takeWhile (\<lambda>m. fm_recorded m = fm_recorded x) ys)"
      unfolding set_append list.set(2) by blast
    then have "fm_recorded a \<le> fm_recorded x" by cases (rule s(2), assumption, simp, drule bspec [OF r(3)], simp)
    then show "fm_recorded a < fm_recorded y" using bspec [OF r(2) \<open>y \<in> set rest\<close>] by (rule le_less_trans)
  qed
  ultimately show ?thesis by blast
qed (simp add: aligned_slice_def later_def)

lemma aligned_slice_nonempty: "xs \<noteq> [] \<Longrightarrow> 0 < n \<Longrightarrow> aligned_slice n xs \<noteq> []"
  by (auto simp: aligned_slice_def)

lemma max_recorded_fold: "foldl (\<lambda>b m. if b < fm_recorded m then fm_recorded m else b) b ms = Max (insert b (fm_recorded ` set ms))"
proof (induction ms arbitrary: b)
  case (Cons m ms)
  have "(if b < fm_recorded m then fm_recorded m else b) = max b (fm_recorded m)" by (simp add: max_def)
  then show ?case using Cons by (cases "ms = []") (simp_all add: insert_commute max.assoc)
qed simp

lemma max_recorded_alt: "max_recorded ms = Max (insert 0 (fm_recorded ` set ms))"
  by (simp add: max_recorded_def max_recorded_fold)

lemma slice_by_cursor:
  assumes "sorted (map fm_recorded xs)" "0 < n" "\<forall>x \<in> set xs. 0 < fm_recorded x"
  shows "aligned_slice n xs = filter (\<lambda>m. fm_recorded m \<le> max_recorded (aligned_slice n xs)) xs"
proof -
  obtain rest where r: "xs = aligned_slice n xs @ rest" "later (aligned_slice n xs) rest" using aligned_slice_split [OF assms(1,2)] by blast
  let ?p = "aligned_slice n xs" and ?b = "max_recorded (aligned_slice n xs)"
  have le: "fm_recorded x \<le> ?b" if "x \<in> set ?p" for x using that by (simp add: max_recorded_alt)
  have "?b < fm_recorded y" if "y \<in> set rest" for y
  proof -
    have "0 < fm_recorded y" using that assms(3) by (subst (asm) r(1)) simp
    then show ?thesis using that r(2) by (auto simp: max_recorded_alt later_def)
  qed
  then have "filter (\<lambda>m. fm_recorded m \<le> ?b) (?p @ rest) = ?p" using le by (auto simp: filter_empty_conv not_le)
  then show ?thesis unfolding r(1) [symmetric] ..
qed

section \<open>One round\<close>

text \<open>The messages of a session past a cursor.\<close>

definition pending :: "string \<Rightarrow> ms \<Rightarrow> 'v memory_store \<Rightarrow> l0_row list" where
  "pending key c s = filter (\<lambda>r. ow_session_key r = key \<and> c < l0_recorded r) (st_l0 s)"

definition session_dated :: "string \<Rightarrow> 'v memory_store \<Rightarrow> bool" where
  "session_dated key s \<longleftrightarrow> list_all (\<lambda>r. ow_session_key r = key \<longrightarrow> 0 < l0_recorded r) (st_l0 s)"

lemma lm_recorded_of_row [simp]: "lm_recorded (message_of_row r) = l0_recorded r"
  by (simp add: message_of_row_def)

lemma queried_rows:
  assumes "\<not> st_degraded s" "session_dated key s" "0 \<le> c"
  shows "sorted (map fm_recorded (queried_messages False new_id now file_lines key c (Some s)))"
    and "mset (map fm_message (queried_messages False new_id now file_lines key c (Some s)))
      = mset (map message_of_row (take 20 (sort_key l0_recorded (pending key c s))))"
proof -
  have "filter (\<lambda>r. ow_session_key r = key \<and> (case if 0 < c then Some c else None of None \<Rightarrow> True | Some t \<Rightarrow> 0 < t \<longrightarrow> t < l0_recorded r)) (st_l0 s)
      = pending key c s"
    using assms(2,3) unfolding pending_def session_dated_def by (intro filter_cong) (auto simp: list_all_iff)
  then have q: "query_l0_for_l1 False key (if 0 < c then Some c else None) 20 s = take 20 (sort_key l0_recorded (pending key c s))"
    using assms(1) by (simp add: query_l0_for_l1_def)
  show "sorted (map fm_recorded (queried_messages False new_id now file_lines key c (Some s)))"
    using assms(1) by (simp add: queried_messages_def sorted_chronological)
  have "mset (map fm_message (queried_messages False new_id now file_lines key c (Some s)))
      = mset (map fm_message (concat (map flat_group (query_l0_grouped False key (if 0 < c then Some c else None) 20 s))))"
    using assms(1) by (simp add: queried_messages_def l1_batch_query_def l1_batch_process_def)
  also have "\<dots> = mset (map message_of_row (take 20 (sort_key l0_recorded (pending key c s))))"
    by (simp only: flat_groups_messages grouped_messages q)
  finally show "mset (map fm_message (queried_messages False new_id now file_lines key c (Some s)))
      = mset (map message_of_row (take 20 (sort_key l0_recorded (pending key c s))))" .
qed

text \<open>A prefix of a sorted list that is not exhausted at a bound has everything below the bound.\<close>

lemma prefix_below:
  assumes "sorted (map f xs)" "length xs \<le> n \<or> (\<exists>x \<in> set (take n xs). b < f x)"
  shows "filter (\<lambda>x. f x \<le> b) (take n xs) = filter (\<lambda>x. f x \<le> b) xs"
proof (cases "length xs \<le> n")
  case False
  then obtain x where x: "x \<in> set (take n xs)" "b < f x" using assms(2) by blast
  have "sorted (map f (take n xs @ drop n xs))" using assms(1) by simp
  then have "f x \<le> f y" if "y \<in> set (drop n xs)" for y using that x(1) by (auto simp: sorted_append simp del: append_take_drop_id)
  then have "filter (\<lambda>x. f x \<le> b) (drop n xs) = []" using x(2) by (force simp: filter_empty_conv)
  then show ?thesis by (metis append_Nil2 append_take_drop_id filter_append)
qed simp

lemma mset_map_filter: "mset (map f xs) = mset (map g ys) \<Longrightarrow> mset (map f (filter (P \<circ> f) xs)) = mset (map g (filter (P \<circ> g) ys))"
  by (metis filter_map mset_filter)

lemma slice_takes_interval:
  assumes "\<not> st_degraded s" "session_dated key s" "0 \<le> c"
    and "flat = queried_messages False new_id now file_lines key c (Some s)" "took = aligned_slice 10 flat"
    and "length flat < 20 \<or> length took < length flat"
  shows "mset (map fm_message took) = mset (map message_of_row (filter (\<lambda>r. l0_recorded r \<le> max_recorded took) (pending key c s)))"
    and "flat \<noteq> [] \<longrightarrow> c < max_recorded took \<and> took \<noteq> []" and "length flat = min 20 (length (pending key c s))"
proof -
  let ?b = "max_recorded took" and ?p = "sort_key l0_recorded (pending key c s)"
  note q = queried_rows [OF assms(1-3), of new_id now file_lines, folded assms(4)]
  show len: "length flat = min 20 (length (pending key c s))" using arg_cong [OF q(2), of size] by simp
  have rec: "c < fm_recorded m \<and> 0 < fm_recorded m" if "m \<in> set flat" for m
  proof -
    have "fm_message m \<in> set (map message_of_row (take 20 ?p))" using that mset_eq_setD [OF q(2)] by auto
    then obtain r where r: "r \<in> set (take 20 ?p)" "fm_message m = message_of_row r" by auto
    then have "r \<in> set (pending key c s)" by (auto dest: in_set_takeD)
    then show ?thesis using assms(3) r(2) by (simp add: pending_def)
  qed
  then have d: "took = filter (\<lambda>m. fm_recorded m \<le> ?b) flat" using slice_by_cursor [OF q(1), of 10] assms(5) by simp
  have "mset (map fm_message took) = mset (map message_of_row (filter (\<lambda>r. l0_recorded r \<le> ?b) (take 20 ?p)))"
    using mset_map_filter [OF q(2), of "\<lambda>m. lm_recorded m \<le> ?b"] d by (simp add: comp_def)
  moreover have "filter (\<lambda>r. l0_recorded r \<le> ?b) (take 20 ?p) = filter (\<lambda>r. l0_recorded r \<le> ?b) ?p"
  proof (rule prefix_below)
    have "\<exists>r \<in> set (take 20 ?p). ?b < l0_recorded r" if more: "length took < length flat"
    proof -
      obtain m where m: "m \<in> set flat" "?b < fm_recorded m"
        using more by (subst (asm) d) (metis (no_types, lifting) filter_True less_irrefl not_le)
      then have "fm_message m \<in> set (map message_of_row (take 20 ?p))" using mset_eq_setD [OF q(2)] by auto
      then show ?thesis using m(2) by auto
    qed
    then show "length ?p \<le> 20 \<or> (\<exists>r \<in> set (take 20 ?p). ?b < l0_recorded r)" using assms(6) len by auto
  qed simp
  moreover have "mset (map message_of_row (filter (\<lambda>r. l0_recorded r \<le> ?b) ?p)) = mset (map message_of_row (filter (\<lambda>r. l0_recorded r \<le> ?b) (pending key c s)))"
    by simp
  ultimately show "mset (map fm_message took) = mset (map message_of_row (filter (\<lambda>r. l0_recorded r \<le> ?b) (pending key c s)))" by metis
  show "flat \<noteq> [] \<longrightarrow> c < ?b \<and> took \<noteq> []"
  proof
    assume "flat \<noteq> []"
    then have ne: "took \<noteq> []" using assms(5) by (simp add: aligned_slice_nonempty)
    then obtain m where m: "m \<in> set took" by (cases "took") auto
    then have "m \<in> set flat" by (subst (asm) d) simp
    then have "c < fm_recorded m" "fm_recorded m \<le> ?b" using rec m by (simp_all add: max_recorded_alt)
    then show "c < ?b \<and> took \<noteq> []" using ne by simp
  qed
qed

section \<open>An extraction leaves the messages alone\<close>

definition same_messages :: "'v l1_state \<Rightarrow> 'v l1_state \<Rightarrow> bool" where
  "same_messages st st' \<longleftrightarrow> (\<forall>s. xs_store st = Some s \<longrightarrow> (\<exists>s'. xs_store st' = Some s' \<and> st_l0 s' = st_l0 s \<and> st_degraded s' = st_degraded s))"

lemma same_messages_refl [simp]: "same_messages st st"
  by (simp add: same_messages_def)

lemma same_messages_trans: "same_messages a b \<Longrightarrow> same_messages b c \<Longrightarrow> same_messages a c"
  unfolding same_messages_def by metis

lemma same_messages_log [simp]: "same_messages st (st'\<lparr>xs_log := l\<rparr>) = same_messages st st'"
  by (simp add: same_messages_def)

lemma same_messages_store:
  "(\<And>s. st_l0 (f s) = st_l0 s \<and> st_degraded (f s) = st_degraded s) \<Longrightarrow> same_messages st (on_store f st)"
  by (auto simp: same_messages_def on_store_def)

lemma drop_l1_messages: "st_l0 (drop_l1 run i s) = st_l0 s \<and> st_degraded (drop_l1 run i s) = st_degraded s"
  by (simp add: drop_l1_def Let_def)

lemma delete_batch_messages: "st_l0 (snd (delete_l1_batch run ids flt s)) = st_l0 s \<and> st_degraded (snd (delete_l1_batch run ids flt s)) = st_degraded s"
proof -
  have "st_l0 (fold (\<lambda>i s. if l1_refused i flt s then s else drop_l1 run i s) ids s) = st_l0 s
      \<and> st_degraded (fold (\<lambda>i s. if l1_refused i flt s then s else drop_l1 run i s) ids s) = st_degraded s"
    by (induction ids arbitrary: s) (simp_all add: drop_l1_messages)
  then show ?thesis by (simp add: delete_l1_batch_def)
qed

lemma upsert_l1_messages: "st_l0 (snd (upsert_l1 run r emb s)) = st_l0 s \<and> st_degraded (snd (upsert_l1 run r emb s)) = st_degraded s"
  by (simp add: upsert_l1_def Let_def)

lemma write_memory_messages: "same_messages st (snd (write_memory e c m d st))"
proof -
  have d: "same_messages st (on_store (\<lambda>s. snd (delete_l1_batch run ids flt s)) st)" for run ids flt and st :: "'a l1_state"
    by (rule same_messages_store) (rule delete_batch_messages)
  have u: "same_messages st (on_store (\<lambda>s. snd (upsert_l1 run r emb s)) st')" if "same_messages st st'" for run r emb and st st' :: "'a l1_state"
    by (rule same_messages_trans [OF that], rule same_messages_store, rule upsert_l1_messages)
  show ?thesis by (simp add: write_memory_def Let_def u d)
qed

lemma write_steps_messages: "same_messages (snd rs) (snd (fold (write_step e c decide) ms rs))"
proof (induction ms arbitrary: rs)
  case (Cons m ms)
  have "same_messages (snd rs) (snd (write_step e c decide m rs))"
    using write_memory_messages [of "snd rs" e c m "decide (em_id m)"] by (auto simp: write_step_def split: prod.split option.split)
  then show ?case using Cons same_messages_trans by fastforce
qed simp

lemma extraction_messages: "same_messages st (snd (extract_l1_memories e ask judge opts c messages st))"
proof -
  have "same_messages st (snd (store_extracted e judge opts c ms st))" for ms
    using write_steps_messages [where rs = "([], st)"]
    by (simp add: store_extracted_def store_all_directly_def apply_decisions_def split: sum.split)
  then show ?thesis by (simp add: extract_l1_memories_def Let_def split: sum.split prod.split) (metis snd_conv)
qed

lemma groups_messages: "same_messages (lp_state w) (lp_state (fold (extract_group p cfg key previous) gs w))"
proof (induction gs arbitrary: w)
  case (Cons g gs)
  have "same_messages (lp_state w) (lp_state (extract_group p cfg key previous g w))"
    using extraction_messages [of "lp_state w"] by (simp add: extract_group_def Let_def split: prod.split) (metis snd_conv)
  then show ?case using Cons same_messages_trans by fastforce
qed simp

lemma round_messages_same:
  "run_l1_round has_model p cfg fails new_id now file_lines key (c, st) = (res, c', st') \<Longrightarrow> same_messages st st'"
  using groups_messages [of "\<lparr>lp_stored = 0, lp_scene = None, lp_scopes = [], lp_state = st\<rparr>"]
  by (auto simp: run_l1_round_def Let_def split: if_splits)

section \<open>Many rounds\<close>

text \<open>The messages that a round hands to the extraction, and those of \<open>n\<close> rounds from the \<open>i\<close>th on. Third parties, clock and files
  may change from round to round.\<close>

definition round_messages :: "bool \<Rightarrow> (nat \<Rightarrow> string) \<Rightarrow> ms \<Rightarrow> json option list \<Rightarrow> string \<Rightarrow> checkpoint \<times> 'v l1_state \<Rightarrow> l0_message list" where
  "round_messages fails new_id now file_lines key w =
     (case w of (c, st) \<Rightarrow>
        map fm_message (concat (regroup (aligned_slice l1_batch_process
          (queried_messages fails new_id now file_lines key (l1_cursor key c) (xs_store st))))))"

fun handed_out ::
  "(nat \<Rightarrow> 'v l1_parties) \<Rightarrow> l1_config \<Rightarrow> (nat \<Rightarrow> string) \<Rightarrow> (nat \<Rightarrow> ms) \<Rightarrow> (nat \<Rightarrow> json option list) \<Rightarrow> string \<Rightarrow> nat \<Rightarrow> nat
   \<Rightarrow> checkpoint \<times> 'v::zero l1_state \<Rightarrow> l0_message list" where
  "handed_out p cfg new_id clock files key i 0 w = []"
| "handed_out p cfg new_id clock files key i (Suc n) w =
     round_messages False new_id (clock i) (files i) key w
     @ handed_out p cfg new_id clock files key (Suc i) n (snd (run_l1_round True (p i) cfg False new_id (clock i) (files i) key w))"

lemma round_idle:
  assumes "queried_messages fails new_id now file_lines key (l1_cursor key c) (xs_store st) = []"
  shows "run_l1_round True p cfg fails new_id now file_lines key (c, st) = (idle_round, c, st)"
    and "round_messages fails new_id now file_lines key (c, st) = []"
  using assms by (simp_all add: run_l1_round_def round_messages_def l1_cursor_def aligned_slice_def regroup_def group_rows_def Let_def)

lemma round_cursor:
  assumes "flat = queried_messages fails new_id now file_lines key (l1_cursor key c) (xs_store st)" "flat \<noteq> []"
    and "run_l1_round True p cfg fails new_id now file_lines key (c, st) = (res, c', st')"
    and "0 \<le> l1_cursor key c" "l1_cursor key c < max_recorded (aligned_slice 10 flat)"
  shows "l1_cursor key c' = max_recorded (aligned_slice 10 flat)"
proof -
  let ?took = "aligned_slice 10 flat"
  define w where "w = fold (extract_group p cfg key (rs_last_scene_name (fst (get_runner_state key c)))) (List.enumerate 0 (regroup ?took))
    \<lparr>lp_stored = 0, lp_scene = None, lp_scopes = [], lp_state = st\<rparr>"
  have "fst (snd (run_l1_round True p cfg fails new_id now file_lines key (c, st)))
      = mark_l1_extraction_complete key (int (lp_stored w)) (if max_recorded ?took = 0 then None else Some (max_recorded ?took)) (lp_scene w) c"
    using assms(2) by (simp add: run_l1_round_def Let_def l1_batch_process_def flip: l1_cursor_def assms(1) w_def)
  then show ?thesis using assms(3-5) by (simp add: l1_cursor_mark advanced_cursor_max)
qed

lemma few_per_instant:
  assumes "mset (map fm_message flat) = mset (map message_of_row rows)" "sorted (map fm_recorded flat)" "length flat = 20" "aligned_slice 10 flat = flat"
  shows "\<exists>t. 10 < length (filter (\<lambda>r. l0_recorded r = t) rows)"
proof -
  let ?t = "fm_recorded (flat ! 9)"
  have "take 10 flat @ drop 10 flat = take 10 flat @ takeWhile (\<lambda>m. fm_recorded m = ?t) (drop 10 flat)"
    using assms(3,4) by (simp add: aligned_slice_def)
  then have "takeWhile (\<lambda>m. fm_recorded m = ?t) (drop 10 flat) = drop 10 flat" by (metis same_append_eq)
  then have "\<forall>m \<in> set (drop 10 flat). fm_recorded m = ?t" by (simp add: takeWhile_eq_all_conv)
  then have "filter (\<lambda>m. fm_recorded m = ?t) (drop 10 flat) = drop 10 flat" by (simp add: filter_id_conv)
  moreover have "drop 9 flat = flat ! 9 # drop 10 flat" using assms(3) Cons_nth_drop_Suc [of 9 flat] by simp
  ultimately have "length (filter (\<lambda>m. fm_recorded m = ?t) (drop 9 flat)) = 11" using assms(3) by simp
  moreover have "length (filter (\<lambda>m. fm_recorded m = ?t) (take 9 flat @ drop 9 flat)) \<ge> length (filter (\<lambda>m. fm_recorded m = ?t) (drop 9 flat))"
    by (simp only: filter_append length_append le_add2)
  ultimately have "11 \<le> length (filter (\<lambda>m. fm_recorded m = ?t) flat)" by simp
  also have "\<dots> = length (filter (\<lambda>r. l0_recorded r = ?t) rows)"
    using mset_eq_length [OF mset_map_filter [OF assms(1), of "\<lambda>m. lm_recorded m = ?t"]] by (simp add: comp_def)
  finally show ?thesis by (intro exI [of _ ?t]) simp
qed

definition no_bursts :: "string \<Rightarrow> 'v memory_store \<Rightarrow> bool" where
  "no_bursts key s \<longleftrightarrow> (\<forall>t. length (filter (\<lambda>r. ow_session_key r = key \<and> l0_recorded r = t) (st_l0 s)) \<le> 10)"

lemma pending_split:
  assumes "c < b"
  shows "mset (pending key c s) = mset (filter (\<lambda>r. l0_recorded r \<le> b) (pending key c s)) + mset (pending key b s)"
proof -
  have "pending key b s = filter (\<lambda>r. \<not> l0_recorded r \<le> b) (pending key c s)"
    using assms by (auto simp: pending_def intro!: filter_cong)
  then show ?thesis by (simp add: multiset_partition [symmetric])
qed

text \<open>One round with something to do, in terms of what is pending.\<close>

lemma round_advances:
  assumes "xs_store st = Some s" "\<not> st_degraded s" "session_dated key s" "0 \<le> l1_cursor key c" "no_bursts key s"
    and "run_l1_round True p cfg False new_id now file_lines key (c, st) = (res, c', st')" "pending key (l1_cursor key c) s \<noteq> []"
  shows "mset (map message_of_row (pending key (l1_cursor key c) s))
      = mset (round_messages False new_id now file_lines key (c, st)) + mset (map message_of_row (pending key (l1_cursor key c') s))"
    and "l1_cursor key c < l1_cursor key c'" "round_messages False new_id now file_lines key (c, st) \<noteq> []"
proof -
  let ?c = "l1_cursor key c"
  define flat where "flat = queried_messages False new_id now file_lines key ?c (Some s)"
  define took where "took = aligned_slice 10 flat"
  have rows: "mset (map fm_message flat) = mset (map message_of_row (take 20 (sort_key l0_recorded (pending key ?c s))))" "sorted (map fm_recorded flat)"
    using queried_rows [OF assms(2-4)] by (simp_all add: flat_def)
  have len: "length flat = min 20 (length (pending key ?c s))" using arg_cong [OF rows(1), of size] by simp
  have more: "length flat < 20 \<or> length took < length flat"
  proof (rule ccontr)
    assume "\<not> ?thesis"
    then have full: "\<not> length flat < 20" "\<not> length took < length flat" by simp_all
    obtain rest where rest: "flat = took @ rest" using aligned_slice_split [OF rows(2), of 10] by (auto simp: took_def)
    then have "rest = []" using full(2) by simp
    then have "aligned_slice 10 flat = flat" using rest by (simp add: took_def)
    moreover have "length flat = 20" using full(1) len by simp
    ultimately
    obtain t where "10 < length (filter (\<lambda>r. l0_recorded r = t) (take 20 (sort_key l0_recorded (pending key ?c s))))"
      using few_per_instant [OF rows] by blast
    also have "\<dots> \<le> length (filter (\<lambda>r. l0_recorded r = t) (sort_key l0_recorded (pending key ?c s)))"
      by (metis append_take_drop_id filter_append le_add1 length_append)
    also have "\<dots> = length (filter (\<lambda>r. l0_recorded r = t) (pending key ?c s))"
      by (metis mset_filter mset_sort size_mset)
    also have "\<dots> \<le> length (filter (\<lambda>r. ow_session_key r = key \<and> l0_recorded r = t) (st_l0 s))"
    proof -
      have "filter (\<lambda>r. l0_recorded r = t) (pending key ?c s)
          = filter (\<lambda>r. ?c < l0_recorded r) (filter (\<lambda>r. ow_session_key r = key \<and> l0_recorded r = t) (st_l0 s))"
        unfolding pending_def filter_filter by (rule filter_cong) auto
      then show ?thesis by (simp only: length_filter_le)
    qed
    finally show False using assms(5) by (metis no_bursts_def not_less)
  qed
  note t = slice_takes_interval [OF assms(2-4) flat_def took_def more]
  have ne: "flat \<noteq> []" using len assms(7) by (auto simp: min_def split: if_splits)
  have c': "l1_cursor key c' = max_recorded took"
    using round_cursor [OF _ ne assms(6,4)] t(2) ne assms(1) by (simp add: flat_def took_def)
  then show "?c < l1_cursor key c'" using t(2) ne by simp
  have m: "mset (round_messages False new_id now file_lines key (c, st)) = mset (map fm_message took)"
    by (simp add: round_messages_def assms(1) l1_batch_process_def mset_regroup flip: flat_def took_def)
  then show "round_messages False new_id now file_lines key (c, st) \<noteq> []" using t(2) ne by auto
  show "mset (map message_of_row (pending key ?c s))
      = mset (round_messages False new_id now file_lines key (c, st)) + mset (map message_of_row (pending key (l1_cursor key c') s))"
    using pending_split [of ?c "l1_cursor key c'" key s] \<open>?c < l1_cursor key c'\<close> t(1) m c' by (simp flip: image_mset_union)
qed


section \<open>What a round can lose\<close>

text \<open>
  a burst is extracted in part. When more than twenty messages of a session were stored in one millisecond, and nothing is pending before them,
  a round processes twenty of them and moves the cursor past all: the others are never pending again.
\<close>

theorem burst_extracted_in_part:
  assumes "xs_store st = Some s" "\<not> st_degraded s" "session_dated key s" "0 \<le> l1_cursor key c"
    and "20 < length (pending key (l1_cursor key c) s)" "list_all (\<lambda>r. l0_recorded r = t) (pending key (l1_cursor key c) s)"
    and "run_l1_round True p cfg False new_id now file_lines key (c, st) = (res, c', st')"
  shows "lr_processed res = 20 \<and> \<not> lr_has_more res \<and> \<not> lr_full_backlog res \<and> pending key (l1_cursor key c') s = []"
proof -
  let ?c = "l1_cursor key c"
  define flat where "flat = queried_messages False new_id now file_lines key ?c (Some s)"
  note q = queried_rows [OF assms(2-4), of new_id now file_lines, folded flat_def]
  have len: "length flat = 20" using mset_eq_length [OF q(2)] assms(5) by simp
  have t: "fm_recorded m = t" if "m \<in> set flat" for m
  proof -
    have "fm_message m \<in> message_of_row ` set (take 20 (sort_key l0_recorded (pending key ?c s)))" using that mset_eq_setD [OF q(2)] by auto
    then show ?thesis using assms(6) by (auto simp: list_all_iff dest!: in_set_takeD)
  qed
  have tw: "takeWhile (\<lambda>m. fm_recorded m = fm_recorded (flat ! 9)) (drop 10 flat) = drop 10 flat"
    using len by (simp add: takeWhile_eq_all_conv t in_set_dropD)
  have "aligned_slice 10 flat = take 10 flat @ takeWhile (\<lambda>m. fm_recorded m = fm_recorded (flat ! 9)) (drop 10 flat)"
    using len by (simp add: aligned_slice_def)
  then have sl: "aligned_slice 10 flat = flat" unfolding tw by simp
  have ne: "flat \<noteq> []" using len by auto
  obtain m0 where m0: "m0 \<in> set flat" using ne by (cases flat) auto
  obtain r0 where r0: "r0 \<in> set (pending key ?c s)" using assms(5) by (cases "pending key ?c s") auto
  have ct: "?c < t" using r0 assms(6) by (simp add: pending_def list_all_iff)
  have mx: "max_recorded flat = t"
  proof -
    have "fm_recorded ` set flat = {t}" using t m0 by (auto simp: image_iff)
    then show ?thesis using ct assms(4) by (simp add: max_recorded_alt)
  qed
  have c': "l1_cursor key c' = t" using round_cursor [OF _ ne assms(7,4)] sl mx ct assms(1) by (simp add: flat_def)
  have "pending key t s = []"
    using assms(6) ct by (auto simp: pending_def filter_empty_conv list_all_iff)
  moreover have "fst (run_l1_round True p cfg False new_id now file_lines key (c, st)) = res" by (simp add: assms(7))
  ultimately show ?thesis using sl ne len c' assms(1)
    by (auto simp: run_l1_round_def Let_def l1_batch_process_def simp flip: flat_def l1_cursor_def)
qed

lemma extract_group_failed:
  assumes "\<And>i ms scene. pt_ask p i ms scene = Inl (err i)"
  shows "lp_state (fold (extract_group p cfg key previous) gs w) = lp_state w \<and> lp_stored (fold (extract_group p cfg key previous) gs w) = lp_stored w"
proof (induction gs arbitrary: w)
  case (Cons g gs)
  have "lp_state (extract_group p cfg key previous g w) = lp_state w \<and> lp_stored (extract_group p cfg key previous g w) = lp_stored w"
    using assms by (simp add: extract_group_def extract_l1_memories_def no_extraction_def Let_def split: prod.split)
  then show ?case using Cons by simp
qed simp

text \<open>
  C22: a failed extraction is not repeated. When the model fails on every group of a round, the round ends like any other: nothing is
  stored, no error reaches the caller, and the messages it processed are not pending any more.
\<close>

theorem failed_extraction_not_repeated:
  assumes "xs_store st = Some s" "\<not> st_degraded s" "session_dated key s" "0 \<le> l1_cursor key c" "no_bursts key s"
    and "run_l1_round True p cfg False new_id now file_lines key (c, st) = (res, c', st')" "pending key (l1_cursor key c) s \<noteq> []"
    and "\<And>i ms scene. pt_ask p i ms scene = Inl (err i)"
  shows "st' = st \<and> lr_stored res = 0 \<and> 0 < lr_processed res
    \<and> length (pending key (l1_cursor key c') s) + lr_processed res = length (pending key (l1_cursor key c) s)"
proof -
  let ?flat = "queried_messages False new_id now file_lines key (l1_cursor key c) (xs_store st)"
  note a = round_advances [OF assms(1-7)]
  have ne: "?flat \<noteq> []" using a(3) round_idle(2) by blast
  let ?run = "run_l1_round True p cfg False new_id now file_lines key (c, st)"
  have "snd (snd ?run) = st" "lr_stored (fst ?run) = 0" "lr_processed (fst ?run) = length (aligned_slice 10 ?flat)"
    using ne extract_group_failed [of p, OF assms(8)] by (simp_all add: run_l1_round_def Let_def l1_batch_process_def flip: l1_cursor_def)
  then have r: "st' = st" "lr_stored res = 0" "lr_processed res = length (aligned_slice 10 ?flat)" by (simp_all add: assms(6))
  have n: "length (round_messages False new_id now file_lines key (c, st)) = length (aligned_slice 10 ?flat)"
    using mset_eq_length [OF mset_regroup] by (simp add: round_messages_def l1_batch_process_def)
  have "length (pending key (l1_cursor key c) s) = length (round_messages False new_id now file_lines key (c, st)) + length (pending key (l1_cursor key c') s)"
    using arg_cong [OF a(1), of size] by simp
  moreover have "0 < length (round_messages False new_id now file_lines key (c, st))" using a(3) by simp
  ultimately show ?thesis using r n by simp
qed

text \<open>
  old messages of a long slice are ignored. The extraction shows the model the last ten messages and five before them: with
  fifteen messages that qualify, whatever comes before them changes nothing, though the slice of a round can have nineteen of one group.
\<close>

theorem older_messages_ignored:
  assumes "opts = round_options cfg scene" "15 \<le> length (filter (\<lambda>m. should_extract_l1 (lm_content m)) messages)"
  shows "extract_l1_memories e ask judge opts c (older @ messages) st = extract_l1_memories e ask judge opts c messages st"
proof -
  have "split_messages opts (xs @ ys) = split_messages opts ys" if "15 \<le> length ys" for xs ys :: "l0_message list"
    using that assms(1) by (simp add: split_messages_def slice_last_def round_options_def Let_def drop_append [of _ xs])
  then show ?thesis using assms(2) by (auto simp: extract_l1_memories_def Let_def)
qed

section \<open>Concrete rounds\<close>

definition silent_parties :: "int l1_parties" where
  "silent_parties = \<lparr>pt_env = (\<lambda>i. silent_env), pt_ask = (\<lambda>i ms scene. Inl ''timeout''), pt_judge = (\<lambda>i cs. Inl ''timeout'')\<rparr>"

definition demo_config :: l1_config where
  "demo_config = \<lparr>lc_dedup = True, lc_max_memories = 10, lc_top_k = 5\<rparr>"

lemma few_no_bursts: "length (st_l0 s) \<le> 10 \<Longrightarrow> no_bursts key s"
  unfolding no_bursts_def using le_trans [OF length_filter_le] by blast


theorem failed_extraction_not_repeated_witness:
  "\<exists>res c' st'. run_l1_round True silent_parties demo_config False (\<lambda>i. ''x'') 0 [] ''s'' (default_checkpoint, with_store demo_store) = (res, c', st')
     \<and> lr_stored res = 0 \<and> 0 < lr_processed res \<and> st' = with_store demo_store"
proof -
  let ?run = "run_l1_round True silent_parties demo_config False (\<lambda>i. ''x'') 0 [] ''s'' (default_checkpoint, with_store demo_store)"
  obtain res c' st' where r: "?run = (res, c', st')" by (metis prod_cases3)
  have h: "\<not> st_degraded demo_store" "session_dated ''s'' demo_store" "0 \<le> l1_cursor ''s'' default_checkpoint" "length (st_l0 demo_store) \<le> 10"
    "pending ''s'' (l1_cursor ''s'' default_checkpoint) demo_store \<noteq> []"
    by code_simp+
  have x: "xs_store (with_store demo_store) = Some demo_store" by (simp add: with_store_def)
  have "\<And>i ms scene. pt_ask silent_parties i ms scene = Inl ''timeout''" by (simp add: silent_parties_def)
  from failed_extraction_not_repeated [OF x h(1-3) few_no_bursts [OF h(4)] r h(5) this] show ?thesis using r by blast
qed

definition burst_store :: "int memory_store" where
  "burst_store = fold (\<lambda>i s. snd (upsert_l0 db_ok (demo_l0 [char_of i] ''s'' 7) None s)) [0..<(21::nat)] empty_store"

theorem burst_extracted_in_part_witness:
  "\<exists>res c' st'. run_l1_round True silent_parties demo_config False (\<lambda>i. ''x'') 0 [] ''s'' (default_checkpoint, with_store burst_store) = (res, c', st')
     \<and> lr_processed res = 20 \<and> pending ''s'' (l1_cursor ''s'' c') burst_store = [] \<and> length (pending ''s'' 0 burst_store) = 21"
proof -
  let ?run = "run_l1_round True silent_parties demo_config False (\<lambda>i. ''x'') 0 [] ''s'' (default_checkpoint, with_store burst_store)"
  obtain res c' st' where r: "?run = (res, c', st')" by (metis prod_cases3)
  have h: "\<not> st_degraded burst_store" "session_dated ''s'' burst_store" "0 \<le> l1_cursor ''s'' default_checkpoint"
    "l1_cursor ''s'' default_checkpoint = 0" "length (pending ''s'' 0 burst_store) = 21" "list_all (\<lambda>r. l0_recorded r = 7) (pending ''s'' 0 burst_store)"
    by code_simp+
  have x: "xs_store (with_store burst_store) = Some burst_store" by (simp add: with_store_def)
  have "lr_processed res = 20 \<and> pending ''s'' (l1_cursor ''s'' c') burst_store = []"
    using burst_extracted_in_part [OF x h(1-3) _ _ r] h(4-6) by simp
  then show ?thesis using r h(5) by blast
qed

theorem older_messages_ignored_witness:
  "\<exists>messages. length messages = 15 \<and> extract_l1_memories silent_env (\<lambda>ms scene. Inr ''[]'') (\<lambda>cs. Inr ''[]'') (round_options demo_config None) (demo_scope ''s'')
       (\<lparr>lm_id = ''old'', lm_role = ''user'', lm_content = ''My name is Ann.'', lm_time = 1, lm_recorded = 1\<rparr> # messages) (with_store demo_store)
     = extract_l1_memories silent_env (\<lambda>ms scene. Inr ''[]'') (\<lambda>cs. Inr ''[]'') (round_options demo_config None) (demo_scope ''s'') messages (with_store demo_store)"
proof (intro exI conjI)
  let ?old = "\<lparr>lm_id = ''old'', lm_role = ''user'', lm_content = ''My name is Ann.'', lm_time = 1, lm_recorded = 1\<rparr>"
  let ?ms = "replicate 15 \<lparr>lm_id = ''m'', lm_role = ''user'', lm_content = ''I like tea.'', lm_time = 2, lm_recorded = 1\<rparr>"
  show "length ?ms = 15" by simp
  have units: "utf16 ''I like tea.'' = [73, 32, 108, 105, 107, 101, 32, 116, 101, 97, 46]" by code_simp
  have ok: "should_extract_l1 ''I like tea.''"
    by (simp add: should_extract_l1_def should_capture_l0_def is_framework_noise_def units trim_units_def space_unit_def Let_def)
  have "filter (\<lambda>m. should_extract_l1 (lm_content m)) ?ms = ?ms" using ok by (simp add: filter_id_conv)
  then have "15 \<le> length (filter (\<lambda>m. should_extract_l1 (lm_content m)) ?ms)" by (simp only: length_replicate)
  then show "extract_l1_memories silent_env (\<lambda>ms scene. Inr ''[]'') (\<lambda>cs. Inr ''[]'') (round_options demo_config None) (demo_scope ''s'') (?old # ?ms) (with_store demo_store)
     = extract_l1_memories silent_env (\<lambda>ms scene. Inr ''[]'') (\<lambda>cs. Inr ''[]'') (round_options demo_config None) (demo_scope ''s'') ?ms (with_store demo_store)"
    by (rule older_messages_ignored [OF refl, where older = "[?old]", unfolded append_Cons append_Nil])
qed

end
