(* ===== verification/Spec2Isabelle.thy ===== *)
theory Spec2Isabelle
  imports Pipeline_Properties State_Backend Permit_Pool Session_Filter Skill_System Timer_Member Iso_Time
    Worker_Properties Pipeline_Service Checkpoint_Lock Sanitize Store_Properties
    Search_Api Deferred_Embedding L1_Cursor
begin

text \<open>
  A verification library for MemoryCore, the memory service of this repository. It covers the
  parts that decide when work happens and that no work is lost: the L1/L2/L3 memory pipeline of
  one process, its building blocks and local state backend, the stateful form of that pipeline
  with its worker, timers and gateway glue, the store of messages and memories with its search, request handlers and the
  extraction of memories from messages, and the skill pipeline that buffers conversations, archives them, and extracts skills from them by a pool of workers. Paths below
  are under \<^verbatim>\<open>MemoryCore/src/\<close>.

  \<^bold>\<open>How code becomes definitions.\<close> A class is a record of its fields and one definition per
  method. A JavaScript \<^verbatim>\<open>Map\<close> is an association list without duplicate keys (insertion order
  is kept), a \<^verbatim>\<open>Set\<close> a distinct list. A call that may reject is a function to an error
  message or a value, and a new state (\<open>Io_Monad\<close>); a rejected call keeps the effects it had.
  Strings are byte strings (UTF-8), times are integers in milliseconds. The clock, random ids
  and the outcomes of third parties (LLM runners, extractor, sink, checkpoint persister, Redis
  server, file storage) are arguments. An \<^verbatim>\<open>async\<close> method is cut at its \<^verbatim>\<open>await\<close>s where
  other code can run in between: each piece is one definition, and the pieces are the events of
  a step function (\<open>pl_step\<close>) or of a step relation (\<open>sys_step\<close>). Loops that poll are cut at
  their sleeps, so that one definition is one round; all other loops are structural recursion
  or folds. Two loops run over a list of rounds, one environment for each: \<open>drain_rounds\<close>, which reports whether it came to its end
  (enough rounds are shown to), and \<open>handed_out\<close>, whose number of rounds the property about it bounds. Every definition is total.

  \<^bold>\<open>Theories.\<close>

  \<open>Prelude\<close>: names for the model's types and lemmas on association lists, strings and searches
  in lists. \<open>Io_Monad\<close>: sequencing, \<^verbatim>\<open>try/catch\<close> and \<^verbatim>\<open>Promise.all\<close> of fallible calls.
  \<open>Json_Text\<close>: decimal numbers, JSON text and UTF-8 prefixes as \<^verbatim>\<open>JSON.stringify\<close> and
  \<^verbatim>\<open>Buffer\<close> produce them. \<open>Lock_Service\<close>: expiring locks and a locale for what a lock
  promises.

  \<open>Serial_Queue\<close> (\<^verbatim>\<open>utils/serial-queue.ts\<close>), \<open>Permit_Pool\<close>
  (\<^verbatim>\<open>services/worker-permit-pool.ts\<close>), \<open>Managed_Timer\<close> (\<^verbatim>\<open>utils/managed-timer.ts\<close>) and
  \<open>Session_Filter\<close> (\<^verbatim>\<open>utils/session-filter.ts\<close>): the building blocks, with order, bounds,
  one-task-at-a-time and matching properties.

  \<open>State_Backend\<close> (\<^verbatim>\<open>core/state/local-backend.ts\<close>, \<^verbatim>\<open>core/state/types.ts\<close>): buffers, session
  states, timers, the priority task queue, locks and atomic capture of the local state backend;
  its invariant is kept by every operation, locks are exclusive, and each compound operation is
  characterised.

  \<open>Pipeline_Manager\<close> (\<^verbatim>\<open>utils/pipeline-manager.ts\<close>): the scheduler of the memory pipeline, one
  definition per piece of a handler, and \<open>pl_step\<close> that runs one event. \<open>Pipeline_L1\<close> holds the
  conservation of captured messages (buffered, in an extraction, delivered, or given up after
  the retries) and the one-L1-task-per-session discipline; \<open>Pipeline_L2\<close> the rate limit of the
  second stage; \<open>Pipeline_L3\<close> that a trigger is never forgotten. \<open>Pipeline_Properties\<close> states
  the properties over runs of events.

  \<open>Uri_Text\<close> and \<open>Iso_Time\<close>: \<^verbatim>\<open>encodeURIComponent\<close>, \<^verbatim>\<open>decodeURIComponent\<close> and
  \<^verbatim>\<open>toISOString\<close> with \<^verbatim>\<open>Date.parse\<close> of its output, each with its round trip.
  \<open>Timer_Member\<close> (\<^verbatim>\<open>core/state/timer-member.ts\<close>): the names of timers, which determine the
  session, team and agent of the task a timer starts.
  \<open>Stateful_Pipeline\<close> (\<^verbatim>\<open>utils/stateful-pipeline-manager.ts\<close>): the scheduler that keeps its
  sessions, timers and tasks in the state backend; with the default instance it triggers as the
  standalone scheduler does, with any other the warm-up is lost.
  \<open>Pipeline_Worker\<close> (\<^verbatim>\<open>services/pipeline-worker.ts\<close>): the consumers of the task queue. A
  coroutine is a phase, and \<open>worker_step\<close> moves one coroutine from one wait to the next.
  \<open>Worker_Exclusion\<close> holds the invariant that the coroutines hold pairwise different locks of
  their worker, \<open>Worker_Tasks\<close> that a task is queued, in the hands of a coroutine, or settled,
  and \<open>Worker_Properties\<close> states the properties over runs. The callbacks into the scheduler are
  the locale \<open>stage_hook\<close>, interpreted on the two callbacks that the gateway installs.
  \<open>Pipeline_Service\<close> (\<^verbatim>\<open>gateway/server.ts\<close>, \<^verbatim>\<open>services/timer-scanner.ts\<close>,
  \<^verbatim>\<open>core/tdai-core.ts\<close>): tasks from timers, the executors around the extraction, session end
  and the wiring; its properties follow a session through scheduler, worker and timers.

  \<open>Checkpoint\<close> and \<open>Checkpoint_Lock\<close> (\<^verbatim>\<open>utils/checkpoint.ts\<close>): the progress record with its file
  format and migration, what every method does to it (the extraction cursor only rises; runners
  and pipeline own different parts), and the two locks around read, change and write for any
  number of calls in any number of processes (\<open>cp_step\<close>). The promise chain of \<^verbatim>\<open>withFileLock\<close> is
  refined to a queue, the distributed lock is the locale \<open>checkpoint_lock\<close> over \<open>lock_service\<close>,
  interpreted on the local backend. \<open>Sanitize\<close> (\<^verbatim>\<open>utils/sanitize.ts\<close>): the filters of messages
  on UTF-16 units, the repair of JSON text and the escaping of boundary tags.

  \<open>Isolation\<close> (\<^verbatim>\<open>core/store/isolation.ts\<close>, with the isolation fields of a request and the names
  of profile scopes): who owns a row and which rows a filter admits. \<open>Memory_Store\<close> and
  \<open>Memory_Atoms\<close> (\<^verbatim>\<open>core/store/sqlite.ts\<close>): the tables of messages and of memories, with their
  vectors, full-text entries and embedding jobs, and every operation on them; a statement that
  throws rolls its transaction back. \<open>Store_Properties\<close>: the tables fit together after any calls,
  searches and deletions stay in their filter, clearing an agent removes exactly its rows, and the
  pages of a query make up its answer. \<open>Deferred_Embedding\<close> (\<^verbatim>\<open>core/store/deferred-l0-embedding.ts\<close>): the
  rounds that embed waiting messages, which end whatever the embedding service answers.

  \<open>Hybrid_Search\<close> (\<^verbatim>\<open>core/tools/memory-search.ts\<close>, \<^verbatim>\<open>conversation-search.ts\<close>): keyword and vector search and
  their fusion by rank. The store that a search calls is the locale \<open>filtered_search\<close>, interpreted on the messages and on
  the memories of the SQLite store. \<open>Memory_Api\<close> and \<open>Search_Api\<close> (\<^verbatim>\<open>gateway/v2-router.ts\<close>, \<^verbatim>\<open>v2-schemas.ts\<close>): the
  request handlers; adding with a key happens once, what is added is found by its sender, what is deleted is not found,
  answers are the caller's own, and an update reads the wrong memory.
  \<open>L1_Records\<close> (\<^verbatim>\<open>core/record/\<close>): the extraction of memories from messages, their comparison with old ones, and the
  writes. \<open>L1_Properties\<close>: stored memories have a valid type whatever the model answers, and what a failing write or a merge across
  sessions leaves behind. \<open>L1_Runner\<close> (\<^verbatim>\<open>createL1Runner\<close> of \<^verbatim>\<open>utils/pipeline-factory.ts\<close>, with the files of
  \<^verbatim>\<open>core/conversation/l0-recorder.ts\<close>): one round of extraction. \<open>L1_Cursor\<close>: a round takes the messages between the old
  and the new cursor, enough rounds take each message once, and the cases in which a message is passed over.

  \<open>Agent_Schedule\<close>: the contract of the agent queue as a locale (what enqueueing, peeking,
  requeueing and removing do to the known agents and the service order; nothing known is
  unlisted; peeking is a round robin). \<open>Agent_Queue\<close> and \<open>Redis_Queue\<close>
  (\<^verbatim>\<open>core/skill/conversation-add/agent-task-queue.ts\<close>) model the in-process and the Redis
  implementation and interpret the locale; the Redis client is a record of commands with their
  documented effect as hypotheses, shown to hold of an in-memory server.
  \<open>Skill_Message\<close> (\<^verbatim>\<open>message-compressor.ts\<close>, \<^verbatim>\<open>oversize-strategy.ts\<close>,
  \<^verbatim>\<open>prepare-archive.ts\<close>), \<open>Skill_Buffer\<close> (\<^verbatim>\<open>buffer-storage.ts\<close>, over a storage whose every
  call may fail), \<open>Skill_Queue\<close> (the queue interface, its locale and the mutex),
  \<open>Skill_Trigger\<close> (\<^verbatim>\<open>trigger-service.ts\<close>), \<open>Skill_Add\<close> (\<^verbatim>\<open>add-handler.ts\<close>),
  \<open>Extract_Worker\<close> (\<^verbatim>\<open>extract-worker.ts\<close>) and \<open>Worker_Pool\<close> (\<^verbatim>\<open>worker-pool.ts\<close>) follow a
  conversation from the request to its extraction. \<open>Skill_System\<close> lets all of them act on one
  storage and one queue: \<open>sys_step\<close> is one critical section or one atomic call, the operations
  are runs of such steps, and a task file with tasks always has a queued agent.

  \<^bold>\<open>What is assumed.\<close> A critical section under the tasks mutex is one step of \<open>Skill_System\<close>:
  it ends before the time-to-live of the mutex. \<open>Skill_System\<close> runs the in-process queue, whose
  consumers peek; \<^verbatim>\<open>dequeueAgent\<close> is modelled, but its waiters are excluded by the queue's
  invariant. In the worker, calls of the local backend resolve in microtasks, so that a coroutine
  runs from one wait (a task, a permit, a sleep, the executor) to the next as one step with one
  reading of the clock. The exclusion of the worker's tasks assumes that renewals come in time
  (\<open>timely_run\<close>); what happens otherwise is a property of its own.
  Checkpoint documents have the types of their fields, and the serialisation of their updates
  assumes that renewals come in time and reads succeed (\<open>smooth_run\<close>). The string operations agree with JavaScript on ASCII.
  The nearest neighbours of \<^verbatim>\<open>sqlite-vec\<close> and the matches of \<^verbatim>\<open>FTS5\<close> are arguments; deletions from
  the full-text index succeed where a property says so (\<open>fts_reliable\<close>). Scores of a search are exact rationals. The answers of the
  language model, \<^verbatim>\<open>JSON.parse\<close>, embeddings and SHA-256 are arguments. Messages have positive times of storage (\<open>session_dated\<close>).

  \<^bold>\<open>Not modelled.\<close> Logging and observability; sleeps; the renewal timer of the extract lock and
  the stand-alone loop of the extract worker; the sharing of a running probe between concurrent
  peeks (\<^verbatim>\<open>probePromise\<close>); the acknowledgement and recovery of pending messages and the claims
  of timer shards, which only the Redis state backend has (the scanner's claims are arguments); the
  callback for dead letters; the identity of JavaScript objects across an \<^verbatim>\<open>await\<close> (a session
  evicted between the two halves of one of its notifications); the HTTP side of the gateway, its handlers for scenarios, core memory
  and entities, audit entries, quota reports and generation logs; the schema and
  migrations of the SQL store, the vector-database store, the LLM prompts and runners, the recall hooks, profile, persona and scene files, the metadata service
  and the offload subsystem, which are mostly requests to other systems.
\<close>

end
